(* ===== verification/Prelude.thy ===== *)
theory Prelude
  imports Main
begin

text \<open>
  What every component of the gateway model shares: Go's time values, the
  "keep the newest entries" and "prune the expired prefix" patterns the code
  uses for its bounded histories, generic facts on lists and maps, and the
  locale of invariants of transition systems.

  \<^bold>\<open>Time.\<close> A Go \<^verbatim>\<open>time.Time\<close> is the instant it denotes, in nanoseconds since the
  Unix epoch, as an \<open>int\<close>. The zero \<^verbatim>\<open>time.Time\<close> is 1 January of year 1, UTC,
  so \<^verbatim>\<open>t.IsZero()\<close> is an equation and a deadline left zero is in the past of
  every instant the process can see. A \<^verbatim>\<open>time.Duration\<close> is an \<open>int\<close> number of
  nanoseconds; \<^verbatim>\<open>Time.Sub\<close> saturates at the ends of \<^verbatim>\<open>int64\<close>, which the code
  relies on when it subtracts a zero instant. \<^verbatim>\<open>time.Now()\<close> is an argument
  \<open>now\<close> of each operation: one critical section reads one instant.
\<close>

section \<open>Collections of facts\<close>

named_theorems time_simps \<open>unfold the time operations\<close>
named_theorems step_intros \<open>one step keeps the invariant\<close>

section \<open>Go time values\<close>

type_synonym go_time = int
type_synonym duration = int

abbreviation (input) nanosecond :: duration where "nanosecond \<equiv> 1"
abbreviation millisecond :: duration where "millisecond \<equiv> 1000000"
abbreviation second :: duration where "second \<equiv> 1000000000"
abbreviation minute :: duration where "minute \<equiv> 60000000000"
abbreviation hour :: duration where "hour \<equiv> 3600000000000"

definition zero_time :: go_time where
  "zero_time = - 62135596800000000000"

definition is_zero :: "go_time \<Rightarrow> bool" where
  "is_zero t \<longleftrightarrow> t = zero_time"

definition before :: "go_time \<Rightarrow> go_time \<Rightarrow> bool" where
  "before t u \<longleftrightarrow> t < u"

definition after :: "go_time \<Rightarrow> go_time \<Rightarrow> bool" where
  "after t u \<longleftrightarrow> u < t"

definition max_duration :: duration where
  "max_duration = 9223372036854775807"

definition min_duration :: duration where
  "min_duration = - 9223372036854775808"

text \<open>\<^verbatim>\<open>t.Sub(u)\<close>: the difference, clamped to what an \<^verbatim>\<open>int64\<close> holds.\<close>

definition time_sub :: "go_time \<Rightarrow> go_time \<Rightarrow> duration" where
  "time_sub t u = max min_duration (min max_duration (t - u))"

text \<open>\<^verbatim>\<open>t.UnixMilli()\<close> rounds towards minus infinity.\<close>

definition unix_milli :: "go_time \<Rightarrow> int" where
  "unix_milli t = t div millisecond"

declare is_zero_def [time_simps] before_def [time_simps] after_def [time_simps]

lemma is_zero_zero [simp]: "is_zero zero_time"
  by (simp add: is_zero_def)

lemma time_sub_exact:
  "min_duration \<le> t - u \<Longrightarrow> t - u \<le> max_duration \<Longrightarrow> time_sub t u = t - u"
  by (simp add: time_sub_def)

lemma time_sub_ge: "d \<le> t - u \<Longrightarrow> d \<le> max_duration \<Longrightarrow> d \<le> time_sub t u"
  by (simp add: time_sub_def)

lemma time_sub_lt_iff:
  "min_duration < d \<Longrightarrow> d \<le> max_duration \<Longrightarrow> time_sub t u < d \<longleftrightarrow> t - u < d"
  by (auto simp: time_sub_def)

lemma time_sub_ge_iff:
  "min_duration < d \<Longrightarrow> d \<le> max_duration \<Longrightarrow> d \<le> time_sub t u \<longleftrightarrow> d \<le> t - u"
  by (auto simp: time_sub_def)

section \<open>Bounded lists\<close>

text \<open>\<^verbatim>\<open>xs[len(xs)-n:]\<close> when the list is longer than \<open>n\<close>: the newest \<open>n\<close> entries.\<close>

definition take_last :: "nat \<Rightarrow> 'a list \<Rightarrow> 'a list" where
  "take_last n xs = drop (length xs - n) xs"

lemma length_take_last [simp]: "length (take_last n xs) = min n (length xs)"
  by (simp add: take_last_def)

lemma take_last_short [simp]: "length xs \<le> n \<Longrightarrow> take_last n xs = xs"
  by (simp add: take_last_def)

lemma take_last_snoc:
  "take_last n (take_last n xs @ [x]) = take_last n (xs @ [x])"
  by (cases "length xs \<le> n") (auto simp: take_last_def Suc_diff_le)

lemma set_take_last: "set (take_last n xs) \<subseteq> set xs"
  by (simp add: take_last_def set_drop_subset)

lemma take_last_nth:
  "i < n \<Longrightarrow> n \<le> length xs \<Longrightarrow> take_last n xs ! i = xs ! (length xs - n + i)"
  by (simp add: take_last_def)

text \<open>Dropping the leading entries that fail a test, as the code's \<^verbatim>\<open>first++\<close> loops do.\<close>

lemma dropWhile_sorted_filter:
  assumes "sorted_wrt (\<le>) (map f xs)"
  shows "dropWhile (\<lambda>x. f x < (c::int)) xs = filter (\<lambda>x. \<not> f x < c) xs"
  using assms
proof (induction xs)
  case Nil
  then show ?case by simp
next
  case (Cons x xs)
  show ?case
  proof (cases "f x < c")
    case True
    with Cons show ?thesis by simp
  next
    case False
    with Cons.prems have "\<forall>y \<in> set xs. \<not> f y < c" by auto
    then have "filter (\<lambda>x. \<not> f x < c) xs = xs" by (simp add: filter_id_conv)
    with False show ?thesis by simp
  qed
qed

lemma sorted_wrt_dropWhile: "sorted_wrt P xs \<Longrightarrow> sorted_wrt P (dropWhile Q xs)"
  by (metis sorted_wrt_drop dropWhile_eq_drop)

lemma sorted_last: "sorted (map f xs) \<Longrightarrow> x \<in> set xs \<Longrightarrow> f x \<le> f (last xs)"
  by (induction xs) auto

lemma distinct_snoc [simp]: "distinct (xs @ [x]) \<longleftrightarrow> distinct xs \<and> x \<notin> set xs"
  by auto

section \<open>Counting\<close>

definition count_if :: "('a \<Rightarrow> bool) \<Rightarrow> 'a list \<Rightarrow> int" where
  "count_if P xs = int (length (filter P xs))"

lemma count_if_Nil [simp]: "count_if P [] = 0"
  by (simp add: count_if_def)

lemma count_if_Cons [simp]: "count_if P (x # xs) = (if P x then 1 else 0) + count_if P xs"
  by (simp add: count_if_def)

lemma count_if_append [simp]: "count_if P (xs @ ys) = count_if P xs + count_if P ys"
  by (simp add: count_if_def)

lemma count_if_nonneg: "0 \<le> count_if P xs"
  by (simp add: count_if_def)

lemma count_if_update:
  "i < length xs \<Longrightarrow>
     count_if P (xs[i := y]) = count_if P xs - (if P (xs ! i) then 1 else 0) + (if P y then 1 else 0)"
  by (induction xs arbitrary: i) (auto split: nat.split)

lemma count_if_pos: "x \<in> set xs \<Longrightarrow> P x \<Longrightarrow> 0 < count_if P xs"
  by (induction xs) (auto simp: count_if_nonneg add_pos_nonneg)

lemma count_if_mono: "(\<And>x. x \<in> set xs \<Longrightarrow> P x \<Longrightarrow> Q x) \<Longrightarrow> count_if P xs \<le> count_if Q xs"
  by (induction xs) force+

lemma count_if_map: "count_if P (map f xs) = count_if (\<lambda>x. P (f x)) xs"
  by (simp add: count_if_def filter_map comp_def)

lemma sum_filter_mono:
  "(\<And>x. x \<in> set xs \<Longrightarrow> P x \<Longrightarrow> Q x) \<Longrightarrow> (\<And>x. x \<in> set xs \<Longrightarrow> (0::int) \<le> f x) \<Longrightarrow>
     sum_list (map f (filter P xs)) \<le> sum_list (map f (filter Q xs))"
  by (induction xs) (force intro: add_increasing)+

text \<open>The indices below \<open>n\<close> that satisfy a test, in ascending order, when the test changes
  at one index.\<close>

lemma filter_upt_remove:
  "(\<And>x. x < n \<Longrightarrow> Q x \<longleftrightarrow> P x \<and> x \<noteq> w) \<Longrightarrow> filter Q [0..<n] = remove1 w (filter P [0..<n])"
  by (subst distinct_remove1_removeAll, simp)
    (auto simp: removeAll_filter_not_eq intro: filter_cong)

lemma filter_upt_same:
  "(\<And>x. x < n \<Longrightarrow> Q x \<longleftrightarrow> P x) \<Longrightarrow> filter Q [0..<n] = filter P [0..<n]"
  by (rule filter_cong) auto

section \<open>Transition systems and their invariants\<close>

text \<open>
  A concurrent component is a state type and a step relation, one rule per
  critical section of the code. The reachable states are the least set that
  holds the initial states and is closed under steps.
\<close>

inductive reach :: "('s \<Rightarrow> bool) \<Rightarrow> ('s \<Rightarrow> 's \<Rightarrow> bool) \<Rightarrow> 's \<Rightarrow> bool"
  for start step where
  reach_start [intro]: "start s \<Longrightarrow> reach start step s"
| reach_step: "reach start step s \<Longrightarrow> step s t \<Longrightarrow> reach start step t"

locale invariant_system =
  fixes start :: "'s \<Rightarrow> bool"
    and step :: "'s \<Rightarrow> 's \<Rightarrow> bool"
    and inv :: "'s \<Rightarrow> bool"
  assumes inv_start: "start s \<Longrightarrow> inv s"
    and inv_step: "inv s \<Longrightarrow> step s t \<Longrightarrow> inv t"
begin

lemma reach_inv: "reach start step s \<Longrightarrow> inv s"
  by (induction rule: reach.induct) (auto intro: inv_start inv_step)

lemma run_inv: "inv s \<Longrightarrow> step\<^sup>*\<^sup>* s t \<Longrightarrow> inv t"
  by (rotate_tac, induction rule: rtranclp_induct) (auto intro: inv_step)

end

section \<open>Bounded histories\<close>

text \<open>
  A history that keeps its newest \<open>cap\<close> entries: \<open>push\<close> appends an entry and drops the oldest
  ones. The contract is shared by the step list of a run and the log ring.
\<close>

locale keep_newest =
  fixes ok :: "'s \<Rightarrow> bool"
    and entries :: "'s \<Rightarrow> 'a list"
    and push :: "'x \<Rightarrow> 's \<Rightarrow> 's"
    and entry :: "'x \<Rightarrow> 'a"
    and cap :: nat
  assumes push_ok: "ok s \<Longrightarrow> ok (push x s)"
    and push_entries: "ok s \<Longrightarrow> entries (push x s) = take_last cap (entries s @ [entry x])"
begin

lemma fold_ok: "ok s \<Longrightarrow> ok (fold push xs s)"
  by (induction xs arbitrary: s) (auto intro: push_ok)

lemma fold_entries:
  "ok s \<Longrightarrow> length (entries s) \<le> cap \<Longrightarrow> entries (fold push xs s) = take_last cap (entries s @ map entry xs)"
proof (induction xs rule: rev_induct)
  case Nil
  then show ?case by simp
next
  case (snoc x xs)
  then have "entries (fold push (xs @ [x]) s) = take_last cap (take_last cap (entries s @ map entry xs) @ [entry x])"
    by (simp add: push_entries fold_ok)
  then show ?case by (simp add: take_last_snoc)
qed

lemma fold_bounded: "ok s \<Longrightarrow> length (entries s) \<le> cap \<Longrightarrow> length (entries (fold push xs s)) \<le> cap"
  by (simp add: fold_entries)

end

section \<open>Rolling windows\<close>

text \<open>
  A history of timed entries from which every note at \<open>now\<close> drops what is older than \<open>w\<close>; notes
  that are not \<open>good\<close> are ignored. While the clock does not run backwards the history is exactly
  what the window holds.
\<close>

lemma sorted_stamps:
  assumes "\<And>e. stamp (entry e) = fst e" "sorted (map fst es)"
  shows "sorted (map stamp (filter P (map entry (filter Q es))))"
proof -
  have "sorted (map stamp (map entry es))" using assms by (simp add: comp_def)
  then show ?thesis unfolding sorted_map by (simp add: sorted_wrt_map sorted_wrt_filter)
qed

locale rolling_window =
  fixes hist :: "'s \<Rightarrow> 'a list"
    and stamp :: "'a \<Rightarrow> int"
    and jot :: "int \<times> 'x \<Rightarrow> 's \<Rightarrow> 's"
    and entry :: "int \<times> 'x \<Rightarrow> 'a"
    and good :: "int \<times> 'x \<Rightarrow> bool"
    and w :: int
  assumes window_nonneg: "0 \<le> w"
    and stamp_entry: "stamp (entry e) = fst e"
    and jot_hist: "good e \<Longrightarrow> sorted (map stamp (hist s)) \<Longrightarrow>
      hist (jot e s) = filter (\<lambda>h. \<not> stamp h < fst e - w) (hist s) @ [entry e]"
    and jot_skip: "\<not> good e \<Longrightarrow> hist (jot e s) = hist s"
begin

lemma fold_hist:
  assumes "hist s = []" "sorted (map fst es)"
  shows "hist (fold jot es s) =
    filter (\<lambda>h. \<not> stamp h < fst (last (filter good es)) - w) (map entry (filter good es))"
  using assms(2)
proof (induction es rule: rev_induct)
  case Nil
  then show ?case using assms(1) by simp
next
  case (snoc e es)
  let ?g = "filter good es"
  have sorted: "sorted (map fst es)" and le: "\<forall>x \<in> set es. fst x \<le> fst e"
    using snoc.prems by (auto simp: sorted_append)
  have IH: "hist (fold jot es s) = filter (\<lambda>h. \<not> stamp h < fst (last ?g) - w) (map entry ?g)"
    using snoc.IH sorted by simp
  show ?case
  proof (cases "good e")
    case False
    then show ?thesis using IH by (simp add: jot_skip)
  next
    case True
    have "sorted (map stamp (hist (fold jot es s)))"
      unfolding IH by (rule sorted_stamps) (simp_all add: stamp_entry sorted)
    then have "hist (fold jot (es @ [e]) s) =
        filter (\<lambda>h. \<not> stamp h < fst e - w) (filter (\<lambda>h. \<not> stamp h < fst (last ?g) - w) (map entry ?g)) @ [entry e]"
      using True by (simp add: jot_hist IH)
    also have "filter (\<lambda>h. \<not> stamp h < fst e - w) (filter (\<lambda>h. \<not> stamp h < fst (last ?g) - w) (map entry ?g)) =
        filter (\<lambda>h. \<not> stamp h < fst e - w) (map entry ?g)"
      unfolding filter_filter
    proof (rule filter_cong[OF refl])
      fix h
      assume "h \<in> set (map entry ?g)"
      then have "?g \<noteq> []" by (cases ?g) auto
      from last_in_set[OF this] have "last ?g \<in> set es" by simp
      with le have "fst (last ?g) \<le> fst e" by simp
      then show "(\<not> stamp h < fst (last ?g) - w \<and> \<not> stamp h < fst e - w) = (\<not> stamp h < fst e - w)" by linarith
    qed
    finally show ?thesis using True window_nonneg by (simp add: stamp_entry)
  qed
qed

lemma fold_sorted:
  assumes "hist s = []" "sorted (map fst es)"
  shows "sorted (map stamp (hist (fold jot es s)))"
  unfolding fold_hist[OF assms] by (rule sorted_stamps) (simp_all add: stamp_entry assms(2))

text \<open>What a reader at a later instant sees in the window.\<close>

lemma fold_seen:
  assumes "hist s = []" "sorted (map fst es)" "\<forall>e \<in> set es. fst e \<le> now"
  shows "filter (\<lambda>h. \<not> stamp h < now - w) (hist (fold jot es s)) =
    filter (\<lambda>h. \<not> stamp h < now - w) (map entry (filter good es))"
  unfolding fold_hist[OF assms(1,2)] filter_filter
proof (rule filter_cong[OF refl])
  fix h
  assume "h \<in> set (map entry (filter good es))"
  then have "filter good es \<noteq> []" by (cases "filter good es") auto
  from last_in_set[OF this] have "last (filter good es) \<in> set es" by simp
  with assms(3) have "fst (last (filter good es)) \<le> now" by simp
  then show "(\<not> stamp h < fst (last (filter good es)) - w \<and> \<not> stamp h < now - w) = (\<not> stamp h < now - w)"
    by linarith
qed

end

end
