(* ===== verification/Civil_Date.thy ===== *)
theory Civil_Date
  imports Prelude
begin

text \<open>
  The part of Go's \<^verbatim>\<open>time\<close> package the gateway's Pacific-day arithmetic uses:
  the proleptic Gregorian calendar (\<^verbatim>\<open>time.Date\<close>, \<^verbatim>\<open>Time.Date\<close>,
  \<^verbatim>\<open>Time.Weekday\<close>, \<^verbatim>\<open>Time.AddDate\<close>) on day numbers counted from 1 January 1970, and
  \<^verbatim>\<open>time.Date\<close> in a time zone given by its offset function. A year is found
  from a day number by a search that starts just below it.
\<close>

section \<open>Years\<close>

definition leap_year :: "int \<Rightarrow> bool" where
  "leap_year y \<longleftrightarrow> (4 dvd y \<and> \<not> 100 dvd y) \<or> 400 dvd y"

definition leaps_before :: "int \<Rightarrow> int" where
  "leaps_before y = (y - 1) div 4 - (y - 1) div 100 + (y - 1) div 400"

text \<open>Day number of 1 January of year \<open>y\<close>.\<close>

definition year_start :: "int \<Rightarrow> int" where
  "year_start y = 365 * (y - 1970) + leaps_before y - leaps_before 1970"

definition year_length :: "int \<Rightarrow> int" where
  "year_length y = (if leap_year y then 366 else 365)"

lemma div_Suc_dvd: "0 < k \<Longrightarrow> y div k = (y - 1) div k + (if k dvd y then 1 else 0)" for k y :: int
proof (cases "k dvd y")
  case True
  assume "0 < k"
  from True obtain q where "y = k * q" ..
  moreover have "(k * q - 1) div k = q - 1"
    by (rule int_div_pos_eq[of _ _ _ "k - 1"]) (use \<open>0 < k\<close> in \<open>simp_all add: right_diff_distrib\<close>)
  ultimately show ?thesis using \<open>0 < k\<close> by simp
next
  case False
  assume "0 < k"
  then have "y = k * (y div k) + y mod k" "0 \<le> y mod k" "y mod k < k" by simp_all
  moreover have "y mod k \<noteq> 0" using False by (simp add: dvd_eq_mod_eq_0)
  ultimately have "(y - 1) div k = y div k"
    by (intro int_div_pos_eq[of _ _ _ "y mod k - 1"]) auto
  then show ?thesis using False by simp
qed

lemma leap_indicator:
  fixes a b c :: int
  assumes "q \<Longrightarrow> p" "r \<Longrightarrow> q"
  shows "(a + (if p then 1 else 0)) - (b + (if q then 1 else 0)) + (c + (if r then 1 else 0)) =
    a - b + c + (if (p \<and> \<not> q) \<or> r then 1 else 0)"
  using assms by auto

lemma leaps_before_Suc: "leaps_before (y + 1) = leaps_before y + (if leap_year y then 1 else 0)"
proof -
  have e: "y div 4 = (y - 1) div 4 + (if 4 dvd y then 1 else 0)"
    "y div 100 = (y - 1) div 100 + (if 100 dvd y then 1 else 0)"
    "y div 400 = (y - 1) div 400 + (if 400 dvd y then 1 else 0)"
    by (rule div_Suc_dvd; simp)+
  have "leaps_before (y + 1) = y div 4 - y div 100 + y div 400"
    by (simp add: leaps_before_def)
  also have "\<dots> = leaps_before y + (if leap_year y then 1 else 0)"
    unfolding e leaps_before_def leap_year_def
    by (rule leap_indicator; (erule dvd_trans[rotated], simp))
  finally show ?thesis .
qed

lemma year_start_Suc: "year_start (y + 1) = year_start y + year_length y"
  by (simp add: year_start_def year_length_def leaps_before_Suc)

lemma year_length_pos: "0 < year_length y"
  by (simp add: year_length_def)

lemma year_start_less_Suc: "year_start y < year_start (y + 1)"
  using year_length_pos[of y] by (simp add: year_start_Suc)

lemma year_start_mono: "x \<le> y \<Longrightarrow> year_start x \<le> year_start y"
proof (induction "nat (y - x)" arbitrary: y)
  case 0
  then show ?case by simp
next
  case (Suc n)
  then have "year_start x \<le> year_start (y - 1)" by simp
  also have "\<dots> < year_start y" using year_start_less_Suc[of "y - 1"] by simp
  finally show ?case by simp
qed

function find_year :: "int \<Rightarrow> int \<Rightarrow> int" where
  "find_year n y = (if year_start (y + 1) \<le> n then find_year n (y + 1) else y)"
  by pat_completeness auto
termination
proof (relation "measure (\<lambda>(n, y). nat (n - year_start y))")
  show "wf (measure (\<lambda>(n, y). nat (n - year_start y)))" by simp
next
  fix n y
  assume "year_start (y + 1) \<le> n"
  then show "((n, y + 1), (n, y)) \<in> measure (\<lambda>(n, y). nat (n - year_start y))"
    using year_start_less_Suc[of y] by simp
qed

declare find_year.simps [simp del]

lemma find_year_spec:
  "year_start y \<le> n \<Longrightarrow>
     year_start (find_year n y) \<le> n \<and> n < year_start (find_year n y + 1)"
proof (induction n y rule: find_year.induct)
  case (1 n y)
  then show ?case by (subst (1 2) find_year.simps) auto
qed

definition year_of :: "int \<Rightarrow> int" where
  "year_of n = find_year n (1969 + (400 * n) div 146097)"

lemma year_of_spec: "year_start (year_of n) \<le> n" "n < year_start (year_of n + 1)"
proof -
  define q where "q = (400 * n) div 146097"
  have "146097 * q \<le> 400 * n" by (simp add: q_def)
  moreover have "4 * ((1968 + q) div 4) \<le> 1968 + q" "400 * ((1968 + q) div 400) \<le> 1968 + q"
    by simp_all
  moreover have "1968 + q < 100 * ((1968 + q) div 100) + 100" by presburger
  ultimately have "year_start (1969 + (400 * n) div 146097) \<le> n"
    unfolding year_start_def leaps_before_def q_def[symmetric] by simp
  then show "year_start (year_of n) \<le> n" "n < year_start (year_of n + 1)"
    using find_year_spec[of "1969 + (400 * n) div 146097" n] unfolding year_of_def by blast+
qed

lemma year_of_unique: "year_start y \<le> n \<Longrightarrow> n < year_start (y + 1) \<Longrightarrow> year_of n = y"
  using year_of_spec[of n] year_start_mono[of "y + 1" "year_of n"]
    year_start_mono[of "year_of n + 1" y] by force

section \<open>Months\<close>

text \<open>Days of year \<open>y\<close> before month \<open>m\<close> (1 to 12; 13 gives the whole year).\<close>

definition month_start :: "int \<Rightarrow> int \<Rightarrow> int" where
  "month_start y m =
     (if m \<le> 1 then 0 else if m = 2 then 31
      else (if leap_year y then 1 else 0) +
        (if m = 3 then 59 else if m = 4 then 90 else if m = 5 then 120 else if m = 6 then 151
         else if m = 7 then 181 else if m = 8 then 212 else if m = 9 then 243
         else if m = 10 then 273 else if m = 11 then 304 else if m = 12 then 334 else 365))"

definition month_of_yday :: "int \<Rightarrow> int \<Rightarrow> int" where
  "month_of_yday y k = int (length (filter (\<lambda>m. month_start y m \<le> k) [1, 2, 3, 4, 5, 6, 7, 8, 9, 10, 11, 12]))"

lemma month_cases:
  "1 \<le> m \<Longrightarrow> m \<le> 12 \<Longrightarrow> m \<in> {1, 2, 3, 4, 5, 6, 7, 8, 9, 10, 11, 12 :: int}"
  unfolding insert_iff empty_iff by presburger

lemma month_of_yday_unique:
  assumes "1 \<le> m" "m \<le> 12" "month_start y m \<le> k" "k < month_start y (m + 1)"
  shows "month_of_yday y k = m"
proof -
  from month_cases[OF assms(1,2)] show ?thesis
    using assms(3,4)
    by (elim insertE emptyE; simp add: month_of_yday_def month_start_def split: if_splits)
qed

lemma month_exists:
  assumes "0 \<le> k" "k < year_length y"
  shows "\<exists>m \<in> {1, 2, 3, 4, 5, 6, 7, 8, 9, 10, 11, 12}. month_start y m \<le> k \<and> k < month_start y (m + 1)"
  using assms by (cases "leap_year y"; simp add: month_start_def year_length_def; presburger)

lemma month_of_yday_spec:
  assumes "0 \<le> k" "k < year_length y"
  shows "1 \<le> month_of_yday y k" "month_of_yday y k \<le> 12"
    "month_start y (month_of_yday y k) \<le> k" "k < month_start y (month_of_yday y k + 1)"
proof -
  obtain m where m: "m \<in> {1, 2, 3, 4, 5, 6, 7, 8, 9, 10, 11, 12}" "month_start y m \<le> k" "k < month_start y (m + 1)"
    using month_exists[OF assms] by blast
  from m(1) have "1 \<le> m" "m \<le> 12" by auto
  with m(2,3) month_of_yday_unique[of m y k]
  show "1 \<le> month_of_yday y k" "month_of_yday y k \<le> 12"
    "month_start y (month_of_yday y k) \<le> k" "k < month_start y (month_of_yday y k + 1)"
    by simp_all
qed

section \<open>Dates\<close>

text \<open>\<^verbatim>\<open>time.Date(y, m, d, ...)\<close>: a month or a day out of range normalises into the next or
  the previous years and months.\<close>

definition day_number :: "int \<Rightarrow> int \<Rightarrow> int \<Rightarrow> int" where
  "day_number y m d =
     (let y' = y + (m - 1) div 12; m' = (m - 1) mod 12 + 1
      in year_start y' + month_start y' m' + (d - 1))"

text \<open>\<^verbatim>\<open>t.Date()\<close>.\<close>

definition civil :: "int \<Rightarrow> int \<times> int \<times> int" where
  "civil n =
     (let y = year_of n; k = n - year_start y; m = month_of_yday y k
      in (y, m, k - month_start y m + 1))"

definition weekday :: "int \<Rightarrow> int" where
  "weekday n = (n + 4) mod 7"

lemma day_number_in_range:
  "1 \<le> m \<Longrightarrow> m \<le> 12 \<Longrightarrow> day_number y m d = year_start y + month_start y m + (d - 1)"
  by (simp add: day_number_def Let_def)

lemma civil_eq:
  assumes "civil n = (y, m, d)"
  shows "y = year_of n" "1 \<le> m" "m \<le> 12" "day_number y m d = n" "1 \<le> d"
    "d \<le> month_start y (m + 1) - month_start y m"
proof -
  define k where "k = n - year_start (year_of n)"
  have k: "0 \<le> k" "k < year_length (year_of n)"
    using year_of_spec[of n] by (simp_all add: k_def year_start_Suc)
  have "y = year_of n" and m: "m = month_of_yday (year_of n) k"
    and d: "d = k - month_start (year_of n) m + 1"
    using assms unfolding civil_def Let_def k_def by blast+
  then show "y = year_of n" "1 \<le> m" "m \<le> 12" "1 \<le> d"
    "d \<le> month_start y (m + 1) - month_start y m"
    using month_of_yday_spec[OF k] by simp_all
  then show "day_number y m d = n"
    using d k_def by (simp add: day_number_in_range)
qed

text \<open>The day number of a date and the date of a day number are inverse to each other.\<close>

lemma day_number_civil: "(case civil n of (y, m, d) \<Rightarrow> day_number y m d) = n"
  by (cases "civil n") (simp add: civil_eq(4))

lemma civil_day_number:
  assumes "1 \<le> m" "m \<le> 12" "1 \<le> d" "d \<le> month_start y (m + 1) - month_start y m"
  shows "civil (day_number y m d) = (y, m, d)"
proof -
  define k where "k = month_start y m + (d - 1)"
  note mem = month_cases[OF assms(1,2)]
  have bounds: "0 \<le> month_start y m" "month_start y (m + 1) \<le> year_length y"
    using mem by (elim insertE emptyE; simp add: month_start_def year_length_def)+
  have n: "day_number y m d = year_start y + k"
    using assms by (simp add: day_number_in_range k_def)
  have k: "0 \<le> k" "k < year_length y" "month_start y m \<le> k" "k < month_start y (m + 1)"
    using assms bounds by (simp_all add: k_def)
  have "year_of (day_number y m d) = y"
    using k n by (intro year_of_unique) (simp_all add: year_start_Suc)
  moreover have "month_of_yday y k = m"
    using assms(1,2) k(3,4) by (rule month_of_yday_unique)
  ultimately show ?thesis
    by (simp add: civil_def Let_def n k_def)
qed

lemma weekday_range: "0 \<le> weekday n" "weekday n < 7"
  by (simp_all add: weekday_def)

section \<open>Instants and zones\<close>

definition day_ns :: duration where
  "day_ns = 86400000000000"

text \<open>The UTC day an instant falls on, and \<^verbatim>\<open>time.Date(y, m, d, 0, 0, 0, 0, time.UTC)\<close>.\<close>

definition utc_day :: "go_time \<Rightarrow> int" where
  "utc_day t = t div day_ns"

definition utc_date :: "int \<Rightarrow> int \<Rightarrow> int \<Rightarrow> go_time" where
  "utc_date y m d = day_number y m d * day_ns"

text \<open>
  A zone is its offset east of UTC at an instant. \<^verbatim>\<open>time.Date\<close> in a zone looks the offset up
  at the wall clock read as UTC, subtracts it, and looks the offset up again at the result.
\<close>

type_synonym zone = "go_time \<Rightarrow> duration"

definition from_local :: "zone \<Rightarrow> go_time \<Rightarrow> go_time" where
  "from_local z l = l - z (l - z l)"

definition to_local :: "zone \<Rightarrow> go_time \<Rightarrow> go_time" where
  "to_local z t = t + z t"

definition local_day :: "zone \<Rightarrow> go_time \<Rightarrow> int" where
  "local_day z t = utc_day (to_local z t)"

definition zone_date :: "zone \<Rightarrow> int \<Rightarrow> int \<Rightarrow> int \<Rightarrow> go_time" where
  "zone_date z y m d = from_local z (utc_date y m d)"

text \<open>
  \<^verbatim>\<open>t.AddDate(0, months, days)\<close>: the wall-clock date steps, the wall clock stays, and the
  zone is resolved again.
\<close>

definition add_date :: "zone \<Rightarrow> go_time \<Rightarrow> int \<Rightarrow> int \<Rightarrow> go_time" where
  "add_date z t months days =
     (case civil (local_day z t) of (y, m, d) \<Rightarrow>
        from_local z (day_number y (m + months) (d + days) * day_ns + to_local z t mod day_ns))"

definition utc :: zone where
  "utc t = 0"

lemma utc_zone [simp]:
  "from_local utc l = l" "to_local utc t = t" "local_day utc t = utc_day t"
  by (simp_all add: from_local_def to_local_def local_day_def utc_def)

lemma utc_day_date [simp]: "utc_day (n * day_ns) = n"
  by (simp add: utc_day_def day_ns_def)

lemma utc_day_bounds: "utc_day t * day_ns \<le> t" "t < (utc_day t + 1) * day_ns"
  by (simp_all add: utc_day_def day_ns_def)

lemma utc_day_eq: "n * day_ns \<le> t \<Longrightarrow> t < (n + 1) * day_ns \<Longrightarrow> utc_day t = n"
  unfolding utc_day_def by (rule int_div_pos_eq[of _ _ _ "t - n * day_ns"]) (simp_all add: distrib_right)

lemma day_number_add_days: "day_number y m (d + k) = day_number y m d + k"
  by (simp add: day_number_def Let_def)

end
