(* ===== verification/Pacific.thy ===== *)
theory Pacific
  imports Civil_Date
begin

text \<open>
  Pacific period boundaries: the calendar helpers of
  \<^verbatim>\<open>backend/internal/pool/spend.go\<close> (\<^verbatim>\<open>bucketStart\<close>, \<^verbatim>\<open>needsRollover\<close>, \<^verbatim>\<open>pacificDayStart\<close>,
  \<^verbatim>\<open>nextPacificMidnight\<close> and the rule-based fallbacks) and \<^verbatim>\<open>NextPacificMidnight\<close> of
  \<^verbatim>\<open>backend/internal/upstream/ratelimit.go\<close>. \<^verbatim>\<open>pacificLoc()\<close> is the argument
  \<open>tz\<close>: \<open>Some z\<close> when \<^verbatim>\<open>time.LoadLocation\<close> found the zone in a tz database,
  \<open>None\<close> when there is none and the code uses the US daylight-saving rule itself.
  \<open>us_zone\<close> is the zone that rule describes; the equivalence lemmas compare the two
  paths on it.
\<close>

section \<open>The US daylight-saving rule\<close>

definition nth_sunday_day :: "int \<Rightarrow> int \<Rightarrow> int \<Rightarrow> int" where
  "nth_sunday_day y m n =
     (let first = day_number y m 1
      in first + ((7 - weekday first) mod 7 + (n - 1) * 7))"

definition nth_sunday :: "int \<Rightarrow> int \<Rightarrow> int \<Rightarrow> go_time" where
  "nth_sunday y m n = nth_sunday_day y m n * day_ns"

definition pacific_offset_at :: "go_time \<Rightarrow> duration" where
  "pacific_offset_at t =
     (let y = year_of (utc_day t);
          spring = nth_sunday y 3 2 + 10 * hour;
          fall = nth_sunday y 11 1 + 9 * hour
      in if \<not> before t spring \<and> before t fall then 7 * hour else 8 * hour)"

definition pacific_offset_at_local_midnight :: "int \<Rightarrow> int \<Rightarrow> int \<Rightarrow> duration" where
  "pacific_offset_at_local_midnight y m d =
     (let spring = nth_sunday y 3 2; fall = nth_sunday y 11 1; date = utc_date y m d
      in if after date spring \<and> before date (fall + day_ns) then 7 * hour else 8 * hour)"

definition pacific_date :: "go_time \<Rightarrow> int \<times> int \<times> int" where
  "pacific_date t = civil (utc_day (t - pacific_offset_at t))"

section \<open>Period boundaries\<close>

definition pacific_day_start :: "zone option \<Rightarrow> go_time \<Rightarrow> go_time" where
  "pacific_day_start tz now =
     (case tz of
        Some z \<Rightarrow> (case civil (local_day z now) of (y, m, d) \<Rightarrow> zone_date z y m d)
      | None \<Rightarrow> (case pacific_date now of (y, m, d) \<Rightarrow>
          utc_date y m d + pacific_offset_at_local_midnight y m d))"

definition next_pacific_midnight :: "zone option \<Rightarrow> go_time \<Rightarrow> go_time" where
  "next_pacific_midnight tz start =
     (case tz of
        Some z \<Rightarrow> add_date z start 0 1
      | None \<Rightarrow> (case civil (utc_day (add_date utc (start - pacific_offset_at start) 0 1)) of
          (y, m, d) \<Rightarrow> utc_date y m d + pacific_offset_at_local_midnight y m d))"

definition fallback_next_boundary :: "go_time \<Rightarrow> int \<Rightarrow> int \<Rightarrow> go_time" where
  "fallback_next_boundary start months days =
     (case civil (utc_day (add_date utc (start - pacific_offset_at start) months days)) of
        (y, m, d) \<Rightarrow> utc_date y m d + pacific_offset_at_local_midnight y m d)"

text \<open>Bucket starts are Unix seconds.\<close>

definition unix :: "go_time \<Rightarrow> int" where
  "unix t = t div second"

definition bucket_start_fallback :: "zone option \<Rightarrow> go_time \<Rightarrow> string \<Rightarrow> int" where
  "bucket_start_fallback tz now period =
     (case pacific_date now of (y, m, d) \<Rightarrow>
       if period = ''week'' then
         (let days_back = (weekday (day_number y m d) + 6) mod 7
          in case civil (utc_day (add_date utc (utc_date y m d) 0 (- days_back))) of
               (my, mm, md) \<Rightarrow>
                 unix (utc_date my mm md + pacific_offset_at_local_midnight my mm md))
       else if period = ''month'' then
         unix (utc_date y m 1 + pacific_offset_at_local_midnight y m 1)
       else unix (pacific_day_start tz now))"

definition bucket_start :: "zone option \<Rightarrow> go_time \<Rightarrow> string \<Rightarrow> int" where
  "bucket_start tz now period =
     (case tz of
        Some z \<Rightarrow>
          (case civil (local_day z now) of (y, m, d) \<Rightarrow>
             if period = ''week'' then
               unix (add_date z (zone_date z y m d) 0 (- ((weekday (local_day z now) + 6) mod 7)))
             else if period = ''month'' then unix (zone_date z y m 1)
             else bucket_start_fallback tz now period)
      | None \<Rightarrow> bucket_start_fallback tz now period)"

definition rollover_end :: "zone option \<Rightarrow> int \<Rightarrow> string \<Rightarrow> go_time" where
  "rollover_end tz start period =
     (let t = start * second in
      if period = ''week'' then
        (case tz of None \<Rightarrow> fallback_next_boundary t 0 7 | Some z \<Rightarrow> add_date z t 0 7)
      else if period = ''month'' then
        (case tz of None \<Rightarrow> fallback_next_boundary t 1 0 | Some z \<Rightarrow> add_date z t 1 0)
      else
        (case tz of None \<Rightarrow> next_pacific_midnight tz t | Some z \<Rightarrow> add_date z t 0 1))"

definition needs_rollover :: "zone option \<Rightarrow> int \<Rightarrow> string \<Rightarrow> go_time \<Rightarrow> bool" where
  "needs_rollover tz start period now \<longleftrightarrow>
     start = 0 \<or> \<not> before now (rollover_end tz start period)"

text \<open>The reset instant a windowless rate-limit refusal falls back to.\<close>

definition pacific_midnight_fallback :: "go_time \<Rightarrow> go_time" where
  "pacific_midnight_fallback now =
     (case civil (utc_day now) of (y, m, d) \<Rightarrow>
       let h = (if m < 3 \<or> m > 11 then 8 else 7);
           t = utc_date y m d + h * hour
       in if \<not> after t now then t + 24 * hour else t)"

definition upstream_next_pacific_midnight :: "zone option \<Rightarrow> go_time \<Rightarrow> go_time" where
  "upstream_next_pacific_midnight tz now =
     (case tz of
        None \<Rightarrow> pacific_midnight_fallback now
      | Some z \<Rightarrow> (case civil (local_day z now) of (y, m, d) \<Rightarrow> zone_date z y m (d + 1)))"

definition us_zone :: zone where
  "us_zone t = - pacific_offset_at t"

section \<open>The offset at an instant of a day\<close>

text \<open>
  Everything below reads the offset through the day an instant falls on. In the year
  of day \<open>n\<close>, daylight time covers the days after the second Sunday of March up to
  the first Sunday of November at local midnight, and the two Sundays split at the
  hour of their transition.
\<close>

definition spring_day :: "int \<Rightarrow> int" where
  "spring_day n = nth_sunday_day (year_of n) 3 2"

definition fall_day :: "int \<Rightarrow> int" where
  "fall_day n = nth_sunday_day (year_of n) 11 1"

definition midnight_offset :: "int \<Rightarrow> duration" where
  "midnight_offset n = (if spring_day n < n \<and> n \<le> fall_day n then 7 * hour else 8 * hour)"

lemma midnight_offset_cases: "midnight_offset n = 7 * hour \<or> midnight_offset n = 8 * hour"
  by (simp add: midnight_offset_def)

lemma nth_sunday_day_bounds:
  "day_number y m 1 + (n - 1) * 7 \<le> nth_sunday_day y m n"
  "nth_sunday_day y m n \<le> day_number y m 1 + (n - 1) * 7 + 6"
proof -
  define k where "k = (7 - weekday (day_number y m 1)) mod 7"
  have "0 \<le> k" "k < 7" unfolding k_def by (rule pos_mod_sign pos_mod_bound; simp)+
  then show "day_number y m 1 + (n - 1) * 7 \<le> nth_sunday_day y m n"
    "nth_sunday_day y m n \<le> day_number y m 1 + (n - 1) * 7 + 6"
    unfolding nth_sunday_day_def Let_def k_def[symmetric] by simp_all
qed

lemma spring_day_bounds:
  "year_start (year_of n) + 66 \<le> spring_day n" "spring_day n \<le> year_start (year_of n) + 73"
  using nth_sunday_day_bounds[where y = "year_of n" and m = 3 and n = 2]
  by (auto simp: spring_day_def day_number_in_range month_start_def split: if_splits)

lemma fall_day_bounds:
  "year_start (year_of n) + 304 \<le> fall_day n" "fall_day n \<le> year_start (year_of n) + 311"
  using nth_sunday_day_bounds[where y = "year_of n" and m = 11 and n = 1]
  by (auto simp: fall_day_def day_number_in_range month_start_def split: if_splits)

lemma day_less_iff:
  assumes "0 \<le> r" "r < day_ns" "0 \<le> c" "c < day_ns"
  shows "n * day_ns + r < k * day_ns + c \<longleftrightarrow> n < k \<or> n = k \<and> r < c"
proof (cases n k rule: linorder_cases)
  case less
  then have "(n + 1) * day_ns \<le> k * day_ns" by (simp add: day_ns_def)
  with assms less show ?thesis by (simp add: distrib_right)
next
  case equal
  then show ?thesis by simp
next
  case greater
  then have "(k + 1) * day_ns \<le> n * day_ns" by (simp add: day_ns_def)
  with assms greater show ?thesis by (simp add: distrib_right)
qed

lemma offset_in_day:
  assumes "0 \<le> r" "r < day_ns"
  shows "pacific_offset_at (n * day_ns + r) =
    (if (spring_day n < n \<or> spring_day n = n \<and> 10 * hour \<le> r) \<and>
        (n < fall_day n \<or> n = fall_day n \<and> r < 9 * hour) then 7 * hour else 8 * hour)"
proof -
  have d: "utc_day (n * day_ns + r) = n"
    using assms by (intro utc_day_eq) (simp_all add: distrib_right)
  have c: "0 \<le> 10 * hour" "10 * hour < day_ns" "0 \<le> 9 * hour" "9 * hour < day_ns"
    by (simp_all add: day_ns_def)
  have "pacific_offset_at (n * day_ns + r) =
    (if \<not> n * day_ns + r < spring_day n * day_ns + 10 * hour \<and>
        n * day_ns + r < fall_day n * day_ns + 9 * hour then 7 * hour else 8 * hour)"
    by (simp add: pacific_offset_at_def d Let_def nth_sunday_def spring_day_def fall_day_def before_def)
  also have "\<dots> = (if \<not> (n < spring_day n \<or> n = spring_day n \<and> r < 10 * hour) \<and>
        (n < fall_day n \<or> n = fall_day n \<and> r < 9 * hour) then 7 * hour else 8 * hour)"
    by (simp only: day_less_iff[OF assms c(1,2)] day_less_iff[OF assms c(3,4)])
  also have "\<dots> = (if (spring_day n < n \<or> spring_day n = n \<and> 10 * hour \<le> r) \<and>
        (n < fall_day n \<or> n = fall_day n \<and> r < 9 * hour) then 7 * hour else 8 * hour)"
    by (rule if_cong) auto
  finally show ?thesis .
qed

lemma offset_near_midnight:
  "0 \<le> r \<Longrightarrow> r < 9 * hour \<Longrightarrow> pacific_offset_at (n * day_ns + r) = midnight_offset n"
  by (subst offset_in_day) (auto simp: midnight_offset_def day_ns_def)

lemma offset_at_midnight_instant:
  "pacific_offset_at (n * day_ns + midnight_offset n) = midnight_offset n"
  using midnight_offset_cases[of n] by (intro offset_near_midnight) auto

lemma local_midnight_offset:
  assumes "year_of (day_number y m d) = y"
  shows "pacific_offset_at_local_midnight y m d = midnight_offset (day_number y m d)"
  using assms
  unfolding pacific_offset_at_local_midnight_def Let_def nth_sunday_def midnight_offset_def
    spring_day_def fall_day_def utc_date_def after_def before_def day_ns_def
  by auto

lemma civil_midnight:
  "(case civil n of (y, m, d) \<Rightarrow> utc_date y m d + pacific_offset_at_local_midnight y m d) =
     n * day_ns + midnight_offset n"
proof (cases "civil n")
  case (fields y m d)
  note c = civil_eq[OF fields]
  have "pacific_offset_at_local_midnight y m d = midnight_offset n"
    using local_midnight_offset[of y m d] unfolding c(4) c(1)[symmetric] by simp
  then show ?thesis using fields by (simp add: utc_date_def c(4))
qed

text \<open>Local midnight, resolved through the zone, is the rule's midnight.\<close>

lemma us_zone_midnight: "from_local us_zone (n * day_ns) = n * day_ns + midnight_offset n"
  using offset_near_midnight[of 0 n] offset_at_midnight_instant[of n]
  by (simp add: from_local_def us_zone_def)

lemma us_zone_local_midnight: "to_local us_zone (n * day_ns + midnight_offset n) = n * day_ns"
  by (simp add: to_local_def us_zone_def offset_at_midnight_instant)

lemma us_zone_date: "zone_date us_zone y m d = day_number y m d * day_ns + midnight_offset (day_number y m d)"
  by (simp add: zone_date_def utc_date_def us_zone_midnight)

lemma us_zone_civil:
  "(case civil n of (y, m, d) \<Rightarrow> zone_date us_zone y m d) = n * day_ns + midnight_offset n"
  by (cases "civil n") (simp add: us_zone_date civil_eq(4))

lemma us_local_day: "local_day us_zone t = utc_day (t - pacific_offset_at t)"
  by (simp add: local_day_def to_local_def us_zone_def)

lemma us_add_date_midnight:
  assumes "civil n = (y, m, d)"
  shows "add_date us_zone (n * day_ns + midnight_offset n) k l =
    day_number y (m + k) (d + l) * day_ns + midnight_offset (day_number y (m + k) (d + l))"
  using assms
  by (simp add: add_date_def local_day_def us_zone_local_midnight us_zone_midnight)

lemma utc_add_date_midnight:
  "civil n = (y, m, d) \<Longrightarrow> add_date utc (n * day_ns) k l = day_number y (m + k) (d + l) * day_ns"
  by (simp add: add_date_def)

text \<open>The Pacific day of an instant, and where the instant lies in it.\<close>

definition pacific_day :: "go_time \<Rightarrow> int" where
  "pacific_day t = utc_day (t - pacific_offset_at t)"

lemma pacific_day_window:
  "pacific_day t * day_ns + midnight_offset (pacific_day t) \<le> t"
  "t < (pacific_day t + 1) * day_ns + midnight_offset (pacific_day t + 1)"
proof -
  define n r where "n = utc_day t" and "r = t - n * day_ns"
  have t: "t = n * day_ns + r" by (simp add: r_def)
  have r: "0 \<le> r" "r < day_ns"
    using utc_day_bounds[of t] by (simp_all add: r_def n_def distrib_right)
  define off where "off = pacific_offset_at t"
  have off: "off = (if (spring_day n < n \<or> spring_day n = n \<and> 10 * hour \<le> r) \<and>
      (n < fall_day n \<or> n = fall_day n \<and> r < 9 * hour) then 7 * hour else 8 * hour)"
    unfolding off_def t by (rule offset_in_day[OF r])
  have yr: "year_start (year_of n) \<le> n" "n < year_start (year_of n) + year_length (year_of n)"
    using year_of_spec[of n] by (simp_all add: year_start_Suc)
  have same: "year_of k = year_of n" if "year_start (year_of n) \<le> k" "k < year_start (year_of n) + 365" for k
    using that by (intro year_of_unique) (simp_all add: year_start_Suc year_length_def)
  have next_day: "midnight_offset (n + 1) = (if spring_day n \<le> n \<and> n < fall_day n then 7 * hour else 8 * hour)"
  proof (cases "year_of (n + 1) = year_of n")
    case True
    then show ?thesis by (auto simp: midnight_offset_def spring_day_def fall_day_def)
  next
    case False
    then have "364 \<le> n - year_start (year_of n)" using same[of "n + 1"] yr(1) by force
    moreover from this have "n + 1 \<ge> year_start (year_of n + 1)"
      using False yr year_of_unique[of "year_of n" "n + 1"] by force
    moreover have "year_start (year_of (n + 1)) = n + 1"
      using False yr(2) calculation(2) year_start_Suc[of "year_of n"] year_of_unique[of "year_of n + 1" "n + 1"]
        year_start_less_Suc[of "year_of n + 1"] by force
    ultimately show ?thesis
      using spring_day_bounds[of "n + 1"] fall_day_bounds[of n]
      by (auto simp: midnight_offset_def)
  qed
  have prev_day: "midnight_offset (n - 1) = (if spring_day n < n - 1 \<and> n - 1 \<le> fall_day n then 7 * hour else 8 * hour)"
  proof (cases "year_of (n - 1) = year_of n")
    case True
    then show ?thesis by (auto simp: midnight_offset_def spring_day_def fall_day_def)
  next
    case False
    have "n = year_start (year_of n)"
    proof (rule ccontr)
      assume "n \<noteq> year_start (year_of n)"
      with yr(1) yr(2) have "year_of (n - 1) = year_of n"
        by (intro year_of_unique) (simp_all add: year_start_Suc)
      with False show False by contradiction
    qed
    then have "year_of (n - 1) = year_of n - 1" "n - 1 = year_start (year_of n - 1) + year_length (year_of n - 1) - 1"
      using year_start_Suc[of "year_of n - 1"] year_length_pos[of "year_of n - 1"]
      by (auto intro!: year_of_unique)
    then show ?thesis
      using fall_day_bounds[of "n - 1"] spring_day_bounds[of n] \<open>n = year_start (year_of n)\<close>
      by (auto simp: midnight_offset_def year_length_def split: if_splits)
  qed
  have pd: "pacific_day t = (if off \<le> r then n else n - 1)"
  proof -
    have "7 * hour \<le> off" "off \<le> 8 * hour" by (simp_all add: off)
    then have "utc_day (n * day_ns + (r - off)) = (if off \<le> r then n else n - 1)"
      using r by (auto intro!: utc_day_eq simp: day_ns_def distrib_right left_diff_distrib)
    moreover have "t - off = n * day_ns + (r - off)" by (simp add: r_def)
    ultimately show ?thesis unfolding pacific_day_def off_def[symmetric] by (simp only:)
  qed
  show "pacific_day t * day_ns + midnight_offset (pacific_day t) \<le> t"
  proof (cases "off \<le> r")
    case True
    then have "midnight_offset n \<le> r"
      using r off by (auto simp: midnight_offset_def split: if_splits)
    with True show ?thesis unfolding pd by (simp add: r_def)
  next
    case False
    with r midnight_offset_cases[of "n - 1"] show ?thesis
      unfolding pd by (auto simp: day_ns_def left_diff_distrib r_def)
  qed
  show "t < (pacific_day t + 1) * day_ns + midnight_offset (pacific_day t + 1)"
  proof (cases "off \<le> r")
    case True
    with r midnight_offset_cases[of "n + 1"] show ?thesis
      unfolding pd by (auto simp: day_ns_def distrib_right r_def)
  next
    case False
    then have "r < midnight_offset n"
      using off by (auto simp: midnight_offset_def split: if_splits)
    with False show ?thesis unfolding pd by (simp add: r_def)
  qed
qed


section \<open>Periods as runs of days\<close>

text \<open>
  The first day of the day, week (Monday) or month that day \<open>n\<close> belongs to, and the first
  day of the next one: what a bucket means on the calendar, without instants or zones.
\<close>

definition period_first :: "string \<Rightarrow> int \<Rightarrow> int" where
  "period_first p n =
     (if p = ''week'' then n - (weekday n + 6) mod 7
      else if p = ''month'' then (case civil n of (y, m, d) \<Rightarrow> day_number y m 1)
      else n)"

definition period_next :: "string \<Rightarrow> int \<Rightarrow> int" where
  "period_next p n =
     (if p = ''week'' then period_first p n + 7
      else if p = ''month'' then (case civil n of (y, m, d) \<Rightarrow> day_number y (m + 1) 1)
      else n + 1)"

definition midnight :: "int \<Rightarrow> go_time" where
  "midnight n = n * day_ns + midnight_offset n"

lemma next_month:
  "1 \<le> m \<Longrightarrow> m \<le> 12 \<Longrightarrow>
     day_number y (m + 1) 1 = day_number y m 1 + (month_start y (m + 1) - month_start y m)"
proof (cases "m = 12")
  case True
  then show ?thesis
    by (simp add: day_number_def year_start_Suc year_length_def month_start_def)
next
  case False
  assume "1 \<le> m" "m \<le> 12"
  with False show ?thesis by (simp add: day_number_in_range)
qed

lemma month_of_day:
  assumes "civil n = (y, m, d)" "day_number y m 1 \<le> k" "k < day_number y (m + 1) 1"
  shows "civil k = (y, m, k - day_number y m 1 + 1)"
proof -
  note c = civil_eq[OF assms(1)]
  have k: "day_number y m (1 + (k - day_number y m 1)) = k"
    by (simp add: day_number_add_days)
  have "civil (day_number y m (1 + (k - day_number y m 1))) = (y, m, 1 + (k - day_number y m 1))"
    using assms(2,3) next_month[OF c(2,3), of y] by (intro civil_day_number c(2,3)) simp_all
  then show ?thesis unfolding k by simp
qed

lemma month_first_le: "civil n = (y, m, d) \<Longrightarrow> day_number y m 1 \<le> n \<and> n < day_number y (m + 1) 1"
  using civil_eq[of n y m d] next_month[of m y] by (auto simp: day_number_in_range)

lemma weekday_mod: "0 \<le> (weekday n + 6) mod 7" "(weekday n + 6) mod 7 < 7"
  by simp_all

lemma same_week:
  "n - (weekday n + 6) mod 7 \<le> k \<Longrightarrow> k < n - (weekday n + 6) mod 7 + 7 \<Longrightarrow>
     k - (weekday k + 6) mod 7 = n - (weekday n + 6) mod 7"
proof -
  have w: "j - (weekday j + 6) mod 7 = (j + 3) div 7 * 7 - 3" for j
  proof -
    have "(weekday j + 6) mod 7 = (j + 3 + 7) mod 7"
      unfolding weekday_def mod_add_left_eq by (simp add: add.commute)
    also have "\<dots> = (j + 3) mod 7" by (rule mod_add_self2)
    finally show ?thesis using minus_mod_eq_div_mult[of "j + 3" 7] by simp
  qed
  assume "n - (weekday n + 6) mod 7 \<le> k" "k < n - (weekday n + 6) mod 7 + 7"
  then have "(k + 3) div 7 = (n + 3) div 7"
    unfolding w by (intro int_div_pos_eq[of _ _ _ "k + 3 - (n + 3) div 7 * 7"]) simp_all
  then show ?thesis unfolding w by simp
qed

lemma period_cases:
  obtains (week) "p = ''week''" | (month) "p = ''month''" | (day) "p \<noteq> ''week''" "p \<noteq> ''month''"
  by blast

lemma period_window: "period_first p n \<le> n" "n < period_next p n"
proof -
  have "period_first p n \<le> n \<and> n < period_next p n"
    using weekday_mod[of n] month_first_le[of n]
    by (cases p rule: period_cases; cases "civil n") (simp_all add: period_first_def period_next_def)
  then show "period_first p n \<le> n" "n < period_next p n" by simp_all
qed

lemma period_first_same:
  "period_first p n \<le> k \<Longrightarrow> k < period_next p n \<Longrightarrow> period_first p k = period_first p n"
  using same_week[of n k] month_of_day[of n _ _ _ k]
  by (cases p rule: period_cases; cases "civil n") (simp_all add: period_first_def period_next_def)

lemma period_next_first: "period_next p (period_first p n) = period_next p n"
proof -
  have "period_first p (period_first p n) = period_first p n"
    by (rule period_first_same) (use period_window[where n = n and p = p] in simp_all)
  moreover have "civil (day_number y m 1) = (y, m, 1)" if "civil n = (y, m, d)" for y m d
    using month_of_day[OF that, of "day_number y m 1"] month_first_le[OF that] by simp
  ultimately show ?thesis
    by (cases p rule: period_cases; cases "civil n") (simp_all add: period_next_def period_first_def)
qed

lemma period_first_eq_iff:
  assumes "n \<le> k"
  shows "period_first p k = period_first p n \<longleftrightarrow> k < period_next p n"
proof
  assume "period_first p k = period_first p n"
  then have "period_next p k = period_next p n" by (metis period_next_first)
  with period_window(2)[where n = k and p = p] show "k < period_next p n" by simp
next
  assume "k < period_next p n"
  with assms period_window(1)[where n = n and p = p] show "period_first p k = period_first p n"
    by (intro period_first_same) simp_all
qed

lemma midnight_mono: "n \<le> k \<Longrightarrow> midnight n \<le> midnight k"
  using midnight_offset_cases[of n] midnight_offset_cases[of k]
  by (cases "n = k") (auto simp: midnight_def day_ns_def)

lemma midnight_le_iff: "midnight n \<le> t \<longleftrightarrow> n \<le> pacific_day t"
  using pacific_day_window[of t, folded midnight_def] midnight_mono[of n "pacific_day t"]
    midnight_mono[of "pacific_day t + 1" n]
  by force

lemma midnight_less_iff: "midnight n < midnight k \<longleftrightarrow> n < k"
  using midnight_offset_cases[of n] midnight_offset_cases[of k]
  by (cases n k rule: linorder_cases) (auto simp: midnight_def day_ns_def)

lemma unix_midnight: "unix (midnight n) * second = midnight n" "unix (midnight n) \<noteq> 0"
proof -
  have "midnight n = (n * 86400 + (if midnight_offset n = 7 * hour then 25200 else 28800)) * second"
    using midnight_offset_cases[of n] by (auto simp: midnight_def day_ns_def)
  moreover from this have
    "unix (midnight n) = n * 86400 + (if midnight_offset n = 7 * hour then 25200 else 28800)"
    unfolding unix_def by simp
  moreover have "(n * 86400 + (if c then 25200 else 28800)) mod 86400 \<noteq> 0" for c
    by (cases c) (simp_all only: mod_mult_self3 if_True if_False, simp_all)
  then have "n * 86400 + (if c then 25200 else 28800) \<noteq> 0" for c by (metis mod_0)
  ultimately show "unix (midnight n) * second = midnight n" "unix (midnight n) \<noteq> 0"
    by simp_all
qed


section \<open>The two time-zone paths agree\<close>

lemma us_zone_midnight_of: "zone_date us_zone y m d = midnight (day_number y m d)"
  by (simp add: us_zone_date midnight_def)

lemma add_days_midnight: "add_date us_zone (midnight n) 0 k = midnight (n + k)"
  by (cases "civil n") (simp add: midnight_def us_add_date_midnight day_number_add_days civil_eq(4))

lemma add_month_midnight:
  "civil n = (y, m, 1) \<Longrightarrow> add_date us_zone (midnight n) 1 0 = midnight (day_number y (m + 1) 1)"
  by (simp add: midnight_def us_add_date_midnight)

lemma civil_midnight_of:
  "(case civil n of (y, m, d) \<Rightarrow> utc_date y m d + pacific_offset_at_local_midnight y m d) = midnight n"
  by (simp add: civil_midnight midnight_def)

lemma local_midnight_sum:
  "civil n = (y, m, d) \<Longrightarrow> utc_date y m d + pacific_offset_at_local_midnight y m d = midnight n"
  using civil_midnight_of[of n] by simp

lemma pacific_date_civil: "pacific_date t = civil (pacific_day t)"
  by (simp add: pacific_date_def pacific_day_def)

lemma us_local_civil: "local_day us_zone t = pacific_day t"
  by (simp add: us_local_day pacific_day_def)

lemma pacific_day_start_eq: "tz = None \<or> tz = Some us_zone \<Longrightarrow> pacific_day_start tz t = midnight (pacific_day t)"
  by (cases "civil (pacific_day t)")
    (auto simp: pacific_day_start_def pacific_date_civil us_local_civil us_zone_midnight_of
      local_midnight_sum civil_eq(4))

lemma midnight_minus_offset: "midnight n - pacific_offset_at (midnight n) = n * day_ns"
  by (simp add: midnight_def offset_at_midnight_instant)

lemma month_start_civil: "civil n = (y, m, d) \<Longrightarrow> civil (day_number y m 1) = (y, m, 1)"
  using month_of_day[of n y m d "day_number y m 1"] month_first_le[of n y m d] by simp

lemma period_civil:
  "civil n = (y, m, d) \<Longrightarrow> period_first ''month'' n = day_number y m 1"
  by (simp add: period_first_def)

lemma bucket_start_fallback_eq:
  assumes "tz = None \<or> tz = Some us_zone"
  shows "bucket_start_fallback tz t p = unix (midnight (period_first p (pacific_day t)))"
proof (cases "civil (pacific_day t)")
  case (fields y m d)
  note c = civil_eq(4)[OF fields]
  note m1 = local_midnight_sum[OF month_start_civil[OF fields]]
  have wk: "(case civil (utc_day (add_date utc (utc_date y m d) 0 k)) of
      (y', m', d') \<Rightarrow> unix (utc_date y' m' d' + pacific_offset_at_local_midnight y' m' d')) =
      unix (midnight (pacific_day t + k))" for k
    using civil_midnight_of[of "pacific_day t + k"]
    by (simp add: utc_date_def utc_add_date_midnight[OF fields] c day_number_add_days
        split: prod.splits)
  show ?thesis
    by (cases p rule: period_cases)
      (simp_all add: bucket_start_fallback_def pacific_date_civil fields c wk m1
        period_first_def pacific_day_start_eq[OF assms] Let_def)
qed

lemma bucket_start_eq:
  assumes "tz = None \<or> tz = Some us_zone"
  shows "bucket_start tz t p = unix (midnight (period_first p (pacific_day t)))"
proof (cases "civil (pacific_day t)")
  case (fields y m d)
  show ?thesis
    using assms bucket_start_fallback_eq[OF assms, of t p]
    by (cases p rule: period_cases)
      (auto simp: bucket_start_def us_local_civil fields us_zone_midnight_of civil_eq(4)[OF fields]
        add_days_midnight period_first_def)
qed

lemma utc_add_days: "add_date utc (n * day_ns) 0 k = (n + k) * day_ns"
  by (cases "civil n") (simp add: utc_add_date_midnight day_number_add_days civil_eq(4))

lemma utc_add_month: "civil n = (y, m, 1) \<Longrightarrow> add_date utc (n * day_ns) 1 0 = day_number y (m + 1) 1 * day_ns"
  by (simp add: utc_add_date_midnight)

lemma next_pacific_midnight_eq:
  assumes "tz = None \<or> tz = Some us_zone"
  shows "next_pacific_midnight tz (midnight n) = midnight (n + 1)"
  using assms
  by (auto simp: next_pacific_midnight_def midnight_minus_offset utc_add_days add_days_midnight
      civil_midnight_of)

lemma rollover_end_eq:
  assumes "tz = None \<or> tz = Some us_zone"
  shows "rollover_end tz (unix (midnight (period_first p n))) p = midnight (period_next p n)"
proof (cases "civil n")
  case (fields y m d)
  note ms = month_start_civil[OF fields]
  show ?thesis
    using assms next_pacific_midnight_eq[OF assms, of n]
    by (cases p rule: period_cases)
      (auto simp: rollover_end_def unix_midnight(1) fallback_next_boundary_def midnight_minus_offset
        utc_add_days add_days_midnight civil_midnight_of period_next_def period_first_def fields
        utc_add_month[OF ms] add_month_midnight[OF ms])
qed


lemma upstream_midnight_zone: "upstream_next_pacific_midnight (Some us_zone) t = midnight (pacific_day t + 1)"
  by (cases "civil (pacific_day t)")
    (simp add: upstream_next_pacific_midnight_def us_local_civil us_zone_midnight_of day_number_add_days
      civil_eq(4))

lemma day_lengths: "midnight (n + 1) - midnight n \<in> {23 * hour, 24 * hour, 25 * hour}"
  using midnight_offset_cases[of n] midnight_offset_cases[of "n + 1"]
  by (auto simp: midnight_def day_ns_def distrib_right)

lemma before_midnight_iff: "t < midnight n \<longleftrightarrow> pacific_day t < n"
  using midnight_le_iff[of n t] by force

lemma pacific_midnight_fallback_window:
  "t < pacific_midnight_fallback t \<and> pacific_midnight_fallback t \<le> t + 24 * hour"
proof (cases "civil (utc_day t)")
  case (fields y m d)
  have "utc_date y m d = utc_day t * day_ns" by (simp add: utc_date_def civil_eq(4)[OF fields])
  with fields utc_day_bounds[of t] show ?thesis
    by (auto simp: pacific_midnight_fallback_def Let_def after_def day_ns_def distrib_right)
qed

section \<open>Properties\<close>

lemma rollover_iff:
  assumes "tz = None \<or> tz = Some us_zone" and "t \<le> now"
  shows "needs_rollover tz (bucket_start tz t p) p now \<longleftrightarrow> bucket_start tz now p \<noteq> bucket_start tz t p"
proof -
  let ?n = "pacific_day t" and ?k = "pacific_day now"
  have le: "?n \<le> ?k"
    using assms(2) midnight_le_iff[of ?n t] midnight_le_iff[of ?n now] by simp
  have "needs_rollover tz (bucket_start tz t p) p now \<longleftrightarrow> midnight (period_next p ?n) \<le> now"
    by (simp add: needs_rollover_def bucket_start_eq[OF assms(1)] rollover_end_eq[OF assms(1)]
        unix_midnight(2) before_def not_less)
  also have "\<dots> \<longleftrightarrow> period_first p ?k \<noteq> period_first p ?n"
    using period_first_eq_iff[OF le, of p] by (simp add: midnight_le_iff not_less)
  also have "\<dots> \<longleftrightarrow> bucket_start tz now p \<noteq> bucket_start tz t p"
    using unix_midnight(1) midnight_less_iff
    by (simp add: bucket_start_eq[OF assms(1)]) (metis linorder_neq_iff)
  finally show ?thesis .
qed

lemma bucket_start_mono:
  assumes "tz = None \<or> tz = Some us_zone" and "t \<le> now"
  shows "bucket_start tz t p \<le> bucket_start tz now p"
proof -
  let ?n = "pacific_day t" and ?k = "pacific_day now"
  have le: "?n \<le> ?k"
    using assms(2) midnight_le_iff[of ?n t] midnight_le_iff[of ?n now] by simp
  have "period_first p ?n \<le> period_first p ?k"
  proof (rule ccontr)
    assume less: "\<not> period_first p ?n \<le> period_first p ?k"
    then have "period_first p ?k \<le> ?n" "?n < period_next p ?k"
      using period_window[where n = ?n and p = p] period_window[where n = ?k and p = p] le by simp_all
    with less show False using period_first_same by fastforce
  qed
  then have "midnight (period_first p ?n) \<le> midnight (period_first p ?k)" by (rule midnight_mono)
  then show ?thesis
    using unix_midnight(1)[of "period_first p ?n"] unix_midnight(1)[of "period_first p ?k"]
    by (simp add: bucket_start_eq[OF assms(1)])
qed

lemma bucket_nonzero: "tz = None \<or> tz = Some us_zone \<Longrightarrow> bucket_start tz t p \<noteq> 0"
  by (simp add: bucket_start_eq unix_midnight)

lemma needs_rollover_unset: "needs_rollover tz 0 p now"
  by (simp add: needs_rollover_def)

text \<open>C16: A stored bucket rolls over exactly when the current instant falls into a different
  period. For a bucket opened at \<open>t\<close> and any later \<open>now\<close>, \<^verbatim>\<open>needsRollover\<close> answers true
  if and only if \<^verbatim>\<open>bucketStart\<close> now gives another start, for days, weeks and months, with a
  tz database and without one, across both daylight-saving transitions.\<close>

theorem rollover_exact:
  assumes "tz = None \<or> tz = Some us_zone" and "t \<le> now"
  shows "needs_rollover tz (bucket_start tz t p) p now \<longleftrightarrow> bucket_start tz now p \<noteq> bucket_start tz t p"
  using assms by (rule rollover_iff)

text \<open>Sunday 9 March 2025, 12:00 UTC, and the next day: the weekly bucket rolls over.\<close>

lemma rollover_exact_witness:
  "needs_rollover None (bucket_start None 1741521600000000000 ''week'') ''week'' 1741608000000000000
     \<and> bucket_start None 1741608000000000000 ''week'' = 1741590000"
proof -
  have d: "pacific_day 1741521600000000000 = 20156" "pacific_day 1741608000000000000 = 20157"
    "midnight_offset 20150 = 8 * hour" "midnight_offset 20157 = 7 * hour"
    by code_simp+
  have "bucket_start None 1741521600000000000 ''week'' = 1740988800"
    "bucket_start None 1741608000000000000 ''week'' = 1741590000"
    by (simp_all add: bucket_start_eq d period_first_def weekday_def midnight_def unix_def day_ns_def)
  then show ?thesis
    using rollover_exact[of None 1741521600000000000 1741608000000000000 "''week''"] by simp
qed

text \<open>The rule-based fallback and the tz-database path are the same function on the zone the
  US daylight-saving rule describes: bucket starts, rollover of a stored start, day starts and
  next midnights do not depend on whether the host has a tz database.\<close>

lemma fallback_agrees_with_zone:
  "bucket_start None t p = bucket_start (Some us_zone) t p \<and>
   needs_rollover None (bucket_start None t p) p now =
     needs_rollover (Some us_zone) (bucket_start (Some us_zone) t p) p now \<and>
   pacific_day_start None t = pacific_day_start (Some us_zone) t \<and>
   next_pacific_midnight None (pacific_day_start None t) =
     next_pacific_midnight (Some us_zone) (pacific_day_start (Some us_zone) t)"
  by (simp add: bucket_start_eq needs_rollover_def rollover_end_eq pacific_day_start_eq
      next_pacific_midnight_eq)

text \<open>Every instant lies in the bucket it opens: the start \<^verbatim>\<open>bucketStart\<close> gives is never in
  the future, is never the zero that marks an unset bucket, and a bucket just rolled does not
  ask to roll again.\<close>

lemma bucket_contains_now:
  assumes "tz = None \<or> tz = Some us_zone"
  shows "bucket_start tz now p * second \<le> now \<and> bucket_start tz now p \<noteq> 0 \<and>
    now < rollover_end tz (bucket_start tz now p) p \<and>
    \<not> needs_rollover tz (bucket_start tz now p) p now"
  using period_window[where n = "pacific_day now" and p = p]
  by (simp add: needs_rollover_def bucket_start_eq[OF assms] rollover_end_eq[OF assms] unix_midnight
      midnight_le_iff before_midnight_iff before_def)

lemma bucket_contains_now_witness:
  "bucket_start None 1741521600000000000 ''month'' * second \<le> 1741521600000000000 \<and>
   1741521600000000000 < rollover_end None (bucket_start None 1741521600000000000 ''month'') ''month''"
  using bucket_contains_now[of None 1741521600000000000 "''month''"] by simp

text \<open>A Pacific day is 23, 24 or 25 hours long and contains the instant it was computed from:
  with and without a tz database, \<^verbatim>\<open>pacificDayStart\<close> and \<^verbatim>\<open>nextPacificMidnight\<close> bracket the
  instant, and the distance between them is one of the three lengths daylight saving allows.\<close>

lemma pacific_day_brackets:
  assumes "tz = None \<or> tz = Some us_zone"
  shows "pacific_day_start tz t \<le> t \<and> t < next_pacific_midnight tz (pacific_day_start tz t) \<and>
    next_pacific_midnight tz (pacific_day_start tz t) - pacific_day_start tz t
      \<in> {23 * hour, 24 * hour, 25 * hour}"
  using day_lengths[of "pacific_day t"]
  by (simp add: pacific_day_start_eq[OF assms] next_pacific_midnight_eq[OF assms] midnight_le_iff
      before_midnight_iff)

lemma pacific_day_brackets_witness:
  "pacific_day_start None 1741521600000000000 \<le> 1741521600000000000 \<and>
   next_pacific_midnight None (pacific_day_start None 1741521600000000000) -
     pacific_day_start None 1741521600000000000 = 23 * hour"
proof -
  have "next_pacific_midnight None (pacific_day_start None 1741521600000000000) -
     pacific_day_start None 1741521600000000000 = 23 * hour"
    by code_simp
  then show ?thesis using pacific_day_brackets[of None 1741521600000000000] by simp
qed

text \<open>The reset instant a windowless 429 falls back to is in the future and close: strictly
  after now and at most 24 hours away on the fallback path, at most 25 on the tz-database path,
  where it is the next Pacific midnight itself.\<close>

lemma windowless_reset_window:
  "now < upstream_next_pacific_midnight None now \<and>
   upstream_next_pacific_midnight None now \<le> now + 24 * hour \<and>
   now < upstream_next_pacific_midnight (Some us_zone) now \<and>
   upstream_next_pacific_midnight (Some us_zone) now \<le> now + 25 * hour \<and>
   upstream_next_pacific_midnight (Some us_zone) now =
     next_pacific_midnight (Some us_zone) (pacific_day_start (Some us_zone) now)"
proof -
  have "upstream_next_pacific_midnight None now = pacific_midnight_fallback now"
    by (simp add: upstream_next_pacific_midnight_def)
  moreover have "midnight (pacific_day now) \<le> now" "now < midnight (pacific_day now + 1)"
    by (simp_all only: midnight_le_iff before_midnight_iff order_refl less_add_one)
  moreover have "midnight (pacific_day now + 1) - midnight (pacific_day now) \<le> 25 * hour"
    using day_lengths[of "pacific_day now"] by auto
  ultimately show ?thesis
    using pacific_midnight_fallback_window[of now]
    by (simp add: upstream_midnight_zone pacific_day_start_eq next_pacific_midnight_eq)
qed

end
