(* ===== verification/Wire_Errors.thy ===== *)
theory Wire_Errors
  imports Complex_Main Prelude
begin

text \<open>
  The typed refusals of the upstream wire protocol,
  \<^verbatim>\<open>backend/internal/upstream/errors.go\<close>: the sentinels, the concrete error values, what
  each one unwraps to, and \<^verbatim>\<open>errors.Is\<close> and \<^verbatim>\<open>errors.As\<close> over the unwrap chain, which is
  how every other component reads an error. A \<^verbatim>\<open>float64\<close> field read from JSON is a rational.
  The texts the \<^verbatim>\<open>Error()\<close> methods render are not modelled: they go to logs and clients, and
  no decision reads them back.
\<close>

datatype sentinel =
    Err_Session_Invalid | Err_Run_Invalid | Err_Auth_Rejected | Err_Waiting_Room
  | Err_Rate_Limited | Err_Banned | Err_Country_Blocked | Err_Free_Mode_CLI_Required
  | Err_Free_Mode_Invalid_Agent_Hierarchy | Err_Free_Mode_Cost_Mode_Required | Err_Credits
  | Err_No_Active_Session | Err_Capacity_Deferred | Err_Ip_Capped | Err_Session_Limit_Reached
  | Err_Waiting_Room_Required | Err_Model_IP_Limited | Err_Session_Superseded
  | Err_Turn_Spend_Limited | Err_Session_Admission_Unsupported | Err_No_Endpoints
  | Err_Free_Mode_Unavailable | Err_Provider_Usage | Err_Consent_Required | Err_First_Tab_Changed

record rate_limit_error =
  rl_status :: string
  rl_model :: string
  rl_retry_after :: duration
  rl_limit :: rat
  rl_recent_count :: rat
  rl_reset_at :: go_time
  rl_period :: string
  rl_window :: string
  rl_window_hours :: int
  rl_freebucks_shortfall :: bool
  rl_body :: string

record ban_error =
  resumes_at :: go_time
  ban_body :: string

record country_blocked_error =
  country_code :: string
  country_block_reason :: string
  ip_privacy_signals :: "string list"

record waiting_room_error =
  wr_position :: int
  wr_queue_depth :: int
  wr_retry_after :: duration
  wr_detail :: string

record upstream_error =
  ue_status :: int
  ue_body :: string
  ue_retry_after :: duration
  ue_retryable :: bool

record capacity_deferred_error =
  cd_status :: int
  cd_retry_after :: duration
  cd_body :: string

record ip_capped_error =
  active_users_for_ip :: int
  ip_limit :: rat
  ic_retry_after :: duration
  ic_body :: string

record limited_ip_error =
  li_model :: string
  li_retry_after :: duration
  li_body :: string

text \<open>
  A Go \<^verbatim>\<open>error\<close> value: a sentinel, one of the concrete types (the ones that carry only a
  status and a body share the constructor \<open>Status_Error\<close>, tagged with the sentinel they unwrap
  to), an error of another package by its text, or \<^verbatim>\<open>fmt.Errorf("...: %w", err)\<close>.
\<close>

datatype go_error =
    Sentinel sentinel
  | Waiting_Room waiting_room_error
  | Waiting_Room_Required duration string
  | Status_Error sentinel int string
  | Upstream upstream_error
  | No_Endpoints int string string
  | Rate_Limit rate_limit_error
  | Ban ban_error
  | Country_Blocked country_blocked_error
  | Capacity_Deferred capacity_deferred_error
  | Ip_Capped ip_capped_error
  | Limited_Ip limited_ip_error
  | Free_Mode_Unavailable int string string string "string list" string
  | Consent_Required int rat string
  | Other string
  | Wrapped string go_error

fun unwrap :: "go_error \<Rightarrow> go_error option" where
  "unwrap (Sentinel s) = None"
| "unwrap (Waiting_Room e) = Some (Sentinel Err_Waiting_Room)"
| "unwrap (Waiting_Room_Required ra d) = Some (Sentinel Err_Waiting_Room_Required)"
| "unwrap (Status_Error s st b) = Some (Sentinel s)"
| "unwrap (Upstream e) = None"
| "unwrap (No_Endpoints st mo b) = Some (Sentinel Err_No_Endpoints)"
| "unwrap (Rate_Limit e) = Some (Sentinel Err_Rate_Limited)"
| "unwrap (Ban e) = Some (Sentinel Err_Banned)"
| "unwrap (Country_Blocked e) = Some (Sentinel Err_Country_Blocked)"
| "unwrap (Capacity_Deferred e) =
     Some (Upstream \<lparr>ue_status = cd_status e, ue_body = cd_body e,
                     ue_retry_after = cd_retry_after e, ue_retryable = True\<rparr>)"
| "unwrap (Ip_Capped e) = Some (Sentinel Err_Ip_Capped)"
| "unwrap (Limited_Ip e) = Some (Sentinel Err_Model_IP_Limited)"
| "unwrap (Free_Mode_Unavailable st msg c r sig b) = Some (Sentinel Err_Free_Mode_Unavailable)"
| "unwrap (Consent_Required st w b) = Some (Sentinel Err_Consent_Required)"
| "unwrap (Other msg) = None"
| "unwrap (Wrapped msg e) = Some e"

text \<open>The chain \<^verbatim>\<open>errors.Is\<close> and \<^verbatim>\<open>errors.As\<close> walk, outermost first.\<close>

fun chain_rank :: "go_error \<Rightarrow> nat" where
  "chain_rank (Wrapped msg e) = Suc (chain_rank e)"
| "chain_rank (Sentinel s) = 0"
| "chain_rank (Upstream e) = 0"
| "chain_rank e = 1"

lemma unwrap_rank: "unwrap e = Some e' \<Longrightarrow> chain_rank e' < chain_rank e"
  by (cases e) auto

function error_chain :: "go_error \<Rightarrow> go_error list" where
  "error_chain e = e # (case unwrap e of None \<Rightarrow> [] | Some e' \<Rightarrow> error_chain e')"
  by pat_completeness auto
termination
  by (relation "measure chain_rank") (auto simp: unwrap_rank)

declare error_chain.simps [simp del]

text \<open>\<^verbatim>\<open>errors.Is(err, sentinel)\<close>: equality along the chain, or the \<^verbatim>\<open>Is\<close> method of
  \<^verbatim>\<open>CapacityDeferredError\<close>.\<close>

definition matches :: "sentinel \<Rightarrow> go_error \<Rightarrow> bool" where
  "matches s e =
     (case e of Sentinel s' \<Rightarrow> s = s' | Capacity_Deferred _ \<Rightarrow> s = Err_Capacity_Deferred | _ \<Rightarrow> False)"

definition errors_is :: "go_error \<Rightarrow> sentinel \<Rightarrow> bool" where
  "errors_is e s = list_ex (matches s) (error_chain e)"

text \<open>\<^verbatim>\<open>errors.As(err, &target)\<close>: the first value of the target's type.\<close>

fun first_some :: "('a \<Rightarrow> 'b option) \<Rightarrow> 'a list \<Rightarrow> 'b option" where
  "first_some f [] = None"
| "first_some f (x # xs) = (case f x of None \<Rightarrow> first_some f xs | Some y \<Rightarrow> Some y)"

definition as_rate_limit :: "go_error \<Rightarrow> rate_limit_error option" where
  "as_rate_limit e = first_some (\<lambda>n. case n of Rate_Limit r \<Rightarrow> Some r | _ \<Rightarrow> None) (error_chain e)"

definition as_ban :: "go_error \<Rightarrow> ban_error option" where
  "as_ban e = first_some (\<lambda>n. case n of Ban b \<Rightarrow> Some b | _ \<Rightarrow> None) (error_chain e)"

definition as_country_blocked :: "go_error \<Rightarrow> country_blocked_error option" where
  "as_country_blocked e = first_some (\<lambda>n. case n of Country_Blocked b \<Rightarrow> Some b | _ \<Rightarrow> None) (error_chain e)"

definition as_ip_capped :: "go_error \<Rightarrow> ip_capped_error option" where
  "as_ip_capped e = first_some (\<lambda>n. case n of Ip_Capped b \<Rightarrow> Some b | _ \<Rightarrow> None) (error_chain e)"

definition as_limited_ip :: "go_error \<Rightarrow> limited_ip_error option" where
  "as_limited_ip e = first_some (\<lambda>n. case n of Limited_Ip b \<Rightarrow> Some b | _ \<Rightarrow> None) (error_chain e)"

definition as_waiting_room :: "go_error \<Rightarrow> waiting_room_error option" where
  "as_waiting_room e = first_some (\<lambda>n. case n of Waiting_Room b \<Rightarrow> Some b | _ \<Rightarrow> None) (error_chain e)"

definition as_upstream :: "go_error \<Rightarrow> upstream_error option" where
  "as_upstream e = first_some (\<lambda>n. case n of Upstream b \<Rightarrow> Some b | _ \<Rightarrow> None) (error_chain e)"

definition window_kind :: "rate_limit_error option \<Rightarrow> string" where
  "window_kind e =
     (case e of None \<Rightarrow> ''''
      | Some r \<Rightarrow> if \<not> rl_freebucks_shortfall r then '''' else ''freebucks_window'')"

lemmas errors_as_defs = as_rate_limit_def as_ban_def as_country_blocked_def as_ip_capped_def
  as_limited_ip_def as_waiting_room_def as_upstream_def

lemma error_chain_unwrap [simp]:
  "unwrap e = None \<Longrightarrow> error_chain e = [e]"
  "unwrap e = Some e' \<Longrightarrow> error_chain e = e # error_chain e'"
  by (simp_all add: error_chain.simps[of e])

text \<open>A layer of \<^verbatim>\<open>%w\<close> never changes how an error is classified.\<close>

lemma wrapped_classification [simp]:
  "errors_is (Wrapped msg e) s = errors_is e s"
  "as_rate_limit (Wrapped msg e) = as_rate_limit e"
  "as_ban (Wrapped msg e) = as_ban e"
  "as_country_blocked (Wrapped msg e) = as_country_blocked e"
  "as_ip_capped (Wrapped msg e) = as_ip_capped e"
  "as_limited_ip (Wrapped msg e) = as_limited_ip e"
  "as_waiting_room (Wrapped msg e) = as_waiting_room e"
  "as_upstream (Wrapped msg e) = as_upstream e"
  by (simp_all add: errors_is_def errors_as_defs matches_def)

lemma as_ban_iff: "as_ban e = Some b \<longleftrightarrow> Ban b \<in> set (error_chain e)"
  by (induction e) (auto simp: as_ban_def)

lemma as_rate_limit_iff: "as_rate_limit e = Some r \<longleftrightarrow> Rate_Limit r \<in> set (error_chain e)"
  by (induction e) (auto simp: as_rate_limit_def)

lemma as_ban_sentinel: "as_ban e = Some b \<Longrightarrow> errors_is e Err_Banned"
  by (induction e) (simp_all add: as_ban_def errors_is_def matches_def)

lemma as_rate_limit_sentinel: "as_rate_limit e = Some r \<Longrightarrow> errors_is e Err_Rate_Limited"
  by (induction e) (simp_all add: as_rate_limit_def errors_is_def matches_def)

text \<open>The typed refusals exclude one another: an error chain ends in one concrete value.\<close>

lemma classification_exclusive:
  "as_ban e = Some b \<Longrightarrow> as_rate_limit e = None \<and> as_country_blocked e = None \<and>
     as_ip_capped e = None \<and> as_limited_ip e = None \<and> as_waiting_room e = None \<and>
     \<not> errors_is e Err_Auth_Rejected"
  "as_rate_limit e = Some r \<Longrightarrow> as_ban e = None \<and> as_country_blocked e = None \<and>
     as_ip_capped e = None \<and> as_limited_ip e = None \<and> as_waiting_room e = None \<and>
     \<not> errors_is e Err_Auth_Rejected"
  by (induction e) (simp_all add: errors_as_defs errors_is_def matches_def)

end
