(* ===== verification/Cooldown.thy ===== *)
theory Cooldown
  imports Pacific Wire_Errors
begin

text \<open>
  Token cooldowns: \<^verbatim>\<open>backend/internal/runs/cooldown.go\<close>. The state is the part of
  \<^verbatim>\<open>RunManager\<close> those methods own, one function per method, each one critical section under
  \<^verbatim>\<open>m.mu\<close> that reads the clock once (\<open>now\<close>). \<open>countryBlockCooldown\<close> is the argument
  \<open>country_window\<close>, set by \<open>set_cooldown_tuning\<close>. The locale \<open>expiring_memory\<close> states what
  a remembered refusal promises its reader.
\<close>

section \<open>Memories that expire\<close>

locale expiring_memory =
  fixes recall :: "go_time \<Rightarrow> 'k \<Rightarrow> 's \<Rightarrow> 'v option"
    and remember :: "go_time \<Rightarrow> 'k \<Rightarrow> 'v \<Rightarrow> 's \<Rightarrow> 's"
    and deadline :: "go_time \<Rightarrow> 'v \<Rightarrow> go_time"
    and ok :: "'k \<Rightarrow> bool"
  assumes recall_same: "ok k \<Longrightarrow> now < deadline now v \<Longrightarrow>
      recall t k (remember now k v s) = (if t < deadline now v then Some v else None)"
    and recall_other: "k \<noteq> k' \<Longrightarrow> recall t k' (remember now k v s) = recall t k' s"
    and past_ignored: "\<not> now < deadline now v \<Longrightarrow> recall t k' (remember now k v s) = recall t k' s"
begin

text \<open>A remembered refusal holds up to its deadline and not past it.\<close>

lemma recall_until: "ok k \<Longrightarrow> now < deadline now v \<Longrightarrow> t < deadline now v \<Longrightarrow>
    recall t k (remember now k v s) = Some v"
  by (simp add: recall_same)

lemma recall_expired: "ok k \<Longrightarrow> now < deadline now v \<Longrightarrow> deadline now v \<le> t \<Longrightarrow>
    recall t k (remember now k v s) = None"
  by (simp add: recall_same)

text \<open>The last refusal remembered for a key wins.\<close>

lemma remember_overwrites:
  assumes "ok k" "now2 < deadline now2 w" "t < deadline now2 w"
  shows "recall t k (remember now2 k w (remember now1 k v s)) = Some w"
  using assms by (rule recall_until)

end

section \<open>State\<close>

record model_limit_entry =
  ml_err :: rate_limit_error
  ml_until :: go_time

record cooldown_state =
  cooldown_until :: go_time
  rate_limit :: "rate_limit_error option"
  ban :: "ban_error option"
  ban_until :: go_time
  ban_permanent :: bool
  country_block :: "country_blocked_error option"
  country_until :: go_time
  model_limits :: "string \<rightharpoonup> model_limit_entry"

definition no_cooldown :: cooldown_state where
  "no_cooldown = \<lparr>cooldown_until = zero_time, rate_limit = None, ban = None, ban_until = zero_time,
     ban_permanent = False, country_block = None, country_until = zero_time, model_limits = Map.empty\<rparr>"

definition default_country_window :: duration where
  "default_country_window = 15 * minute"

definition set_cooldown_tuning :: "duration \<Rightarrow> duration \<Rightarrow> duration" where
  "set_cooldown_tuning country country_window = (if country > 0 then country else country_window)"

section \<open>Operations\<close>

definition cooldown :: "go_time \<Rightarrow> duration \<Rightarrow> cooldown_state \<Rightarrow> cooldown_state" where
  "cooldown now d s =
     (if d \<le> 0 then s
      else s\<lparr>cooldown_until := now + d, rate_limit := None, ban := None, ban_permanent := False,
             country_block := None, ban_until := zero_time, country_until := zero_time\<rparr>)"

definition clear_cooldowns :: "cooldown_state \<Rightarrow> cooldown_state" where
  "clear_cooldowns s =
     s\<lparr>cooldown_until := zero_time, rate_limit := None, ban := None, ban_permanent := False,
       ban_until := zero_time, country_block := None, country_until := zero_time,
       model_limits := Map.empty\<rparr>"

definition cooldown_rate_limit ::
  "zone option \<Rightarrow> go_time \<Rightarrow> rate_limit_error option \<Rightarrow> cooldown_state \<Rightarrow> cooldown_state" where
  "cooldown_rate_limit tz now rle s =
     (case rle of None \<Rightarrow> s
      | Some r \<Rightarrow>
          let until = (if rl_retry_after r > 0 then now + rl_retry_after r
                       else if \<not> is_zero (rl_reset_at r) \<and> after (rl_reset_at r) now then rl_reset_at r
                       else upstream_next_pacific_midnight tz now)
          in s\<lparr>cooldown_until := until, rate_limit := Some r, ban := None, ban_until := zero_time,
               ban_permanent := False, country_block := None, country_until := zero_time\<rparr>)"

definition rate_limit_live :: "go_time \<Rightarrow> cooldown_state \<Rightarrow> rate_limit_error option" where
  "rate_limit_live now s =
     (if before now (cooldown_until s) \<and> rate_limit s \<noteq> None then rate_limit s else None)"

definition refusal_deadline :: "go_time \<Rightarrow> rate_limit_error \<Rightarrow> go_time" where
  "refusal_deadline now r = (if rl_retry_after r > 0 then now + rl_retry_after r else rl_reset_at r)"

definition remember_model_rate_limit ::
  "go_time \<Rightarrow> string \<Rightarrow> rate_limit_error option \<Rightarrow> cooldown_state \<Rightarrow> cooldown_state" where
  "remember_model_rate_limit now model rle s =
     (case rle of None \<Rightarrow> s
      | Some r \<Rightarrow>
          if model = '''' then s
          else let until = refusal_deadline now r in
            if is_zero until \<or> \<not> after until now then s
            else s\<lparr>model_limits := (model_limits s)(model \<mapsto> \<lparr>ml_err = r, ml_until = until\<rparr>)\<rparr>)"

text \<open>Reading a model's refusal drops it once it has expired.\<close>

definition model_rate_limit ::
  "go_time \<Rightarrow> string \<Rightarrow> cooldown_state \<Rightarrow> rate_limit_error option \<times> cooldown_state" where
  "model_rate_limit now model s =
     (if model = '''' then (None, s)
      else case model_limits s model of
             None \<Rightarrow> (None, s)
           | Some e \<Rightarrow>
               if \<not> before now (ml_until e)
               then (None, s\<lparr>model_limits := (model_limits s)(model := None)\<rparr>)
               else (Some (ml_err e), s))"

definition cooldown_ban :: "go_time \<Rightarrow> ban_error option \<Rightarrow> cooldown_state \<Rightarrow> cooldown_state" where
  "cooldown_ban now be s =
     (case be of None \<Rightarrow> s
      | Some b \<Rightarrow>
          let s1 = (if is_zero (resumes_at b)
                    then s\<lparr>ban := Some b, ban_until := zero_time, ban_permanent := True\<rparr>
                    else if \<not> after (resumes_at b) now
                    then s\<lparr>ban := None, ban_until := zero_time, ban_permanent := False\<rparr>
                    else s\<lparr>ban := Some b, ban_until := resumes_at b, ban_permanent := False\<rparr>)
          in s1\<lparr>cooldown_until := ban_until s1, rate_limit := None, country_block := None\<rparr>)"

definition ban_live :: "go_time \<Rightarrow> cooldown_state \<Rightarrow> ban_error option" where
  "ban_live now s =
     (if ban s \<noteq> None \<and> (ban_permanent s \<or> before now (ban_until s)) then ban s else None)"

definition cooldown_country_blocked ::
  "duration \<Rightarrow> go_time \<Rightarrow> country_blocked_error option \<Rightarrow> cooldown_state \<Rightarrow> cooldown_state" where
  "cooldown_country_blocked country_window now cbe s =
     (case cbe of None \<Rightarrow> s
      | Some c \<Rightarrow>
          if ban s \<noteq> None \<and> (ban_permanent s \<or> before now (ban_until s)) then s
          else let until = now + country_window in
            s\<lparr>country_block := Some c, country_until := until, cooldown_until := until,
              rate_limit := None, ban := None, ban_permanent := False, ban_until := zero_time\<rparr>)"

definition country_blocked_live :: "go_time \<Rightarrow> cooldown_state \<Rightarrow> country_blocked_error option" where
  "country_blocked_live now s =
     (if before now (country_until s) \<and> country_block s \<noteq> None then country_block s else None)"

definition maintenance_eligible :: "go_time \<Rightarrow> cooldown_state \<Rightarrow> bool" where
  "maintenance_eligible now s \<longleftrightarrow> \<not> before now (cooldown_until s) \<and> ban_live now s = None"

lemmas cooldown_defs = cooldown_def clear_cooldowns_def cooldown_rate_limit_def
  remember_model_rate_limit_def model_rate_limit_def cooldown_ban_def cooldown_country_blocked_def

lemmas cooldown_reads = rate_limit_live_def ban_live_def country_blocked_live_def
  maintenance_eligible_def


section \<open>Invariant\<close>

text \<open>
  At most one refusal is remembered, and the shared deadline is the remembered one's own: a ban
  carries its \<^verbatim>\<open>resumes_at\<close> (zero for a hard ban, which is the permanent one), a country block
  its window.
\<close>

definition one_refusal :: "cooldown_state \<Rightarrow> bool" where
  "one_refusal s \<longleftrightarrow>
     length (filter id [rate_limit s \<noteq> None, ban s \<noteq> None, country_block s \<noteq> None]) \<le> 1"

definition ban_consistent :: "cooldown_state \<Rightarrow> bool" where
  "ban_consistent s \<longleftrightarrow>
     (case ban s of None \<Rightarrow> is_zero (ban_until s) \<and> \<not> ban_permanent s
      | Some b \<Rightarrow> ban_until s = resumes_at b \<and> cooldown_until s = ban_until s \<and>
                  (ban_permanent s \<longleftrightarrow> is_zero (resumes_at b)))"

definition country_consistent :: "cooldown_state \<Rightarrow> bool" where
  "country_consistent s \<longleftrightarrow> (country_block s \<noteq> None \<longrightarrow> cooldown_until s = country_until s)"

definition limits_live :: "cooldown_state \<Rightarrow> bool" where
  "limits_live s \<longleftrightarrow> model_limits s '''' = None"

definition cooldown_inv :: "cooldown_state \<Rightarrow> bool" where
  "cooldown_inv s \<longleftrightarrow> one_refusal s \<and> ban_consistent s \<and> country_consistent s \<and> limits_live s"

lemmas cooldown_inv_defs = cooldown_inv_def one_refusal_def ban_consistent_def
  country_consistent_def limits_live_def

inductive cooldown_step :: "cooldown_state \<Rightarrow> cooldown_state \<Rightarrow> bool" where
  "cooldown_step s (cooldown now d s)"
| "cooldown_step s (clear_cooldowns s)"
| "cooldown_step s (cooldown_rate_limit tz now rle s)"
| "cooldown_step s (remember_model_rate_limit now model rle s)"
| "cooldown_step s (snd (model_rate_limit now model s))"
| "cooldown_step s (cooldown_ban now be s)"
| "cooldown_step s (cooldown_country_blocked w now cbe s)"

abbreviation cooldown_start :: "cooldown_state \<Rightarrow> bool" where
  "cooldown_start s \<equiv> s = no_cooldown"

lemma cooldown_inv_step [step_intros]: "cooldown_inv s \<Longrightarrow> cooldown_step s t \<Longrightarrow> cooldown_inv t"
  by (erule cooldown_step.cases)
    (auto simp: cooldown_inv_defs cooldown_defs Let_def is_zero_def split: option.splits if_splits)

lemma cooldown_inv_start: "cooldown_inv no_cooldown"
  by (simp add: cooldown_inv_defs no_cooldown_def)

interpretation cd: invariant_system cooldown_start cooldown_step cooldown_inv
  by unfold_locales (auto intro: cooldown_inv_step simp: cooldown_inv_start)

lemma inv_reads:
  assumes "cooldown_inv s"
  shows "ban_live now s \<noteq> None \<Longrightarrow> rate_limit_live now s = None \<and> country_blocked_live now s = None"
    "rate_limit_live now s \<noteq> None \<Longrightarrow> country_blocked_live now s = None"
    "country_blocked_live now s \<noteq> None \<Longrightarrow> \<not> maintenance_eligible now s"
    "rate_limit_live now s \<noteq> None \<Longrightarrow> \<not> maintenance_eligible now s"
    "ban_live now s \<noteq> None \<Longrightarrow> \<not> maintenance_eligible now s"
  using assms by (auto simp: cooldown_inv_defs cooldown_reads split: if_splits option.splits)

section \<open>The per-model refusal memory\<close>

definition park_deadline :: "go_time \<Rightarrow> rate_limit_error \<Rightarrow> go_time" where
  "park_deadline now r = (if is_zero (refusal_deadline now r) then now else refusal_deadline now r)"

interpretation ml: expiring_memory
  "\<lambda>t m s. fst (model_rate_limit t m s)"
  "\<lambda>now m r s. remember_model_rate_limit now m (Some r) s"
  park_deadline "\<lambda>m. m \<noteq> ''''"
  by unfold_locales
    (auto simp: model_rate_limit_def remember_model_rate_limit_def park_deadline_def Let_def
      before_def after_def split: option.splits)

text \<open>Reading twice gives the same answer: dropping an expired entry is invisible.\<close>

lemma model_read_stable:
  "t \<le> t' \<Longrightarrow> fst (model_rate_limit t' m (snd (model_rate_limit t k s))) = fst (model_rate_limit t' m s)"
  by (auto simp: model_rate_limit_def before_def split: option.splits)

lemma clear_forgets: "fst (model_rate_limit t m (clear_cooldowns s)) = None"
  by (simp add: model_rate_limit_def clear_cooldowns_def)

section \<open>Properties\<close>

text \<open>Whatever calls the pool makes, a token remembers at most one live refusal, and none of
  them lets maintenance through. In every reachable state a live ban hides every other live
  refusal, a live rate limit and a live country block exclude each other, and background
  maintenance is refused while any of the three is live.\<close>

lemma one_live_refusal:
  assumes "reach cooldown_start cooldown_step s"
  shows "(ban_live now s \<noteq> None \<longrightarrow> rate_limit_live now s = None \<and> country_blocked_live now s = None) \<and>
    (rate_limit_live now s \<noteq> None \<longrightarrow> country_blocked_live now s = None) \<and>
    (maintenance_eligible now s \<longrightarrow>
       rate_limit_live now s = None \<and> ban_live now s = None \<and> country_blocked_live now s = None)"
  using inv_reads[OF cd.reach_inv[OF assms], of now] by blast

lemma one_live_refusal_witness:
  "\<exists>s. reach cooldown_start cooldown_step s \<and> ban_live 5 s \<noteq> None \<and> rate_limit_live 5 s = None \<and>
     \<not> maintenance_eligible 5 s"
proof -
  define s where "s = cooldown_ban 1 (Some \<lparr>resumes_at = 10, ban_body = ''''\<rparr>) (cooldown 0 100 no_cooldown)"
  have r: "reach cooldown_start cooldown_step s"
    unfolding s_def
    by (rule reach_step, rule reach_step, rule reach_start, rule refl) (rule cooldown_step.intros)+
  have l: "ban_live 5 s \<noteq> None"
    by (simp add: s_def cooldown_ban_def cooldown_def ban_live_def no_cooldown_def Let_def time_simps
        zero_time_def)
  from one_live_refusal[OF r, of 5] l r show ?thesis by blast
qed

text \<open>The ban window is exact. After \<^verbatim>\<open>CooldownBan\<close>, a hard ban (no \<^verbatim>\<open>resumes_at\<close>) is live at
  every later instant, a temporary ban exactly until its \<^verbatim>\<open>resumes_at\<close>, and a ban that had
  already lifted leaves no memory; at every instant after the zero time, maintenance is allowed exactly when no ban is live.\<close>

lemma ban_window_exact:
  assumes "zero_time \<le> t"
  shows "ban_live t (cooldown_ban now (Some b) s) =
      (if is_zero (resumes_at b) \<or> now < resumes_at b \<and> t < resumes_at b then Some b else None) \<and>
    (maintenance_eligible t (cooldown_ban now (Some b) s) \<longleftrightarrow>
       ban_live t (cooldown_ban now (Some b) s) = None) \<and>
    cooldown_country_blocked w t c (cooldown_ban now (Some b) s) =
      (if c = None \<or> ban_live t (cooldown_ban now (Some b) s) \<noteq> None
       then cooldown_ban now (Some b) s
       else (cooldown_ban now (Some b) s)\<lparr>country_block := c, country_until := t + w,
              cooldown_until := t + w, ban := None, ban_permanent := False, ban_until := zero_time\<rparr>)"
  using assms
  by (auto simp: cooldown_ban_def cooldown_country_blocked_def ban_live_def maintenance_eligible_def
      Let_def time_simps split: option.splits)

lemma ban_window_exact_witness:
  "ban_live 7 (cooldown_ban 0 (Some \<lparr>resumes_at = 9, ban_body = ''''\<rparr>) no_cooldown) \<noteq> None"
  using ban_window_exact[of 7 0 "\<lparr>resumes_at = 9, ban_body = ''''\<rparr>" no_cooldown 0 None]
  by (simp add: zero_time_def)

text \<open>A rate-limit cooldown ends at the instant upstream named, and always in the future. The
  remembered refusal is live exactly until the retry-after deadline, else the explicit reset,
  else the next Pacific midnight, with and without a tz database; while it is live no
  maintenance runs, and when it ends the token is eligible again.\<close>

lemma rate_limit_window_exact:
  assumes "tz = None \<or> tz = Some us_zone"
  shows "\<exists>u. cooldown_until (cooldown_rate_limit tz now (Some r) s) = u \<and> now < u \<and>
    (rl_retry_after r > 0 \<longrightarrow> u = now + rl_retry_after r) \<and>
    (\<not> rl_retry_after r > 0 \<and> rl_reset_at r \<noteq> zero_time \<and> now < rl_reset_at r \<longrightarrow> u = rl_reset_at r) \<and>
    (\<forall>t. rate_limit_live t (cooldown_rate_limit tz now (Some r) s) = (if t < u then Some r else None)) \<and>
    (\<forall>t. maintenance_eligible t (cooldown_rate_limit tz now (Some r) s) \<longleftrightarrow> u \<le> t)"
proof -
  have "now < upstream_next_pacific_midnight tz now"
    using assms pacific_midnight_fallback_window[of now] before_midnight_iff[of now "pacific_day now + 1"]
    by (auto simp: upstream_midnight_zone) (simp add: upstream_next_pacific_midnight_def)
  then show ?thesis
    by (auto simp: cooldown_rate_limit_def rate_limit_live_def maintenance_eligible_def ban_live_def
        Let_def time_simps)
qed

lemma rate_limit_window_exact_witness:
  "\<exists>u. 0 < u \<and> cooldown_until (cooldown_rate_limit None 0 (Some \<lparr>rl_status = ''rate_limited'', rl_model = '''',
     rl_retry_after = 0, rl_limit = 0, rl_recent_count = 0, rl_reset_at = zero_time, rl_period = '''',
     rl_window = '''', rl_window_hours = 0, rl_freebucks_shortfall = False, rl_body = ''''\<rparr>) no_cooldown) = u"
  using rate_limit_window_exact[of None 0 "\<lparr>rl_status = ''rate_limited'', rl_model = '''',
     rl_retry_after = 0, rl_limit = 0, rl_recent_count = 0, rl_reset_at = zero_time, rl_period = '''',
     rl_window = '''', rl_window_hours = 0, rl_freebucks_shortfall = False, rl_body = ''''\<rparr>" no_cooldown]
  by blast

text \<open>A refused model is skipped exactly while its window is open. After a refusal of model
  \<open>m\<close> is remembered, asking for \<open>m\<close> gives that refusal up to its deadline (retry-after, else the
  explicit reset) and nothing from the deadline on; every other model's memory is as before,
  and an unlock forgets all of them.\<close>

lemma model_refusal_window:
  assumes "m \<noteq> ''''" and "now < park_deadline now r"
  shows "fst (model_rate_limit t m (remember_model_rate_limit now m (Some r) s)) =
      (if t < park_deadline now r then Some r else None) \<and>
    (m' \<noteq> m \<longrightarrow> fst (model_rate_limit t m' (remember_model_rate_limit now m (Some r) s)) =
       fst (model_rate_limit t m' s)) \<and>
    fst (model_rate_limit t m (clear_cooldowns (remember_model_rate_limit now m (Some r) s))) = None"
  using ml.recall_same[of m now r] ml.recall_other[of m m'] assms
  by (auto simp: clear_forgets)

lemma model_refusal_window_witness:
  "fst (model_rate_limit 4 ''glm'' (remember_model_rate_limit 0 ''glm'' (Some \<lparr>rl_status = ''rate_limited'',
     rl_model = ''glm'', rl_retry_after = 5, rl_limit = 0, rl_recent_count = 0, rl_reset_at = zero_time,
     rl_period = '''', rl_window = '''', rl_window_hours = 0, rl_freebucks_shortfall = False,
     rl_body = ''''\<rparr>) no_cooldown)) \<noteq> None"
  using model_refusal_window[of "''glm''" 0 "\<lparr>rl_status = ''rate_limited'',
     rl_model = ''glm'', rl_retry_after = 5, rl_limit = 0, rl_recent_count = 0, rl_reset_at = zero_time,
     rl_period = '''', rl_window = '''', rl_window_hours = 0, rl_freebucks_shortfall = False,
     rl_body = ''''\<rparr>" 4 no_cooldown "''x''"]
  by (simp add: park_deadline_def refusal_deadline_def is_zero_def zero_time_def)

end
