(* ===== verification/Slot_Ledger.thy ===== *)
theory Slot_Ledger
  imports Prelude Complex_Main
begin

text \<open>
  The live-turn slot ledger and the per-model wait queue:
  \<^verbatim>\<open>backend/internal/pool/slot_ledger.go\<close> and \<^verbatim>\<open>backend/internal/pool/model_queue.go\<close>. One function per
  critical section under \<^verbatim>\<open>Pool.routeMu\<close>: a call that parks is an \<open>_enter\<close> function, which
  either answers or leaves a frame behind, and a \<open>_wake\<close> or \<open>_give_up\<close> function for the
  branch its \<^verbatim>\<open>select\<close> takes later. Waiters, frames and permits are heap objects named by
  their position in append-only lists, so that the same permit may be released twice.
  A waiter is parked while it is a member of its queue (its \<^verbatim>\<open>element\<close> is set).

  What the sections read outside the ledger is the record \<open>lane_env\<close>: the roster, the answer
  of \<^verbatim>\<open>laneAdmissible\<close> for a lane, and whether a waiter's \<^verbatim>\<open>ctx\<close> has ended. The releasing
  compare-and-swap of a permit is part of its section: all it does is exclude a second
  release. The snapshot helpers for statistics (\<^verbatim>\<open>slotEntryStats\<close>, \<^verbatim>\<open>slotQueued\<close>) and the
  arrival instants only they read are not modelled.
\<close>

section \<open>Data\<close>

datatype entry_ref = Pooled nat | Bridge nat

type_synonym slot_key = "entry_ref \<times> string"

datatype queue_reason = Queue_Full | Queue_Timeout

record slot_queue_exhausted =
  qe_reason :: queue_reason
  qe_token :: int
  qe_cap :: int
  qe_live :: int
  qe_wait :: duration

record slot_config =
  slots_per_account :: int
  cfg_queue_depth :: int
  cfg_queue_wait :: duration

definition slot_params :: "slot_config option \<Rightarrow> int \<times> int \<times> duration" where
  "slot_params cfg =
     (case cfg of None \<Rightarrow> (2, 16, 30 * second)
      | Some c \<Rightarrow> (slots_per_account c,
          if cfg_queue_depth c \<ge> 0 then cfg_queue_depth c else 16,
          if cfg_queue_wait c > 0 then cfg_queue_wait c else 30 * second))"

record slot_state =
  live :: int
  waiters :: "nat list"

record slot_permit =
  permit_key :: slot_key
  released :: bool

text \<open>A frame of \<^verbatim>\<open>slotAcquire\<close> parked on a lane, with the values its timeout error reports.\<close>

record slot_waiter =
  sw_key :: slot_key
  sw_granted :: bool
  sw_returned :: bool
  sw_timeout :: slot_queue_exhausted

text \<open>A frame of \<^verbatim>\<open>modelPark\<close> parked on a model's queue.\<close>

record model_waiter =
  mw_model :: string
  mw_granted :: bool
  mw_permit :: "nat option"
  mw_lane :: "nat option"
  mw_lane_idx :: int
  mw_returned :: bool
  mw_cap :: int
  mw_wait :: duration

record ledger =
  route_slots :: "slot_key \<rightharpoonup> slot_state"
  route_queues :: "string \<rightharpoonup> nat list"
  permits :: "slot_permit list"
  slot_waiters :: "slot_waiter list"
  model_waiters :: "model_waiter list"

record lane_env =
  env_roster :: "nat list"
  env_admissible :: "nat \<Rightarrow> int \<Rightarrow> string \<Rightarrow> bool"
  env_ctx_done :: "nat \<Rightarrow> bool"

definition empty_ledger :: ledger where
  "empty_ledger = \<lparr>route_slots = Map.empty, route_queues = Map.empty, permits = [],
     slot_waiters = [], model_waiters = []\<rparr>"

definition slot_state_locked :: "slot_key \<Rightarrow> ledger \<Rightarrow> slot_state" where
  "slot_state_locked key s =
     (case route_slots s key of None \<Rightarrow> \<lparr>live = 0, waiters = []\<rparr> | Some st \<Rightarrow> st)"

abbreviation put_slot :: "slot_key \<Rightarrow> slot_state \<Rightarrow> ledger \<Rightarrow> ledger" where
  "put_slot key st s \<equiv> s\<lparr>route_slots := (route_slots s)(key \<mapsto> st)\<rparr>"

definition route_queue_locked :: "string \<Rightarrow> ledger \<Rightarrow> nat list" where
  "route_queue_locked model s = (case route_queues s model of None \<Rightarrow> [] | Some q \<Rightarrow> q)"

definition new_permit :: "slot_key \<Rightarrow> ledger \<Rightarrow> nat \<times> ledger" where
  "new_permit key s =
     (length (permits s), s\<lparr>permits := permits s @ [\<lparr>permit_key = key, released = False\<rparr>]\<rparr>)"

definition slot_live :: "slot_key \<Rightarrow> ledger \<Rightarrow> int" where
  "slot_live key s = (case route_slots s key of None \<Rightarrow> 0 | Some st \<Rightarrow> live st)"

definition model_queue_depth :: "string \<Rightarrow> ledger \<Rightarrow> nat" where
  "model_queue_depth model s = (case route_queues s model of None \<Rightarrow> 0 | Some q \<Rightarrow> length q)"

text \<open>\<^verbatim>\<open>indexOfEntry\<close>: the current roster position of a pooled entry, -1 when it is retired.\<close>

fun index_of_entry :: "nat list \<Rightarrow> nat \<Rightarrow> int" where
  "index_of_entry [] tok = -1"
| "index_of_entry (t # ts) tok =
     (if t = tok then 0 else let i = index_of_entry ts tok in if i < 0 then -1 else i + 1)"

section \<open>Releasing a slot\<close>

text \<open>
  The loop of \<^verbatim>\<open>handoffModelQueueLocked\<close>: waiters whose ctx has ended are dropped from the
  head; the first live one is granted if the freed lane may serve it.
\<close>

fun handoff_scan :: "(nat \<Rightarrow> bool) \<Rightarrow> bool \<Rightarrow> nat list \<Rightarrow> nat list \<times> nat option" where
  "handoff_scan ctx_done adm [] = ([], None)"
| "handoff_scan ctx_done adm (w # ws) =
     (if ctx_done w then handoff_scan ctx_done adm ws
      else if adm then (ws, Some w) else (w # ws, None))"

definition handoff_model_queue_locked :: "lane_env \<Rightarrow> slot_key \<Rightarrow> slot_state \<Rightarrow> ledger \<Rightarrow> ledger" where
  "handoff_model_queue_locked env key st s =
     (case fst key of
        Bridge b \<Rightarrow> s
      | Pooled tok \<Rightarrow>
         (case route_queues s (snd key) of
            None \<Rightarrow> s
          | Some q \<Rightarrow>
              let idx = index_of_entry (env_roster env) tok;
                  adm = (idx \<ge> 0 \<and> env_admissible env tok idx (snd key))
              in case handoff_scan (env_ctx_done env) adm q of
                   (rest, None) \<Rightarrow> s\<lparr>route_queues := (route_queues s)(snd key \<mapsto> rest)\<rparr>
                 | (rest, Some w) \<Rightarrow>
                     (case new_permit key (put_slot key (st\<lparr>live := live st + 1\<rparr>) s) of
                        (p, s1) \<Rightarrow>
                          s1\<lparr>route_queues := (route_queues s1)(snd key := (if rest = [] then None else Some rest)),
                             model_waiters := (model_waiters s1)[w := (model_waiters s1 ! w)
                               \<lparr>mw_granted := True, mw_permit := Some p, mw_lane := Some tok, mw_lane_idx := idx\<rparr>]\<rparr>)))"

definition drop_idle_slot :: "slot_key \<Rightarrow> ledger \<Rightarrow> ledger" where
  "drop_idle_slot key s =
     (case route_slots s key of
        None \<Rightarrow> s
      | Some st \<Rightarrow> if live st = 0 \<and> waiters st = [] then s\<lparr>route_slots := (route_slots s)(key := None)\<rparr> else s)"

definition permit_release :: "lane_env \<Rightarrow> nat option \<Rightarrow> ledger \<Rightarrow> ledger" where
  "permit_release env permit s =
     (case permit of
        None \<Rightarrow> s
      | Some p \<Rightarrow>
          if released (permits s ! p) then s
          else
            let key = permit_key (permits s ! p);
                s = s\<lparr>permits := (permits s)[p := (permits s ! p)\<lparr>released := True\<rparr>]\<rparr>
            in case route_slots s key of
                 None \<Rightarrow> s
               | Some st \<Rightarrow>
                   (case waiters st of
                      w # ws \<Rightarrow>
                        (put_slot key (st\<lparr>waiters := ws\<rparr>) s)
                          \<lparr>slot_waiters := (slot_waiters s)[w := (slot_waiters s ! w)\<lparr>sw_granted := True\<rparr>]\<rparr>
                    | [] \<Rightarrow>
                        let st = (if live st > 0 then st\<lparr>live := live st - 1\<rparr> else st)
                        in drop_idle_slot key (handoff_model_queue_locked env key st (put_slot key st s))))"

section \<open>Taking a slot on a lane\<close>

datatype slot_answer = Slot_Granted nat | Slot_Exhausted slot_queue_exhausted | Slot_Ctx_Error | Slot_Parked nat

definition slot_acquire_enter :: "slot_key \<Rightarrow> int \<Rightarrow> int \<Rightarrow> int \<Rightarrow> duration \<Rightarrow> ledger \<Rightarrow> slot_answer \<times> ledger" where
  "slot_acquire_enter key display_idx cap depth wait s =
     (let cap = (if cap < 1 then 1 else cap);
          st = slot_state_locked key s;
          s = put_slot key st s
      in if live st < cap \<and> waiters st = [] then
           (case new_permit key (put_slot key (st\<lparr>live := live st + 1\<rparr>) s) of
              (p, s1) \<Rightarrow> (Slot_Granted p, s1))
         else if depth \<le> 0 \<or> int (length (waiters st)) \<ge> depth then
           (Slot_Exhausted \<lparr>qe_reason = Queue_Full, qe_token = display_idx, qe_cap = cap,
              qe_live = live st, qe_wait = 0\<rparr>, s)
         else
           let w = length (slot_waiters s);
               frame = \<lparr>sw_key = key, sw_granted = False, sw_returned = False,
                 sw_timeout = \<lparr>qe_reason = Queue_Timeout, qe_token = display_idx, qe_cap = cap,
                   qe_live = live st, qe_wait = wait\<rparr>\<rparr>
           in (Slot_Parked w,
               (put_slot key (st\<lparr>waiters := waiters st @ [w]\<rparr>) s)\<lparr>slot_waiters := slot_waiters s @ [frame]\<rparr>))"

abbreviation slot_frame_returned :: "nat \<Rightarrow> ledger \<Rightarrow> ledger" where
  "slot_frame_returned w s \<equiv>
     s\<lparr>slot_waiters := (slot_waiters s)[w := (slot_waiters s ! w)\<lparr>sw_returned := True\<rparr>]\<rparr>"

text \<open>The waiter's channel was closed: its frame makes the permit for the slot it was handed.\<close>

definition slot_acquire_wake :: "nat \<Rightarrow> ledger \<Rightarrow> slot_answer \<times> ledger" where
  "slot_acquire_wake w s =
     (case new_permit (sw_key (slot_waiters s ! w)) (slot_frame_returned w s) of
        (p, s1) \<Rightarrow> (Slot_Granted p, s1))"

text \<open>The ctx ended (\<open>timed_out\<close> false) or the wait elapsed (true).\<close>

definition slot_acquire_give_up :: "bool \<Rightarrow> nat \<Rightarrow> ledger \<Rightarrow> slot_answer \<times> ledger" where
  "slot_acquire_give_up timed_out w s =
     (let f = slot_waiters s ! w in
      if sw_granted f then slot_acquire_wake w s
      else
        (if timed_out then Slot_Exhausted (sw_timeout f) else Slot_Ctx_Error,
         (case route_slots s (sw_key f) of
            None \<Rightarrow> slot_frame_returned w s
          | Some st \<Rightarrow> put_slot (sw_key f) (st\<lparr>waiters := remove1 w (waiters st)\<rparr>) (slot_frame_returned w s))))"

definition slot_try :: "slot_key \<Rightarrow> int \<Rightarrow> ledger \<Rightarrow> (nat option \<times> int \<times> bool) \<times> ledger" where
  "slot_try key cap s =
     (let st = slot_state_locked key s; s = put_slot key st s
      in if live st \<ge> cap then ((None, live st, False), s)
         else case new_permit key (put_slot key (st\<lparr>live := live st + 1\<rparr>) s) of
                (p, s1) \<Rightarrow> ((Some p, live st + 1, True), s1))"

section \<open>The model queue\<close>

definition remove_model_waiter_locked :: "string \<Rightarrow> nat \<Rightarrow> ledger \<Rightarrow> ledger" where
  "remove_model_waiter_locked model w s =
     (case route_queues s model of
        None \<Rightarrow> s
      | Some q \<Rightarrow>
          let q = remove1 w q
          in s\<lparr>route_queues := (route_queues s)(model := (if q = [] then None else Some q))\<rparr>)"

text \<open>\<^verbatim>\<open>modelHeadLocked\<close>: the first admissible lane in roster order and its live count.\<close>

fun model_head :: "lane_env \<Rightarrow> string \<Rightarrow> int \<Rightarrow> nat list \<Rightarrow> ledger \<Rightarrow> int \<times> int" where
  "model_head env model i [] s = (-1, 0)"
| "model_head env model i (tok # toks) s =
     (if env_admissible env tok i model then (i, slot_live (Pooled tok, model) s)
      else model_head env model (i + 1) toks s)"

definition model_head_locked :: "lane_env \<Rightarrow> string \<Rightarrow> ledger \<Rightarrow> int \<times> int" where
  "model_head_locked env model s = model_head env model 0 (env_roster env) s"

datatype park_answer =
    Park_Granted "nat option" "nat option" int
  | Park_Exhausted slot_queue_exhausted
  | Park_Ctx_Error
  | Parked nat

definition model_exhausted :: "lane_env \<Rightarrow> string \<Rightarrow> queue_reason \<Rightarrow> int \<Rightarrow> duration \<Rightarrow> ledger \<Rightarrow> slot_queue_exhausted" where
  "model_exhausted env model reason cap wait s =
     (case model_head_locked env model s of
        (i, l) \<Rightarrow> \<lparr>qe_reason = reason, qe_token = (if i \<ge> 0 then i + 1 else 0), qe_cap = cap, qe_live = l, qe_wait = wait\<rparr>)"

definition model_park_enter ::
  "lane_env \<Rightarrow> string \<Rightarrow> int \<Rightarrow> int \<Rightarrow> duration \<Rightarrow> bool \<Rightarrow> ledger \<Rightarrow> park_answer \<times> ledger" where
  "model_park_enter env model cap depth wait front s =
     (let q = route_queue_locked model s;
          s = s\<lparr>route_queues := (route_queues s)(model \<mapsto> q)\<rparr>
      in if depth \<le> 0 \<or> int (length q) \<ge> depth then
           (Park_Exhausted (model_exhausted env model Queue_Full cap 0 s), s)
         else
           let w = length (model_waiters s);
               frame = \<lparr>mw_model = model, mw_granted = False, mw_permit = None, mw_lane = None,
                 mw_lane_idx = -1, mw_returned = False, mw_cap = cap, mw_wait = wait\<rparr>
           in (Parked w,
               s\<lparr>route_queues := (route_queues s)(model \<mapsto> (if front then w # q else q @ [w])),
                 model_waiters := model_waiters s @ [frame]\<rparr>))"

abbreviation model_frame_returned :: "nat \<Rightarrow> ledger \<Rightarrow> ledger" where
  "model_frame_returned w s \<equiv>
     s\<lparr>model_waiters := (model_waiters s)[w := (model_waiters s ! w)\<lparr>mw_returned := True\<rparr>]\<rparr>"

definition model_park_wake :: "nat \<Rightarrow> ledger \<Rightarrow> park_answer \<times> ledger" where
  "model_park_wake w s =
     (let f = model_waiters s ! w
      in (Park_Granted (mw_permit f) (mw_lane f) (mw_lane_idx f), model_frame_returned w s))"

definition model_park_give_up :: "lane_env \<Rightarrow> bool \<Rightarrow> nat \<Rightarrow> ledger \<Rightarrow> park_answer \<times> ledger" where
  "model_park_give_up env timed_out w s =
     (let f = model_waiters s ! w in
      if mw_granted f then model_park_wake w s
      else
        (if timed_out then Park_Exhausted (model_exhausted env (mw_model f) Queue_Timeout (mw_cap f) (mw_wait f) s)
         else Park_Ctx_Error,
         remove_model_waiter_locked (mw_model f) w (model_frame_returned w s)))"

end
