(* ===== verification/Slot_Invariants.thy ===== *)
theory Slot_Invariants
  imports Slot_Ledger
begin

text \<open>
  What the slot ledger keeps: the step relation of its critical sections, the invariant split
  into one named conjunct per part of the state, one preservation lemma per conjunct and
  operation, and the properties of permits, lanes and queues.
\<close>

section \<open>Steps\<close>

text \<open>
  \<open>cap_max\<close> bounds the live cap of every call (the cap of a call may change with a
  configuration reload). Bridge lanes take slots through \<^verbatim>\<open>slotAcquire\<close>, pooled lanes through
  \<^verbatim>\<open>slotTry\<close> with a positive cap and the model queue. A permit is released by its owner, so not
  before the frame that was granted it has returned; it may be released any number of times.
\<close>

definition undelivered :: "nat \<Rightarrow> ledger \<Rightarrow> bool" where
  "undelivered p s \<longleftrightarrow>
     list_ex (\<lambda>f. mw_granted f \<and> \<not> mw_returned f \<and> mw_permit f = Some p) (model_waiters s)"

inductive ledger_step :: "int \<Rightarrow> ledger \<Rightarrow> ledger \<Rightarrow> bool" for cap_max where
  step_bridge_enter: "cap \<le> cap_max \<Longrightarrow>
     ledger_step cap_max s (snd (slot_acquire_enter (Bridge b, model) idx cap depth wait s))"
| step_bridge_wake: "w < length (slot_waiters s) \<Longrightarrow> sw_granted (slot_waiters s ! w) \<Longrightarrow>
     \<not> sw_returned (slot_waiters s ! w) \<Longrightarrow> ledger_step cap_max s (snd (slot_acquire_wake w s))"
| step_bridge_give_up: "w < length (slot_waiters s) \<Longrightarrow> \<not> sw_returned (slot_waiters s ! w) \<Longrightarrow>
     ledger_step cap_max s (snd (slot_acquire_give_up timed_out w s))"
| step_try: "1 \<le> cap \<Longrightarrow> cap \<le> cap_max \<Longrightarrow>
     ledger_step cap_max s (snd (slot_try (Pooled tok, model) cap s))"
| step_release: "p < length (permits s) \<Longrightarrow> \<not> undelivered p s \<Longrightarrow>
     ledger_step cap_max s (permit_release env (Some p) s)"
| step_park_enter: "ledger_step cap_max s (snd (model_park_enter env model cap depth wait front s))"
| step_park_wake: "w < length (model_waiters s) \<Longrightarrow> mw_granted (model_waiters s ! w) \<Longrightarrow>
     \<not> mw_returned (model_waiters s ! w) \<Longrightarrow> ledger_step cap_max s (snd (model_park_wake w s))"
| step_park_give_up: "w < length (model_waiters s) \<Longrightarrow> \<not> mw_returned (model_waiters s ! w) \<Longrightarrow>
     ledger_step cap_max s (snd (model_park_give_up env timed_out w s))"

abbreviation ledger_start :: "ledger \<Rightarrow> bool" where
  "ledger_start s \<equiv> s = empty_ledger"

section \<open>The invariant\<close>

text \<open>Permits that are out for a lane, and waiters that were handed one of its slots and have
  not woken up yet.\<close>

definition held :: "slot_key \<Rightarrow> ledger \<Rightarrow> int" where
  "held key s = count_if (\<lambda>p. permit_key p = key \<and> \<not> released p) (permits s)"

definition in_transit :: "slot_key \<Rightarrow> ledger \<Rightarrow> int" where
  "in_transit key s = count_if (\<lambda>f. sw_key f = key \<and> sw_granted f \<and> \<not> sw_returned f) (slot_waiters s)"

definition waiters_of :: "slot_key \<Rightarrow> ledger \<Rightarrow> nat list" where
  "waiters_of key s = (case route_slots s key of None \<Rightarrow> [] | Some st \<Rightarrow> waiters st)"

definition frame_parked :: "slot_key \<Rightarrow> slot_waiter \<Rightarrow> bool" where
  "frame_parked key f \<longleftrightarrow> sw_key f = key \<and> \<not> sw_granted f \<and> \<not> sw_returned f"

text \<open>The frames parked on a lane in the order they arrived.\<close>

definition parked_frames :: "slot_key \<Rightarrow> ledger \<Rightarrow> nat list" where
  "parked_frames key s = filter (\<lambda>w. frame_parked key (slot_waiters s ! w)) [0..<length (slot_waiters s)]"

definition accounted :: "ledger \<Rightarrow> bool" where
  "accounted s \<longleftrightarrow> (\<forall>key. slot_live key s = held key s + in_transit key s)"

definition lanes_ok :: "int \<Rightarrow> ledger \<Rightarrow> bool" where
  "lanes_ok cap_max s \<longleftrightarrow>
     (\<forall>key st. route_slots s key = Some st \<longrightarrow> 0 < live st \<and> live st \<le> max 1 cap_max)"

definition fifo_ok :: "ledger \<Rightarrow> bool" where
  "fifo_ok s \<longleftrightarrow> (\<forall>key. waiters_of key s = parked_frames key s)"

definition is_bridge :: "entry_ref \<Rightarrow> bool" where
  "is_bridge e = (case e of Bridge b \<Rightarrow> True | Pooled t \<Rightarrow> False)"

definition frames_bridge :: "ledger \<Rightarrow> bool" where
  "frames_bridge s \<longleftrightarrow> list_all is_bridge (map (\<lambda>f. fst (sw_key f)) (slot_waiters s))"

definition queues_ok :: "ledger \<Rightarrow> bool" where
  "queues_ok s \<longleftrightarrow>
     (\<forall>model. distinct (route_queue_locked model s) \<and>
        (\<forall>w \<in> set (route_queue_locked model s). w < length (model_waiters s) \<and>
           mw_model (model_waiters s ! w) = model \<and> \<not> mw_granted (model_waiters s ! w) \<and>
           \<not> mw_returned (model_waiters s ! w)))"

definition grant_ok :: "ledger \<Rightarrow> model_waiter \<Rightarrow> bool" where
  "grant_ok s f \<longleftrightarrow>
     (if mw_granted f
      then mw_permit f \<noteq> None \<and> mw_lane f \<noteq> None \<and> the (mw_permit f) < length (permits s) \<and>
        permit_key (permits s ! the (mw_permit f)) = (Pooled (the (mw_lane f)), mw_model f) \<and>
        (\<not> mw_returned f \<longrightarrow> \<not> released (permits s ! the (mw_permit f))) \<and> 0 \<le> mw_lane_idx f
      else mw_permit f = None \<and> mw_lane f = None)"

definition grants_ok :: "ledger \<Rightarrow> bool" where
  "grants_ok s \<longleftrightarrow> (\<forall>f \<in> set (model_waiters s). grant_ok s f)"

definition ledger_inv :: "int \<Rightarrow> ledger \<Rightarrow> bool" where
  "ledger_inv cap_max s \<longleftrightarrow> accounted s \<and> lanes_ok cap_max s \<and> fifo_ok s \<and> frames_bridge s \<and>
     queues_ok s \<and> grants_ok s"

lemmas ledger_inv_defs = accounted_def lanes_ok_def fifo_ok_def queues_ok_def
  grants_ok_def

lemmas ledger_reads = slot_live_def held_def in_transit_def waiters_of_def parked_frames_def
  route_queue_locked_def slot_state_locked_def new_permit_def

lemma ledger_inv_start: "ledger_inv cap_max empty_ledger"
  by (simp add: ledger_inv_def ledger_inv_defs frames_bridge_def ledger_reads empty_ledger_def)


section \<open>Preservation\<close>

declare split_paired_All [simp del] split_paired_Ex [simp del]

text \<open>Each reading depends on one part of the ledger only.\<close>

lemma read_frames [simp]:
  "slot_live k (s\<lparr>route_queues := x1\<rparr>) = slot_live k s"
  "slot_live k (s\<lparr>permits := x2\<rparr>) = slot_live k s"
  "slot_live k (s\<lparr>slot_waiters := x3\<rparr>) = slot_live k s"
  "slot_live k (s\<lparr>model_waiters := x4\<rparr>) = slot_live k s"
  "waiters_of k (s\<lparr>route_queues := x1\<rparr>) = waiters_of k s"
  "waiters_of k (s\<lparr>permits := x2\<rparr>) = waiters_of k s"
  "waiters_of k (s\<lparr>slot_waiters := x3\<rparr>) = waiters_of k s"
  "waiters_of k (s\<lparr>model_waiters := x4\<rparr>) = waiters_of k s"
  "held k (s\<lparr>route_slots := x0\<rparr>) = held k s"
  "held k (s\<lparr>route_queues := x1\<rparr>) = held k s"
  "held k (s\<lparr>slot_waiters := x3\<rparr>) = held k s"
  "held k (s\<lparr>model_waiters := x4\<rparr>) = held k s"
  "in_transit k (s\<lparr>route_slots := x0\<rparr>) = in_transit k s"
  "in_transit k (s\<lparr>route_queues := x1\<rparr>) = in_transit k s"
  "in_transit k (s\<lparr>permits := x2\<rparr>) = in_transit k s"
  "in_transit k (s\<lparr>model_waiters := x4\<rparr>) = in_transit k s"
  "parked_frames k (s\<lparr>route_slots := x0\<rparr>) = parked_frames k s"
  "parked_frames k (s\<lparr>route_queues := x1\<rparr>) = parked_frames k s"
  "parked_frames k (s\<lparr>permits := x2\<rparr>) = parked_frames k s"
  "parked_frames k (s\<lparr>model_waiters := x4\<rparr>) = parked_frames k s"
  "route_queue_locked m (s\<lparr>route_slots := x0\<rparr>) = route_queue_locked m s"
  "route_queue_locked m (s\<lparr>permits := x2\<rparr>) = route_queue_locked m s"
  "route_queue_locked m (s\<lparr>slot_waiters := x3\<rparr>) = route_queue_locked m s"
  "route_queue_locked m (s\<lparr>model_waiters := x4\<rparr>) = route_queue_locked m s"
  by (simp_all add: ledger_reads cong: option.case_cong)

lemma waiters_of_put [simp]:
  "waiters_of k (s\<lparr>route_slots := (route_slots s')(key \<mapsto> st)\<rparr>) =
     (if k = key then waiters st else waiters_of k s')"
  by (simp add: waiters_of_def)

lemma slot_live_put [simp]:
  "slot_live k (s\<lparr>route_slots := (route_slots s')(key \<mapsto> st)\<rparr>) =
     (if k = key then live st else slot_live k s')"
  by (simp add: slot_live_def)

lemma waiters_locked [simp]: "waiters (slot_state_locked key s) = waiters_of key s"
  by (simp add: slot_state_locked_def waiters_of_def split: option.split)

lemma live_locked [simp]: "live (slot_state_locked key s) = slot_live key s"
  by (simp add: slot_state_locked_def slot_live_def split: option.split)

lemma held_new [simp]:
  "held k (s\<lparr>permits := permits s' @ [\<lparr>permit_key = key, released = False\<rparr>]\<rparr>) =
     held k s' + (if k = key then 1 else 0)"
  by (auto simp: held_def)

lemma new_permit_snd: "snd (new_permit key s) = s\<lparr>permits := permits s @ [\<lparr>permit_key = key, released = False\<rparr>]\<rparr>"
  by (simp add: new_permit_def)

lemma grant_ok_snoc: "grant_ok s f \<Longrightarrow> permits t = permits s @ ps \<Longrightarrow> grant_ok t f"
  by (auto simp: grant_ok_def nth_append)

lemma grant_ok_same [simp]:
  "grant_ok (s\<lparr>route_slots := x1\<rparr>) = grant_ok s" "grant_ok (s\<lparr>route_queues := x2\<rparr>) = grant_ok s"
  "grant_ok (s\<lparr>slot_waiters := x3\<rparr>) = grant_ok s" "grant_ok (s\<lparr>model_waiters := x4\<rparr>) = grant_ok s"
  by (auto simp: grant_ok_def fun_eq_iff)

lemma frames_bridge_same [simp]:
  "frames_bridge (s\<lparr>route_slots := x0\<rparr>) = frames_bridge s" "frames_bridge (s\<lparr>route_queues := x1\<rparr>) = frames_bridge s"
  "frames_bridge (s\<lparr>permits := x2\<rparr>) = frames_bridge s" "frames_bridge (s\<lparr>model_waiters := x4\<rparr>) = frames_bridge s"
  by (simp_all add: frames_bridge_def)

lemma frames_bridge_snoc [simp]:
  "frames_bridge (s\<lparr>slot_waiters := slot_waiters s' @ [f]\<rparr>) \<longleftrightarrow> frames_bridge s' \<and> is_bridge (fst (sw_key f))"
  by (simp add: frames_bridge_def)

lemma frames_bridge_update:
  assumes "w < length (slot_waiters s')" "sw_key f = sw_key (slot_waiters s' ! w)"
  shows "frames_bridge (s\<lparr>slot_waiters := (slot_waiters s')[w := f]\<rparr>) = frames_bridge s'"
proof -
  have "map (\<lambda>f. fst (sw_key f)) ((slot_waiters s')[w := f]) = map (\<lambda>f. fst (sw_key f)) (slot_waiters s')"
    using assms by (simp add: map_update list_update_same_conv)
  then show ?thesis by (simp add: frames_bridge_def)
qed

lemma live_nonneg: "lanes_ok c s \<Longrightarrow> 0 \<le> slot_live key s"
  by (auto simp: slot_live_def lanes_ok_def split: option.split intro: less_imp_le)

text \<open>Taking a free slot: the lane counts one more and one more permit is out for it.\<close>

lemma take_inv:
  assumes "ledger_inv c s" "slot_live key s < max 1 c"
  shows "ledger_inv c (snd (new_permit key (put_slot key (slot_state_locked key s\<lparr>live := slot_live key s + 1\<rparr>) s)))"
  using assms live_nonneg[of c s key]
  unfolding ledger_inv_def ledger_inv_defs new_permit_snd
  by (auto intro: grant_ok_snoc)

lemma put_same:
  assumes "0 < slot_live key s"
  shows "put_slot key (slot_state_locked key s) s = s"
proof -
  from assms obtain st where "route_slots s key = Some st"
    by (auto simp: slot_live_def split: option.splits)
  then show ?thesis by (simp add: slot_state_locked_def fun_upd_idem)
qed

lemma slot_try_inv [step_intros]:
  assumes "ledger_inv c s" "1 \<le> cap" "cap \<le> c"
  shows "ledger_inv c (snd (slot_try key cap s))"
  using assms take_inv[of c s key] put_same[of key s]
  by (auto simp: slot_try_def Let_def split: prod.split)


text \<open>Frames on a lane.\<close>

lemma parked_snoc [simp]:
  "parked_frames k (s\<lparr>slot_waiters := slot_waiters s' @ [f]\<rparr>) =
     parked_frames k s' @ (if frame_parked k f then [length (slot_waiters s')] else [])"
proof -
  have "filter (\<lambda>w. frame_parked k ((slot_waiters s' @ [f]) ! w)) [0..<length (slot_waiters s')] =
      filter (\<lambda>w. frame_parked k (slot_waiters s' ! w)) [0..<length (slot_waiters s')]"
    by (rule filter_upt_same) (simp add: nth_append)
  then show ?thesis by (simp add: parked_frames_def)
qed

lemma parked_update:
  assumes "w < length (slot_waiters s')" "\<And>k. \<not> frame_parked k f"
  shows "parked_frames k (s\<lparr>slot_waiters := (slot_waiters s')[w := f]\<rparr>) = remove1 w (parked_frames k s')"
  unfolding parked_frames_def using assms by simp (rule filter_upt_remove, simp add: nth_list_update)

lemma in_transit_snoc [simp]:
  "in_transit k (s\<lparr>slot_waiters := slot_waiters s' @ [f]\<rparr>) =
     in_transit k s' + (if sw_key f = k \<and> sw_granted f \<and> \<not> sw_returned f then 1 else 0)"
  by (simp add: in_transit_def)

lemma in_transit_update:
  "w < length (slot_waiters s') \<Longrightarrow>
   in_transit k (s\<lparr>slot_waiters := (slot_waiters s')[w := f]\<rparr>) = in_transit k s'
     - (if sw_key (slot_waiters s' ! w) = k \<and> sw_granted (slot_waiters s' ! w) \<and> \<not> sw_returned (slot_waiters s' ! w) then 1 else 0)
     + (if sw_key f = k \<and> sw_granted f \<and> \<not> sw_returned f then 1 else 0)"
  by (simp add: in_transit_def count_if_update)

lemma set_parked: "set (parked_frames k s) = {w. w < length (slot_waiters s) \<and> frame_parked k (slot_waiters s ! w)}"
  by (auto simp: parked_frames_def)

lemma waiters_live:
  assumes "ledger_inv c s" "waiters_of key s \<noteq> []"
  shows "0 < slot_live key s"
  using assms by (auto simp: ledger_inv_def lanes_ok_def waiters_of_def slot_live_def split: option.splits)

lemma park_inv:
  assumes "ledger_inv c s" "0 < slot_live key s" "sw_key f = key" "\<not> sw_granted f" "\<not> sw_returned f"
    "fst key = Bridge b"
  shows "ledger_inv c ((put_slot key (slot_state_locked key s\<lparr>waiters := waiters_of key s @ [length (slot_waiters s)]\<rparr>) s)
    \<lparr>slot_waiters := slot_waiters s @ [f]\<rparr>)"
proof -
  have "0 < slot_live key s" "slot_live key s \<le> max 1 c"
    using assms(1,2) by (auto simp: ledger_inv_def lanes_ok_def slot_live_def split: option.splits)
  then show ?thesis
    using assms unfolding ledger_inv_def ledger_inv_defs
    by (auto simp: frame_parked_def is_bridge_def)
qed

lemma slot_acquire_enter_inv [step_intros]:
  assumes "ledger_inv c s" "cap \<le> c"
  shows "ledger_inv c (snd (slot_acquire_enter (Bridge b, m) idx cap depth wait s))"
proof -
  define cap' where "cap' = (if cap < 1 then 1 else cap)"
  have cap': "cap' \<le> max 1 c" using assms(2) by (simp add: cap'_def)
  show ?thesis
  proof (cases "slot_live (Bridge b, m) s < cap' \<and> waiters_of (Bridge b, m) s = []")
    case True
    with take_inv[OF assms(1), of "(Bridge b, m)"] cap' show ?thesis
      unfolding slot_acquire_enter_def Let_def cap'_def[symmetric] by (simp add: new_permit_def)
  next
    case False
    moreover from this have l: "0 < slot_live (Bridge b, m) s"
      using waiters_live[OF assms(1), of "(Bridge b, m)"] by (auto simp: cap'_def split: if_splits)
    ultimately show ?thesis
      using park_inv[OF assms(1), of "(Bridge b, m)"] assms(1) put_same[OF l]
      unfolding slot_acquire_enter_def Let_def cap'_def[symmetric] by auto
  qed
qed

lemma slot_acquire_wake_inv [step_intros]:
  assumes "ledger_inv c s" "w < length (slot_waiters s)" "sw_granted (slot_waiters s ! w)"
    "\<not> sw_returned (slot_waiters s ! w)"
  shows "ledger_inv c (snd (slot_acquire_wake w s))"
proof -
  have "w \<notin> set (parked_frames k s)" for k using assms(3) by (simp add: set_parked frame_parked_def)
  then show ?thesis
    using assms frames_bridge_update[of w s]
    unfolding ledger_inv_def ledger_inv_defs slot_acquire_wake_def
    by (auto simp: new_permit_def in_transit_update parked_update frame_parked_def remove1_idem
        intro: grant_ok_snoc)
qed

lemma waiters_remove:
  "waiters_of k (case route_slots s key of
      None \<Rightarrow> s' | Some st \<Rightarrow> s'\<lparr>route_slots := (route_slots s)(key \<mapsto> st\<lparr>waiters := remove1 w (waiters st)\<rparr>)\<rparr>) =
     (if k = key then remove1 w (waiters_of key s) else waiters_of k s)"
  if "route_slots s' = route_slots s"
  using that by (auto simp: waiters_of_def split: option.splits)

lemma slot_acquire_give_up_inv [step_intros]:
  assumes "ledger_inv c s" "w < length (slot_waiters s)" "\<not> sw_returned (slot_waiters s ! w)"
  shows "ledger_inv c (snd (slot_acquire_give_up timed_out w s))"
proof (cases "sw_granted (slot_waiters s ! w)")
  case True
  with slot_acquire_wake_inv[OF assms(1,2) True assms(3)] show ?thesis
    by (simp add: slot_acquire_give_up_def Let_def)
next
  case False
  let ?key = "sw_key (slot_waiters s ! w)"
  have w: "w \<in> set (waiters_of ?key s)" "\<And>k. k \<noteq> ?key \<Longrightarrow> w \<notin> set (waiters_of k s)"
    using assms False by (auto simp: ledger_inv_def fifo_ok_def set_parked frame_parked_def)
  from w(1) obtain st where st: "route_slots s ?key = Some st"
    by (cases "route_slots s ?key") (auto simp: waiters_of_def)
  then have l: "0 < live st" "live st \<le> max 1 c" "slot_live ?key s = live st" "waiters_of ?key s = waiters st"
    using assms(1) by (auto simp: ledger_inv_def lanes_ok_def slot_live_def waiters_of_def)
  show ?thesis
    using assms False st l w frames_bridge_update[of w s]
    unfolding ledger_inv_def ledger_inv_defs slot_acquire_give_up_def
    by (auto simp: Let_def in_transit_update parked_update frame_parked_def remove1_idem)
qed

text \<open>Releasing: the permit is marked, then the slot goes to a lane waiter, to the model queue,
  or back to the lane.\<close>

abbreviation mark_released :: "nat \<Rightarrow> ledger \<Rightarrow> ledger" where
  "mark_released p s \<equiv> s\<lparr>permits := (permits s)[p := (permits s ! p)\<lparr>released := True\<rparr>]\<rparr>"

lemma held_mark:
  "p < length (permits s') \<Longrightarrow> \<not> released (permits s' ! p) \<Longrightarrow>
   held k (s\<lparr>permits := (permits s')[p := (permits s' ! p)\<lparr>released := True\<rparr>]\<rparr>) =
     held k s' - (if k = permit_key (permits s' ! p) then 1 else 0)"
  by (auto simp: held_def count_if_update)

lemma grants_mark:
  assumes "grants_ok s" "p < length (permits s)" "\<not> undelivered p s" "f \<in> set (model_waiters s)"
  shows "grant_ok (mark_released p s) f"
  using assms by (auto simp: grants_ok_def grant_ok_def undelivered_def list_ex_iff nth_list_update)

lemma release_lane_live:
  assumes "ledger_inv c s" "p < length (permits s)" "\<not> released (permits s ! p)"
  obtains st where "route_slots s (permit_key (permits s ! p)) = Some st" "0 < live st"
proof -
  have "0 < held (permit_key (permits s ! p)) s"
    unfolding held_def by (rule count_if_pos[of "permits s ! p"]) (use assms in auto)
  moreover have "0 \<le> in_transit (permit_key (permits s ! p)) s"
    by (simp add: in_transit_def count_if_nonneg)
  ultimately have "0 < slot_live (permit_key (permits s ! p)) s"
    using assms(1) by (simp add: ledger_inv_def accounted_def)
  then show ?thesis using that by (auto simp: slot_live_def split: option.splits)
qed

lemma release_to_waiter_inv:
  assumes inv: "ledger_inv c s" and p: "p < length (permits s)" "\<not> undelivered p s" "\<not> released (permits s ! p)"
    and key: "key = permit_key (permits s ! p)" "route_slots s key = Some st" "waiters st = w # ws"
  shows "ledger_inv c ((put_slot key (st\<lparr>waiters := ws\<rparr>) (mark_released p s))
     \<lparr>slot_waiters := (slot_waiters s)[w := (slot_waiters s ! w)\<lparr>sw_granted := True\<rparr>]\<rparr>)"
proof -
  have wo: "waiters_of key s = w # ws" "slot_live key s = live st"
    using key by (simp_all add: waiters_of_def slot_live_def)
  then have w: "w < length (slot_waiters s)" "frame_parked key (slot_waiters s ! w)"
    using inv set_parked[of key s] by (auto simp: ledger_inv_def fifo_ok_def)
  then have wk: "sw_key (slot_waiters s ! w) = key" "\<not> sw_granted (slot_waiters s ! w)" "\<not> sw_returned (slot_waiters s ! w)"
    by (simp_all add: frame_parked_def)
  have other: "w \<notin> set (waiters_of k s)" if "k \<noteq> key" for k
    using inv that wk by (auto simp: ledger_inv_def fifo_ok_def set_parked frame_parked_def)
  have "0 < live st" "live st \<le> max 1 c"
    using inv key(2) by (auto simp: ledger_inv_def lanes_ok_def)
  then show ?thesis
    using inv p key wo w wk other grants_mark[of s p] frames_bridge_update[of w s]
    unfolding ledger_inv_def ledger_inv_defs
    by (auto simp: in_transit_update parked_update held_mark frame_parked_def remove1_idem)
qed

lemma drop_idle_reads [simp]:
  "slot_live k (drop_idle_slot key s) = slot_live k s" "waiters_of k (drop_idle_slot key s) = waiters_of k s"
  "held k (drop_idle_slot key s) = held k s" "in_transit k (drop_idle_slot key s) = in_transit k s"
  "parked_frames k (drop_idle_slot key s) = parked_frames k s"
  "route_queue_locked m (drop_idle_slot key s) = route_queue_locked m s"
  "frames_bridge (drop_idle_slot key s) = frames_bridge s" "grant_ok (drop_idle_slot key s) = grant_ok s"
  "model_waiters (drop_idle_slot key s) = model_waiters s"
  "route_queues (drop_idle_slot key s) = route_queues s" "permits (drop_idle_slot key s) = permits s"
  "slot_waiters (drop_idle_slot key s) = slot_waiters s"
  by (auto simp: drop_idle_slot_def slot_live_def waiters_of_def fun_upd_def split: option.splits)

lemma drop_idle_lanes:
  "lanes_ok c s \<Longrightarrow> route_slots t = (route_slots s)(key \<mapsto> st) \<Longrightarrow> 0 \<le> live st \<Longrightarrow> live st \<le> max 1 c \<Longrightarrow>
   waiters st = [] \<Longrightarrow> lanes_ok c (drop_idle_slot key t)"
  by (auto simp: lanes_ok_def drop_idle_slot_def split: if_splits)

lemma queue_put [simp]:
  "route_queue_locked k (s\<lparr>route_queues := (route_queues s')(m := x)\<rparr>) =
     (if k = m then (case x of None \<Rightarrow> [] | Some q \<Rightarrow> q) else route_queue_locked k s')"
  by (simp add: route_queue_locked_def)

lemma queues_shrink:
  assumes "queues_ok s" "distinct rest" "set rest \<subseteq> set (route_queue_locked m s)"
    "model_waiters t = model_waiters s"
    "\<And>k. route_queue_locked k t = (if k = m then rest else route_queue_locked k s)"
  shows "queues_ok t"
  using assms by (fastforce simp: queues_ok_def)

lemma handoff_scan_sub:
  "handoff_scan d a q = (rest, r) \<Longrightarrow> set rest \<subseteq> set q \<and> (distinct q \<longrightarrow> distinct rest) \<and>
     (case r of None \<Rightarrow> True | Some w \<Rightarrow> a \<and> \<not> d w \<and> w \<in> set q \<and> (distinct q \<longrightarrow> w \<notin> set rest))"
  by (induction q) (auto split: if_splits option.splits)

lemma index_of_entry_nonneg: "index_of_entry ts tok \<ge> 0 \<or> index_of_entry ts tok = -1"
  by (induction ts) (auto simp: Let_def)

text \<open>The lane gets its slot back, dead waiters may leave the queue.\<close>

lemma release_plain_inv:
  assumes inv: "ledger_inv c s" and p: "p < length (permits s)" "\<not> undelivered p s" "\<not> released (permits s ! p)"
    and key: "key = permit_key (permits s ! p)" "route_slots s key = Some st" "waiters st = []"
    and t: "t = mark_released p s \<lparr>route_slots := (route_slots s)(key \<mapsto> st\<lparr>live := live st - 1\<rparr>), route_queues := qs\<rparr>"
    and qs: "distinct rest" "set rest \<subseteq> set (route_queue_locked m s)"
      "\<And>k. (case qs k of None \<Rightarrow> [] | Some q \<Rightarrow> q) = (if k = m then rest else route_queue_locked k s)"
  shows "ledger_inv c (drop_idle_slot key t)"
proof -
  have l: "0 < live st" "live st \<le> max 1 c" "slot_live key s = live st" "waiters_of key s = []"
    using inv key by (auto simp: ledger_inv_def lanes_ok_def slot_live_def waiters_of_def)
  have "queues_ok (drop_idle_slot key t)"
    by (rule queues_shrink[where s = s and m = m and rest = rest])
      (use inv qs in \<open>simp_all add: ledger_inv_def t route_queue_locked_def\<close>)
  moreover have "lanes_ok c (drop_idle_slot key t)"
    by (rule drop_idle_lanes[of c s _ key "st\<lparr>live := live st - 1\<rparr>"])
      (use inv l key in \<open>simp_all add: ledger_inv_def t\<close>)
  ultimately show ?thesis
    using inv p key l grants_mark[of s p]
    unfolding ledger_inv_def accounted_def fifo_ok_def grants_ok_def
    by (simp add: t held_mark)
qed

text \<open>The slot goes to a waiter of the model queue: a new permit is out for the same lane.\<close>

lemma release_handoff_inv:
  assumes inv: "ledger_inv c s" and p: "p < length (permits s)" "\<not> undelivered p s" "\<not> released (permits s ! p)"
    and key: "(Pooled tok, m) = permit_key (permits s ! p)" "route_slots s (Pooled tok, m) = Some st"
    and q: "distinct rest" "set rest \<subseteq> set (route_queue_locked m s)" "w \<in> set (route_queue_locked m s)" "w \<notin> set rest"
    and i: "0 \<le> i"
    and t: "t = (mark_released p s)
      \<lparr>permits := permits (mark_released p s) @ [\<lparr>permit_key = (Pooled tok, m), released = False\<rparr>],
       route_queues := (route_queues s)(m := (if rest = [] then None else Some rest)),
       model_waiters := (model_waiters s)[w := (model_waiters s ! w)
         \<lparr>mw_granted := True, mw_permit := Some (length (permits s)), mw_lane := Some tok, mw_lane_idx := i\<rparr>]\<rparr>"
  shows "ledger_inv c t"
proof -
  have w: "w < length (model_waiters s)" "mw_model (model_waiters s ! w) = m" "\<not> mw_granted (model_waiters s ! w)"
    using inv q(3) by (auto simp: ledger_inv_def queues_ok_def)
  have other: "w \<notin> set (route_queue_locked k s)" if "k \<noteq> m" for k
    using inv that w(2) by (auto simp: ledger_inv_def queues_ok_def)
  have "queues_ok t"
    unfolding queues_ok_def
  proof (intro allI conjI ballI)
    fix k
    show "distinct (route_queue_locked k t)"
      using inv q(1) by (auto simp: t ledger_inv_def queues_ok_def)
    fix v
    assume "v \<in> set (route_queue_locked k t)"
    then have v: "v \<in> set (route_queue_locked k s)" "v \<noteq> w"
      using q(2,4) other by (auto simp: t split: if_splits)
    then have "v < length (model_waiters s)" "mw_model (model_waiters s ! v) = k"
      "\<not> mw_granted (model_waiters s ! v)" "\<not> mw_returned (model_waiters s ! v)"
      using inv by (auto simp: ledger_inv_def queues_ok_def)
    then show "v < length (model_waiters t)" "mw_model (model_waiters t ! v) = k"
      "\<not> mw_granted (model_waiters t ! v)" "\<not> mw_returned (model_waiters t ! v)"
      using v(2) by (simp_all add: t)
  qed
  moreover have "grants_ok t"
  proof -
    have "grant_ok t f" if "f \<in> set (model_waiters s)" for f
      using grants_mark[of s p f] inv p that
      by (auto simp: ledger_inv_def t intro: grant_ok_snoc[of "mark_released p s"])
    moreover have "grant_ok t ((model_waiters s ! w)
         \<lparr>mw_granted := True, mw_permit := Some (length (permits s)), mw_lane := Some tok, mw_lane_idx := i\<rparr>)"
      using w i by (simp add: grant_ok_def t nth_append)
    ultimately show ?thesis
      using set_update_subset_insert[of "model_waiters s" w] by (auto simp: grants_ok_def t)
  qed
  moreover have "accounted t"
    using inv p key(1)[symmetric]
    by (auto simp: t ledger_inv_def accounted_def held_def count_if_update)
  ultimately show ?thesis
    using inv unfolding ledger_inv_def lanes_ok_def fifo_ok_def by (simp add: t)
qed


text \<open>What a release does, in closed form.\<close>

lemma permit_release_none: "released (permits s ! p) \<Longrightarrow> permit_release env (Some p) s = s"
  by (simp add: permit_release_def)

lemma permit_release_waiter:
  "\<not> released (permits s ! p) \<Longrightarrow> key = permit_key (permits s ! p) \<Longrightarrow> route_slots s key = Some st \<Longrightarrow>
   waiters st = w # ws \<Longrightarrow>
   permit_release env (Some p) s = (put_slot key (st\<lparr>waiters := ws\<rparr>) (mark_released p s))
     \<lparr>slot_waiters := (slot_waiters s)[w := (slot_waiters s ! w)\<lparr>sw_granted := True\<rparr>]\<rparr>"
  by (simp add: permit_release_def Let_def)

definition freed_queue :: "lane_env \<Rightarrow> slot_key \<Rightarrow> ledger \<Rightarrow> nat list \<times> nat option" where
  "freed_queue env key s =
     (case fst key of
        Bridge b \<Rightarrow> (route_queue_locked (snd key) s, None)
      | Pooled tok \<Rightarrow>
          handoff_scan (env_ctx_done env)
            (index_of_entry (env_roster env) tok \<ge> 0 \<and>
             env_admissible env tok (index_of_entry (env_roster env) tok) (snd key))
            (route_queue_locked (snd key) s))"

lemma freed_queue_sub:
  assumes "freed_queue env key s = (rest, r)" "distinct (route_queue_locked (snd key) s)"
  shows "set rest \<subseteq> set (route_queue_locked (snd key) s)" "distinct rest"
    "r = Some w \<Longrightarrow> w \<in> set (route_queue_locked (snd key) s) \<and> w \<notin> set rest \<and>
       (\<exists>tok. fst key = Pooled tok \<and> 0 \<le> index_of_entry (env_roster env) tok)"
  using assms handoff_scan_sub[of "env_ctx_done env" _ "route_queue_locked (snd key) s" rest r]
  by (auto simp: freed_queue_def split: entry_ref.splits)

lemma permit_release_plain:
  assumes "\<not> released (permits s ! p)" "key = permit_key (permits s ! p)" "route_slots s key = Some st"
    "waiters st = []" "0 < live st" "freed_queue env key s = (rest, None)"
  shows "\<exists>qs. permit_release env (Some p) s = drop_idle_slot key
      (mark_released p s \<lparr>route_slots := (route_slots s)(key \<mapsto> st\<lparr>live := live st - 1\<rparr>), route_queues := qs\<rparr>) \<and>
    (\<forall>k. (case qs k of None \<Rightarrow> [] | Some q \<Rightarrow> q) = (if k = snd key then rest else route_queue_locked k s))"
proof (cases "fst key")
  case (Bridge b)
  with assms show ?thesis
    by (intro exI[of _ "route_queues s"])
      (auto simp: permit_release_def Let_def handoff_model_queue_locked_def freed_queue_def
        route_queue_locked_def)
next
  case (Pooled tok)
  then show ?thesis
  proof (cases "route_queues s (snd key)")
    case None
    with Pooled assms show ?thesis
      by (intro exI[of _ "route_queues s"])
        (auto simp: permit_release_def Let_def handoff_model_queue_locked_def freed_queue_def
          route_queue_locked_def)
  next
    case (Some q)
    with Pooled assms show ?thesis
      by (intro exI[of _ "(route_queues s)(snd key \<mapsto> rest)"])
        (auto simp: permit_release_def Let_def handoff_model_queue_locked_def freed_queue_def
          route_queue_locked_def)
  qed
qed

lemma permit_release_handoff:
  assumes "\<not> released (permits s ! p)" "(Pooled tok, m) = permit_key (permits s ! p)"
    "route_slots s (Pooled tok, m) = Some st"
    "waiters st = []" "0 < live st" "freed_queue env (Pooled tok, m) s = (rest, Some w)"
  shows "permit_release env (Some p) s = (mark_released p s)
      \<lparr>permits := permits (mark_released p s) @ [\<lparr>permit_key = (Pooled tok, m), released = False\<rparr>],
       route_queues := (route_queues s)(m := (if rest = [] then None else Some rest)),
       model_waiters := (model_waiters s)[w := (model_waiters s ! w)
         \<lparr>mw_granted := True, mw_permit := Some (length (permits s)), mw_lane := Some tok,
          mw_lane_idx := index_of_entry (env_roster env) tok\<rparr>]\<rparr>"
proof -
  obtain q where q: "route_queues s m = Some q" "handoff_scan (env_ctx_done env)
      (index_of_entry (env_roster env) tok \<ge> 0 \<and> env_admissible env tok (index_of_entry (env_roster env) tok) m) q =
      (rest, Some w)"
    using assms(6) by (cases "route_queues s m") (auto simp: freed_queue_def route_queue_locked_def)
  have st: "route_slots s = (route_slots s)((Pooled tok, m) \<mapsto> st)" "st\<lparr>live := live st\<rparr> = st"
    using assms(3) by (simp_all add: fun_upd_idem)
  show ?thesis
    using assms(1,3,4,5) q(1) st(1)[symmetric]
    by (simp add: permit_release_def Let_def assms(2)[symmetric] handoff_model_queue_locked_def q(2)
        new_permit_def drop_idle_slot_def)
qed

lemma permit_release_inv [step_intros]:
  assumes inv: "ledger_inv c s" and p: "p < length (permits s)" "\<not> undelivered p s"
  shows "ledger_inv c (permit_release env (Some p) s)"
proof (cases "released (permits s ! p)")
  case True
  with inv show ?thesis by (simp add: permit_release_none)
next
  case False
  define key where "key = permit_key (permits s ! p)"
  obtain st where st: "route_slots s key = Some st" "0 < live st"
    using release_lane_live[OF inv p(1) False] unfolding key_def by blast
  show ?thesis
  proof (cases "waiters st")
    case (Cons w ws)
    then show ?thesis
      using release_to_waiter_inv[OF inv p False key_def st(1)]
        permit_release_waiter[OF False key_def st(1)] by simp
  next
    case Nil
    obtain rest r where fq: "freed_queue env key s = (rest, r)" by (cases "freed_queue env key s")
    have "distinct (route_queue_locked (snd key) s)" using inv by (simp add: ledger_inv_def queues_ok_def)
    note sub = freed_queue_sub[OF fq this]
    show ?thesis
    proof (cases r)
      case None
      obtain qs where qs: "permit_release env (Some p) s = drop_idle_slot key
          (mark_released p s \<lparr>route_slots := (route_slots s)(key \<mapsto> st\<lparr>live := live st - 1\<rparr>), route_queues := qs\<rparr>)"
        "\<And>k. (case qs k of None \<Rightarrow> [] | Some q \<Rightarrow> q) = (if k = snd key then rest else route_queue_locked k s)"
        using permit_release_plain[OF False key_def st(1) Nil st(2) fq[unfolded None]] by blast
      show ?thesis
        unfolding qs(1) by (rule release_plain_inv[OF inv p False key_def st(1) Nil refl sub(2,1) qs(2)])
    next
      case (Some w)
      obtain tok where tok: "key = (Pooled tok, snd key)" "0 \<le> index_of_entry (env_roster env) tok"
        using sub(3)[OF Some] by (metis prod.collapse)
      have k: "(Pooled tok, snd key) = permit_key (permits s ! p)" "route_slots s (Pooled tok, snd key) = Some st"
        using tok(1) key_def st(1) by simp_all
      have fk: "freed_queue env (Pooled tok, snd key) s = (rest, Some w)"
        using fq Some tok(1) by simp
      show ?thesis
        unfolding permit_release_handoff[OF False k Nil st(2) fk]
        using sub(1,2) sub(3)[OF Some] tok(2) by (intro release_handoff_inv[OF inv p False k]) auto
    qed
  qed
qed

text \<open>The model queue.\<close>

lemma queues_park:
  assumes "queues_ok s" "mw_model f = model" "\<not> mw_granted f" "\<not> mw_returned f"
    "model_waiters t = model_waiters s @ [f]"
    "\<And>k. route_queue_locked k t = (if k = model then
        (if front then length (model_waiters s) # route_queue_locked k s
         else route_queue_locked k s @ [length (model_waiters s)]) else route_queue_locked k s)"
  shows "queues_ok t"
  unfolding queues_ok_def
proof (intro allI conjI ballI)
  fix k
  have old: "distinct (route_queue_locked k s)" "\<And>v. v \<in> set (route_queue_locked k s) \<Longrightarrow> v < length (model_waiters s) \<and>
      mw_model (model_waiters s ! v) = k \<and> \<not> mw_granted (model_waiters s ! v) \<and> \<not> mw_returned (model_waiters s ! v)"
    using assms(1) by (auto simp: queues_ok_def)
  show "distinct (route_queue_locked k t)" using old by (auto simp: assms(6))
  fix v
  assume "v \<in> set (route_queue_locked k t)"
  then have "v \<in> set (route_queue_locked k s) \<or> v = length (model_waiters s) \<and> k = model"
    by (auto simp: assms(6) split: if_splits)
  then show "v < length (model_waiters t)" "mw_model (model_waiters t ! v) = k"
      "\<not> mw_granted (model_waiters t ! v)" "\<not> mw_returned (model_waiters t ! v)"
    using old(2)[of v] assms(2-5) by (auto simp: nth_append)
qed

lemma model_park_enter_inv [step_intros]:
  assumes "ledger_inv c s"
  shows "ledger_inv c (snd (model_park_enter env model cap depth wait front s))"
proof (cases "depth \<le> 0 \<or> int (length (route_queue_locked model s)) \<ge> depth")
  case True
  have "queues_ok (s\<lparr>route_queues := (route_queues s)(model \<mapsto> route_queue_locked model s)\<rparr>)"
    using assms by (simp add: ledger_inv_def queues_ok_def)
  moreover have "snd (model_park_enter env model cap depth wait front s) =
      s\<lparr>route_queues := (route_queues s)(model \<mapsto> route_queue_locked model s)\<rparr>"
    using True by (auto simp: model_park_enter_def Let_def)
  ultimately show ?thesis
    using assms by (simp add: ledger_inv_def accounted_def lanes_ok_def fifo_ok_def grants_ok_def)
next
  case False
  define t where "t = snd (model_park_enter env model cap depth wait front s)"
  define f where "f = \<lparr>mw_model = model, mw_granted = False, mw_permit = None, mw_lane = None,
     mw_lane_idx = -1, mw_returned = False, mw_cap = cap, mw_wait = wait\<rparr>"
  have t: "t = s\<lparr>route_queues := (route_queues s)(model \<mapsto> (if front
        then length (model_waiters s) # route_queue_locked model s
        else route_queue_locked model s @ [length (model_waiters s)])),
      model_waiters := model_waiters s @ [f]\<rparr>"
    using False by (auto simp: t_def f_def model_park_enter_def Let_def)
  have "queues_ok t"
    by (rule queues_park[where s = s and f = f and model = model and front = front])
      (use assms in \<open>simp_all add: ledger_inv_def t f_def\<close>)
  moreover have "grants_ok t" "accounted t" "lanes_ok c t" "fifo_ok t" "frames_bridge t"
    using assms unfolding t
    by (simp_all add: ledger_inv_def accounted_def lanes_ok_def fifo_ok_def grants_ok_def grant_ok_def f_def)
  ultimately show ?thesis unfolding t_def[symmetric] by (simp add: ledger_inv_def)
qed

lemma grants_returned:
  assumes "grants_ok s" "w < length (model_waiters s)"
  shows "grants_ok (model_frame_returned w s)"
proof -
  have "grant_ok s (model_waiters s ! w)" using assms by (simp add: grants_ok_def)
  then have "grant_ok s ((model_waiters s ! w)\<lparr>mw_returned := True\<rparr>)" by (auto simp: grant_ok_def)
  then show ?thesis
    using assms(1) set_update_subset_insert[of "model_waiters s" w] by (auto simp: grants_ok_def)
qed

lemma queues_returned:
  assumes "queues_ok s" "model_waiters t = (model_waiters s)[w := f]"
    "\<And>k. set (route_queue_locked k t) \<subseteq> set (route_queue_locked k s) - {w}"
    "\<And>k. distinct (route_queue_locked k t)"
  shows "queues_ok t"
  unfolding queues_ok_def
proof (intro allI conjI ballI)
  fix k
  show "distinct (route_queue_locked k t)" by (rule assms(4))
  fix v
  assume "v \<in> set (route_queue_locked k t)"
  then have "v \<in> set (route_queue_locked k s)" "v \<noteq> w" using assms(3) by auto
  then show "v < length (model_waiters t)" "mw_model (model_waiters t ! v) = k"
      "\<not> mw_granted (model_waiters t ! v)" "\<not> mw_returned (model_waiters t ! v)"
    using assms(1,2) by (auto simp: queues_ok_def)
qed

lemma model_park_wake_inv [step_intros]:
  assumes "ledger_inv c s" "w < length (model_waiters s)" "mw_granted (model_waiters s ! w)"
  shows "ledger_inv c (snd (model_park_wake w s))"
proof -
  have q: "w \<notin> set (route_queue_locked k s)" "distinct (route_queue_locked k s)" for k
    using assms(1,3) by (auto simp: ledger_inv_def queues_ok_def)
  have "queues_ok (model_frame_returned w s)"
  proof (rule queues_returned[of s _ w])
    show "queues_ok s" using assms(1) by (simp add: ledger_inv_def)
    show "set (route_queue_locked k (model_frame_returned w s)) \<subseteq> set (route_queue_locked k s) - {w}"
      "distinct (route_queue_locked k (model_frame_returned w s))" for k
      using q[of k] by simp_all
  qed simp
  then show ?thesis
    using assms(1) grants_returned[of s w] assms(2)
    by (simp add: model_park_wake_def Let_def ledger_inv_def accounted_def lanes_ok_def fifo_ok_def)
qed

lemma remove_model_waiter_reads:
  "remove_model_waiter_locked model w s = s\<lparr>route_queues := route_queues (remove_model_waiter_locked model w s)\<rparr>"
  "route_queue_locked k (remove_model_waiter_locked model w s) =
     (if k = model then remove1 w (route_queue_locked k s) else route_queue_locked k s)"
  by (auto simp: remove_model_waiter_locked_def Let_def route_queue_locked_def split: option.splits)

lemma model_park_give_up_inv [step_intros]:
  assumes "ledger_inv c s" "w < length (model_waiters s)" "\<not> mw_returned (model_waiters s ! w)"
  shows "ledger_inv c (snd (model_park_give_up env timed_out w s))"
proof (cases "mw_granted (model_waiters s ! w)")
  case True
  with model_park_wake_inv[OF assms(1,2) True] show ?thesis by (simp add: model_park_give_up_def Let_def)
next
  case False
  define t where "t = remove_model_waiter_locked (mw_model (model_waiters s ! w)) w (model_frame_returned w s)"
  have t: "t = (model_frame_returned w s)\<lparr>route_queues := route_queues t\<rparr>"
    unfolding t_def by (rule remove_model_waiter_reads(1))
  have q: "route_queue_locked k t =
      (if k = mw_model (model_waiters s ! w) then remove1 w (route_queue_locked k s) else route_queue_locked k s)" for k
    by (simp add: t_def remove_model_waiter_reads(2))
  have inq: "w \<in> set (route_queue_locked k s) \<Longrightarrow> k = mw_model (model_waiters s ! w)"
    "distinct (route_queue_locked k s)" for k
    using assms(1) by (auto simp: ledger_inv_def queues_ok_def)
  have "queues_ok t"
  proof (rule queues_returned[of s t w])
    show "queues_ok s" using assms(1) by (simp add: ledger_inv_def)
    show "model_waiters t = (model_waiters s)[w := (model_waiters s ! w)\<lparr>mw_returned := True\<rparr>]" by (subst t) simp
    show "set (route_queue_locked k t) \<subseteq> set (route_queue_locked k s) - {w}" "distinct (route_queue_locked k t)" for k
      using inq[of k] by (auto simp: q)
  qed
  moreover have "grants_ok t"
    using grants_returned[of s w] assms by (subst t) (auto simp: ledger_inv_def grants_ok_def)
  moreover have "accounted t" "lanes_ok c t" "fifo_ok t" "frames_bridge t"
    using assms(1) by (subst t; simp add: ledger_inv_def accounted_def lanes_ok_def fifo_ok_def)+
  ultimately show ?thesis
    using False by (simp add: ledger_inv_def model_park_give_up_def Let_def t_def)
qed

section \<open>The ledger as a transition system\<close>

lemma ledger_inv_step: "ledger_inv c s \<Longrightarrow> ledger_step c s t \<Longrightarrow> ledger_inv c t"
  by (erule ledger_step.cases) (auto intro: step_intros)

interpretation sl: invariant_system ledger_start "ledger_step c" "ledger_inv c"
  by unfold_locales (auto simp: ledger_inv_start intro: ledger_inv_step)


section \<open>Facts the properties rest on\<close>

lemma handoff_scan_find:
  "handoff_scan d a q = (rest, r) \<Longrightarrow>
     r = (if a then find (\<lambda>w. \<not> d w) q else None)"
  by (induction q) (auto split: if_splits)

lemma release_live:
  assumes inv: "ledger_inv c s" and p: "p < length (permits s)" "\<not> released (permits s ! p)"
    and key: "key = permit_key (permits s ! p)"
  shows "slot_live k (permit_release env (Some p) s) =
    (if k = key \<and> waiters_of key s = [] \<and> snd (freed_queue env key s) = None
     then slot_live k s - 1 else slot_live k s)"
proof -
  obtain st where st: "route_slots s key = Some st" "0 < live st"
    using release_lane_live[OF inv p] unfolding key by blast
  then have l: "slot_live key s = live st" "waiters_of key s = waiters st"
    by (simp_all add: slot_live_def waiters_of_def)
  show ?thesis
  proof (cases "waiters st")
    case (Cons w ws)
    with permit_release_waiter[OF p(2) key st(1) Cons] l show ?thesis by simp
  next
    case Nil
    obtain rest r where fq: "freed_queue env key s = (rest, r)" by (cases "freed_queue env key s")
    show ?thesis
    proof (cases r)
      case None
      with permit_release_plain[OF p(2) key st(1) Nil st(2), of env rest] fq l Nil show ?thesis by auto
    next
      case (Some w)
      have "distinct (route_queue_locked (snd key) s)" using inv by (simp add: ledger_inv_def queues_ok_def)
      then obtain tok where tok: "key = (Pooled tok, snd key)"
        using freed_queue_sub(3)[OF fq _ Some] by (metis prod.collapse)
      have k: "(Pooled tok, snd key) = permit_key (permits s ! p)" "route_slots s (Pooled tok, snd key) = Some st"
        "freed_queue env (Pooled tok, snd key) s = (rest, Some w)"
        using tok key st(1) fq Some by simp_all
      from permit_release_handoff[OF p(2) k(1,2) Nil st(2) k(3)] fq Some l show ?thesis by simp
    qed
  qed
qed

lemma release_marks:
  assumes inv: "ledger_inv c s" and p: "p < length (permits s)"
  shows "released (permits (permit_release env (Some p) s) ! p)"
proof (cases "released (permits s ! p)")
  case True
  then show ?thesis by (simp add: permit_release_none)
next
  case False
  define key where "key = permit_key (permits s ! p)"
  obtain st where st: "route_slots s key = Some st" "0 < live st"
    using release_lane_live[OF inv p False] unfolding key_def by blast
  show ?thesis
  proof (cases "waiters st")
    case (Cons w ws)
    with permit_release_waiter[OF False key_def st(1) Cons] p show ?thesis by simp
  next
    case Nil
    obtain rest r where fq: "freed_queue env key s = (rest, r)" by (cases "freed_queue env key s")
    show ?thesis
    proof (cases r)
      case None
      with permit_release_plain[OF False key_def st(1) Nil st(2), of env rest] fq p show ?thesis by auto
    next
      case (Some w)
      have "distinct (route_queue_locked (snd key) s)" using inv by (simp add: ledger_inv_def queues_ok_def)
      then obtain tok where tok: "key = (Pooled tok, snd key)"
        using freed_queue_sub(3)[OF fq _ Some] by (metis prod.collapse)
      have k: "(Pooled tok, snd key) = permit_key (permits s ! p)" "route_slots s (Pooled tok, snd key) = Some st"
        "freed_queue env (Pooled tok, snd key) s = (rest, Some w)"
        using tok key_def st(1) fq Some by simp_all
      from permit_release_handoff[OF False k(1,2) Nil st(2) k(3)] p show ?thesis by (simp add: nth_append)
    qed
  qed
qed

section \<open>Properties\<close>

text \<open>C3: The live-turn cap is a hard wall and the counter never drifts. In every reachable ledger,
  whatever the interleaving of arrivals, wake-ups, timeouts, cancellations and (repeated)
  releases, a lane's live count is the number of permits out for it plus the waiters that were
  handed a slot and have not woken, it never exceeds the cap, and an idle lane leaves no state.\<close>

theorem live_turns_accounted:
  assumes "reach ledger_start (ledger_step c) s"
  shows "slot_live key s = held key s + in_transit key s \<and> 0 \<le> slot_live key s \<and>
    slot_live key s \<le> max 1 c \<and> (route_slots s key = None \<longleftrightarrow> slot_live key s = 0)"
proof -
  have inv: "ledger_inv c s" using assms by (rule sl.reach_inv)
  then have "slot_live key s \<le> max 1 c" "route_slots s key = None \<longleftrightarrow> slot_live key s = 0"
    by (auto simp: ledger_inv_def lanes_ok_def slot_live_def split: option.split) fastforce
  with inv live_nonneg[of c s key] show ?thesis by (simp add: ledger_inv_def accounted_def)
qed

lemma live_turns_accounted_witness:
  "\<exists>s. reach ledger_start (ledger_step 2) s \<and> slot_live (Pooled 0, ''m'') s = 1 \<and>
     held (Pooled 0, ''m'') s + in_transit (Pooled 0, ''m'') s = 1"
proof -
  define s where "s = snd (slot_try (Pooled 0, ''m'') 2 empty_ledger)"
  have r: "reach ledger_start (ledger_step 2) s"
    unfolding s_def by (rule reach_step, rule reach_start, rule refl) (rule step_try; simp)
  have l: "slot_live (Pooled 0, ''m'') s = 1"
    by (simp add: s_def slot_try_def empty_ledger_def Let_def new_permit_def slot_live_def slot_state_locked_def)
  from live_turns_accounted[OF r, of "(Pooled 0, ''m'')"] r l show ?thesis by auto
qed

text \<open>Bridge lanes are served first come, first served. The frames a lane still has parked
  are exactly those that were neither granted nor gave up, in arrival order; while any is
  parked the lane is not idle; and releasing a permit of the lane hands the slot to the
  earliest of them, with the live count unchanged.\<close>

lemma lane_fifo:
  assumes "reach ledger_start (ledger_step c) s"
    and "p < length (permits s)" and "\<not> released (permits s ! p)"
    and "key = permit_key (permits s ! p)" and "parked_frames key s = w # ws"
  shows "waiters_of key s = w # ws \<and> 0 < slot_live key s \<and> sorted_wrt (<) (w # ws) \<and>
    sw_granted (slot_waiters (permit_release env (Some p) s) ! w) \<and>
    parked_frames key (permit_release env (Some p) s) = ws \<and>
    slot_live key (permit_release env (Some p) s) = slot_live key s"
proof -
  have inv: "ledger_inv c s" using assms(1) by (rule sl.reach_inv)
  then have wo: "waiters_of key s = w # ws" using assms(5) by (simp add: ledger_inv_def fifo_ok_def)
  obtain st where st: "route_slots s key = Some st" "0 < live st"
    using release_lane_live[OF inv assms(2,3)] assms(4) by auto
  with wo have ws: "waiters st = w # ws" by (simp add: waiters_of_def)
  have w: "w < length (slot_waiters s)" "sw_key (slot_waiters s ! w) = key"
    using set_parked[of key s] assms(5) by (auto simp: frame_parked_def)
  have "sorted_wrt (<) (parked_frames key s)"
    unfolding parked_frames_def by (rule sorted_wrt_filter) simp
  moreover note permit_release_waiter[OF assms(3,4) st(1) ws, of env]
  ultimately show ?thesis
    using assms(5) wo st w release_live[OF inv assms(2,3,4), of key env]
    by (auto simp: parked_update frame_parked_def slot_live_def)
qed

lemma lane_fifo_witness:
  "\<exists>s. reach ledger_start (ledger_step 1) s \<and> parked_frames (Bridge 0, ''m'') s = [0, 1] \<and>
     (\<forall>env. parked_frames (Bridge 0, ''m'') (permit_release env (Some 0) s) = [1])"
proof -
  define s1 where "s1 = snd (slot_acquire_enter (Bridge 0, ''m'') 0 1 4 5 empty_ledger)"
  define s2 where "s2 = snd (slot_acquire_enter (Bridge 0, ''m'') 0 1 4 5 s1)"
  define s where "s = snd (slot_acquire_enter (Bridge 0, ''m'') 0 1 4 5 s2)"
  have r1: "reach ledger_start (ledger_step 1) s1"
    unfolding s1_def by (rule reach_step, rule reach_start, rule refl) (rule step_bridge_enter; simp)
  have r2: "reach ledger_start (ledger_step 1) s2"
    unfolding s2_def by (rule reach_step[OF r1 step_bridge_enter]) simp
  have r: "reach ledger_start (ledger_step 1) s"
    unfolding s_def by (rule reach_step[OF r2 step_bridge_enter]) simp
  note evals = slot_acquire_enter_def empty_ledger_def Let_def new_permit_def slot_state_locked_def
  have s1: "s1 = empty_ledger\<lparr>route_slots := [(Bridge 0, ''m'') \<mapsto> \<lparr>live = 1, waiters = []\<rparr>],
      permits := [\<lparr>permit_key = (Bridge 0, ''m''), released = False\<rparr>]\<rparr>"
    by (simp add: s1_def evals)
  have s: "parked_frames (Bridge 0, ''m'') s = [0, 1]" "permits s = permits s1"
    by (simp_all add: s_def s2_def s1 evals parked_frames_def frame_parked_def)
  have pf: "0 < length (permits s)" "\<not> released (permits s ! 0)" "permit_key (permits s ! 0) = (Bridge 0, ''m'')"
    by (simp_all add: s(2) s1)
  have "parked_frames (Bridge 0, ''m'') (permit_release env (Some 0) s) = [1]" for env
    using lane_fifo[OF r pf(1,2) pf(3)[symmetric] s(1), of env] by blast
  with r s show ?thesis by blast
qed

text \<open>Releasing a permit is idempotent and loses no slot. The first release of a permit that
  is out lowers its lane's live count by one exactly when nobody takes the slot over; otherwise
  the slot moves to the earliest lane waiter, or, on a lane the gates admit, to the first
  waiter of the model's queue whose context is alive, and the count stays. No other lane
  changes, and every further release of the same permit changes nothing.\<close>

lemma release_conserves:
  assumes "reach ledger_start (ledger_step c) s"
    and "p < length (permits s)" and "\<not> released (permits s ! p)"
    and "(Pooled tok, m) = permit_key (permits s ! p)"
  shows "snd (freed_queue env (Pooled tok, m) s) =
      (if 0 \<le> index_of_entry (env_roster env) tok \<and>
          env_admissible env tok (index_of_entry (env_roster env) tok) m
       then find (\<lambda>w. \<not> env_ctx_done env w) (route_queue_locked m s) else None) \<and>
    slot_live k (permit_release env (Some p) s) = slot_live k s -
      (if k = (Pooled tok, m) \<and> snd (freed_queue env (Pooled tok, m) s) = None then 1 else 0) \<and>
    (\<forall>w. snd (freed_queue env (Pooled tok, m) s) = Some w \<longrightarrow>
       mw_granted (model_waiters (permit_release env (Some p) s) ! w) \<and>
       mw_lane (model_waiters (permit_release env (Some p) s) ! w) = Some tok \<and>
       w \<notin> set (route_queue_locked m (permit_release env (Some p) s))) \<and>
    permit_release env' (Some p) (permit_release env (Some p) s) = permit_release env (Some p) s"
proof -
  have inv: "ledger_inv c s" using assms(1) by (rule sl.reach_inv)
  have nw: "waiters_of (Pooled tok, m) s = []"
  proof -
    have "\<not> frame_parked (Pooled tok, m) f" if "f \<in> set (slot_waiters s)" for f
      using inv that by (force simp: ledger_inv_def frames_bridge_def list_all_iff frame_parked_def is_bridge_def)
    then have "parked_frames (Pooled tok, m) s = []" by (simp add: parked_frames_def filter_empty_conv)
    with inv show ?thesis by (simp add: ledger_inv_def fifo_ok_def)
  qed
  obtain rest r where fq: "freed_queue env (Pooled tok, m) s = (rest, r)" by (cases "freed_queue env (Pooled tok, m) s")
  have scan: "snd (freed_queue env (Pooled tok, m) s) =
      (if 0 \<le> index_of_entry (env_roster env) tok \<and> env_admissible env tok (index_of_entry (env_roster env) tok) m
       then find (\<lambda>w. \<not> env_ctx_done env w) (route_queue_locked m s) else None)"
    using handoff_scan_find fq by (fastforce simp: freed_queue_def)
  obtain st where st: "route_slots s (Pooled tok, m) = Some st" "0 < live st"
    using release_lane_live[OF inv assms(2,3)] assms(4) by auto
  have g: "mw_granted (model_waiters (permit_release env (Some p) s) ! w) \<and>
      mw_lane (model_waiters (permit_release env (Some p) s) ! w) = Some tok \<and>
      w \<notin> set (route_queue_locked m (permit_release env (Some p) s))" if "r = Some w" for w
  proof -
    have d: "distinct (route_queue_locked (snd (Pooled tok, m)) s)"
      using inv by (simp add: ledger_inv_def queues_ok_def)
    have w: "w \<in> set (route_queue_locked m s)" "w \<notin> set rest"
      using freed_queue_sub(3)[OF fq d that] by auto
    then have "w < length (model_waiters s)" using inv by (auto simp: ledger_inv_def queues_ok_def)
    moreover have "waiters st = []" using nw st(1) by (simp add: waiters_of_def)
    moreover note permit_release_handoff[OF assms(3,4) st(1) _ st(2) fq[unfolded that]]
    ultimately show ?thesis using w(2) by (simp add: route_queue_locked_def)
  qed
  show ?thesis
  proof (intro conjI)
    show "slot_live k (permit_release env (Some p) s) = slot_live k s -
      (if k = (Pooled tok, m) \<and> snd (freed_queue env (Pooled tok, m) s) = None then 1 else 0)"
      using release_live[OF inv assms(2-4), of k env] nw by simp
    show "\<forall>w. snd (freed_queue env (Pooled tok, m) s) = Some w \<longrightarrow>
       mw_granted (model_waiters (permit_release env (Some p) s) ! w) \<and>
       mw_lane (model_waiters (permit_release env (Some p) s) ! w) = Some tok \<and>
       w \<notin> set (route_queue_locked m (permit_release env (Some p) s))"
      using g fq by simp
  qed (rule scan, rule permit_release_none[OF release_marks[OF inv assms(2)]])
qed

lemma release_conserves_witness:
  "\<exists>s. reach ledger_start (ledger_step 1) s \<and> slot_live (Pooled 0, ''m'') s = 1 \<and>
     (\<forall>env. env_roster env = [] \<longrightarrow> slot_live (Pooled 0, ''m'') (permit_release env (Some 0) s) = 0)"
proof -
  define s where "s = snd (slot_try (Pooled 0, ''m'') 1 empty_ledger)"
  have r: "reach ledger_start (ledger_step 1) s"
    unfolding s_def by (rule reach_step, rule reach_start, rule refl) (rule step_try; simp)
  have s: "slot_live (Pooled 0, ''m'') s = 1" "permits s = [\<lparr>permit_key = (Pooled 0, ''m''), released = False\<rparr>]"
    by (simp_all add: s_def slot_try_def empty_ledger_def Let_def new_permit_def slot_live_def slot_state_locked_def)
  have pf: "0 < length (permits s)" "\<not> released (permits s ! 0)" "(Pooled 0, ''m'') = permit_key (permits s ! 0)"
    by (simp_all add: s(2))
  have "slot_live (Pooled 0, ''m'') (permit_release env (Some 0) s) = 0" if e: "env_roster env = []" for env
  proof -
    note rc = release_conserves[OF r pf, of env "(Pooled 0, ''m'')" env]
    from rc e have "snd (freed_queue env (Pooled 0, ''m'') s) = None" by simp
    with rc s(1) show ?thesis by simp
  qed
  with r s show ?thesis by blast
qed

text \<open>A parked request either gets a slot or leaves the queue, never both and never neither.
  When a frame of \<^verbatim>\<open>modelPark\<close> that has not returned takes its timeout or cancellation branch, it
  returns the granted permit if a release won the race, and then that permit is still out,
  for the lane it names and the frame's model; otherwise it returns the error, is in no queue
  any more and no permit was made for it.\<close>

lemma park_grant_or_leave:
  assumes "reach ledger_start (ledger_step c) s"
    and "w < length (model_waiters s)" and "\<not> mw_returned (model_waiters s ! w)"
    and "model_park_give_up env timed_out w s = (ans, t)"
  shows "if mw_granted (model_waiters s ! w)
    then \<exists>p tok i. ans = Park_Granted (Some p) (Some tok) i \<and> 0 \<le> i \<and> p < length (permits t) \<and>
           permit_key (permits t ! p) = (Pooled tok, mw_model (model_waiters s ! w)) \<and>
           \<not> released (permits t ! p)
    else (ans = Park_Ctx_Error \<or> (\<exists>e. ans = Park_Exhausted e \<and> qe_reason e = Queue_Timeout)) \<and>
           (\<forall>m. w \<notin> set (route_queue_locked m t)) \<and>
           mw_permit (model_waiters t ! w) = None \<and> permits t = permits s"
proof -
  have inv: "ledger_inv c s" using assms(1) by (rule sl.reach_inv)
  have g: "grant_ok s (model_waiters s ! w)"
    using inv assms(2) by (auto simp: ledger_inv_def grants_ok_def)
  show ?thesis
  proof (cases "mw_granted (model_waiters s ! w)")
    case True
    with g assms(3,4) show ?thesis
      by (auto simp: model_park_give_up_def model_park_wake_def Let_def grant_ok_def)
  next
    case False
    have tq: "route_queue_locked m t = (if m = mw_model (model_waiters s ! w)
        then remove1 w (route_queue_locked m s) else route_queue_locked m s)" for m
      using False assms(4)
      by (auto simp: model_park_give_up_def Let_def remove_model_waiter_reads(2))
    have "distinct (route_queue_locked m s)"
      "w \<in> set (route_queue_locked m s) \<Longrightarrow> mw_model (model_waiters s ! w) = m" for m
      using inv by (auto simp: ledger_inv_def queues_ok_def)
    then have nq: "w \<notin> set (route_queue_locked m t)" for m
      unfolding tq by auto
    have "t = (model_frame_returned w s)\<lparr>route_queues := route_queues t\<rparr>"
      using False assms(4) remove_model_waiter_reads(1)[of "mw_model (model_waiters s ! w)" w "model_frame_returned w s"]
      by (auto simp: model_park_give_up_def Let_def)
    then have "permits t = permits s" "model_waiters t = model_waiters (model_frame_returned w s)"
      by (metis ledger.select_convs ledger.surjective ledger.update_convs)+
    with nq False g assms(2,4) show ?thesis
      by (auto simp: model_park_give_up_def Let_def grant_ok_def model_exhausted_def split: prod.splits if_splits)
  qed
qed

lemma park_grant_or_leave_witness:
  "\<exists>s. reach ledger_start (ledger_step 1) s \<and>
     (\<forall>env t ans. model_park_give_up env False 0 s = (ans, t) \<longrightarrow> route_queue_locked ''m'' s = [0] \<and>
        0 \<notin> set (route_queue_locked ''m'' t))"
proof -
  define env0 where "env0 = \<lparr>env_roster = [], env_admissible = (\<lambda>t i m. False), env_ctx_done = (\<lambda>w. False)\<rparr>"
  define s where "s = snd (model_park_enter env0 ''m'' 1 4 5 False empty_ledger)"
  have r: "reach ledger_start (ledger_step 1) s"
    unfolding s_def by (rule reach_step, rule reach_start, rule refl) (rule step_park_enter)
  have s: "route_queue_locked ''m'' s = [0]" "length (model_waiters s) = 1"
    "\<not> mw_returned (model_waiters s ! 0)" "\<not> mw_granted (model_waiters s ! 0)"
    by (simp_all add: s_def model_park_enter_def empty_ledger_def Let_def route_queue_locked_def)
  have "0 \<notin> set (route_queue_locked ''m'' t)" if "model_park_give_up env False 0 s = (ans, t)" for env t ans
    using park_grant_or_leave[OF r, of 0 env False ans t] s that by auto
  with r s show ?thesis by blast
qed

end
