(* ===== verification/Run_Manager.thy ===== *)
theory Run_Manager
  imports Cooldown
begin

text \<open>
  The agent-run lifecycle of one token: \<^verbatim>\<open>backend/internal/runs/runs.go\<close>, \<^verbatim>\<open>drain.go\<close> and
  \<^verbatim>\<open>steps.go\<close>. Runs are heap objects named by their position in \<open>heap\<close>, because the same
  \<^verbatim>\<open>*Run\<close> is shared by the current map, the draining list, the finish queue and the leases. No
  lock is held across an upstream call or a store access, so each of those splits an operation
  in two: the function before it leaves a frame (\<open>starting\<close>, \<open>to_persist\<close>, \<open>to_enqueue\<close>,
  \<open>claimed\<close>, \<open>sent\<close>) that the function after it takes up. \<open>jobs\<close> holds the deferred FINISH
  jobs, in the queue or on the inline path, and the runs \<^verbatim>\<open>FinishAllRuns\<close> has detached and will
  finish. The session-state store is the map \<open>store\<close> from agent ids to persisted runs of
  this token, \<open>persist\<close> says whether one is configured. Ids that are random or chosen upstream
  are arguments. Waiters of a single-flight START, the finish worker's goroutine and the
  logging are not modelled.
\<close>

record run_step =
  rs_id :: string
  rs_number :: int
  rs_message :: "string option"
  rs_status :: string
  rs_start :: go_time

record run =
  agent_id :: string
  run_id :: string
  started_at :: go_time
  requests :: int
  trace_session_id :: string
  client_id :: string
  step_count :: int
  steps :: "run_step list"
  step_total :: int
  run_status :: string
  inflight :: int
  finishing :: bool
  queued :: bool
  drained_at :: go_time

record persisted_run =
  pr_run_id :: string
  pr_agent_id :: string
  pr_trace :: string
  pr_client :: string
  pr_started_at :: go_time
  pr_requests :: int

text \<open>How far the leader of a START has come: registered, holding a loaded record, calling upstream.\<close>

datatype flight = Flight_Leader | Flight_Loaded persisted_run | Flight_Starting

record run_manager =
  heap :: "run list"
  current :: "string \<rightharpoonup> nat"
  starting :: "string \<rightharpoonup> flight"
  draining :: "nat list"
  total_requests :: int
  cooldowns :: cooldown_state
  shutting_down :: bool
  rotation_interval :: duration
  drain_queue_cap :: nat
  drain_ttl :: duration
  persist :: bool
  store :: "string \<rightharpoonup> persisted_run"
  to_persist :: "(nat \<times> nat option) list"
  to_enqueue :: "nat list"
  jobs :: "nat list"
  claimed :: "nat list"
  sent :: "nat list"
  dropped :: "nat list"

abbreviation get_run :: "run_manager \<Rightarrow> nat \<Rightarrow> run" where
  "get_run m r \<equiv> heap m ! r"

abbreviation put_run :: "nat \<Rightarrow> run \<Rightarrow> run_manager \<Rightarrow> run_manager" where
  "put_run r x m \<equiv> m\<lparr>heap := (heap m)[r := x]\<rparr>"

definition default_drain_queue_cap :: nat where
  "default_drain_queue_cap = 64"

definition default_drain_ttl :: duration where
  "default_drain_ttl = 10 * minute"

definition new_run_manager :: "duration \<Rightarrow> int \<Rightarrow> duration \<Rightarrow> bool \<Rightarrow> (string \<rightharpoonup> persisted_run) \<Rightarrow> run_manager" where
  "new_run_manager rotation dcap dttl has_store st =
     \<lparr>heap = [], current = Map.empty, starting = Map.empty, draining = [], total_requests = 0,
      cooldowns = no_cooldown, shutting_down = False, rotation_interval = rotation,
      drain_queue_cap = (if dcap < 1 then default_drain_queue_cap else nat dcap),
      drain_ttl = (if dttl \<le> 0 then default_drain_ttl else dttl),
      persist = has_store, store = st, to_persist = [], to_enqueue = [], jobs = [], claimed = [], sent = [], dropped = []\<rparr>"

section \<open>The draining list\<close>

text \<open>\<open>dropped\<close> lists the runs logged with termination \<^verbatim>\<open>"drop"\<close>: evicted without a FINISH.\<close>

definition drain_expired :: "go_time \<Rightarrow> run_manager \<Rightarrow> nat \<Rightarrow> bool" where
  "drain_expired now m r \<longleftrightarrow> \<not> is_zero (drained_at (get_run m r)) \<and>
     time_sub now (drained_at (get_run m r)) > drain_ttl m"

definition prune_draining_locked :: "go_time \<Rightarrow> run_manager \<Rightarrow> run_manager" where
  "prune_draining_locked now m =
     (let kept = filter (\<lambda>r. \<not> drain_expired now m r) (draining m)
      in m\<lparr>draining := take (drain_queue_cap m) kept,
           dropped := dropped m @ filter (drain_expired now m) (draining m) @ drop (drain_queue_cap m) kept\<rparr>)"

definition append_draining_locked :: "go_time \<Rightarrow> nat \<Rightarrow> run_manager \<Rightarrow> run_manager" where
  "append_draining_locked now r m =
     (if r \<in> set (draining m) then m
      else prune_draining_locked now
        ((put_run r ((get_run m r)\<lparr>drained_at := now\<rparr>) m)\<lparr>draining := draining m @ [r]\<rparr>))"

definition run_draining_locked :: "nat \<Rightarrow> run_manager \<Rightarrow> bool" where
  "run_draining_locked r m \<longleftrightarrow> r \<in> set (draining m)"

definition is_current :: "nat \<Rightarrow> run_manager \<Rightarrow> bool" where
  "is_current r m \<longleftrightarrow> current m (agent_id (get_run m r)) = Some r"

abbreviation drop_current :: "string \<Rightarrow> run_manager \<Rightarrow> run_manager" where
  "drop_current agent m \<equiv> m\<lparr>current := (current m)(agent := None)\<rparr>"

definition remove_run :: "string \<Rightarrow> run_manager \<Rightarrow> run_manager" where
  "remove_run agent m = (if persist m then m\<lparr>store := (store m)(agent := None)\<rparr> else m)"

section \<open>Leases\<close>

definition needs_rotate :: "go_time \<Rightarrow> string \<Rightarrow> run_manager \<Rightarrow> bool" where
  "needs_rotate now agent m =
     (case current m agent of None \<Rightarrow> True
      | Some r \<Rightarrow> time_sub now (started_at (get_run m r)) \<ge> rotation_interval m)"

datatype acquire_decision = Acquire_Cooling | Acquire_Rotate | Acquire_Current

text \<open>The first critical section of \<^verbatim>\<open>Acquire\<close>'s loop, and the one that leases the current run.\<close>

definition acquire_check :: "go_time \<Rightarrow> string \<Rightarrow> run_manager \<Rightarrow> acquire_decision" where
  "acquire_check now agent m =
     (if before now (cooldown_until (cooldowns m)) then Acquire_Cooling
      else if needs_rotate now agent m then Acquire_Rotate else Acquire_Current)"

definition acquire_lease :: "string \<Rightarrow> run_manager \<Rightarrow> nat option \<times> run_manager" where
  "acquire_lease agent m =
     (case current m agent of
        None \<Rightarrow> (None, m)
      | Some r \<Rightarrow>
          (Some r, (put_run r ((get_run m r)\<lparr>inflight := inflight (get_run m r) + 1,
              requests := requests (get_run m r) + 1\<rparr>) m)\<lparr>total_requests := total_requests m + 1\<rparr>))"

definition release_inflight :: "nat \<Rightarrow> run_manager \<Rightarrow> run_manager" where
  "release_inflight r m =
     (if inflight (get_run m r) > 0
      then put_run r ((get_run m r)\<lparr>inflight := inflight (get_run m r) - 1\<rparr>) m else m)"

definition release :: "nat \<Rightarrow> run_manager \<Rightarrow> run_manager" where
  "release r m =
     (let m = release_inflight r m in
      if inflight (get_run m r) > 0 \<or> \<not> run_draining_locked r m then m
      else (if is_current r m then drop_current (agent_id (get_run m r)) m else m)
             \<lparr>to_enqueue := to_enqueue m @ [r]\<rparr>)"

definition release_abandoned :: "go_time \<Rightarrow> nat \<Rightarrow> run_manager \<Rightarrow> run_manager" where
  "release_abandoned now r m =
     (let m = release_inflight r m in
      if inflight (get_run m r) > 0 then m
      else
        let m = (if run_status (get_run m r) = '''' then put_run r ((get_run m r)\<lparr>run_status := ''cancelled''\<rparr>) m else m)
        in if is_current r m
           then (append_draining_locked now r (drop_current (agent_id (get_run m r)) m))
                  \<lparr>to_enqueue := to_enqueue m @ [r]\<rparr>
           else m\<lparr>to_enqueue := to_enqueue m @ [r]\<rparr>)"

definition mark_failed :: "nat \<Rightarrow> run_manager \<Rightarrow> run_manager" where
  "mark_failed r m = put_run r ((get_run m r)\<lparr>run_status := ''failed''\<rparr>) m"

definition next_step_number :: "nat \<Rightarrow> run_manager \<Rightarrow> int \<times> run_manager" where
  "next_step_number r m =
     (step_count (get_run m r) + 1,
      put_run r ((get_run m r)\<lparr>step_count := step_count (get_run m r) + 1\<rparr>) m)"

definition max_recorded_steps :: nat where
  "max_recorded_steps = 512"

definition record_step_run :: "go_time \<Rightarrow> string \<Rightarrow> string \<Rightarrow> run \<Rightarrow> run" where
  "record_step_run now fresh_id message_id x =
     (if run_id x = '''' then x
      else
        let number = (if step_count x = 0 then int (length (steps x)) + 1 else step_count x);
            step = \<lparr>rs_id = fresh_id, rs_number = number,
              rs_message = (if message_id = '''' then None else Some message_id),
              rs_status = ''completed'', rs_start = now\<rparr>
        in x\<lparr>step_total := step_total x + 1, steps := take_last max_recorded_steps (steps x @ [step])\<rparr>)"

definition record_step :: "go_time \<Rightarrow> string \<Rightarrow> nat \<Rightarrow> string \<Rightarrow> run_manager \<Rightarrow> run_manager" where
  "record_step now fresh_id r message_id m = put_run r (record_step_run now fresh_id message_id (get_run m r)) m"

definition finish_payload :: "run \<Rightarrow> string \<times> run_step list \<times> int" where
  "finish_payload x =
     (if run_status x = '''' then ''completed'' else run_status x, steps x,
      let t = step_total x;
          t = (if t = 0 then int (length (steps x)) else t)
      in if t = 0 then requests x else t)"

definition invalidate :: "string \<Rightarrow> run_manager \<Rightarrow> run_manager" where
  "invalidate agent m = remove_run agent (drop_current agent m)"

text \<open>\<open>agents\<close> are the keys of the current map, in the order the code's range visits them.\<close>

definition inflight_count :: "string list \<Rightarrow> string \<Rightarrow> run_manager \<Rightarrow> int" where
  "inflight_count agents agent m =
     (if agent \<noteq> '''' then (case current m agent of None \<Rightarrow> 0 | Some r \<Rightarrow> inflight (get_run m r))
      else sum_list (map (\<lambda>r. inflight (get_run m r)) (List.map_filter (current m) agents)) +
           sum_list (map (\<lambda>r. inflight (get_run m r)) (draining m)))"

section \<open>Starting a run\<close>

datatype rotate_decision = Rotate_Shutting_Down | Rotate_Cooling | Rotate_Fresh | Rotate_Wait | Rotate_Leader

definition rotate_enter :: "go_time \<Rightarrow> string \<Rightarrow> run_manager \<Rightarrow> rotate_decision \<times> run_manager" where
  "rotate_enter now agent m =
     (if shutting_down m then (Rotate_Shutting_Down, m)
      else if before now (cooldown_until (cooldowns m)) then (Rotate_Cooling, m)
      else if \<not> needs_rotate now agent m then (Rotate_Fresh, m)
      else if starting m agent \<noteq> None then (Rotate_Wait, m)
      else (Rotate_Leader, m\<lparr>starting := (starting m)(agent \<mapsto> Flight_Leader)\<rparr>))"

text \<open>The leader reads the store: a fresh record is held for adoption, a stale one is dropped.\<close>

definition rotate_load :: "go_time \<Rightarrow> string \<Rightarrow> run_manager \<Rightarrow> run_manager" where
  "rotate_load now agent m =
     (case (if persist m then store m agent else None) of
        None \<Rightarrow> m\<lparr>starting := (starting m)(agent \<mapsto> Flight_Starting)\<rparr>
      | Some pr \<Rightarrow>
          if pr_run_id pr \<noteq> '''' \<and> time_sub now (pr_started_at pr) < rotation_interval m
          then m\<lparr>starting := (starting m)(agent \<mapsto> Flight_Loaded pr)\<rparr>
          else (remove_run agent m)\<lparr>starting := (starting m)(agent \<mapsto> Flight_Starting)\<rparr>)"

definition fresh_run :: "string \<Rightarrow> string \<Rightarrow> go_time \<Rightarrow> string \<Rightarrow> string \<Rightarrow> int \<Rightarrow> run" where
  "fresh_run agent rid t trace client reqs =
     \<lparr>agent_id = agent, run_id = rid, started_at = t, requests = reqs, trace_session_id = trace,
      client_id = client, step_count = 0, steps = [], step_total = 0, run_status = '''',
      inflight = 0, finishing = False, queued = False, drained_at = zero_time\<rparr>"

definition install_run :: "go_time \<Rightarrow> string \<Rightarrow> run \<Rightarrow> run_manager \<Rightarrow> nat option \<times> run_manager" where
  "install_run now agent x m =
     (let r = length (heap m);
          m1 = m\<lparr>heap := heap m @ [x], current := (current m)(agent \<mapsto> r),
                 starting := (starting m)(agent := None)\<rparr>
      in (current m agent,
          case current m agent of None \<Rightarrow> m1 | Some old \<Rightarrow> append_draining_locked now old m1))"

definition rotate_adopt :: "go_time \<Rightarrow> string \<Rightarrow> string \<Rightarrow> run_manager \<Rightarrow> run_manager" where
  "rotate_adopt now fresh_client agent m =
     (case starting m agent of
        Some (Flight_Loaded pr) \<Rightarrow>
          if shutting_down m then m\<lparr>starting := (starting m)(agent := None)\<rparr>
          else (case install_run now agent
                  (fresh_run agent (pr_run_id pr) (pr_started_at pr) (pr_trace pr)
                     (if pr_client pr \<noteq> '''' then pr_client pr else fresh_client) (pr_requests pr)) m of
                  (old, m1) \<Rightarrow> m1\<lparr>to_enqueue := to_enqueue m1 @ (case old of None \<Rightarrow> [] | Some r \<Rightarrow> [r])\<rparr>)
      | _ \<Rightarrow> m)"

definition rotate_failed :: "string \<Rightarrow> run_manager \<Rightarrow> run_manager" where
  "rotate_failed agent m = m\<lparr>starting := (starting m)(agent := None)\<rparr>"

text \<open>
  \<^verbatim>\<open>StartRun\<close> returned run \<open>rid\<close>. When a shutdown has begun the run is not tracked, and the
  caller finishes it inline; otherwise it becomes current and the replaced run drains.
\<close>

definition rotate_started ::
  "go_time \<Rightarrow> string \<Rightarrow> string \<Rightarrow> string \<Rightarrow> string \<Rightarrow> run_manager \<Rightarrow> string option \<times> run_manager" where
  "rotate_started now rid trace client agent m =
     (if shutting_down m then (Some rid, m\<lparr>starting := (starting m)(agent := None)\<rparr>)
      else (None, case install_run now agent (fresh_run agent rid now trace client 0) m of
              (old, m1) \<Rightarrow> m1\<lparr>to_persist := to_persist m1 @ [(length (heap m), old)]\<rparr>))"

definition persist_run :: "nat \<Rightarrow> run_manager \<Rightarrow> run_manager" where
  "persist_run r m =
     (if \<not> persist m then m
      else let x = get_run m r in
        m\<lparr>store := (if agent_id x = '''' \<or> run_id x = '''' then store m
             else (store m)(agent_id x \<mapsto> \<lparr>pr_run_id = run_id x, pr_agent_id = agent_id x,
               pr_trace = trace_session_id x, pr_client = client_id x, pr_started_at = started_at x,
               pr_requests = requests x\<rparr>))\<rparr>)"

text \<open>After the swap: the new run is persisted, then the old one is handed to the finish queue.\<close>

definition rotate_persist :: "nat \<times> nat option \<Rightarrow> run_manager \<Rightarrow> run_manager" where
  "rotate_persist f m =
     (let m1 = persist_run (fst f) m
      in m1\<lparr>to_persist := remove1 f (to_persist m1),
            to_enqueue := to_enqueue m1 @ (case snd f of None \<Rightarrow> [] | Some r \<Rightarrow> [r])\<rparr>)"

section \<open>Finishing a run\<close>

definition enqueue_finish :: "nat \<Rightarrow> run_manager \<Rightarrow> run_manager" where
  "enqueue_finish r m =
     (let m1 = m\<lparr>to_enqueue := remove1 r (to_enqueue m)\<rparr>
      in if queued (get_run m r) then m1
         else (put_run r ((get_run m r)\<lparr>queued := True\<rparr>) m1)\<lparr>jobs := jobs m @ [r]\<rparr>)"

text \<open>\<^verbatim>\<open>finishIfReadyCtx\<close> up to the upstream call: the job is taken up, and the run is claimed unless
  it is leased, already finishing, or current.\<close>

definition finish_if_ready :: "nat \<Rightarrow> run_manager \<Rightarrow> run_manager" where
  "finish_if_ready r m =
     (let m = (put_run r ((get_run m r)\<lparr>queued := False\<rparr>) m)\<lparr>jobs := remove1 r (jobs m)\<rparr>
      in if inflight (get_run m r) > 0 \<or> finishing (get_run m r) then m
         else if is_current r m then m
         else (put_run r ((get_run m r)\<lparr>finishing := True\<rparr>) m)\<lparr>claimed := claimed m @ [r]\<rparr>)"

text \<open>The dispatch: the persisted record dies, the payload is read, FINISH is sent.\<close>

definition finish_dispatch :: "nat \<Rightarrow> run_manager \<Rightarrow> (string \<times> string \<times> run_step list \<times> int) \<times> run_manager" where
  "finish_dispatch r m =
     ((run_id (get_run m r), finish_payload (get_run m r)),
      (remove_run (agent_id (get_run m r)) m)\<lparr>claimed := remove1 r (claimed m), sent := sent m @ [r]\<rparr>)"

definition finish_result :: "go_time \<Rightarrow> bool \<Rightarrow> nat \<Rightarrow> run_manager \<Rightarrow> run_manager" where
  "finish_result now ok r m =
     (let m = m\<lparr>sent := remove1 r (sent m)\<rparr>
      in if ok then m\<lparr>draining := filter (\<lambda>d. d \<noteq> r) (draining m)\<rparr>
         else append_draining_locked now r (put_run r ((get_run m r)\<lparr>finishing := False\<rparr>) m))"

section \<open>Background passes\<close>

definition maintain_enqueue :: "go_time \<Rightarrow> run_manager \<Rightarrow> run_manager" where
  "maintain_enqueue now m =
     (if maintenance_eligible now (cooldowns m)
      then let m = prune_draining_locked now m in m\<lparr>to_enqueue := to_enqueue m @ draining m\<rparr>
      else m)"

text \<open>\<^verbatim>\<open>FinishAllRuns\<close>: \<open>agents\<close> is the order in which the code's range over the current map visits
  its keys.\<close>

fun append_all_draining :: "go_time \<Rightarrow> nat list \<Rightarrow> run_manager \<Rightarrow> run_manager" where
  "append_all_draining now [] m = m"
| "append_all_draining now (r # rs) m = append_all_draining now rs (append_draining_locked now r m)"

definition current_runs :: "string list \<Rightarrow> run_manager \<Rightarrow> nat list" where
  "current_runs agents m = List.map_filter (current m) agents"

definition finish_all_runs :: "go_time \<Rightarrow> string list \<Rightarrow> run_manager \<Rightarrow> run_manager" where
  "finish_all_runs now agents m =
     (let busy = (\<lambda>r. inflight (get_run m r) > 0);
          idle = filter (\<lambda>r. \<not> busy r) (current_runs agents m);
          m1 = m\<lparr>current := (\<lambda>a. case current m a of None \<Rightarrow> None | Some r \<Rightarrow> if busy r then Some r else None),
                 draining := filter busy (draining m),
                 jobs := jobs m @ idle @ filter (\<lambda>r. \<not> busy r) (draining m)\<rparr>
      in prune_draining_locked now (append_all_draining now (filter busy (current_runs agents m)) m1))"

section \<open>Shutdown\<close>

definition shutdown_begin :: "run_manager \<Rightarrow> run_manager" where
  "shutdown_begin m = m\<lparr>shutting_down := True\<rparr>"

fun claim_all :: "nat list \<Rightarrow> run_manager \<Rightarrow> nat list \<times> run_manager" where
  "claim_all [] m = ([], m)"
| "claim_all (r # rs) m =
     (if finishing (get_run m r) then claim_all rs m
      else case claim_all rs (put_run r ((get_run m r)\<lparr>finishing := True\<rparr>) m) of (cs, m') \<Rightarrow> (r # cs, m'))"

text \<open>The claim of \<^verbatim>\<open>Shutdown\<close> once the finish worker has stopped: without a store every tracked run
  that nobody is finishing is claimed and the manager is emptied; with one the current runs are
  saved and only the draining ones are claimed. The answer is the list it sends FINISH for.\<close>

definition shutdown_claim :: "string list \<Rightarrow> run_manager \<Rightarrow> nat list \<times> run_manager" where
  "shutdown_claim agents m =
     (if persist m then
        (case claim_all (draining m) m of
           (cs, m1) \<Rightarrow> (cs, fold persist_run (current_runs agents m) m1))
      else
        (case claim_all (current_runs agents m @ draining m) m of
           (cs, m1) \<Rightarrow> (cs, m1\<lparr>current := Map.empty, draining := []\<rparr>)))"

end
