(* ===== verification/Run_Invariants.thy ===== *)
theory Run_Invariants
  imports Run_Manager
begin

text \<open>
  The run manager as a transition system, its invariant, and the properties of the run
  lifecycle: no FINISH under a lease, at most one successful FINISH, no run lost, the bounded
  draining list, the recorded steps, and what happens to the persisted record.
\<close>

section \<open>Steps\<close>

text \<open>
  Beside the manager the system records the leases that are out, the runs whose FINISH
  succeeded, the ids FINISH was sent for, and the runs \<^verbatim>\<open>Invalidate\<close> dropped on purpose. A
  lease is released by its holder, once. \<^verbatim>\<open>Shutdown\<close>'s final claim ends the manager and is
  treated on its own.
\<close>

record run_system =
  mgr :: run_manager
  leases :: "nat list"
  finished :: "nat list"
  sent_ids :: "string list"
  invalidated :: "nat list"

inductive run_sys_step :: "run_system \<Rightarrow> run_system \<Rightarrow> bool" where
  rs_lease: "acquire_lease agent (mgr s) = (Some r, m') \<Longrightarrow>
     run_sys_step s (s\<lparr>mgr := m', leases := leases s @ [r]\<rparr>)"
| rs_release: "r \<in> set (leases s) \<Longrightarrow>
     run_sys_step s (s\<lparr>mgr := release r (mgr s), leases := remove1 r (leases s)\<rparr>)"
| rs_abandon: "r \<in> set (leases s) \<Longrightarrow>
     run_sys_step s (s\<lparr>mgr := release_abandoned now r (mgr s), leases := remove1 r (leases s)\<rparr>)"
| rs_failed: "run_sys_step s (s\<lparr>mgr := mark_failed r (mgr s)\<rparr>)"
| rs_number: "run_sys_step s (s\<lparr>mgr := snd (next_step_number r (mgr s))\<rparr>)"
| rs_record: "run_sys_step s (s\<lparr>mgr := record_step now i r msg (mgr s)\<rparr>)"
| rs_invalidate: "run_sys_step s (s\<lparr>mgr := invalidate agent (mgr s),
     invalidated := invalidated s @ (case current (mgr s) agent of None \<Rightarrow> [] | Some r \<Rightarrow> [r])\<rparr>)"
| rs_cooldown: "cooldown_step (cooldowns (mgr s)) c \<Longrightarrow> run_sys_step s (s\<lparr>mgr := (mgr s)\<lparr>cooldowns := c\<rparr>\<rparr>)"
| rs_rotate_enter: "run_sys_step s (s\<lparr>mgr := snd (rotate_enter now agent (mgr s))\<rparr>)"
| rs_rotate_load: "starting (mgr s) agent = Some Flight_Leader \<Longrightarrow>
     run_sys_step s (s\<lparr>mgr := rotate_load now agent (mgr s)\<rparr>)"
| rs_rotate_adopt: "starting (mgr s) agent = Some (Flight_Loaded pr) \<Longrightarrow>
     run_sys_step s (s\<lparr>mgr := rotate_adopt now client agent (mgr s)\<rparr>)"
| rs_rotate_failed: "starting (mgr s) agent = Some Flight_Starting \<Longrightarrow>
     run_sys_step s (s\<lparr>mgr := rotate_failed agent (mgr s)\<rparr>)"
| rs_rotate_started: "starting (mgr s) agent = Some Flight_Starting \<Longrightarrow>
     run_sys_step s (s\<lparr>mgr := snd (rotate_started now rid trace client agent (mgr s))\<rparr>)"
| rs_persist: "f \<in> set (to_persist (mgr s)) \<Longrightarrow> run_sys_step s (s\<lparr>mgr := rotate_persist f (mgr s)\<rparr>)"
| rs_enqueue: "r \<in> set (to_enqueue (mgr s)) \<Longrightarrow> run_sys_step s (s\<lparr>mgr := enqueue_finish r (mgr s)\<rparr>)"
| rs_take_job: "r \<in> set (jobs (mgr s)) \<Longrightarrow> run_sys_step s (s\<lparr>mgr := finish_if_ready r (mgr s)\<rparr>)"
| rs_dispatch: "r \<in> set (claimed (mgr s)) \<Longrightarrow>
     run_sys_step s (s\<lparr>mgr := snd (finish_dispatch r (mgr s)),
       sent_ids := sent_ids s @ [fst (fst (finish_dispatch r (mgr s)))]\<rparr>)"
| rs_ok: "r \<in> set (sent (mgr s)) \<Longrightarrow>
     run_sys_step s (s\<lparr>mgr := finish_result now True r (mgr s), finished := finished s @ [r]\<rparr>)"
| rs_error: "r \<in> set (sent (mgr s)) \<Longrightarrow>
     run_sys_step s (s\<lparr>mgr := finish_result now False r (mgr s)\<rparr>)"
| rs_maintain: "run_sys_step s (s\<lparr>mgr := maintain_enqueue now (mgr s)\<rparr>)"
| rs_finish_all: "distinct agents \<Longrightarrow> set agents = dom (current (mgr s)) \<Longrightarrow>
     run_sys_step s (s\<lparr>mgr := finish_all_runs now agents (mgr s)\<rparr>)"
| rs_shutdown: "run_sys_step s (s\<lparr>mgr := shutdown_begin (mgr s)\<rparr>)"

definition run_sys_start :: "run_system \<Rightarrow> bool" where
  "run_sys_start s \<longleftrightarrow>
     (\<exists>rotation dcap dttl has_store st.
        s = \<lparr>mgr = new_run_manager rotation dcap dttl has_store st, leases = [], finished = [],
             sent_ids = [], invalidated = []\<rparr>)"

section \<open>What one operation does to the views\<close>

text \<open>Rewriting a run without changing the fields the invariant reads.\<close>

definition same_view :: "run_manager \<Rightarrow> run_manager \<Rightarrow> bool" where
  "same_view m m' \<longleftrightarrow>
     map (\<lambda>x. (agent_id x, inflight x, finishing x, queued x)) (heap m') =
     map (\<lambda>x. (agent_id x, inflight x, finishing x, queued x)) (heap m)"

lemma same_view_refl [simp]: "heap m' = heap m \<Longrightarrow> same_view m m'"
  by (simp add: same_view_def)

lemma same_view_put:
  assumes "agent_id x = agent_id (get_run m r)" "inflight x = inflight (get_run m r)"
    "finishing x = finishing (get_run m r)" "queued x = queued (get_run m r)"
    "heap m' = (heap m)[r := x]"
  shows "same_view m m'"
proof (cases "r < length (heap m)")
  case True
  with assms show ?thesis by (simp add: same_view_def map_update list_update_same_conv)
next
  case False
  with assms show ?thesis by (simp add: same_view_def list_update_beyond)
qed

lemma same_view_length: "same_view m m' \<Longrightarrow> length (heap m') = length (heap m)"
  unfolding same_view_def by (rule map_eq_imp_length_eq)

lemma same_view_fields:
  assumes "same_view m m'" "r < length (heap m)"
  shows "agent_id (get_run m' r) = agent_id (get_run m r)" "inflight (get_run m' r) = inflight (get_run m r)"
    "finishing (get_run m' r) = finishing (get_run m r)" "queued (get_run m' r) = queued (get_run m r)"
  using arg_cong[OF assms(1)[unfolded same_view_def], of "\<lambda>xs. xs ! r"] assms(2) same_view_length[OF assms(1)]
  by simp_all

lemma prune_fields [simp]:
  "heap (prune_draining_locked now m) = heap m" "current (prune_draining_locked now m) = current m"
  "starting (prune_draining_locked now m) = starting m" "jobs (prune_draining_locked now m) = jobs m"
  "to_enqueue (prune_draining_locked now m) = to_enqueue m" "claimed (prune_draining_locked now m) = claimed m"
  "sent (prune_draining_locked now m) = sent m" "to_persist (prune_draining_locked now m) = to_persist m"
  "drain_queue_cap (prune_draining_locked now m) = drain_queue_cap m"
  "shutting_down (prune_draining_locked now m) = shutting_down m"
  "store (prune_draining_locked now m) = store m" "persist (prune_draining_locked now m) = persist m"
  by (simp_all add: prune_draining_locked_def Let_def)

lemma prune_list:
  "length (draining (prune_draining_locked now m)) \<le> drain_queue_cap m"
  "distinct (draining m) \<Longrightarrow> distinct (draining (prune_draining_locked now m))"
  "set (draining (prune_draining_locked now m)) \<subseteq> set (draining m)"
  "set (draining m) \<subseteq> set (draining (prune_draining_locked now m)) \<union> set (dropped (prune_draining_locked now m))"
  "set (dropped m) \<subseteq> set (dropped (prune_draining_locked now m))"
proof -
  let ?k = "filter (\<lambda>r. \<not> drain_expired now m r) (draining m)"
  have split: "set ?k = set (take (drain_queue_cap m) ?k) \<union> set (drop (drain_queue_cap m) ?k)"
    by (metis append_take_drop_id set_append)
  show "length (draining (prune_draining_locked now m)) \<le> drain_queue_cap m"
    "distinct (draining m) \<Longrightarrow> distinct (draining (prune_draining_locked now m))"
    "set (dropped m) \<subseteq> set (dropped (prune_draining_locked now m))"
    by (auto simp: prune_draining_locked_def Let_def)
  show "set (draining (prune_draining_locked now m)) \<subseteq> set (draining m)"
    "set (draining m) \<subseteq> set (draining (prune_draining_locked now m)) \<union> set (dropped (prune_draining_locked now m))"
    using split by (auto simp: prune_draining_locked_def Let_def)
qed

lemma append_fields [simp]:
  "current (append_draining_locked now r m) = current m" "starting (append_draining_locked now r m) = starting m"
  "jobs (append_draining_locked now r m) = jobs m" "to_enqueue (append_draining_locked now r m) = to_enqueue m"
  "claimed (append_draining_locked now r m) = claimed m" "sent (append_draining_locked now r m) = sent m"
  "to_persist (append_draining_locked now r m) = to_persist m"
  "drain_queue_cap (append_draining_locked now r m) = drain_queue_cap m"
  "shutting_down (append_draining_locked now r m) = shutting_down m"
  "store (append_draining_locked now r m) = store m" "persist (append_draining_locked now r m) = persist m"
  by (simp_all add: append_draining_locked_def)

lemma append_view: "same_view m (append_draining_locked now r m)"
  by (cases "r \<in> set (draining m)")
    (simp_all add: append_draining_locked_def
      same_view_put[where r = r and x = "(get_run m r)\<lparr>drained_at := now\<rparr>"])

lemma append_list:
  "length (draining m) \<le> drain_queue_cap m \<Longrightarrow> length (draining (append_draining_locked now r m)) \<le> drain_queue_cap m"
  "distinct (draining m) \<Longrightarrow> distinct (draining (append_draining_locked now r m))"
  "set (draining (append_draining_locked now r m)) \<subseteq> insert r (set (draining m))"
  "insert r (set (draining m)) \<subseteq>
     set (draining (append_draining_locked now r m)) \<union> set (dropped (append_draining_locked now r m))"
  "set (dropped m) \<subseteq> set (dropped (append_draining_locked now r m))"
  using prune_list[where now = now and m = "(put_run r ((get_run m r)\<lparr>drained_at := now\<rparr>) m)\<lparr>draining := draining m @ [r]\<rparr>"]
  by (auto simp: append_draining_locked_def)

section \<open>The invariant\<close>

text \<open>Every id a component holds is a run that exists.\<close>

definition known :: "run_system \<Rightarrow> nat \<Rightarrow> bool" where
  "known s r \<longleftrightarrow> r < length (heap (mgr s))"

definition ids_ok :: "run_system \<Rightarrow> bool" where
  "ids_ok s \<longleftrightarrow>
     (\<forall>r \<in> set (draining (mgr s)) \<union> set (jobs (mgr s)) \<union> set (to_enqueue (mgr s)) \<union> set (claimed (mgr s)) \<union>
        set (sent (mgr s)) \<union> set (finished s) \<union> set (leases s). known s r) \<and>
     (\<forall>f \<in> set (to_persist (mgr s)). known s (fst f) \<and> (\<forall>r. snd f = Some r \<longrightarrow> known s r))"

definition current_ok :: "run_system \<Rightarrow> bool" where
  "current_ok s \<longleftrightarrow>
     (\<forall>agent r. current (mgr s) agent = Some r \<longrightarrow>
        known s r \<and> agent_id (get_run (mgr s) r) = agent \<and> \<not> finishing (get_run (mgr s) r))"

definition draining_ok :: "run_system \<Rightarrow> bool" where
  "draining_ok s \<longleftrightarrow> distinct (draining (mgr s)) \<and> length (draining (mgr s)) \<le> drain_queue_cap (mgr s)"

definition finishing_ok :: "run_system \<Rightarrow> bool" where
  "finishing_ok s \<longleftrightarrow>
     distinct (claimed (mgr s) @ sent (mgr s) @ finished s) \<and>
     (\<forall>r. known s r \<longrightarrow>
        (finishing (get_run (mgr s) r) \<longleftrightarrow> r \<in> set (claimed (mgr s) @ sent (mgr s) @ finished s)))"

definition leases_ok :: "run_system \<Rightarrow> bool" where
  "leases_ok s \<longleftrightarrow>
     (\<forall>r. known s r \<longrightarrow> inflight (get_run (mgr s) r) = count_if (\<lambda>l. l = r) (leases s) \<and>
        (finishing (get_run (mgr s) r) \<longrightarrow> r \<notin> set (leases s)))"

definition queued_ok :: "run_system \<Rightarrow> bool" where
  "queued_ok s \<longleftrightarrow> (\<forall>r. known s r \<longrightarrow> queued (get_run (mgr s) r) \<longrightarrow> r \<in> set (jobs (mgr s)))"

text \<open>
  No run is lost: an idle run is current, draining, on its way to the finish queue, in it, or being
  finished; a leased one is current or draining. The exceptions are the runs that were evicted
  from the draining list or invalidated, and those in the set \<open>X\<close> an operation has in hand.
\<close>

definition tracked :: "run_system \<Rightarrow> nat \<Rightarrow> bool" where
  "tracked s r \<longleftrightarrow> is_current r (mgr s) \<or> r \<in> set (draining (mgr s)) \<or>
     inflight (get_run (mgr s) r) = 0 \<and>
       (r \<in> set (to_enqueue (mgr s)) \<or> r \<in> set (jobs (mgr s)) \<or> finishing (get_run (mgr s) r))"

definition tracked_ok :: "nat set \<Rightarrow> run_system \<Rightarrow> bool" where
  "tracked_ok X s \<longleftrightarrow>
     (\<forall>r. known s r \<longrightarrow> r \<notin> X \<longrightarrow> tracked s r \<or> r \<in> set (dropped (mgr s)) \<or> r \<in> set (invalidated s))"

definition run_inv_but :: "nat set \<Rightarrow> run_system \<Rightarrow> bool" where
  "run_inv_but X s \<longleftrightarrow> ids_ok s \<and> current_ok s \<and> draining_ok s \<and> finishing_ok s \<and> leases_ok s \<and>
     queued_ok s \<and> tracked_ok X s"

abbreviation run_inv :: "run_system \<Rightarrow> bool" where
  "run_inv \<equiv> run_inv_but {}"

lemmas run_inv_defs = run_inv_but_def ids_ok_def current_ok_def draining_ok_def finishing_ok_def
  leases_ok_def queued_ok_def tracked_ok_def tracked_def known_def is_current_def

lemma run_inv_start: "run_sys_start s \<Longrightarrow> run_inv s"
  by (auto simp: run_sys_start_def run_inv_defs new_run_manager_def)

lemma inv_weaken: "run_inv_but X s \<Longrightarrow> X \<subseteq> Y \<Longrightarrow> run_inv_but Y s"
  by (auto simp: run_inv_but_def tracked_ok_def)

text \<open>Steps that change neither the sets nor the fields the invariant reads.\<close>

lemma quiet_step:
  assumes "run_inv_but X s" "same_view (mgr s) m'" "draining m' = draining (mgr s)" "jobs m' = jobs (mgr s)"
    "to_enqueue m' = to_enqueue (mgr s)" "claimed m' = claimed (mgr s)" "sent m' = sent (mgr s)"
    "current m' = current (mgr s)" "set (to_persist m') \<subseteq> set (to_persist (mgr s))" "dropped m' = dropped (mgr s)"
    "drain_queue_cap m' = drain_queue_cap (mgr s)"
  shows "run_inv_but X (s\<lparr>mgr := m'\<rparr>)"
proof -
  have k: "known (s\<lparr>mgr := m'\<rparr>) r = known s r" for r
    using same_view_length[OF assms(2)] by (simp add: known_def)
  have f: "known s r \<Longrightarrow> agent_id (get_run m' r) = agent_id (get_run (mgr s) r)"
    "known s r \<Longrightarrow> inflight (get_run m' r) = inflight (get_run (mgr s) r)"
    "known s r \<Longrightarrow> finishing (get_run m' r) = finishing (get_run (mgr s) r)"
    "known s r \<Longrightarrow> queued (get_run m' r) = queued (get_run (mgr s) r)" for r
    using same_view_fields[OF assms(2)] by (simp_all add: known_def)
  note inv = assms(1)[unfolded run_inv_but_def]
  have "ids_ok (s\<lparr>mgr := m'\<rparr>)"
    using inv assms(9) unfolding ids_ok_def k by (simp add: assms(3-8)) blast
  moreover have "current_ok (s\<lparr>mgr := m'\<rparr>)"
    using inv unfolding current_ok_def k by (simp add: assms(8) f)
  moreover have "draining_ok (s\<lparr>mgr := m'\<rparr>)"
    using inv unfolding draining_ok_def by (simp add: assms(3,11))
  moreover have "finishing_ok (s\<lparr>mgr := m'\<rparr>)"
    using inv unfolding finishing_ok_def k by (simp add: assms(6,7) f)
  moreover have "leases_ok (s\<lparr>mgr := m'\<rparr>)"
    using inv unfolding leases_ok_def k by (simp add: f)
  moreover have "queued_ok (s\<lparr>mgr := m'\<rparr>)"
    using inv unfolding queued_ok_def k by (simp add: assms(4) f)
  moreover have "tracked_ok X (s\<lparr>mgr := m'\<rparr>)"
    using inv unfolding tracked_ok_def tracked_def is_current_def k by (simp add: assms(3-5,8,10) f)
  ultimately show ?thesis by (simp add: run_inv_but_def)
qed

text \<open>Building blocks: leaving the current map, joining lists.\<close>

lemma inv_intro:
  assumes "run_inv_but X s"
    and "ids_ok s \<Longrightarrow> ids_ok t" "ids_ok s \<Longrightarrow> current_ok s \<Longrightarrow> current_ok t"
    "ids_ok s \<Longrightarrow> draining_ok s \<Longrightarrow> draining_ok t" "ids_ok s \<Longrightarrow> finishing_ok s \<Longrightarrow> finishing_ok t"
    "ids_ok s \<Longrightarrow> leases_ok s \<Longrightarrow> leases_ok t" "ids_ok s \<Longrightarrow> queued_ok s \<Longrightarrow> queued_ok t"
    "ids_ok s \<Longrightarrow> current_ok s \<Longrightarrow> tracked_ok X s \<Longrightarrow> tracked_ok Y t"
  shows "run_inv_but Y t"
  using assms by (simp add: run_inv_but_def)

lemmas tracked_defs = tracked_ok_def tracked_def known_def is_current_def

lemma inv_drop_current:
  assumes "run_inv_but X s"
  shows "run_inv_but (X \<union> {r. current (mgr s) agent = Some r}) (s\<lparr>mgr := drop_current agent (mgr s)\<rparr>)"
  by (rule inv_intro[OF assms])
    ((auto simp: ids_ok_def known_def)[1], (auto simp: current_ok_def known_def)[1],
     (auto simp: draining_ok_def)[1], (auto simp: finishing_ok_def known_def)[1],
     (auto simp: leases_ok_def known_def)[1], (auto simp: queued_ok_def known_def)[1],
     (auto simp: tracked_defs)[1])

lemma inv_enqueue:
  assumes "run_inv_but X s" "\<And>r. r \<in> set rs \<Longrightarrow> known s r"
    "\<And>r. r \<in> X \<Longrightarrow> r \<in> set rs \<and> inflight (get_run (mgr s) r) = 0"
  shows "run_inv (s\<lparr>mgr := (mgr s)\<lparr>to_enqueue := to_enqueue (mgr s) @ rs\<rparr>\<rparr>)"
  by (rule inv_intro[OF assms(1)])
    ((use assms(2) in \<open>auto simp: ids_ok_def known_def\<close>)[1], (auto simp: current_ok_def known_def)[1],
     (auto simp: draining_ok_def)[1], (auto simp: finishing_ok_def known_def)[1],
     (auto simp: leases_ok_def known_def)[1], (auto simp: queued_ok_def known_def)[1],
     (use assms(3) in \<open>auto simp: tracked_defs\<close>)[1])


lemma inv_prune:
  assumes "run_inv_but X s"
  shows "run_inv_but X (s\<lparr>mgr := prune_draining_locked now (mgr s)\<rparr>)"
  using prune_list[where now = now and m = "mgr s"]
  by (intro inv_intro[OF assms])
    ((auto simp: ids_ok_def known_def)[1], (auto simp: current_ok_def known_def)[1],
     (auto simp: draining_ok_def)[1], (auto simp: finishing_ok_def known_def)[1],
     (auto simp: leases_ok_def known_def)[1], (auto simp: queued_ok_def known_def)[1],
     (fastforce simp: tracked_defs)[1])

lemma inv_append:
  assumes "run_inv_but X s" "known s r"
  shows "run_inv_but (X - {r}) (s\<lparr>mgr := append_draining_locked now r (mgr s)\<rparr>)"
proof -
  let ?t = "s\<lparr>mgr := append_draining_locked now r (mgr s)\<rparr>"
  have k: "known ?t k = known s k" for k
    using same_view_length[OF append_view] by (simp add: known_def)
  have f: "known s k \<Longrightarrow> agent_id (get_run (append_draining_locked now r (mgr s)) k) = agent_id (get_run (mgr s) k)"
    "known s k \<Longrightarrow> inflight (get_run (append_draining_locked now r (mgr s)) k) = inflight (get_run (mgr s) k)"
    "known s k \<Longrightarrow> finishing (get_run (append_draining_locked now r (mgr s)) k) = finishing (get_run (mgr s) k)"
    "known s k \<Longrightarrow> queued (get_run (append_draining_locked now r (mgr s)) k) = queued (get_run (mgr s) k)" for k
    using same_view_fields[OF append_view] by (simp_all add: known_def)
  note l = append_list[where now = now and r = r and m = "mgr s"]
  show ?thesis
  proof (rule inv_intro[OF assms(1)])
    show "ids_ok s \<Longrightarrow> ids_ok ?t" using l(3) assms(2) unfolding ids_ok_def k by auto
    show "current_ok s \<Longrightarrow> current_ok ?t" unfolding current_ok_def k by (simp add: f)
    show "draining_ok s \<Longrightarrow> draining_ok ?t" using l(1,2) by (simp add: draining_ok_def)
    show "finishing_ok s \<Longrightarrow> finishing_ok ?t" unfolding finishing_ok_def k by (simp add: f)
    show "leases_ok s \<Longrightarrow> leases_ok ?t" unfolding leases_ok_def k by (simp add: f)
    show "queued_ok s \<Longrightarrow> queued_ok ?t" unfolding queued_ok_def k by (simp add: f)
    show "tracked_ok X s \<Longrightarrow> tracked_ok (X - {r}) ?t"
      using l(4,5) unfolding tracked_ok_def tracked_def is_current_def k
      by (fastforce simp: f)
  qed
qed

lemma get_put: "known s k \<Longrightarrow> (heap (mgr s))[r := x] ! k = (if k = r then x else get_run (mgr s) k)"
  by (simp add: known_def nth_list_update)

text \<open>Leases.\<close>

lemma count_remove1: "x \<in> set xs \<Longrightarrow> count_if (\<lambda>l. l = k) (remove1 x xs) = count_if (\<lambda>l. l = k) xs - (if k = x then 1 else 0)"
  by (induction xs) auto

lemma inv_lease:
  assumes "run_inv s" "acquire_lease agent (mgr s) = (Some r, m')"
  shows "run_inv (s\<lparr>mgr := m', leases := leases s @ [r]\<rparr>)"
proof -
  define t where "t = s\<lparr>mgr := m', leases := leases s @ [r]\<rparr>"
  have c: "current (mgr s) agent = Some r"
    using assms(2) by (auto simp: acquire_lease_def split: option.splits)
  then have m': "m' = (put_run r ((get_run (mgr s) r)\<lparr>inflight := inflight (get_run (mgr s) r) + 1,
              requests := requests (get_run (mgr s) r) + 1\<rparr>) (mgr s))\<lparr>total_requests := total_requests (mgr s) + 1\<rparr>"
    using assms(2) by (simp add: acquire_lease_def)
  have r: "r < length (heap (mgr s))" "agent_id (get_run (mgr s) r) = agent" "\<not> finishing (get_run (mgr s) r)"
    using assms(1) c by (auto simp: run_inv_but_def current_ok_def known_def)
  have k: "known t k = known s k" for k by (simp add: t_def m' known_def)
  have "run_inv t"
  proof (rule inv_intro[OF assms(1)])
    show "ids_ok s \<Longrightarrow> ids_ok t" using r(1) unfolding ids_ok_def k by (simp add: t_def m' known_def)
    show "current_ok s \<Longrightarrow> current_ok t" unfolding current_ok_def k by (auto simp: t_def m' get_put)
    show "draining_ok s \<Longrightarrow> draining_ok t" by (simp add: draining_ok_def t_def m')
    show "finishing_ok s \<Longrightarrow> finishing_ok t" unfolding finishing_ok_def k by (auto simp: t_def m' get_put)
    show "leases_ok s \<Longrightarrow> leases_ok t" using r unfolding leases_ok_def k by (auto simp: t_def m' get_put)
    show "queued_ok s \<Longrightarrow> queued_ok t" unfolding queued_ok_def k by (auto simp: t_def m' get_put)
    show "tracked_ok {} s \<Longrightarrow> tracked_ok {} t"
      using c r unfolding tracked_ok_def tracked_def is_current_def k
      by (auto simp: t_def m' get_put)
  qed
  then show ?thesis by (simp add: t_def)
qed

lemma inv_release_inflight:
  assumes "run_inv s" "r \<in> set (leases s)"
  shows "run_inv (s\<lparr>mgr := release_inflight r (mgr s), leases := remove1 r (leases s)\<rparr>)"
proof -
  define t where "t = s\<lparr>mgr := release_inflight r (mgr s), leases := remove1 r (leases s)\<rparr>"
  have r: "r < length (heap (mgr s))"
    using assms by (auto simp: run_inv_but_def ids_ok_def known_def)
  have i: "inflight (get_run (mgr s) r) = count_if (\<lambda>l. l = r) (leases s)" "\<not> finishing (get_run (mgr s) r)"
    using assms r by (auto simp: run_inv_but_def leases_ok_def known_def)
  then have p: "0 < inflight (get_run (mgr s) r)"
    using count_if_pos[of r "leases s" "\<lambda>l. l = r"] assms(2) by simp
  then have m': "release_inflight r (mgr s) =
      put_run r ((get_run (mgr s) r)\<lparr>inflight := inflight (get_run (mgr s) r) - 1\<rparr>) (mgr s)"
    by (simp add: release_inflight_def)
  have k: "known t k = known s k" for k by (simp add: t_def m' known_def)
  note sub = set_remove1_subset[of r "leases s"]
  have "run_inv t"
  proof (rule inv_intro[OF assms(1)])
    show "ids_ok s \<Longrightarrow> ids_ok t" using sub unfolding ids_ok_def k by (auto simp: t_def m')
    show "current_ok s \<Longrightarrow> current_ok t" unfolding current_ok_def k by (auto simp: t_def m' get_put)
    show "draining_ok s \<Longrightarrow> draining_ok t" by (simp add: draining_ok_def t_def m')
    show "finishing_ok s \<Longrightarrow> finishing_ok t" unfolding finishing_ok_def k by (auto simp: t_def m' get_put)
    show "leases_ok s \<Longrightarrow> leases_ok t"
      using r i sub assms(2) unfolding leases_ok_def k by (auto simp: t_def m' get_put count_remove1)
    show "queued_ok s \<Longrightarrow> queued_ok t" unfolding queued_ok_def k by (auto simp: t_def m' get_put)
    show "tracked_ok {} s \<Longrightarrow> tracked_ok {} t"
      unfolding tracked_ok_def k
    proof (intro allI impI)
      fix j
      assume "\<forall>r. known s r \<longrightarrow> r \<notin> {} \<longrightarrow> tracked s r \<or> r \<in> set (dropped (mgr s)) \<or> r \<in> set (invalidated s)"
        and "known s j"
      then have "tracked s j \<or> j \<in> set (dropped (mgr s)) \<or> j \<in> set (invalidated s)" by simp
      then show "tracked t j \<or> j \<in> set (dropped (mgr t)) \<or> j \<in> set (invalidated t)"
        using p \<open>known s j\<close> unfolding tracked_def is_current_def by (cases "j = r") (auto simp: t_def m' get_put)
    qed
  qed
  then show ?thesis by (simp add: t_def)
qed


lemma mgr_first [simp]:
  "(s\<lparr>leases := l\<rparr>)\<lparr>mgr := m\<rparr> = (s\<lparr>mgr := m\<rparr>)\<lparr>leases := l\<rparr>"
  "(s\<lparr>finished := l\<rparr>)\<lparr>mgr := m\<rparr> = (s\<lparr>mgr := m\<rparr>)\<lparr>finished := l\<rparr>"
  "(s\<lparr>sent_ids := i\<rparr>)\<lparr>mgr := m\<rparr> = (s\<lparr>mgr := m\<rparr>)\<lparr>sent_ids := i\<rparr>"
  "(s\<lparr>invalidated := l\<rparr>)\<lparr>mgr := m\<rparr> = (s\<lparr>mgr := m\<rparr>)\<lparr>invalidated := l\<rparr>"
  for s :: run_system
  by simp_all

lemma inflight_nonneg: "run_inv_but X s \<Longrightarrow> known s r \<Longrightarrow> 0 \<le> inflight (get_run (mgr s) r)"
  using count_if_nonneg by (auto simp: run_inv_but_def leases_ok_def)

text \<open>An idle run leaves the current map for the finish queue.\<close>

lemma inv_retire:
  assumes "run_inv s" "known s r" "inflight (get_run (mgr s) r) = 0"
  shows "run_inv (s\<lparr>mgr := (if is_current r (mgr s) then drop_current (agent_id (get_run (mgr s) r)) (mgr s) else mgr s)
    \<lparr>to_enqueue := to_enqueue (mgr s) @ [r]\<rparr>\<rparr>)"
proof (cases "is_current r (mgr s)")
  case True
  let ?a = "agent_id (get_run (mgr s) r)"
  have "{} \<union> {k. current (mgr s) ?a = Some k} = {r}" using True by (auto simp: is_current_def)
  with inv_drop_current[OF assms(1), of ?a]
  have "run_inv_but {r} (s\<lparr>mgr := drop_current ?a (mgr s)\<rparr>)" by simp
  from inv_enqueue[OF this, of "[r]"] True assms(2,3) show ?thesis by (simp add: known_def)
next
  case False
  with inv_enqueue[OF assms(1), of "[r]"] assms(2) show ?thesis by simp
qed

lemma inv_release:
  assumes "run_inv s" "r \<in> set (leases s)"
  shows "run_inv (s\<lparr>mgr := release r (mgr s), leases := remove1 r (leases s)\<rparr>)"
proof -
  define s1 where "s1 = s\<lparr>mgr := release_inflight r (mgr s), leases := remove1 r (leases s)\<rparr>"
  have inv: "run_inv s1" unfolding s1_def by (rule inv_release_inflight[OF assms])
  have k: "known s1 r"
    using assms by (auto simp: s1_def known_def release_inflight_def run_inv_but_def ids_ok_def)
  show ?thesis
  proof (cases "inflight (get_run (mgr s1) r) > 0 \<or> \<not> run_draining_locked r (mgr s1)")
    case True
    with inv show ?thesis by (simp add: s1_def release_def Let_def)
  next
    case False
    then have "inflight (get_run (mgr s1) r) = 0" using inflight_nonneg[OF inv k] by simp
    note retire = inv_retire[OF inv k this]
    have eq: "release r (mgr s) = (if is_current r (mgr s1) then drop_current (agent_id (get_run (mgr s1) r)) (mgr s1)
        else mgr s1)\<lparr>to_enqueue := to_enqueue (mgr s1) @ [r]\<rparr>"
      using False by (simp add: s1_def release_def Let_def)
    show ?thesis using retire unfolding eq[symmetric] by (simp add: s1_def)
  qed
qed

lemma prune_drop_current:
  "prune_draining_locked now (drop_current a m) = drop_current a (prune_draining_locked now m)"
proof -
  have "drain_expired now (drop_current a m) = drain_expired now m"
    by (rule ext) (simp add: drain_expired_def)
  then show ?thesis by (simp add: prune_draining_locked_def Let_def)
qed

lemma append_drop_current:
  "append_draining_locked now r (drop_current a m) = drop_current a (append_draining_locked now r m)"
proof (cases "r \<in> set (draining m)")
  case True
  then show ?thesis by (simp add: append_draining_locked_def)
next
  case False
  have e: "(drop_current a m)\<lparr>heap := h, draining := d\<rparr> = m\<lparr>heap := h, draining := d, current := (current m)(a := None)\<rparr>"
    for h d by simp
  from False show ?thesis
    using prune_drop_current[where now = now and a = a and
        m = "(put_run r ((get_run m r)\<lparr>drained_at := now\<rparr>) m)\<lparr>draining := draining m @ [r]\<rparr>"]
    unfolding append_draining_locked_def by (simp add: e)
qed

lemma release_abandoned_eq:
  assumes "m1 = release_inflight r m" "\<not> inflight (get_run m1 r) > 0"
    "m2 = (if run_status (get_run m1 r) = '''' then put_run r ((get_run m1 r)\<lparr>run_status := ''cancelled''\<rparr>) m1 else m1)"
  shows "release_abandoned now r m =
    (if is_current r m2
     then (drop_current (agent_id (get_run m2 r)) (append_draining_locked now r m2))\<lparr>to_enqueue := to_enqueue m2 @ [r]\<rparr>
     else m2\<lparr>to_enqueue := to_enqueue m2 @ [r]\<rparr>)"
  unfolding release_abandoned_def Let_def assms(1)[symmetric] if_not_P[OF assms(2)] assms(3)[symmetric]
    append_drop_current ..

lemma inv_abandon:
  assumes "run_inv s" "r \<in> set (leases s)"
  shows "run_inv (s\<lparr>mgr := release_abandoned now r (mgr s), leases := remove1 r (leases s)\<rparr>)"
proof -
  define s1 where "s1 = s\<lparr>mgr := release_inflight r (mgr s), leases := remove1 r (leases s)\<rparr>"
  have inv1: "run_inv s1" unfolding s1_def by (rule inv_release_inflight[OF assms])
  have k1: "known s1 r"
    using assms by (auto simp: s1_def known_def release_inflight_def run_inv_but_def ids_ok_def)
  define m2 where "m2 = (if run_status (get_run (mgr s1) r) = '''' then
      put_run r ((get_run (mgr s1) r)\<lparr>run_status := ''cancelled''\<rparr>) (mgr s1) else mgr s1)"
  have v: "same_view (mgr s1) m2"
    by (simp add: m2_def same_view_put[where r = r and x = "(get_run (mgr s1) r)\<lparr>run_status := ''cancelled''\<rparr>"])
  have inv2: "run_inv (s1\<lparr>mgr := m2\<rparr>)" by (rule quiet_step[OF inv1 v]) (simp_all add: m2_def)
  have k2: "known (s1\<lparr>mgr := m2\<rparr>) r" using k1 same_view_length[OF v] by (simp add: known_def)
  show ?thesis
  proof (cases "inflight (get_run (mgr s1) r) > 0")
    case True
    with inv1 show ?thesis by (simp add: s1_def release_abandoned_def Let_def)
  next
    case False
    then have i: "inflight (get_run m2 r) = 0"
      using inflight_nonneg[OF inv1 k1] same_view_fields(2)[OF v] k1 by (simp add: known_def)
    define m3 where "m3 = append_draining_locked now r m2"
    have inv3: "run_inv (s1\<lparr>mgr := m3\<rparr>)"
      using inv_append[OF inv2 k2, of now] by (simp add: m3_def)
    have v3: "same_view m2 m3" unfolding m3_def by (rule append_view)
    have rl: "r < length (heap m2)" using k2 by (simp add: known_def)
    have k3: "known (s1\<lparr>mgr := m3\<rparr>) r" using rl same_view_length[OF v3] by (simp add: known_def)
    have f3: "inflight (get_run m3 r) = 0" "agent_id (get_run m3 r) = agent_id (get_run m2 r)"
      "is_current r m3 = is_current r m2" "to_enqueue m3 = to_enqueue m2"
      using same_view_fields[OF v3 rl] i by (simp_all add: is_current_def m3_def)
    have eq: "release_abandoned now r (mgr s) =
      (if is_current r m2 then (drop_current (agent_id (get_run m3 r)) m3)\<lparr>to_enqueue := to_enqueue m3 @ [r]\<rparr>
       else m2\<lparr>to_enqueue := to_enqueue m2 @ [r]\<rparr>)"
      using release_abandoned_eq[of "mgr s1" r "mgr s" m2 now] False m2_def f3
      by (simp add: s1_def m3_def)
    show ?thesis
    proof (cases "is_current r m2")
      case True
      with inv_retire[OF inv3 k3] f3 show ?thesis unfolding eq by (simp add: s1_def)
    next
      case False
      with inv_retire[OF inv2 k2] i show ?thesis unfolding eq by (simp add: s1_def)
    qed
  qed
qed

lemma inv_invalidate:
  assumes "run_inv s"
  shows "run_inv (s\<lparr>mgr := invalidate agent (mgr s),
     invalidated := invalidated s @ (case current (mgr s) agent of None \<Rightarrow> [] | Some r \<Rightarrow> [r])\<rparr>)"
proof -
  define t where "t = s\<lparr>mgr := drop_current agent (mgr s),
     invalidated := invalidated s @ (case current (mgr s) agent of None \<Rightarrow> [] | Some r \<Rightarrow> [r])\<rparr>"
  have "run_inv t"
    by (rule inv_intro[OF inv_drop_current[OF assms, of agent]])
      ((auto simp: t_def ids_ok_def known_def)[1], (auto simp: t_def current_ok_def known_def)[1],
       (auto simp: t_def draining_ok_def)[1], (auto simp: t_def finishing_ok_def known_def)[1],
       (auto simp: t_def leases_ok_def known_def)[1], (auto simp: t_def queued_ok_def known_def)[1],
       (auto simp: t_def tracked_defs split: option.splits)[1])
  then have "run_inv (t\<lparr>mgr := remove_run agent (mgr t)\<rparr>)"
    by (rule quiet_step) (simp_all add: remove_run_def)
  then show ?thesis by (simp add: t_def invalidate_def)
qed


text \<open>A new run becomes current; the replaced one is in hand.\<close>

lemma count_if_zero: "(\<And>x. x \<in> set xs \<Longrightarrow> \<not> P x) \<Longrightarrow> count_if P xs = 0"
  by (simp add: count_if_def filter_empty_conv)

lemma inv_new_current:
  assumes "run_inv s" "agent_id x = agent" "inflight x = 0" "\<not> finishing x" "\<not> queued x"
  shows "run_inv_but {old. current (mgr s) agent = Some old}
    (s\<lparr>mgr := (mgr s)\<lparr>heap := heap (mgr s) @ [x], current := (current (mgr s))(agent \<mapsto> length (heap (mgr s))),
       starting := st\<rparr>\<rparr>)"
proof -
  define m' where "m' = (mgr s)\<lparr>heap := heap (mgr s) @ [x], current := (current (mgr s))(agent \<mapsto> length (heap (mgr s))),
       starting := st\<rparr>"
  define t where "t = s\<lparr>mgr := m'\<rparr>"
  have k: "known t j \<longleftrightarrow> known s j \<or> j = length (heap (mgr s))" for j
    by (auto simp: t_def m'_def known_def)
  have g: "known s j \<Longrightarrow> get_run m' j = get_run (mgr s) j" for j
    by (simp add: m'_def known_def nth_append)
  have new: "get_run m' (length (heap (mgr s))) = x" by (simp add: m'_def)
  have unk: "\<not> known s (length (heap (mgr s)))" by (simp add: known_def)
  have "run_inv_but {old. current (mgr s) agent = Some old} t"
  proof (rule inv_intro[OF assms(1)])
    show "ids_ok s \<Longrightarrow> ids_ok t" unfolding ids_ok_def k by (auto simp: t_def m'_def)
    show "current_ok s \<Longrightarrow> current_ok t"
    proof -
      have e: "current m' = (current (mgr s))(agent \<mapsto> length (heap (mgr s)))" by (simp add: m'_def)
      show "current_ok s \<Longrightarrow> current_ok t"
        using new assms(2,4) unfolding current_ok_def k by (auto simp: t_def g e)
    qed
    show "draining_ok s \<Longrightarrow> draining_ok t" by (simp add: draining_ok_def t_def m'_def)
    show "ids_ok s \<Longrightarrow> finishing_ok s \<Longrightarrow> finishing_ok t"
    proof -
      assume ids: "ids_ok s" and f: "finishing_ok s"
      have n: "length (heap (mgr s)) \<notin> set (claimed (mgr s) @ sent (mgr s) @ finished s)"
        using ids unk by (auto simp: ids_ok_def)
      have e: "claimed m' = claimed (mgr s)" "sent m' = sent (mgr s)" by (simp_all add: m'_def)
      show "finishing_ok t"
        using f n new assms(4) unfolding finishing_ok_def k by (auto simp: t_def g e)
    qed
    show "ids_ok s \<Longrightarrow> leases_ok s \<Longrightarrow> leases_ok t"
    proof -
      assume ids: "ids_ok s" and l: "leases_ok s"
      have "count_if (\<lambda>l. l = length (heap (mgr s))) (leases s) = 0"
        by (rule count_if_zero) (use ids unk in \<open>auto simp: ids_ok_def\<close>)
      with l new assms(3,4) show "leases_ok t" unfolding leases_ok_def k by (auto simp: t_def g)
    qed
    show "queued_ok s \<Longrightarrow> queued_ok t"
    proof -
      have e: "jobs m' = jobs (mgr s)" by (simp add: m'_def)
      show "queued_ok s \<Longrightarrow> queued_ok t" using new assms(5) unfolding queued_ok_def k by (auto simp: t_def g e)
    qed
    show "current_ok s \<Longrightarrow> tracked_ok {} s \<Longrightarrow> tracked_ok {old. current (mgr s) agent = Some old} t"
    proof -
      have e: "draining m' = draining (mgr s)" "jobs m' = jobs (mgr s)" "to_enqueue m' = to_enqueue (mgr s)"
        "dropped m' = dropped (mgr s)" "current m' = (current (mgr s))(agent \<mapsto> length (heap (mgr s)))"
        by (simp_all add: m'_def)
      show "tracked_ok {} s \<Longrightarrow> tracked_ok {old. current (mgr s) agent = Some old} t"
        using new assms(2) unfolding tracked_ok_def tracked_def is_current_def k by (auto simp: t_def g e)
    qed
  qed
  then show ?thesis by (simp add: t_def m'_def)
qed

lemma inv_install:
  assumes "run_inv s" "agent_id x = agent" "inflight x = 0" "\<not> finishing x" "\<not> queued x"
    "install_run now agent x (mgr s) = (old, m')"
  shows "run_inv (s\<lparr>mgr := m'\<rparr>)" "length (heap m') = Suc (length (heap (mgr s)))"
    "old = Some r \<Longrightarrow> known s r" "old = current (mgr s) agent" "to_persist m' = to_persist (mgr s)"
    "to_enqueue m' = to_enqueue (mgr s)"
proof -
  define m1 where "m1 = (mgr s)\<lparr>heap := heap (mgr s) @ [x], current := (current (mgr s))(agent \<mapsto> length (heap (mgr s))),
       starting := (starting (mgr s))(agent := None)\<rparr>"
  have inv: "run_inv_but {old. current (mgr s) agent = Some old} (s\<lparr>mgr := m1\<rparr>)"
    unfolding m1_def by (rule inv_new_current[OF assms(1-5)])
  have "install_run now agent x (mgr s) = (current (mgr s) agent,
      case current (mgr s) agent of None \<Rightarrow> m1 | Some old \<Rightarrow> append_draining_locked now old m1)"
    by (simp only: install_run_def Let_def m1_def)
  then have old: "old = current (mgr s) agent" and m': "m' = (case old of None \<Rightarrow> m1 | Some old \<Rightarrow> append_draining_locked now old m1)"
    using assms(6) by auto
  show "old = Some r \<Longrightarrow> known s r"
    using assms(1) old by (auto simp: run_inv_but_def current_ok_def)
  show "run_inv (s\<lparr>mgr := m'\<rparr>)"
  proof (cases old)
    case None
    with inv old m' show ?thesis by simp
  next
    case (Some r)
    have "current (mgr s) agent = Some r \<Longrightarrow> r < length (heap (mgr s))"
      using assms(1) unfolding run_inv_but_def current_ok_def known_def by blast
    with old Some have "known (s\<lparr>mgr := m1\<rparr>) r" by (simp add: known_def m1_def)
    from inv_append[OF inv this, of now] Some old m' show ?thesis by simp
  qed
  show "length (heap m') = Suc (length (heap (mgr s)))"
    using same_view_length[OF append_view] m' by (auto simp: m1_def split: option.split)
  show "old = current (mgr s) agent" by (rule old)
  show "to_persist m' = to_persist (mgr s)" "to_enqueue m' = to_enqueue (mgr s)"
    using m' by (auto simp: m1_def split: option.split)
qed

lemma inv_to_persist:
  assumes "run_inv s" "known s (fst f)" "\<And>r. snd f = Some r \<Longrightarrow> known s r"
  shows "run_inv (s\<lparr>mgr := (mgr s)\<lparr>to_persist := to_persist (mgr s) @ [f]\<rparr>\<rparr>)"
  by (rule inv_intro[OF assms(1)])
    ((use assms(2,3) in \<open>auto simp: ids_ok_def known_def\<close>)[1], (auto simp: current_ok_def known_def)[1],
     (auto simp: draining_ok_def)[1], (auto simp: finishing_ok_def known_def)[1],
     (auto simp: leases_ok_def known_def)[1], (auto simp: queued_ok_def known_def)[1],
     (auto simp: tracked_defs)[1])

lemma inv_adopt:
  assumes "run_inv s"
  shows "run_inv (s\<lparr>mgr := rotate_adopt now client agent (mgr s)\<rparr>)"
proof (cases "\<exists>pr. starting (mgr s) agent = Some (Flight_Loaded pr) \<and> \<not> shutting_down (mgr s)")
  case False
  then have "rotate_adopt now client agent (mgr s) = mgr s \<or>
      rotate_adopt now client agent (mgr s) = (mgr s)\<lparr>starting := (starting (mgr s))(agent := None)\<rparr>"
    by (auto simp: rotate_adopt_def split: option.splits flight.splits)
  then show ?thesis by (elim disjE; intro quiet_step[OF assms]) simp_all
next
  case True
  then obtain pr where pr: "starting (mgr s) agent = Some (Flight_Loaded pr)" "\<not> shutting_down (mgr s)" by blast
  define x where "x = fresh_run agent (pr_run_id pr) (pr_started_at pr) (pr_trace pr)
      (if pr_client pr \<noteq> '''' then pr_client pr else client) (pr_requests pr)"
  obtain old m' where i: "install_run now agent x (mgr s) = (old, m')" by (cases "install_run now agent x (mgr s)")
  have x: "agent_id x = agent" "inflight x = 0" "\<not> finishing x" "\<not> queued x" by (simp_all add: x_def fresh_run_def)
  note ins = inv_install[OF assms x i]
  have kn: "r \<in> set (case old of None \<Rightarrow> [] | Some r \<Rightarrow> [r]) \<Longrightarrow> known (s\<lparr>mgr := m'\<rparr>) r" for r
    using ins(2) ins(3)[of r] by (cases old) (auto simp: known_def)
  have "rotate_adopt now client agent (mgr s) = m'\<lparr>to_enqueue := to_enqueue m' @ (case old of None \<Rightarrow> [] | Some r \<Rightarrow> [r])\<rparr>"
    using pr i by (simp add: rotate_adopt_def x_def)
  moreover have "run_inv (s\<lparr>mgr := m'\<lparr>to_enqueue := to_enqueue m' @ (case old of None \<Rightarrow> [] | Some r \<Rightarrow> [r])\<rparr>\<rparr>)"
    using inv_enqueue[OF ins(1), of "case old of None \<Rightarrow> [] | Some r \<Rightarrow> [r]"] kn by simp
  ultimately show ?thesis by simp
qed

lemma inv_started:
  assumes "run_inv s"
  shows "run_inv (s\<lparr>mgr := snd (rotate_started now rid trace client agent (mgr s))\<rparr>)"
proof (cases "shutting_down (mgr s)")
  case True
  then show ?thesis by (intro quiet_step[OF assms]) (simp_all add: rotate_started_def)
next
  case False
  define x where "x = fresh_run agent rid now trace client 0"
  obtain old m' where i: "install_run now agent x (mgr s) = (old, m')" by (cases "install_run now agent x (mgr s)")
  have x: "agent_id x = agent" "inflight x = 0" "\<not> finishing x" "\<not> queued x" by (simp_all add: x_def fresh_run_def)
  note ins = inv_install[OF assms x i]
  have "run_inv (s\<lparr>mgr := m'\<lparr>to_persist := to_persist m' @ [(length (heap (mgr s)), old)]\<rparr>\<rparr>)"
    using ins(2,3)
    by (intro inv_to_persist[OF ins(1), simplified]) (auto simp: known_def less_Suc_eq)
  with False i x_def show ?thesis by (simp add: rotate_started_def)
qed

lemma inv_persist:
  assumes "run_inv s" "f \<in> set (to_persist (mgr s))"
  shows "run_inv (s\<lparr>mgr := rotate_persist f (mgr s)\<rparr>)"
proof -
  define m1 where "m1 = (persist_run (fst f) (mgr s))\<lparr>to_persist := remove1 f (to_persist (mgr s))\<rparr>"
  have inv: "run_inv (s\<lparr>mgr := m1\<rparr>)"
    using set_remove1_subset[of f "to_persist (mgr s)"]
    by (intro quiet_step[OF assms(1)]) (simp_all add: m1_def persist_run_def Let_def)
  have kn: "r \<in> set (case snd f of None \<Rightarrow> [] | Some r \<Rightarrow> [r]) \<Longrightarrow> known (s\<lparr>mgr := m1\<rparr>) r" for r
    using assms
    by (auto simp: run_inv_but_def ids_ok_def known_def m1_def persist_run_def Let_def split: option.splits)
  have "rotate_persist f (mgr s) = m1\<lparr>to_enqueue := to_enqueue m1 @ (case snd f of None \<Rightarrow> [] | Some r \<Rightarrow> [r])\<rparr>"
    by (simp add: rotate_persist_def Let_def m1_def persist_run_def)
  moreover have "run_inv (s\<lparr>mgr := m1\<lparr>to_enqueue := to_enqueue m1 @ (case snd f of None \<Rightarrow> [] | Some r \<Rightarrow> [r])\<rparr>\<rparr>)"
    using inv_enqueue[OF inv, of "case snd f of None \<Rightarrow> [] | Some r \<Rightarrow> [r]"] kn by simp
  ultimately show ?thesis by simp
qed

text \<open>The finish queue.\<close>

lemma inv_enqueue_finish:
  assumes "run_inv s" "r \<in> set (to_enqueue (mgr s))"
  shows "run_inv (s\<lparr>mgr := enqueue_finish r (mgr s)\<rparr>)"
proof -
  define m' where "m' = enqueue_finish r (mgr s)"
  define t where "t = s\<lparr>mgr := m'\<rparr>"
  have r: "known s r" using assms by (auto simp: run_inv_but_def ids_ok_def)
  have m': "heap m' = (if queued (get_run (mgr s) r) then heap (mgr s) else (heap (mgr s))[r := (get_run (mgr s) r)\<lparr>queued := True\<rparr>])"
    "jobs m' = (if queued (get_run (mgr s) r) then jobs (mgr s) else jobs (mgr s) @ [r])"
    "to_enqueue m' = remove1 r (to_enqueue (mgr s))" "draining m' = draining (mgr s)" "current m' = current (mgr s)"
    "claimed m' = claimed (mgr s)" "sent m' = sent (mgr s)" "to_persist m' = to_persist (mgr s)"
    "dropped m' = dropped (mgr s)" "drain_queue_cap m' = drain_queue_cap (mgr s)"
    by (simp_all add: m'_def enqueue_finish_def Let_def)
  have k: "known t j = known s j" for j by (simp add: t_def known_def m')
  have g: "known s j \<Longrightarrow> agent_id (get_run m' j) = agent_id (get_run (mgr s) j)"
    "known s j \<Longrightarrow> inflight (get_run m' j) = inflight (get_run (mgr s) j)"
    "known s j \<Longrightarrow> finishing (get_run m' j) = finishing (get_run (mgr s) j)"
    "known s j \<Longrightarrow> queued (get_run m' j) = (queued (get_run (mgr s) j) \<or> j = r)" for j
    by (auto simp: m' get_put)
  note sub = set_remove1_subset[of r "to_enqueue (mgr s)"]
  have inj: "r \<in> set (jobs m')"
    using assms(1) r by (auto simp: m' run_inv_but_def queued_ok_def)
  have rm: "j \<in> set (to_enqueue (mgr s)) \<Longrightarrow> j \<in> set (to_enqueue m') \<or> j \<in> set (jobs m')" for j
    using inj in_set_remove1[of j r "to_enqueue (mgr s)"] by (cases "j = r") (auto simp: m'(3))
  have jm: "set (jobs (mgr s)) \<subseteq> set (jobs m')" "set (jobs m') \<subseteq> insert r (set (jobs (mgr s)))" by (auto simp: m')
  have "run_inv t"
  proof (rule inv_intro[OF assms(1)])
    show "ids_ok s \<Longrightarrow> ids_ok t" using jm r sub unfolding ids_ok_def k by (auto simp: t_def m'(3-8))
    show "current_ok s \<Longrightarrow> current_ok t" unfolding current_ok_def k by (simp add: t_def g m'(5))
    show "draining_ok s \<Longrightarrow> draining_ok t" by (simp add: draining_ok_def t_def m'(4,10))
    show "finishing_ok s \<Longrightarrow> finishing_ok t" unfolding finishing_ok_def k by (simp add: t_def g m'(6,7))
    show "leases_ok s \<Longrightarrow> leases_ok t" unfolding leases_ok_def k by (simp add: t_def g)
    show "queued_ok s \<Longrightarrow> queued_ok t" using jm inj unfolding queued_ok_def k by (auto simp: t_def g)
    show "tracked_ok {} s \<Longrightarrow> tracked_ok {} t"
      using jm rm unfolding tracked_ok_def tracked_def is_current_def k by (simp add: t_def g m'(4,5,9)) blast
  qed
  then show ?thesis by (simp add: t_def m'_def)
qed

lemma inv_take_job:
  assumes "run_inv s" "r \<in> set (jobs (mgr s))"
  shows "run_inv (s\<lparr>mgr := finish_if_ready r (mgr s)\<rparr>)"
proof -
  define claim where "claim \<longleftrightarrow> \<not> (inflight (get_run (mgr s) r) > 0 \<or> finishing (get_run (mgr s) r)) \<and> \<not> is_current r (mgr s)"
  define m' where "m' = finish_if_ready r (mgr s)"
  define t where "t = s\<lparr>mgr := m'\<rparr>"
  have r: "known s r" using assms by (auto simp: run_inv_but_def ids_ok_def)
  have ag: "is_current r ((mgr s)\<lparr>heap := (heap (mgr s))[r := (get_run (mgr s) r)\<lparr>queued := False\<rparr>], jobs := js\<rparr>) =
      is_current r (mgr s)" for js
    using r by (simp add: is_current_def get_put)
  have m': "heap m' = (heap (mgr s))[r := (if claim then (get_run (mgr s) r)\<lparr>queued := False, finishing := True\<rparr>
        else (get_run (mgr s) r)\<lparr>queued := False\<rparr>)]"
    "jobs m' = remove1 r (jobs (mgr s))" "claimed m' = claimed (mgr s) @ (if claim then [r] else [])"
    "to_enqueue m' = to_enqueue (mgr s)" "draining m' = draining (mgr s)" "current m' = current (mgr s)"
    "sent m' = sent (mgr s)" "to_persist m' = to_persist (mgr s)"
    "dropped m' = dropped (mgr s)" "drain_queue_cap m' = drain_queue_cap (mgr s)"
    using r ag by (auto simp: m'_def finish_if_ready_def Let_def claim_def get_put)
  have k: "known t j = known s j" for j by (simp add: t_def known_def m')
  have g: "known s j \<Longrightarrow> agent_id (get_run m' j) = agent_id (get_run (mgr s) j)"
    "known s j \<Longrightarrow> inflight (get_run m' j) = inflight (get_run (mgr s) j)"
    "known s j \<Longrightarrow> finishing (get_run m' j) = (finishing (get_run (mgr s) j) \<or> j = r \<and> claim)"
    "known s j \<Longrightarrow> queued (get_run m' j) = (queued (get_run (mgr s) j) \<and> j \<noteq> r)" for j
    by (auto simp: m' get_put)
  note sub = set_remove1_subset[of r "jobs (mgr s)"]
  have keep: "j \<noteq> r \<Longrightarrow> j \<in> set (jobs (mgr s)) \<Longrightarrow> j \<in> set (jobs m')" for j
    by (simp add: m'(2) in_set_remove1)
  have nc: "claim \<Longrightarrow> r \<notin> set (claimed (mgr s) @ sent (mgr s) @ finished s)"
    using assms(1) r by (auto simp: claim_def run_inv_but_def finishing_ok_def)
  have nl: "claim \<Longrightarrow> r \<notin> set (leases s)"
    using assms(1) r count_if_pos[of r "leases s" "\<lambda>l. l = r"] by (auto simp: claim_def run_inv_but_def leases_ok_def)
  have nr: "claim \<Longrightarrow> current (mgr s) agent \<noteq> Some r" for agent
    using assms(1) by (auto simp: claim_def run_inv_but_def current_ok_def is_current_def)
  have "run_inv t"
  proof (rule inv_intro[OF assms(1)])
    show "ids_ok s \<Longrightarrow> ids_ok t" using r sub unfolding ids_ok_def k by (auto simp: t_def m'(2-8))
    show "current_ok s \<Longrightarrow> current_ok t" using nr unfolding current_ok_def k by (auto simp: t_def g m'(6))
    show "draining_ok s \<Longrightarrow> draining_ok t" by (simp add: draining_ok_def t_def m'(5,10))
    show "finishing_ok s \<Longrightarrow> finishing_ok t" using nc unfolding finishing_ok_def k by (auto simp: t_def g m'(3,7))
    show "leases_ok s \<Longrightarrow> leases_ok t" using nl unfolding leases_ok_def k by (auto simp: t_def g)
    show "queued_ok s \<Longrightarrow> queued_ok t" using keep unfolding queued_ok_def k by (auto simp: t_def g)
    show "tracked_ok {} s \<Longrightarrow> tracked_ok {} t"
      unfolding tracked_ok_def k
    proof (intro allI impI)
      fix j
      assume tr: "\<forall>r. known s r \<longrightarrow> r \<notin> {} \<longrightarrow> tracked s r \<or> r \<in> set (dropped (mgr s)) \<or> r \<in> set (invalidated s)"
        and j: "known s j"
      then have "tracked s j \<or> j \<in> set (dropped (mgr s)) \<or> j \<in> set (invalidated s)" by simp
      moreover have "tracked s j \<Longrightarrow> tracked t j"
      proof (cases "j = r")
        case True
        assume "tracked s j"
        with True r inflight_nonneg[OF assms(1) r] show "tracked t j"
          unfolding tracked_def is_current_def
          by (auto simp: t_def g m'(4,5,6) claim_def is_current_def)
      next
        case False
        assume "tracked s j"
        with False j keep[OF False] show "tracked t j"
          unfolding tracked_def is_current_def by (auto simp: t_def g m'(4,5,6))
      qed
      ultimately show "tracked t j \<or> j \<in> set (dropped (mgr t)) \<or> j \<in> set (invalidated t)"
        by (auto simp: t_def m'(9))
    qed
  qed
  then show ?thesis by (simp add: t_def m'_def)
qed

lemma inv_sent_ids_eq: "run_inv_but X (s\<lparr>sent_ids := i\<rparr>) = run_inv_but X s"
proof (cases s)
  case (fields m l f si inv)
  show ?thesis
    unfolding fields run_inv_but_def ids_ok_def current_ok_def draining_ok_def finishing_ok_def leases_ok_def
      queued_ok_def tracked_defs
    by (simp only: run_system.simps)
qed

lemma inv_sent_ids: "run_inv_but X s \<Longrightarrow> run_inv_but X (s\<lparr>sent_ids := i\<rparr>)"
  by (simp only: inv_sent_ids_eq)

lemma inv_dispatch:
  assumes "run_inv s" "r \<in> set (claimed (mgr s))"
  shows "run_inv (s\<lparr>mgr := snd (finish_dispatch r (mgr s)), sent_ids := i\<rparr>)"
proof -
  define t where "t = s\<lparr>mgr := (mgr s)\<lparr>claimed := remove1 r (claimed (mgr s)), sent := sent (mgr s) @ [r]\<rparr>\<rparr>"
  have r: "known s r" using assms by (auto simp: run_inv_but_def ids_ok_def)
  have d: "distinct (claimed (mgr s) @ sent (mgr s) @ finished s)"
    using assms(1) by (simp add: run_inv_but_def finishing_ok_def)
  then have st: "set (claimed (mgr t)) = set (claimed (mgr s)) - {r}" "set (sent (mgr t)) = insert r (set (sent (mgr s)))"
    by (simp_all add: t_def)
  have "run_inv t"
  proof (rule inv_intro[OF assms(1)])
    show "ids_ok s \<Longrightarrow> ids_ok t" using r st by (auto simp: ids_ok_def known_def t_def)
    show "current_ok s \<Longrightarrow> current_ok t" by (simp add: current_ok_def known_def t_def)
    show "draining_ok s \<Longrightarrow> draining_ok t" by (simp add: draining_ok_def t_def)
    show "finishing_ok s \<Longrightarrow> finishing_ok t"
      using d assms(2) by (auto simp: finishing_ok_def known_def t_def)
    show "leases_ok s \<Longrightarrow> leases_ok t" by (simp add: leases_ok_def known_def t_def)
    show "queued_ok s \<Longrightarrow> queued_ok t" by (simp add: queued_ok_def known_def t_def)
    show "tracked_ok {} s \<Longrightarrow> tracked_ok {} t" by (simp add: tracked_defs t_def)
  qed
  then have "run_inv (t\<lparr>mgr := remove_run (agent_id (get_run (mgr s) r)) (mgr t)\<rparr>)"
    by (rule quiet_step) (simp_all add: remove_run_def)
  moreover have "remove_run (agent_id (get_run (mgr s) r)) (mgr t) = snd (finish_dispatch r (mgr s))"
    by (simp add: t_def finish_dispatch_def remove_run_def)
  ultimately have "run_inv (s\<lparr>mgr := snd (finish_dispatch r (mgr s))\<rparr>)" by (simp add: t_def)
  from inv_sent_ids[OF this] show ?thesis by simp
qed

lemma inv_ok:
  assumes "run_inv s" "r \<in> set (sent (mgr s))"
  shows "run_inv (s\<lparr>mgr := finish_result now True r (mgr s), finished := finished s @ [r]\<rparr>)"
proof -
  define t where "t = s\<lparr>mgr := (mgr s)\<lparr>sent := remove1 r (sent (mgr s)), draining := filter (\<lambda>d. d \<noteq> r) (draining (mgr s))\<rparr>,
      finished := finished s @ [r]\<rparr>"
  have r: "known s r" using assms by (auto simp: run_inv_but_def ids_ok_def)
  have d: "distinct (claimed (mgr s) @ sent (mgr s) @ finished s)" "finishing (get_run (mgr s) r)"
    using assms r by (auto simp: run_inv_but_def finishing_ok_def)
  then have st: "set (sent (mgr t)) = set (sent (mgr s)) - {r}" by (simp add: t_def)
  have i: "inflight (get_run (mgr s) r) = 0"
  proof -
    have "r \<notin> set (leases s)" using assms(1) r d(2) by (auto simp: run_inv_but_def leases_ok_def)
    then have "count_if (\<lambda>l. l = r) (leases s) = 0" by (intro count_if_zero) auto
    then show ?thesis using assms(1) r by (simp add: run_inv_but_def leases_ok_def)
  qed
  have "run_inv t"
  proof (rule inv_intro[OF assms(1)])
    show "ids_ok s \<Longrightarrow> ids_ok t" using r st by (auto simp: ids_ok_def known_def t_def)
    show "current_ok s \<Longrightarrow> current_ok t" by (simp add: current_ok_def known_def t_def)
    show "draining_ok s \<Longrightarrow> draining_ok t"
      by (auto simp: draining_ok_def t_def intro: order_trans[OF length_filter_le])
    show "finishing_ok s \<Longrightarrow> finishing_ok t"
      using d assms(2) by (auto simp: finishing_ok_def known_def t_def)
    show "leases_ok s \<Longrightarrow> leases_ok t" by (simp add: leases_ok_def known_def t_def)
    show "queued_ok s \<Longrightarrow> queued_ok t" by (simp add: queued_ok_def known_def t_def)
    show "tracked_ok {} s \<Longrightarrow> tracked_ok {} t" using d(2) i by (auto simp: tracked_defs t_def)
  qed
  then show ?thesis by (simp add: t_def finish_result_def Let_def)
qed

lemma inv_error:
  assumes "run_inv s" "r \<in> set (sent (mgr s))"
  shows "run_inv (s\<lparr>mgr := finish_result now False r (mgr s)\<rparr>)"
proof -
  define m' where "m' = (put_run r ((get_run (mgr s) r)\<lparr>finishing := False\<rparr>) (mgr s))\<lparr>sent := remove1 r (sent (mgr s))\<rparr>"
  define t where "t = s\<lparr>mgr := m'\<rparr>"
  have r: "known s r" using assms by (auto simp: run_inv_but_def ids_ok_def)
  have d: "distinct (claimed (mgr s) @ sent (mgr s) @ finished s)"
    using assms r by (auto simp: run_inv_but_def finishing_ok_def)
  have m': "draining m' = draining (mgr s)" "current m' = current (mgr s)" "claimed m' = claimed (mgr s)"
    "jobs m' = jobs (mgr s)" "to_enqueue m' = to_enqueue (mgr s)" "to_persist m' = to_persist (mgr s)"
    "dropped m' = dropped (mgr s)" "drain_queue_cap m' = drain_queue_cap (mgr s)" "sent m' = remove1 r (sent (mgr s))"
    by (simp_all add: m'_def)
  have k: "known t j = known s j" for j by (simp add: t_def m'_def known_def)
  have g: "known s j \<Longrightarrow> agent_id (get_run m' j) = agent_id (get_run (mgr s) j)"
    "known s j \<Longrightarrow> inflight (get_run m' j) = inflight (get_run (mgr s) j)"
    "known s j \<Longrightarrow> finishing (get_run m' j) = (finishing (get_run (mgr s) j) \<and> j \<noteq> r)"
    "known s j \<Longrightarrow> queued (get_run m' j) = queued (get_run (mgr s) j)" for j
    by (auto simp: m'_def get_put)
  have st: "set (sent m') = set (sent (mgr s)) - {r}" using d by (simp add: m')
  have "run_inv_but {r} t"
  proof (rule inv_intro[OF assms(1)])
    show "ids_ok s \<Longrightarrow> ids_ok t" using st unfolding ids_ok_def k by (auto simp: t_def m'(1-8))
    show "current_ok s \<Longrightarrow> current_ok t" unfolding current_ok_def k by (simp add: t_def g m'(2))
    show "draining_ok s \<Longrightarrow> draining_ok t" by (simp add: draining_ok_def t_def m')
    show "finishing_ok s \<Longrightarrow> finishing_ok t"
      using d assms(2) st unfolding finishing_ok_def k by (auto simp: t_def g m'(3,9))
    show "leases_ok s \<Longrightarrow> leases_ok t" unfolding leases_ok_def k by (simp add: t_def g)
    show "queued_ok s \<Longrightarrow> queued_ok t" unfolding queued_ok_def k by (simp add: t_def g m'(4))
    show "tracked_ok {} s \<Longrightarrow> tracked_ok {r} t"
      unfolding tracked_ok_def tracked_def is_current_def k by (simp add: t_def g m'(1-7))
  qed
  then have "run_inv (t\<lparr>mgr := append_draining_locked now r m'\<rparr>)"
    using inv_append[of "{r}" t r now] r k by (simp add: t_def)
  moreover have "finish_result now False r (mgr s) = append_draining_locked now r m'"
  proof -
    have "put_run r ((get_run (mgr s) r)\<lparr>finishing := False\<rparr>) ((mgr s)\<lparr>sent := remove1 r (sent (mgr s))\<rparr>) = m'"
      by (simp add: m'_def)
    then show ?thesis by (simp add: finish_result_def Let_def)
  qed
  ultimately show ?thesis by (simp add: t_def)
qed

text \<open>Background passes.\<close>

lemma inv_maintain:
  assumes "run_inv s"
  shows "run_inv (s\<lparr>mgr := maintain_enqueue now (mgr s)\<rparr>)"
proof -
  let ?m = "prune_draining_locked now (mgr s)"
  have inv: "run_inv (s\<lparr>mgr := ?m\<rparr>)" by (rule inv_prune[OF assms])
  have "known (s\<lparr>mgr := ?m\<rparr>) r" if "r \<in> set (draining ?m)" for r
    using inv that by (auto simp: run_inv_but_def ids_ok_def known_def)
  from inv_enqueue[OF inv, of "draining ?m"] this assms show ?thesis
    by (auto simp: maintain_enqueue_def Let_def)
qed

lemma inv_append_all:
  "run_inv (s\<lparr>mgr := m\<rparr>) \<Longrightarrow> (\<And>r. r \<in> set rs \<Longrightarrow> r < length (heap m)) \<Longrightarrow>
   run_inv (s\<lparr>mgr := append_all_draining now rs m\<rparr>)"
proof (induction rs arbitrary: m)
  case Nil
  then show ?case by simp
next
  case (Cons r rs)
  have "run_inv (s\<lparr>mgr := append_draining_locked now r m\<rparr>)"
    using inv_append[OF Cons.prems(1), of r now] Cons.prems(2)[of r] by (simp add: known_def)
  moreover have "j < length (heap (append_draining_locked now r m))" if "j \<in> set rs" for j
    using same_view_length[OF append_view[of m now r]] Cons.prems(2)[of j] that by simp
  ultimately show ?case using Cons.IH by simp
qed

lemma inv_finish_all:
  assumes "run_inv s" "set agents = dom (current (mgr s))"
  shows "run_inv (s\<lparr>mgr := finish_all_runs now agents (mgr s)\<rparr>)"
proof -
  define busy where "busy = (\<lambda>r. inflight (get_run (mgr s) r) > 0)"
  define cur where "cur = current_runs agents (mgr s)"
  define m1 where "m1 = (mgr s)\<lparr>current := (\<lambda>a. case current (mgr s) a of None \<Rightarrow> None | Some r \<Rightarrow> if busy r then Some r else None),
                 draining := filter busy (draining (mgr s)),
                 jobs := jobs (mgr s) @ filter (\<lambda>r. \<not> busy r) cur @ filter (\<lambda>r. \<not> busy r) (draining (mgr s))\<rparr>"
  define t where "t = s\<lparr>mgr := m1\<rparr>"
  have cur: "r \<in> set cur \<longleftrightarrow> (\<exists>a. current (mgr s) a = Some r)" for r
    using assms(2) by (fastforce simp: cur_def current_runs_def map_filter_def dom_def image_iff)
  have kc: "known s r" if "r \<in> set cur" for r
    using that assms(1) unfolding cur run_inv_but_def current_ok_def by blast
  have m1: "heap m1 = heap (mgr s)" "set (draining m1) = {r \<in> set (draining (mgr s)). busy r}"
    "set (jobs m1) = set (jobs (mgr s)) \<union> {r \<in> set cur. \<not> busy r} \<union> {r \<in> set (draining (mgr s)). \<not> busy r}"
    "current m1 a = Some r \<longleftrightarrow> current (mgr s) a = Some r \<and> busy r"
    "claimed m1 = claimed (mgr s)" "sent m1 = sent (mgr s)" "to_enqueue m1 = to_enqueue (mgr s)"
    "to_persist m1 = to_persist (mgr s)" "dropped m1 = dropped (mgr s)" "drain_queue_cap m1 = drain_queue_cap (mgr s)"
    for a r by (auto simp: m1_def split: option.splits)
  have k: "known t j = known s j" for j by (simp add: t_def known_def m1(1))
  have "run_inv t"
  proof (rule inv_intro[OF assms(1)])
    show "ids_ok s \<Longrightarrow> ids_ok t" using kc unfolding ids_ok_def k by (auto simp: t_def m1)
    show "current_ok s \<Longrightarrow> current_ok t" unfolding current_ok_def k by (auto simp: t_def m1)
    show "draining_ok s \<Longrightarrow> draining_ok t"
      by (auto simp: draining_ok_def t_def m1_def intro: order_trans[OF length_filter_le])
    show "finishing_ok s \<Longrightarrow> finishing_ok t" unfolding finishing_ok_def k by (simp add: t_def m1)
    show "leases_ok s \<Longrightarrow> leases_ok t" unfolding leases_ok_def k by (simp add: t_def m1)
    show "queued_ok s \<Longrightarrow> queued_ok t" unfolding queued_ok_def k by (auto simp: t_def m1)
    show "tracked_ok {} s \<Longrightarrow> tracked_ok {} t"
      unfolding tracked_ok_def k
    proof (intro allI impI)
      fix j
      assume "\<forall>r. known s r \<longrightarrow> r \<notin> {} \<longrightarrow> tracked s r \<or> r \<in> set (dropped (mgr s)) \<or> r \<in> set (invalidated s)"
        and j: "known s j"
      then have "tracked s j \<or> j \<in> set (dropped (mgr s)) \<or> j \<in> set (invalidated s)" by simp
      moreover have "tracked s j \<Longrightarrow> tracked t j"
        using inflight_nonneg[OF assms(1) j]
        unfolding tracked_def is_current_def by (auto simp: t_def m1 busy_def cur)
      ultimately show "tracked t j \<or> j \<in> set (dropped (mgr t)) \<or> j \<in> set (invalidated t)"
        by (auto simp: t_def m1)
    qed
  qed
  then have "run_inv (s\<lparr>mgr := append_all_draining now (filter busy cur) m1\<rparr>)"
    using kc unfolding t_def by (intro inv_append_all) (auto simp: m1(1) known_def)
  from inv_prune[OF this, of now] show ?thesis
    by (simp add: finish_all_runs_def Let_def busy_def[symmetric] cur_def[symmetric] m1_def[symmetric])
qed

section \<open>The manager as a transition system\<close>

lemma run_inv_step:
  assumes "run_inv s" "run_sys_step s t"
  shows "run_inv t"
  using assms(2)
proof cases
  case rs_lease
  then show ?thesis using inv_lease[OF assms(1)] by simp
next
  case (rs_release r)
  then show ?thesis using inv_release[OF assms(1)] by simp
next
  case (rs_abandon r now)
  then show ?thesis using inv_abandon[OF assms(1)] by simp
next
  case (rs_failed r)
  have "same_view (mgr s) (mark_failed r (mgr s))"
    by (rule same_view_put[where r = r and x = "(get_run (mgr s) r)\<lparr>run_status := ''failed''\<rparr>"]) (simp_all add: mark_failed_def)
  then show ?thesis unfolding rs_failed by (rule quiet_step[OF assms(1)]) (simp_all add: mark_failed_def)
next
  case (rs_number r)
  have "same_view (mgr s) (snd (next_step_number r (mgr s)))"
    by (rule same_view_put[where r = r and x = "(get_run (mgr s) r)\<lparr>step_count := step_count (get_run (mgr s) r) + 1\<rparr>"])
      (simp_all add: next_step_number_def)
  then show ?thesis unfolding rs_number by (rule quiet_step[OF assms(1)]) (simp_all add: next_step_number_def)
next
  case (rs_record now i r msg)
  have "same_view (mgr s) (record_step now i r msg (mgr s))"
    by (rule same_view_put[where r = r and x = "record_step_run now i msg (get_run (mgr s) r)"])
      (simp_all add: record_step_def record_step_run_def Let_def)
  then show ?thesis unfolding rs_record by (rule quiet_step[OF assms(1)]) (simp_all add: record_step_def)
next
  case rs_invalidate
  then show ?thesis using inv_invalidate[OF assms(1)] by simp
next
  case rs_cooldown
  then show ?thesis by (simp add: quiet_step[OF assms(1)])
next
  case rs_rotate_enter
  then show ?thesis using assms(1) by (auto simp: rotate_enter_def intro!: quiet_step[OF assms(1)])
next
  case rs_rotate_load
  then show ?thesis using assms(1)
    by (auto simp: rotate_load_def remove_run_def split: option.splits intro!: quiet_step[OF assms(1)])
next
  case rs_rotate_adopt
  then show ?thesis using inv_adopt[OF assms(1)] by simp
next
  case rs_rotate_failed
  then show ?thesis using assms(1) by (auto simp: rotate_failed_def intro!: quiet_step[OF assms(1)])
next
  case rs_rotate_started
  then show ?thesis using inv_started[OF assms(1)] by simp
next
  case rs_persist
  then show ?thesis using inv_persist[OF assms(1)] by simp
next
  case rs_enqueue
  then show ?thesis using inv_enqueue_finish[OF assms(1)] by simp
next
  case rs_take_job
  then show ?thesis using inv_take_job[OF assms(1)] by simp
next
  case rs_dispatch
  then show ?thesis using inv_dispatch[OF assms(1)] by simp
next
  case rs_ok
  then show ?thesis using inv_ok[OF assms(1)] by simp
next
  case rs_error
  then show ?thesis using inv_error[OF assms(1)] by simp
next
  case rs_maintain
  then show ?thesis using inv_maintain[OF assms(1)] by simp
next
  case rs_finish_all
  then show ?thesis using inv_finish_all[OF assms(1)] by simp
next
  case rs_shutdown
  then show ?thesis by (auto simp: shutdown_begin_def intro!: quiet_step[OF assms(1)])
qed

interpretation rm: invariant_system run_sys_start run_sys_step run_inv
  by unfold_locales (auto intro: run_inv_start run_inv_step)

end
