(* ===== verification/Run_Properties.thy ===== *)
theory Run_Properties
  imports Run_Invariants
begin

text \<open>
  The properties of the run lifecycle that rest on the invariant: what FINISH may be sent for,
  that no run is lost, the bounds of the draining list, the steps a FINISH reports, what a
  shutdown refuses, and what happens to the persisted record of a run.
\<close>

section \<open>Recorded steps\<close>

definition record_call :: "go_time \<times> string \<times> string \<Rightarrow> run \<Rightarrow> run" where
  "record_call c x = (case c of (now, i, msg) \<Rightarrow> record_step_run now i msg x)"

definition call_message :: "go_time \<times> string \<times> string \<Rightarrow> string option" where
  "call_message c = (case c of (now, i, msg) \<Rightarrow> if msg = '''' then None else Some msg)"

lemma take_last_map: "map f (take_last n xs) = take_last n (map f xs)"
  by (simp add: take_last_def drop_map)

interpretation rsteps: keep_newest "\<lambda>x. run_id x \<noteq> ''''" "\<lambda>x. map rs_message (steps x)" record_call
  call_message max_recorded_steps
  by unfold_locales
    (auto simp: record_call_def call_message_def record_step_run_def Let_def take_last_map split: prod.splits)

lemma record_call_total: "run_id x \<noteq> '''' \<Longrightarrow> step_total (record_call c x) = step_total x + 1"
  by (auto simp: record_call_def record_step_run_def Let_def split: prod.splits)

lemma record_call_same [simp]:
  "run_id (record_call c x) = run_id x" "requests (record_call c x) = requests x"
  "run_status (record_call c x) = run_status x"
  by (auto simp: record_call_def record_step_run_def Let_def split: prod.splits)

lemma record_calls:
  "run_id x \<noteq> '''' \<Longrightarrow> step_total (fold record_call cs x) = step_total x + int (length cs) \<and>
     requests (fold record_call cs x) = requests x \<and> run_status (fold record_call cs x) = run_status x"
  by (induction cs arbitrary: x) (simp_all add: record_call_total)

section \<open>Executable traces\<close>

text \<open>An event names a step with its arguments; \<open>run_events\<close> takes the steps in order, and is
  \<open>None\<close> as soon as one is not enabled. What it reaches is reachable.\<close>

datatype run_event =
    Ev_Enter go_time string
  | Ev_Load go_time string
  | Ev_Adopt go_time string string
  | Ev_Started go_time string string string string
  | Ev_Persist "nat \<times> nat option"
  | Ev_Lease string
  | Ev_Release nat
  | Ev_Abandon go_time nat
  | Ev_Enqueue nat
  | Ev_Take nat
  | Ev_Dispatch nat
  | Ev_Ok go_time nat
  | Ev_Shutdown

fun run_event_step :: "run_event \<Rightarrow> run_system \<Rightarrow> run_system option" where
  "run_event_step (Ev_Enter now a) s = Some (s\<lparr>mgr := snd (rotate_enter now a (mgr s))\<rparr>)"
| "run_event_step (Ev_Load now a) s =
     (if starting (mgr s) a = Some Flight_Leader then Some (s\<lparr>mgr := rotate_load now a (mgr s)\<rparr>) else None)"
| "run_event_step (Ev_Adopt now c a) s =
     (case starting (mgr s) a of
        Some (Flight_Loaded pr) \<Rightarrow> Some (s\<lparr>mgr := rotate_adopt now c a (mgr s)\<rparr>) | _ \<Rightarrow> None)"
| "run_event_step (Ev_Started now rid tr c a) s =
     (if starting (mgr s) a = Some Flight_Starting
      then Some (s\<lparr>mgr := snd (rotate_started now rid tr c a (mgr s))\<rparr>) else None)"
| "run_event_step (Ev_Persist f) s =
     (if f \<in> set (to_persist (mgr s)) then Some (s\<lparr>mgr := rotate_persist f (mgr s)\<rparr>) else None)"
| "run_event_step (Ev_Lease a) s =
     (case acquire_lease a (mgr s) of
        (Some r, m) \<Rightarrow> Some (s\<lparr>mgr := m, leases := leases s @ [r]\<rparr>) | (None, m) \<Rightarrow> None)"
| "run_event_step (Ev_Release r) s =
     (if r \<in> set (leases s) then Some (s\<lparr>mgr := release r (mgr s), leases := remove1 r (leases s)\<rparr>) else None)"
| "run_event_step (Ev_Abandon now r) s =
     (if r \<in> set (leases s)
      then Some (s\<lparr>mgr := release_abandoned now r (mgr s), leases := remove1 r (leases s)\<rparr>) else None)"
| "run_event_step (Ev_Enqueue r) s =
     (if r \<in> set (to_enqueue (mgr s)) then Some (s\<lparr>mgr := enqueue_finish r (mgr s)\<rparr>) else None)"
| "run_event_step (Ev_Take r) s =
     (if r \<in> set (jobs (mgr s)) then Some (s\<lparr>mgr := finish_if_ready r (mgr s)\<rparr>) else None)"
| "run_event_step (Ev_Dispatch r) s =
     (if r \<in> set (claimed (mgr s))
      then Some (s\<lparr>mgr := snd (finish_dispatch r (mgr s)),
             sent_ids := sent_ids s @ [fst (fst (finish_dispatch r (mgr s)))]\<rparr>) else None)"
| "run_event_step (Ev_Ok now r) s =
     (if r \<in> set (sent (mgr s))
      then Some (s\<lparr>mgr := finish_result now True r (mgr s), finished := finished s @ [r]\<rparr>) else None)"
| "run_event_step Ev_Shutdown s = Some (s\<lparr>mgr := shutdown_begin (mgr s)\<rparr>)"

fun run_events :: "run_event list \<Rightarrow> run_system \<Rightarrow> run_system option" where
  "run_events [] s = Some s"
| "run_events (e # es) s = (case run_event_step e s of None \<Rightarrow> None | Some t \<Rightarrow> run_events es t)"

lemma run_event_sound: "run_event_step e s = Some t \<Longrightarrow> run_sys_step s t"
  by (cases e) (auto split: if_splits option.splits flight.splits prod.splits intro: run_sys_step.intros)

lemma run_events_sound:
  "run_events es s = Some t \<Longrightarrow> reach run_sys_start run_sys_step s \<Longrightarrow> reach run_sys_start run_sys_step t"
  by (induction es arbitrary: s)
    (auto split: option.splits intro: reach_step dest: run_event_sound)

definition demo_start :: run_system where
  "demo_start = \<lparr>mgr = new_run_manager 100 2 50 True Map.empty, leases = [], finished = [], sent_ids = [],
     invalidated = []\<rparr>"

lemma demo_reach: "run_events es demo_start = Some t \<Longrightarrow> reach run_sys_start run_sys_step t"
  by (erule run_events_sound, rule reach_start) (unfold run_sys_start_def demo_start_def, blast)

definition observe :: "run_event list \<Rightarrow> (run_system \<Rightarrow> 'a) \<Rightarrow> 'a option" where
  "observe es f = map_option f (run_events es demo_start)"

lemma observe_reach: "observe es f = Some v \<Longrightarrow> \<exists>t. reach run_sys_start run_sys_step t \<and> f t = v"
  by (auto simp: observe_def dest: demo_reach)

text \<open>A first START, and the ways the demonstrations go on from there.\<close>

definition first_start :: "run_event list" where
  "first_start = [Ev_Enter 0 ''a'', Ev_Load 0 ''a'', Ev_Started 0 ''r1'' ''t1'' ''c1'' ''a'', Ev_Persist (0, None)]"

definition rotation :: "run_event list" where
  "rotation = [Ev_Enter 200 ''a'', Ev_Load 200 ''a'', Ev_Started 200 ''r2'' ''t2'' ''c2'' ''a'',
     Ev_Persist (1, Some 0), Ev_Enqueue 0, Ev_Take 0, Ev_Dispatch 0]"

definition adoption_race :: "run_event list" where
  "adoption_race = [Ev_Lease ''a'', Ev_Abandon 10 0, Ev_Enter 11 ''a'', Ev_Load 11 ''a'', Ev_Adopt 11 ''c'' ''a'',
     Ev_Lease ''a'', Ev_Enqueue 0, Ev_Take 0, Ev_Dispatch 0]"


lemma adoption_runs:
  "observe (first_start @ adoption_race) (\<lambda>s. (current (mgr s) ''a'', map run_id (heap (mgr s)), sent_ids s,
     leases s, sent (mgr s))) = Some (Some 1, [''r1'', ''r1''], [''r1''], [1], [0])"
  by code_simp

section \<open>Shutdown\<close>

text \<open>What no step of a manager that is shutting down changes.\<close>

definition closed_to_starts :: "run_manager \<Rightarrow> run_manager \<Rightarrow> bool" where
  "closed_to_starts m m' \<longleftrightarrow> shutting_down m' \<and> length (heap m') = length (heap m) \<and>
     (\<forall>agent. current m' agent = current m agent \<or> current m' agent = None)"

lemma closed_trans:
  assumes "closed_to_starts m m'" "closed_to_starts m' m''"
  shows "closed_to_starts m m''"
  unfolding closed_to_starts_def
proof (intro conjI allI)
  show "shutting_down m''" "length (heap m'') = length (heap m)"
    using assms by (simp_all add: closed_to_starts_def)
  show "current m'' agent = current m agent \<or> current m'' agent = None" for agent
    using assms unfolding closed_to_starts_def by (metis (full_types))
qed

lemma append_all_same [simp]:
  "shutting_down (append_all_draining now rs m) = shutting_down m"
  "current (append_all_draining now rs m) = current m"
  "length (heap (append_all_draining now rs m)) = length (heap m)"
  by (induction rs arbitrary: m) (simp_all add: same_view_length[OF append_view])

lemma shutdown_step:
  assumes "run_sys_step s t" "shutting_down (mgr s)"
  shows "closed_to_starts (mgr s) (mgr t)"
  using assms
  by (cases rule: run_sys_step.cases)
    (auto simp: closed_to_starts_def acquire_lease_def release_def release_inflight_def release_abandoned_def
      mark_failed_def next_step_number_def record_step_def invalidate_def remove_run_def rotate_enter_def
      rotate_load_def rotate_adopt_def rotate_failed_def rotate_started_def rotate_persist_def persist_run_def
      enqueue_finish_def finish_if_ready_def finish_dispatch_def finish_result_def maintain_enqueue_def
      finish_all_runs_def shutdown_begin_def Let_def same_view_length[OF append_view]
      split: option.splits if_splits)

section \<open>Properties\<close>



text \<open>C6: No run is lost. In every reachable state a run that was ever started or adopted is the
  current run of its agent, or is draining, or is idle and on its way to the finish queue, in it,
  or being finished; a run with a lease is current or draining, so its last release finds it. The
  only exceptions are the runs the bounded draining list evicted and those dropped by
  \<^verbatim>\<open>Invalidate\<close>.\<close>

theorem no_run_lost:
  assumes "reach run_sys_start run_sys_step s" and "r < length (heap (mgr s))"
    and "r \<notin> set (dropped (mgr s))" and "r \<notin> set (invalidated s)"
  shows "is_current r (mgr s) \<or> r \<in> set (draining (mgr s)) \<or>
    r \<notin> set (leases s) \<and> inflight (get_run (mgr s) r) = 0 \<and>
      (r \<in> set (to_enqueue (mgr s) @ jobs (mgr s) @ claimed (mgr s) @ sent (mgr s) @ finished s))"
proof -
  have inv: "finishing_ok s" "leases_ok s" "tracked_ok {} s"
    using rm.reach_inv[OF assms(1)] by (simp_all add: run_inv_but_def)
  have k: "known s r" using assms(2) by (simp add: known_def)
  then have t: "tracked s r" using inv(3) assms(3,4) unfolding tracked_ok_def by blast
  have "inflight (get_run (mgr s) r) = count_if (\<lambda>l. l = r) (leases s)" using k inv(2) by (simp add: leases_ok_def)
  then have "inflight (get_run (mgr s) r) = 0 \<Longrightarrow> r \<notin> set (leases s)"
    using count_if_pos[of r "leases s" "\<lambda>l. l = r"] by force
  moreover have "finishing (get_run (mgr s) r) \<Longrightarrow> r \<in> set (claimed (mgr s) @ sent (mgr s) @ finished s)"
    using k inv(1) by (simp add: finishing_ok_def)
  ultimately show ?thesis using t by (auto simp: tracked_def)
qed

lemma no_run_lost_witness:
  "\<exists>s :: run_system. is_current 1 (mgr s) \<or> 1 \<in> set (draining (mgr s)) \<or> 1 \<notin> set (leases s)"
proof -
  have "observe (first_start @ rotation) (\<lambda>s. (length (heap (mgr s)), dropped (mgr s), invalidated s)) =
      Some (2, [], [])" by code_simp
  from observe_reach[OF this] obtain s where r: "reach run_sys_start run_sys_step s" "length (heap (mgr s)) = 2"
      "dropped (mgr s) = []" "invalidated s = []"
    by auto
  with no_run_lost[OF r(1), of 1] show ?thesis by (intro exI[of _ s]) auto
qed

text \<open>The books of the manager balance. In every reachable state the draining list has no
  duplicate and never exceeds its cap, the in-flight counter of every run is the number of its
  leases and never negative, and the current run of an agent is a run of that agent.\<close>

lemma manager_books_balance:
  assumes "reach run_sys_start run_sys_step s"
  shows "distinct (draining (mgr s)) \<and> length (draining (mgr s)) \<le> drain_queue_cap (mgr s) \<and>
    (\<forall>r < length (heap (mgr s)). inflight (get_run (mgr s) r) = int (length (filter (\<lambda>l. l = r) (leases s)))) \<and>
    (\<forall>agent r. current (mgr s) agent = Some r \<longrightarrow>
       r < length (heap (mgr s)) \<and> agent_id (get_run (mgr s) r) = agent)"
  using rm.reach_inv[OF assms]
  by (auto simp: run_inv_but_def draining_ok_def leases_ok_def current_ok_def known_def count_if_def)

lemma manager_books_balance_witness:
  "\<exists>s :: run_system. current (mgr s) ''a'' = Some 1 \<and> agent_id (get_run (mgr s) 1) = ''a'' \<and> inflight (get_run (mgr s) 1) = 1"
proof -
  obtain s where r: "reach run_sys_start run_sys_step s" and v: "current (mgr s) ''a'' = Some 1" "leases s = [1]"
    using observe_reach[OF adoption_runs] by auto
  with manager_books_balance[OF r] show ?thesis by (intro exI[of _ s]) auto
qed

text \<open>An idle manager has no lease worth waiting for. When \<^verbatim>\<open>InflightCount()\<close> is zero, which
  is when a retired token is torn down, every lease still out is on a run that was evicted or
  invalidated; and with no lease out at all it is zero.\<close>

lemma idle_means_unleased:
  assumes "reach run_sys_start run_sys_step s" and "set agents = dom (current (mgr s))"
  shows "0 \<le> inflight_count agents '''' (mgr s) \<and>
    (inflight_count agents '''' (mgr s) = 0 \<longrightarrow> set (leases s) \<subseteq> set (dropped (mgr s)) \<union> set (invalidated s)) \<and>
    (leases s = [] \<longrightarrow> inflight_count agents '''' (mgr s) = 0)"
proof -
  have inv: "ids_ok s" "current_ok s" "leases_ok s" "tracked_ok {} s"
    using rm.reach_inv[OF assms(1)] by (simp_all add: run_inv_but_def)
  define rs where "rs = List.map_filter (current (mgr s)) agents @ draining (mgr s)"
  let ?n = "\<lambda>r. inflight (get_run (mgr s) r)"
  have sum: "inflight_count agents '''' (mgr s) = sum_list (map ?n rs)"
    by (simp add: inflight_count_def rs_def)
  have cur: "r \<in> set rs \<longleftrightarrow> (\<exists>a. current (mgr s) a = Some r) \<or> r \<in> set (draining (mgr s))" for r
    using assms(2) by (fastforce simp: rs_def map_filter_def image_iff)
  have k: "known s r" if "r \<in> set rs" for r
    using that inv(1,2) unfolding cur ids_ok_def current_ok_def by blast
  have n: "?n r = count_if (\<lambda>l. l = r) (leases s)" if "known s r" for r
    using that inv(3) by (simp add: leases_ok_def)
  have nonneg: "\<forall>x \<in> set (map ?n rs). 0 \<le> x" using n k by (auto simp: count_if_nonneg)
  have "l \<in> set (dropped (mgr s)) \<union> set (invalidated s)"
    if z: "sum_list (map ?n rs) = 0" and l: "l \<in> set (leases s)" for l
  proof -
    have kl: "known s l" using inv(1) l by (auto simp: ids_ok_def)
    have pos: "0 < ?n l" using n[OF kl] count_if_pos[OF l, of "\<lambda>x. x = l"] by simp
    have "?n r = 0" if "r \<in> set rs" for r
      using z that sum_list_nonneg_eq_0_iff[of "map ?n rs"] nonneg by auto
    with pos have "l \<notin> set rs" by force
    with kl pos inv(4) show ?thesis unfolding cur by (auto simp: tracked_ok_def tracked_def is_current_def)
  qed
  moreover have "leases s = [] \<Longrightarrow> sum_list (map ?n rs) = 0"
    using sum_list_nonneg_eq_0_iff[of "map ?n rs"] nonneg n k by auto
  moreover have "0 \<le> sum_list (map ?n rs)" using nonneg by (intro sum_list_nonneg) blast
  ultimately show ?thesis unfolding sum by blast
qed

lemma idle_means_unleased_witness:
  "\<exists>s :: run_system. inflight_count [] '''' (mgr s) = 0 \<and> leases s = []"
proof -
  have "reach run_sys_start run_sys_step demo_start" by (rule demo_reach[of "[]"]) simp
  from idle_means_unleased[OF this, of "[]"] show ?thesis
    by (intro exI[of _ demo_start]) (simp add: demo_start_def new_run_manager_def)
qed

text \<open>A FINISH reports its steps honestly. After any sequence of \<^verbatim>\<open>RecordStep\<close> calls on a
  fresh run of a known id, the FINISH payload carries the newest 512 of them in order, and its
  total is the true number of steps ever recorded, or the request count when none was; the status
  is the recorded one, or \<^verbatim>\<open>completed\<close>.\<close>

lemma finish_reports_steps:
  assumes "rid \<noteq> ''''"
  shows "case finish_payload (fold record_call cs (fresh_run agent rid t trace client reqs)) of
     (status, ss, n) \<Rightarrow> status = ''completed'' \<and>
       map rs_message ss = take_last 512 (map call_message cs) \<and>
       length ss = min 512 (length cs) \<and>
       n = (if cs = [] then reqs else int (length cs))"
proof -
  let ?x = "fresh_run agent rid t trace client reqs"
  have x: "run_id ?x \<noteq> ''''" "steps ?x = []" "step_total ?x = 0" "requests ?x = reqs" "run_status ?x = ''''"
    using assms by (simp_all add: fresh_run_def)
  have ss: "map rs_message (steps (fold record_call cs ?x)) = take_last 512 (map call_message cs)"
    using rsteps.fold_entries[of ?x cs] x by (simp add: max_recorded_steps_def)
  then have "length (steps (fold record_call cs ?x)) = min 512 (length cs)"
    by (metis length_map length_take_last)
  with ss record_calls[OF x(1), of cs] x show ?thesis by (auto simp: finish_payload_def Let_def)
qed

lemma finish_reports_steps_witness:
  "map rs_message (fst (snd (finish_payload (fold record_call [(1, ''s1'', ''m1''), (2, ''s2'', '''')]
     (fresh_run ''a'' ''r'' 0 ''t'' ''c'' 0))))) = [Some ''m1'', None]"
  using finish_reports_steps[where rid = "''r''" and cs = "[(1, ''s1'', ''m1''), (2, ''s2'', '''')]" and
      agent = "''a''" and t = 0 and trace = "''t''" and client = "''c''" and reqs = 0]
  by (simp add: call_message_def split: prod.splits)

text \<open>No run starts once a shutdown has begun. From then on no step of the manager, of any
  caller and in any order, creates a run object or makes another run current; a START that was in
  flight when the shutdown began answers the run id to be finished inline.\<close>

lemma no_start_after_shutdown:
  assumes "run_sys_step\<^sup>*\<^sup>* s t" and "shutting_down (mgr s)"
  shows "closed_to_starts (mgr s) (mgr t) \<and>
    fst (rotate_enter now agent (mgr t)) = Rotate_Shutting_Down \<and>
    fst (rotate_started now rid trace client agent (mgr t)) = Some rid"
proof -
  have "closed_to_starts (mgr s) (mgr t)"
    using assms
  proof (induction rule: rtranclp_induct)
    case base
    then show ?case by (simp add: closed_to_starts_def)
  next
    case (step u v)
    then have "closed_to_starts (mgr s) (mgr u)" by simp
    moreover from this have "closed_to_starts (mgr u) (mgr v)"
      using shutdown_step[OF step(2)] by (simp add: closed_to_starts_def)
    ultimately show ?case by (rule closed_trans)
  qed
  then show ?thesis by (simp add: closed_to_starts_def rotate_enter_def rotate_started_def)
qed

lemma no_start_after_shutdown_witness:
  "\<exists>s :: run_system. closed_to_starts (mgr s) (mgr (s\<lparr>mgr := mark_failed 0 (mgr s)\<rparr>)) \<and> shutting_down (mgr s)"
proof -
  let ?s = "demo_start\<lparr>mgr := shutdown_begin (mgr demo_start)\<rparr>"
  have "run_sys_step\<^sup>*\<^sup>* ?s (?s\<lparr>mgr := mark_failed 0 (mgr ?s)\<rparr>)" by (intro r_into_rtranclp rs_failed)
  moreover have "shutting_down (mgr ?s)" by (simp add: shutdown_begin_def)
  ultimately show ?thesis using no_start_after_shutdown by blast
qed

text \<open>C33: The FINISH of a rotated run deletes its successor's record. The store is keyed by agent,
  so the dispatch of any run's FINISH leaves no record of that agent; after one ordinary rotation
  the new run is current, was persisted and is forgotten, and a restart will not resume it.\<close>

theorem rotation_forgets_successor:
  "(persist m \<longrightarrow> store (snd (finish_dispatch r m)) (agent_id (get_run m r)) = None) \<and>
   (\<exists>s. reach run_sys_start run_sys_step s \<and> persist (mgr s) \<and> current (mgr s) ''a'' = Some 1 \<and>
      sent (mgr s) = [0] \<and> sent_ids s = [''r1''] \<and> run_id (get_run (mgr s) 1) = ''r2'' \<and>
      store (mgr s) ''a'' = None)"
proof -
  have "observe (first_start @ rotation) (\<lambda>s. (persist (mgr s), current (mgr s) ''a'', sent (mgr s), sent_ids s,
      run_id (get_run (mgr s) 1), store (mgr s) ''a'')) = Some (True, Some 1, [0], [''r1''], ''r2'', None)"
    by code_simp
  from observe_reach[OF this] show ?thesis by (auto simp: finish_dispatch_def remove_run_def)
qed

lemma rotation_forgets_successor_witness:
  "store (snd (finish_dispatch 0 (mgr demo_start))) (agent_id (get_run (mgr demo_start) 0)) = None"
  using rotation_forgets_successor[of "mgr demo_start" 0] by (simp add: demo_start_def new_run_manager_def)

text \<open>The store can hand out a run that is about to be finished. When the last lease of a
  current run is abandoned, the run leaves the current map at once but its record lives until the
  FINISH is dispatched; a request in between adopts the record, and the queued FINISH then ends
  the run that the new request holds a lease on.\<close>

lemma abandoned_run_readopted:
  "\<exists>s. reach run_sys_start run_sys_step s \<and> current (mgr s) ''a'' = Some 1 \<and> leases s = [1] \<and>
     run_id (get_run (mgr s) 1) \<in> set (sent_ids s)"
proof -
  have "observe (first_start @ adoption_race) (\<lambda>s. (current (mgr s) ''a'', leases s,
      run_id (get_run (mgr s) 1) \<in> set (sent_ids s))) = Some (Some 1, [1], True)"
    by code_simp
  from observe_reach[OF this] show ?thesis by blast
qed

end
