(* ===== verification/Log_Ring.thy ===== *)
theory Log_Ring
  imports Prelude "HOL-Library.Char_ord"
begin

text \<open>
  The bounded log buffer behind the dashboard's log viewer:
  \<^verbatim>\<open>backend/internal/logring/logring.go\<close>. A fixed array is written round-robin and read
  backwards from the newest entry; a tally per level and message outlives the entries, and an
  optional tap sees every entry. The slog handler around it formats attributes and is not modelled.
\<close>

record log_entry =
  le_time :: string
  le_level :: string
  le_message :: string
  le_fields :: "string list"

text \<open>\<open>spill\<close> says whether a tap is installed; \<open>spilled\<close> lists what it was called with.\<close>

record log_ring =
  buf :: "log_entry list"
  next_pos :: nat
  filled :: nat
  capacity :: nat
  counts :: "string \<Rightarrow> int"
  spill :: bool
  spilled :: "log_entry list"

definition zero_entry :: log_entry where
  "zero_entry = \<lparr>le_time = '''', le_level = '''', le_message = '''', le_fields = []\<rparr>"

definition new_ring :: "int \<Rightarrow> log_ring" where
  "new_ring c =
     (let c = (if c < 1 then 1 else nat c)
      in \<lparr>buf = replicate c zero_entry, next_pos = 0, filled = 0, capacity = c, counts = (\<lambda>_. 0),
          spill = False, spilled = []\<rparr>)"

definition set_spill :: "bool \<Rightarrow> log_ring \<Rightarrow> log_ring" where
  "set_spill on r = r\<lparr>spill := on\<rparr>"

text \<open>Level tokens are ASCII, so \<^verbatim>\<open>strings.ToLower\<close> shifts the letters A to Z.\<close>

definition lower_char :: "char \<Rightarrow> char" where
  "lower_char c = (if CHR ''A'' \<le> c \<and> c \<le> CHR ''Z'' then char_of (of_char c + 32 :: nat) else c)"

definition count_key :: "string \<Rightarrow> string \<Rightarrow> string" where
  "count_key level message =
     (if level = ''DEBUG'' then ''debug|'' @ message
      else if level = ''INFO'' then ''info|'' @ message
      else if level = ''WARN'' then ''warn|'' @ message
      else if level = ''ERROR'' then ''error|'' @ message
      else map lower_char level @ ''|'' @ message)"

definition push :: "log_entry \<Rightarrow> log_ring \<Rightarrow> log_ring" where
  "push e r =
     (let k = count_key (le_level e) (le_message e)
      in r\<lparr>buf := (buf r)[next_pos r := e],
           next_pos := (next_pos r + 1) mod capacity r,
           filled := (if filled r < capacity r then filled r + 1 else filled r),
           counts := (counts r)(k := counts r k + 1),
           spilled := (if spill r then spilled r @ [e] else spilled r)\<rparr>)"

text \<open>The index \<^verbatim>\<open>(next - 1 - i + capacity) % capacity\<close> is never negative, as \<open>i < capacity\<close>.\<close>

definition recent_index :: "log_ring \<Rightarrow> nat \<Rightarrow> nat" where
  "recent_index r i = (next_pos r + capacity r - 1 - i) mod capacity r"

definition recent :: "int \<Rightarrow> log_ring \<Rightarrow> log_entry list" where
  "recent n r =
     (let n = (if n < 0 then 0 else n);
          n = (if n > int (filled r) then filled r else nat n)
      in map (\<lambda>i. buf r ! recent_index r i) [0..<n])"

section \<open>The ring keeps the newest entries\<close>

definition ring_ok :: "nat \<Rightarrow> log_ring \<Rightarrow> bool" where
  "ring_ok c r \<longleftrightarrow> 0 < c \<and> capacity r = c \<and> length (buf r) = c \<and> next_pos r < c \<and> filled r \<le> c"

definition ring_entries :: "log_ring \<Rightarrow> log_entry list" where
  "ring_entries r = rev (map (\<lambda>i. buf r ! recent_index r i) [0..<filled r])"

lemma push_newest: "ring_ok c r \<Longrightarrow> recent_index (push e r) 0 = next_pos r"
  by (cases "next_pos r + 1 = c") (auto simp: ring_ok_def push_def recent_index_def Let_def)

lemma push_older:
  assumes "ring_ok c r" "Suc i < c"
  shows "recent_index (push e r) (Suc i) = recent_index r i" "recent_index r i \<noteq> next_pos r" "recent_index r i < c"
proof -
  let ?p = "next_pos r"
  have c: "capacity r = c" "?p < c" using assms(1) by (simp_all add: ring_ok_def)
  have idx: "recent_index r i = (if i < ?p then ?p - 1 - i else ?p + c - 1 - i)"
  proof (cases "i < ?p")
    case True
    then have "?p + c - 1 - i = (?p - 1 - i) + c" using c(2) by simp
    then have "recent_index r i = (?p - 1 - i + c) mod c" unfolding recent_index_def c(1) by (rule arg_cong)
    also have "\<dots> = ?p - 1 - i" unfolding mod_add_self2 by (rule mod_less) (use c(2) in simp)
    finally show ?thesis using True by simp
  next
    case False
    then show ?thesis unfolding recent_index_def c(1) using c(2) assms(2) by simp
  qed
  show "recent_index r i \<noteq> ?p" "recent_index r i < c" using idx c assms(2) by auto
  show "recent_index (push e r) (Suc i) = recent_index r i"
  proof (cases "?p + 1 = c")
    case True
    then show ?thesis using idx c assms(2) by (auto simp: recent_index_def push_def Let_def)
  next
    case False
    then have "recent_index (push e r) (Suc i) = (?p + c - 1 - i) mod c"
      using c by (simp add: recent_index_def push_def Let_def)
    then show ?thesis using c by (simp add: recent_index_def)
  qed
qed

lemma push_keeps_ok: "ring_ok c r \<Longrightarrow> ring_ok c (push e r)"
  by (auto simp: ring_ok_def push_def Let_def)

lemma push_ring_entries:
  assumes "ring_ok c r"
  shows "ring_entries (push e r) = take_last c (ring_entries r @ [e])"
proof -
  let ?old = "map (\<lambda>i. buf r ! recent_index r i) [0..<filled r]"
  let ?n = "filled (push e r)"
  have n: "?n = Suc (min (filled r) (c - 1))" "?n \<le> c"
    using assms by (auto simp: ring_ok_def push_def Let_def)
  have buf: "buf (push e r) = (buf r)[next_pos r := e]" by (simp add: push_def Let_def)
  have len: "length (buf r) = c" "next_pos r < c" "0 < c" "filled r \<le> c" using assms by (simp_all add: ring_ok_def)
  have "map (\<lambda>i. buf (push e r) ! recent_index (push e r) i) [0..<?n] = e # take (c - 1) ?old"
  proof (rule nth_equalityI)
    show "length (map (\<lambda>i. buf (push e r) ! recent_index (push e r) i) [0..<?n]) = length (e # take (c - 1) ?old)"
      using n len by simp
  next
    fix i
    assume "i < length (map (\<lambda>i. buf (push e r) ! recent_index (push e r) i) [0..<?n])"
    then have i: "i < ?n" by simp
    show "map (\<lambda>i. buf (push e r) ! recent_index (push e r) i) [0..<?n] ! i = (e # take (c - 1) ?old) ! i"
    proof (cases i)
      case 0
      then show ?thesis using i push_newest[OF assms, of e] len by (simp add: buf)
    next
      case (Suc j)
      with i n have "Suc j < c" "j < filled r" "j < c - 1" by auto
      with Suc i push_older(1)[OF assms, of j e] push_older(2,3)[OF assms, of j] len show ?thesis by (simp add: buf)
    qed
  qed
  then have "ring_entries (push e r) = rev (take (c - 1) ?old) @ [e]" by (simp add: ring_entries_def)
  also have "\<dots> = take_last c (rev ?old @ [e])"
    using len by (simp add: take_last_def rev_take)
  finally show ?thesis by (simp add: ring_entries_def)
qed

text \<open>The ring is a bounded history of the entries pushed, for any capacity.\<close>

interpretation ring: keep_newest "ring_ok c" ring_entries push "\<lambda>e. e" c for c
  by unfold_locales (auto simp: push_keeps_ok push_ring_entries)

lemma new_ring_ok: "ring_ok (if c < 1 then 1 else nat c) (new_ring c)"
  by (auto simp: ring_ok_def new_ring_def Let_def)

lemma recent_entries: "recent n r = take (nat n) (rev (ring_entries r))"
  by (auto simp: recent_def ring_entries_def Let_def take_map min_def)

lemma push_counts: "counts (push e r) k = counts r k + (if count_key (le_level e) (le_message e) = k then 1 else 0)"
  by (simp add: push_def Let_def)

lemma fold_counts:
  "counts (fold push es r) k = counts r k + count_if (\<lambda>e. count_key (le_level e) (le_message e) = k) es"
  by (induction es arbitrary: r) (simp_all add: push_counts)

lemma fold_spilled: "spill r \<Longrightarrow> spilled (fold push es r) = spilled r @ es"
  by (induction es arbitrary: r) (simp_all add: push_def Let_def)

section \<open>Properties\<close>

text \<open>The ring shows exactly the newest records. After any sequence of records on a new ring,
  asking for \<open>n\<close> entries gives the newest ones, newest first, at most \<open>n\<close> and at most the
  capacity of them, and none for a negative \<open>n\<close>; the tally of a level and message counts every
  record, evicted ones too; and a tap that is installed sees every record once, in order.\<close>

lemma ring_shows_newest:
  "recent n (fold push es (new_ring c)) = take (nat n) (take (if c < 1 then 1 else nat c) (rev es)) \<and>
   counts (fold push es (new_ring c)) k = count_if (\<lambda>e. count_key (le_level e) (le_message e) = k) es \<and>
   spilled (fold push es (set_spill True (new_ring c))) = es"
proof (intro conjI)
  let ?c = "if c < 1 then 1 else nat c"
  have "ring_entries (new_ring c) = []" by (simp add: ring_entries_def new_ring_def Let_def)
  then have "ring_entries (fold push es (new_ring c)) = take_last ?c es"
    using ring.fold_entries[OF new_ring_ok, of c es] by simp
  then show "recent n (fold push es (new_ring c)) = take (nat n) (take ?c (rev es))"
    by (simp only: recent_entries take_last_def) (simp add: take_rev)
  show "counts (fold push es (new_ring c)) k = count_if (\<lambda>e. count_key (le_level e) (le_message e) = k) es"
    by (simp add: fold_counts) (simp add: new_ring_def Let_def)
  show "spilled (fold push es (set_spill True (new_ring c))) = es"
    by (simp add: fold_spilled set_spill_def new_ring_def Let_def)
qed

end
