(* ===== verification/Spend_Ledger.thy ===== *)
theory Spend_Ledger
  imports Pacific
begin

text \<open>
  What one account has used: the spend ledger of \<^verbatim>\<open>backend/internal/pool/spend.go\<close>, the account
  ledger of \<^verbatim>\<open>pool_ledger.go\<close>, its persisted form and restore in \<^verbatim>\<open>pool_persist.go\<close>, and the
  survivor records of \<^verbatim>\<open>cooldown_hint.go\<close>. The zone of the period boundaries is the argument
  \<open>tz\<close>, as in \<^verbatim>\<open>Pacific\<close>. JSON carries a blob unchanged, so a blob is the record the code
  marshals. Amounts are integers: an account spends far less than \<^verbatim>\<open>int64\<close> holds.
\<close>

section \<open>The spend ledger\<close>

record spend_entry =
  se_at :: go_time
  se_tokens :: int

record spend_ledger =
  rolling :: "spend_entry list"
  rolling_total :: int
  day_used :: int
  day_start :: int
  week_used :: int
  week_start :: int
  month_used :: int
  month_start :: int
  spend_limited :: int

definition new_spend_ledger :: spend_ledger where
  "new_spend_ledger = \<lparr>rolling = [], rolling_total = 0, day_used = 0, day_start = 0, week_used = 0,
     week_start = 0, month_used = 0, month_start = 0, spend_limited = 0\<rparr>"

definition usage_window :: duration where
  "usage_window = 24 * hour"

definition roll_bucket :: "zone option \<Rightarrow> int \<Rightarrow> int \<Rightarrow> string \<Rightarrow> go_time \<Rightarrow> int \<Rightarrow> int \<times> int" where
  "roll_bucket tz used start period now tokens =
     (if needs_rollover tz start period now then (tokens, bucket_start tz now period)
      else (used + tokens, start))"

text \<open>The pruning loop \<^verbatim>\<open>for first < len && at.Before(cutoff)\<close> and what it takes off the total.\<close>

definition prune_rolling :: "go_time \<Rightarrow> spend_ledger \<Rightarrow> spend_ledger" where
  "prune_rolling cutoff l =
     l\<lparr>rolling := dropWhile (\<lambda>e. before (se_at e) cutoff) (rolling l),
       rolling_total := rolling_total l -
         sum_list (map se_tokens (takeWhile (\<lambda>e. before (se_at e) cutoff) (rolling l)))\<rparr>"

definition spend_add :: "zone option \<Rightarrow> int \<Rightarrow> go_time \<Rightarrow> spend_ledger \<Rightarrow> spend_ledger" where
  "spend_add tz tokens now l =
     (if tokens \<le> 0 then l
      else
        let l = prune_rolling (now - 24 * hour) l;
            l = l\<lparr>rolling := rolling l @ [\<lparr>se_at = now, se_tokens = tokens\<rparr>],
                  rolling_total := rolling_total l + tokens\<rparr>;
            d = roll_bucket tz (day_used l) (day_start l) ''day'' now tokens;
            w = roll_bucket tz (week_used l) (week_start l) ''week'' now tokens;
            m = roll_bucket tz (month_used l) (month_start l) ''month'' now tokens
        in l\<lparr>day_used := fst d, day_start := snd d, week_used := fst w, week_start := snd w,
             month_used := fst m, month_start := snd m\<rparr>)"

definition rolling24h :: "go_time \<Rightarrow> spend_ledger \<Rightarrow> int \<times> spend_ledger" where
  "rolling24h now l = (let l = prune_rolling (now - 24 * hour) l in (rolling_total l, l))"

text \<open>\<^verbatim>\<open>ledgerView\<close> with the period starts as Unix seconds, which \<^verbatim>\<open>unixToTime\<close> turns into times.\<close>

record spend_view =
  sv_rolling24h :: int
  sv_day :: int
  sv_day_start :: go_time
  sv_week :: int
  sv_week_start :: go_time
  sv_month :: int
  sv_month_start :: go_time
  sv_spend_limited :: int

definition unix_to_time :: "int \<Rightarrow> go_time" where
  "unix_to_time sec = sec * second"

definition ledger_view :: "go_time \<Rightarrow> spend_ledger \<Rightarrow> spend_view \<times> spend_ledger" where
  "ledger_view now l =
     (case rolling24h now l of
        (total24, l) \<Rightarrow>
          (\<lparr>sv_rolling24h = total24, sv_day = day_used l, sv_day_start = unix_to_time (day_start l),
            sv_week = week_used l, sv_week_start = unix_to_time (week_start l), sv_month = month_used l,
            sv_month_start = unix_to_time (month_start l), sv_spend_limited = spend_limited l\<rparr>, l))"

section \<open>The account ledger\<close>

record account_ledger =
  usage :: "go_time list"
  spend :: spend_ledger
  req_day_start :: int
  req_day_count :: int

definition new_account_ledger :: account_ledger where
  "new_account_ledger = \<lparr>usage = [], spend = new_spend_ledger, req_day_start = 0, req_day_count = 0\<rparr>"

definition record_chat :: "go_time \<Rightarrow> account_ledger \<Rightarrow> account_ledger" where
  "record_chat now l =
     l\<lparr>usage := dropWhile (\<lambda>t. before t (now - usage_window)) (usage l) @ [now]\<rparr>"

definition usage_count :: "go_time \<Rightarrow> account_ledger \<Rightarrow> int \<times> account_ledger" where
  "usage_count now l =
     (let u = dropWhile (\<lambda>t. before t (now - usage_window)) (usage l)
      in (int (length u), l\<lparr>usage := u\<rparr>))"

definition record_spend :: "zone option \<Rightarrow> int \<Rightarrow> go_time \<Rightarrow> account_ledger \<Rightarrow> account_ledger" where
  "record_spend tz tokens now l = l\<lparr>spend := spend_add tz tokens now (spend l)\<rparr>"

definition record_spend_limited :: "account_ledger \<Rightarrow> account_ledger" where
  "record_spend_limited l = l\<lparr>spend := (spend l)\<lparr>spend_limited := spend_limited (spend l) + 1\<rparr>\<rparr>"

definition roll_day :: "zone option \<Rightarrow> go_time \<Rightarrow> account_ledger \<Rightarrow> account_ledger" where
  "roll_day tz now l =
     (let start = bucket_start tz now ''day''
      in if start \<noteq> req_day_start l then l\<lparr>req_day_start := start, req_day_count := 0\<rparr> else l)"

definition record_day_request :: "zone option \<Rightarrow> go_time \<Rightarrow> account_ledger \<Rightarrow> account_ledger" where
  "record_day_request tz now l = (let l = roll_day tz now l in l\<lparr>req_day_count := req_day_count l + 1\<rparr>)"

definition day_request_count :: "zone option \<Rightarrow> go_time \<Rightarrow> account_ledger \<Rightarrow> int \<times> account_ledger" where
  "day_request_count tz now l = (let l = roll_day tz now l in (req_day_count l, l))"

text \<open>The roster's bookkeeping of one successful chat: \<^verbatim>\<open>recordChatEntry\<close>.\<close>

definition record_chat_entry :: "zone option \<Rightarrow> go_time \<Rightarrow> account_ledger \<Rightarrow> account_ledger" where
  "record_chat_entry tz now l = record_day_request tz now (record_chat now l)"

section \<open>The persisted form\<close>




definition from_milli :: "int \<Rightarrow> go_time" where
  "from_milli ms = ms * millisecond"



section \<open>Survivors of evicted bridge entries\<close>

record bridge_survivor =
  bs_key :: string
  bs_at_ms :: int
  bs_chats :: int
  bs_day :: int
  bs_day_start :: int

definition max_bridge_survivors :: nat where
  "max_bridge_survivors = 64"

definition survivor_of :: "zone option \<Rightarrow> string \<Rightarrow> account_ledger \<Rightarrow> go_time \<Rightarrow> bridge_survivor option" where
  "survivor_of tz key l now =
     (if key = '''' then None
      else
        let chats = int (length (filter (\<lambda>t. \<not> before t (now - usage_window)) (usage l)));
            start = bucket_start tz now ''day'';
            today = req_day_count l > 0 \<and> start = req_day_start l;
            day = (if today then req_day_count l else 0)
        in if chats = 0 \<and> day = 0 then None
           else Some \<lparr>bs_key = key, bs_at_ms = unix_milli now, bs_chats = chats, bs_day = day,
                  bs_day_start = (if today then start else 0)\<rparr>)"

definition capture_bridge_survivor ::
  "zone option \<Rightarrow> string \<times> account_ledger \<times> go_time \<Rightarrow> bridge_survivor list \<Rightarrow> bridge_survivor list" where
  "capture_bridge_survivor tz c rs =
     (case c of (key, l, now) \<Rightarrow>
        (case survivor_of tz key l now of
           None \<Rightarrow> rs | Some r \<Rightarrow> take_last max_bridge_survivors (rs @ [r])))"

definition restore_bridge_survivors :: "go_time \<Rightarrow> bridge_survivor list \<Rightarrow> bridge_survivor list" where
  "restore_bridge_survivors now rs =
     take_last max_bridge_survivors
       (filter (\<lambda>r. bs_key r \<noteq> '''' \<and> \<not> before (from_milli (bs_at_ms r)) (now - usage_window)) rs)"

definition bridge_survivor_usage :: "zone option \<Rightarrow> go_time \<Rightarrow> bridge_survivor list \<Rightarrow> int \<times> int" where
  "bridge_survivor_usage tz now rs =
     (let live = filter (\<lambda>r. \<not> before (from_milli (bs_at_ms r)) (now - usage_window)) rs
      in (sum_list (map bs_chats live),
          sum_list (map bs_day (filter (\<lambda>r. bs_day_start r = bucket_start tz now ''day'' \<and> bs_day_start r \<noteq> 0) live))))"

section \<open>The rolling window\<close>

definition spend_ok :: "spend_ledger \<Rightarrow> bool" where
  "spend_ok l \<longleftrightarrow> rolling_total l = sum_list (map se_tokens (rolling l)) \<and> (\<forall>e \<in> set (rolling l). 0 < se_tokens e)"

lemma sum_takeWhile_dropWhile:
  "sum_list (map f xs) - sum_list (map f (takeWhile P xs)) = (sum_list (map f (dropWhile P xs)) :: int)"
  by (induction xs) auto

lemma prune_ok: "spend_ok l \<Longrightarrow> spend_ok (prune_rolling c l)"
  using sum_takeWhile_dropWhile[of se_tokens "rolling l" "\<lambda>e. before (se_at e) c"]
  by (auto simp: spend_ok_def prune_rolling_def dest: set_dropWhileD)

lemma prune_filter:
  "sorted (map se_at (rolling l)) \<Longrightarrow> rolling (prune_rolling c l) = filter (\<lambda>e. \<not> se_at e < c) (rolling l)"
  using dropWhile_sorted_filter[of se_at "rolling l" c] by (simp add: prune_rolling_def before_def)

lemma spend_add_skip: "k \<le> 0 \<Longrightarrow> spend_add tz k now l = l"
  by (simp add: spend_add_def)

lemma spend_add_rolling:
  "rolling (spend_add tz k now l) = (if k \<le> 0 then rolling l
     else rolling (prune_rolling (now - 24 * hour) l) @ [\<lparr>se_at = now, se_tokens = k\<rparr>])"
  by (simp add: spend_add_def Let_def)

lemma spend_add_ok:
  assumes "spend_ok l"
  shows "spend_ok (spend_add tz k now l)"
proof (cases "k \<le> 0")
  case True
  with assms show ?thesis by (simp add: spend_add_def)
next
  case False
  with prune_ok[OF assms, of "now - 24 * hour"] show ?thesis
    unfolding spend_ok_def spend_add_rolling by (simp add: spend_add_def Let_def)
qed

abbreviation spend_event :: "zone option \<Rightarrow> int \<times> int \<Rightarrow> spend_ledger \<Rightarrow> spend_ledger" where
  "spend_event tz e \<equiv> spend_add tz (snd e) (fst e)"

interpretation spends: rolling_window rolling se_at "spend_event tz" "\<lambda>e. \<lparr>se_at = fst e, se_tokens = snd e\<rparr>"
  "\<lambda>e. 0 < snd e" "24 * hour" for tz
  by unfold_locales (simp_all add: spend_add_rolling prune_filter)

lemma record_chat_entry_usage: "usage (record_chat_entry tz now l) = usage (record_chat now l)"
  by (simp add: record_chat_entry_def record_day_request_def roll_day_def Let_def)

interpretation chats: rolling_window usage "\<lambda>t. t" "\<lambda>e. record_chat_entry tz (fst e)" fst "\<lambda>e. True" usage_window
  for tz
  by unfold_locales (auto simp: record_chat_entry_usage record_chat_def before_def usage_window_def
      dropWhile_sorted_filter[of "\<lambda>t. t", simplified])

lemma fold_spend_ok: "spend_ok l \<Longrightarrow> spend_ok (fold (spend_event tz) es l)"
  by (induction es arbitrary: l) (auto intro: spend_add_ok)

lemma rolling24h_sum:
  assumes "spend_ok l" "sorted (map se_at (rolling l))"
  shows "fst (rolling24h now l) = sum_list (map se_tokens (filter (\<lambda>e. \<not> se_at e < now - 24 * hour) (rolling l)))"
  using prune_ok[OF assms(1), of "now - 24 * hour"] prune_filter[OF assms(2), of "now - 24 * hour"]
  by (simp add: rolling24h_def spend_ok_def)

section \<open>The period buckets\<close>

definition used_of :: "string \<Rightarrow> spend_ledger \<Rightarrow> int" where
  "used_of p l = (if p = ''week'' then week_used l else if p = ''month'' then month_used l else day_used l)"

definition start_of :: "string \<Rightarrow> spend_ledger \<Rightarrow> int" where
  "start_of p l = (if p = ''week'' then week_start l else if p = ''month'' then month_start l else day_start l)"

lemma spend_add_bucket:
  assumes "p \<in> {''day'', ''week'', ''month''}"
  shows "(used_of p (spend_add tz k now l), start_of p (spend_add tz k now l)) =
    (if k \<le> 0 then (used_of p l, start_of p l) else roll_bucket tz (used_of p l) (start_of p l) p now k)"
  using assms by (auto simp: spend_add_def Let_def used_of_def start_of_def prune_rolling_def)

abbreviation spent_in :: "zone option \<Rightarrow> string \<Rightarrow> int \<Rightarrow> (int \<times> int) list \<Rightarrow> int" where
  "spent_in tz p b es \<equiv> sum_list (map snd (filter (\<lambda>e. bucket_start tz (fst e) p = b) es))"

lemma spends_bucket:
  assumes tz: "tz = None \<or> tz = Some us_zone" and p: "p \<in> {''day'', ''week'', ''month''}" and "sorted (map fst es)"
  defines "g \<equiv> filter (\<lambda>e. 0 < snd e) es"
  shows "(used_of p (fold (spend_event tz) es new_spend_ledger), start_of p (fold (spend_event tz) es new_spend_ledger)) =
    (if g = [] then (0, 0)
     else (spent_in tz p (bucket_start tz (fst (last g)) p) g, bucket_start tz (fst (last g)) p))"
  using assms(3) unfolding g_def
proof (induction es rule: rev_induct)
  case Nil
  then show ?case using p by (auto simp: used_of_def start_of_def new_spend_ledger_def)
next
  case (snoc e es)
  let ?g = "filter (\<lambda>e. 0 < snd e) es" and ?L = "fold (spend_event tz) es new_spend_ledger"
  have le: "fst x \<le> fst e" if "x \<in> set es" for x using snoc.prems that by (auto simp: sorted_append)
  have IH: "(used_of p ?L, start_of p ?L) = (if ?g = [] then (0, 0)
     else (spent_in tz p (bucket_start tz (fst (last ?g)) p) ?g, bucket_start tz (fst (last ?g)) p))"
    using snoc by (simp add: sorted_append)
  show ?case
  proof (cases "0 < snd e")
    case False
    then show ?thesis using IH by (simp add: spend_add_skip)
  next
    case True
    let ?b = "\<lambda>x. bucket_start tz (fst x) p"
    have add: "(used_of p (spend_event tz e ?L), start_of p (spend_event tz e ?L)) =
        roll_bucket tz (used_of p ?L) (start_of p ?L) p (fst e) (snd e)"
      using spend_add_bucket[OF p, of tz "snd e" "fst e" ?L] True by simp
    show ?thesis
    proof (cases "?g = []")
      case True
      then show ?thesis using IH add \<open>0 < snd e\<close> by (simp add: roll_bucket_def needs_rollover_unset)
    next
      case False
      have last: "last ?g \<in> set es" using last_in_set[OF False] by simp
      have roll: "needs_rollover tz (?b (last ?g)) p (fst e) \<longleftrightarrow> ?b e \<noteq> ?b (last ?g)"
        by (rule rollover_iff[OF tz le[OF last]])
      have mono: "?b x \<le> ?b (last ?g)" if "x \<in> set ?g" for x
      proof (rule bucket_start_mono[OF tz])
        have "sorted (map fst ?g)" using snoc.prems by (simp add: sorted_append sorted_filter)
        then show "fst x \<le> fst (last ?g)" using that by (rule sorted_last)
      qed
      have le_e: "?b (last ?g) \<le> ?b e" by (rule bucket_start_mono[OF tz le[OF last]])
      have "filter (\<lambda>x. ?b x = ?b e) ?g = []" if "?b e \<noteq> ?b (last ?g)"
        using that le_e mono by (fastforce simp: filter_empty_conv)
      then show ?thesis using IH False add True roll by (auto simp: roll_bucket_def)
    qed
  qed
qed

lemma requests_bucket:
  assumes tz: "tz = None \<or> tz = Some us_zone" and "sorted ts" "ts \<noteq> []"
  defines "L \<equiv> fold (record_chat_entry tz) ts new_account_ledger"
  shows "req_day_start L = bucket_start tz (last ts) ''day'' \<and>
    req_day_count L = count_if (\<lambda>t. bucket_start tz t ''day'' = bucket_start tz (last ts) ''day'') ts"
  using assms(2,3) unfolding L_def
proof (induction ts rule: rev_induct)
  case Nil
  then show ?case by simp
next
  case (snoc t ts)
  let ?b = "\<lambda>t. bucket_start tz t ''day''"
  show ?case
  proof (cases "ts = []")
    case True
    then show ?thesis using bucket_nonzero[OF tz, of t "''day''"]
      by (simp add: record_chat_entry_def record_chat_def record_day_request_def roll_day_def
          new_account_ledger_def Let_def)
  next
    case False
    have sorted: "sorted ts" "\<forall>x \<in> set ts. x \<le> t" using snoc.prems by (auto simp: sorted_append)
    have le: "?b (last ts) \<le> ?b t" using sorted False by (intro bucket_start_mono[OF tz]) simp
    have mono: "?b x \<le> ?b (last ts)" if "x \<in> set ts" for x
      using sorted_last[of "\<lambda>t. t" ts x] sorted(1) that by (intro bucket_start_mono[OF tz]) simp
    have "filter (\<lambda>x. ?b x = ?b t) ts = []" if "?b t \<noteq> ?b (last ts)"
      using that le mono by (fastforce simp: filter_empty_conv)
    then show ?thesis using snoc.IH[OF sorted(1) False]
      by (auto simp: record_chat_entry_def record_chat_def record_day_request_def roll_day_def Let_def count_if_def)
  qed
qed

section \<open>An account's history\<close>

text \<open>Everything that happens to one account, in order: successful chats and the tokens they cost.\<close>

datatype account_event = is_chat: Chat (event_time: go_time) | Spend (event_time: go_time) (event_tokens: int)

definition account_step :: "zone option \<Rightarrow> account_event \<Rightarrow> account_ledger \<Rightarrow> account_ledger" where
  "account_step tz e l =
     (case e of Chat t \<Rightarrow> record_chat_entry tz t l | Spend t n \<Rightarrow> record_spend tz n t l)"

abbreviation account_after :: "zone option \<Rightarrow> account_event list \<Rightarrow> account_ledger" where
  "account_after tz es \<equiv> fold (account_step tz) es new_account_ledger"

definition chat_times :: "account_event list \<Rightarrow> go_time list" where
  "chat_times es = map event_time (filter is_chat es)"

definition spent_events :: "account_event list \<Rightarrow> (int \<times> int) list" where
  "spent_events es = map (\<lambda>e. (event_time e, event_tokens e)) (filter (\<lambda>e. \<not> is_chat e) es)"

lemma account_split:
  "spend (fold (account_step tz) es l) = fold (spend_event tz) (spent_events es) (spend l)"
  "usage (fold (account_step tz) es l) = usage (fold (record_chat_entry tz) (chat_times es) l)"
  "req_day_start (fold (account_step tz) es l) = req_day_start (fold (record_chat_entry tz) (chat_times es) l)"
  "req_day_count (fold (account_step tz) es l) = req_day_count (fold (record_chat_entry tz) (chat_times es) l)"
proof -
  have keep: "usage (fold (record_chat_entry tz) ts (l\<lparr>spend := x\<rparr>)) = usage (fold (record_chat_entry tz) ts l) \<and>
      req_day_start (fold (record_chat_entry tz) ts (l\<lparr>spend := x\<rparr>)) = req_day_start (fold (record_chat_entry tz) ts l) \<and>
      req_day_count (fold (record_chat_entry tz) ts (l\<lparr>spend := x\<rparr>)) = req_day_count (fold (record_chat_entry tz) ts l)"
    for ts x l
  proof (induction ts arbitrary: l)
    case Nil
    then show ?case by simp
  next
    case (Cons t ts)
    have "record_chat_entry tz t (l\<lparr>spend := x\<rparr>) = (record_chat_entry tz t l)\<lparr>spend := x\<rparr>"
      by (simp add: record_chat_entry_def record_chat_def record_day_request_def roll_day_def Let_def)
    then show ?case using Cons.IH[of "record_chat_entry tz t l"] by simp
  qed
  have sp: "spend (record_chat_entry tz t l) = spend l" for t l
    by (simp add: record_chat_entry_def record_chat_def record_day_request_def roll_day_def Let_def)
  show "spend (fold (account_step tz) es l) = fold (spend_event tz) (spent_events es) (spend l)"
    by (induction es arbitrary: l)
      (auto simp: account_step_def spent_events_def sp record_spend_def split: account_event.splits)
  show "usage (fold (account_step tz) es l) = usage (fold (record_chat_entry tz) (chat_times es) l)"
    "req_day_start (fold (account_step tz) es l) = req_day_start (fold (record_chat_entry tz) (chat_times es) l)"
    "req_day_count (fold (account_step tz) es l) = req_day_count (fold (record_chat_entry tz) (chat_times es) l)"
    by (induction es arbitrary: l)
      (auto simp: account_step_def chat_times_def record_spend_def keep split: account_event.splits)
qed

lemma sorted_events:
  assumes "sorted (map event_time es)"
  shows "sorted (chat_times es)" "sorted (map fst (spent_events es))"
  using assms by (simp_all add: chat_times_def spent_events_def comp_def sorted_filter)

lemma usage_after:
  assumes "sorted ts" "\<forall>t \<in> set ts. t \<le> now"
  shows "filter (\<lambda>t. \<not> t < now - usage_window) (usage (fold (record_chat_entry tz) ts new_account_ledger)) =
    filter (\<lambda>t. \<not> t < now - usage_window) ts" "sorted (usage (fold (record_chat_entry tz) ts new_account_ledger))"
proof -
  have f: "fold (\<lambda>e. record_chat_entry tz (fst e)) (map (\<lambda>t. (t, ())) ts) l = fold (record_chat_entry tz) ts l" for l
    by (induction ts arbitrary: l) simp_all
  have e: "usage new_account_ledger = []" by (simp add: new_account_ledger_def)
  show "filter (\<lambda>t. \<not> t < now - usage_window) (usage (fold (record_chat_entry tz) ts new_account_ledger)) =
    filter (\<lambda>t. \<not> t < now - usage_window) ts"
    using chats.fold_seen[OF e, of "map (\<lambda>t. (t, ())) ts" now tz] assms unfolding f by (simp add: comp_def)
  show "sorted (usage (fold (record_chat_entry tz) ts new_account_ledger))"
    using chats.fold_sorted[OF e, of "map (\<lambda>t. (t, ())) ts" tz] assms unfolding f by (simp add: comp_def)
qed

lemma usage_count_filter:
  "sorted (usage l) \<Longrightarrow> fst (usage_count now l) = count_if (\<lambda>t. \<not> t < now - usage_window) (usage l)"
  using dropWhile_sorted_filter[of "\<lambda>t. t" "usage l"] by (simp add: usage_count_def count_if_def before_def Let_def)

lemma new_spend_ok: "spend_ok new_spend_ledger" "rolling new_spend_ledger = []"
  by (simp_all add: spend_ok_def new_spend_ledger_def)

section \<open>The restored ledger\<close>










section \<open>Properties\<close>

text \<open>C14: The account ledger counts exactly. However chats and spends interleave on a clock that
  does not run backwards, the rolling total is the sum of the positive amounts of the last 24
  hours, although it is kept incrementally; the usage count is the number of chats of the last 24
  hours; and the day count is the number of chats of the current Pacific day.\<close>

theorem ledger_counts_exactly:
  assumes "tz = None \<or> tz = Some us_zone" and "sorted (map event_time es)"
    and "\<forall>e \<in> set es. event_time e \<le> now"
  shows "fst (rolling24h now (spend (account_after tz es))) =
      sum_list (map snd (filter (\<lambda>e. now - 24 * hour \<le> fst e \<and> 0 < snd e) (spent_events es))) \<and>
    fst (usage_count now (account_after tz es)) = count_if (\<lambda>t. now - 24 * hour \<le> t) (chat_times es) \<and>
    fst (day_request_count tz now (account_after tz es)) =
      count_if (\<lambda>t. bucket_start tz t ''day'' = bucket_start tz now ''day'') (chat_times es)"
proof (intro conjI)
  let ?L = "account_after tz es" and ?S = "fold (spend_event tz) (spent_events es) new_spend_ledger"
  have le: "\<forall>e \<in> set (spent_events es). fst e \<le> now" "\<forall>t \<in> set (chat_times es). t \<le> now"
    using assms(3) by (auto simp: spent_events_def chat_times_def)
  note so = sorted_events[OF assms(2)]
  have sp: "spend ?L = ?S" by (simp add: account_split new_account_ledger_def)
  show "fst (rolling24h now (spend ?L)) =
      sum_list (map snd (filter (\<lambda>e. now - 24 * hour \<le> fst e \<and> 0 < snd e) (spent_events es)))"
    using spends.fold_seen[OF new_spend_ok(2) so(2) le(1), of tz]
      rolling24h_sum[OF fold_spend_ok[OF new_spend_ok(1)] spends.fold_sorted[OF new_spend_ok(2) so(2)], of now tz]
    unfolding sp by (simp add: filter_map comp_def not_less conj_commute)
  show "fst (usage_count now ?L) = count_if (\<lambda>t. now - 24 * hour \<le> t) (chat_times es)"
    using usage_after[OF so(1) le(2), of tz] usage_count_filter[of ?L now]
    by (simp add: account_split count_if_def not_less usage_window_def)
  show "fst (day_request_count tz now ?L) =
      count_if (\<lambda>t. bucket_start tz t ''day'' = bucket_start tz now ''day'') (chat_times es)"
  proof (cases "chat_times es = []")
    case True
    then show ?thesis
      using bucket_nonzero[OF assms(1), of now "''day''"]
      by (simp add: day_request_count_def roll_day_def Let_def account_split new_account_ledger_def)
  next
    case False
    let ?b = "\<lambda>t. bucket_start tz t ''day''" and ?t = "last (chat_times es)"
    have "?b ?t \<le> ?b now" using False le(2) by (intro bucket_start_mono[OF assms(1)]) simp
    moreover have "?b t \<le> ?b ?t" if "t \<in> set (chat_times es)" for t
      using sorted_last[of "\<lambda>t. t" "chat_times es" t] so(1) that by (intro bucket_start_mono[OF assms(1)]) simp
    ultimately have "filter (\<lambda>t. ?b t = ?b now) (chat_times es) = []" if "?b now \<noteq> ?b ?t"
      using that by (fastforce simp: filter_empty_conv)
    then show ?thesis using requests_bucket[OF assms(1) so(1) False]
      by (auto simp: day_request_count_def roll_day_def Let_def account_split count_if_def)
  qed
qed

lemma ledger_counts_exactly_witness:
  "fst (rolling24h (30 * hour) (spend (account_after None
     [Spend 0 5, Chat (7 * hour), Spend (7 * hour) 11, Spend (8 * hour) 0, Spend (29 * hour) 2]))) = 13"
  using ledger_counts_exactly[of None "[Spend 0 5, Chat (7 * hour), Spend (7 * hour) 11, Spend (8 * hour) 0,
    Spend (29 * hour) 2]" "30 * hour"]
  by (simp add: spent_events_def)

text \<open>The period buckets are exact. On a clock that does not run backwards, the day, week and
  month buckets carry the start of the period of the last recorded amount and the sum of the
  amounts recorded in that Pacific period, across rollovers and daylight saving.\<close>

lemma buckets_exact:
  assumes "tz = None \<or> tz = Some us_zone" and "sorted (map event_time es)"
    and "filter (\<lambda>e. 0 < snd e) (spent_events es) \<noteq> []"
  shows "\<forall>(used, start, p) \<in> {(day_used, day_start, ''day''), (week_used, week_start, ''week''),
      (month_used, spend_ledger.month_start, ''month'')}.
    start (spend (account_after tz es)) =
      bucket_start tz (fst (last (filter (\<lambda>e. 0 < snd e) (spent_events es)))) p \<and>
    used (spend (account_after tz es)) =
      sum_list (map snd (filter (\<lambda>e. 0 < snd e \<and>
        bucket_start tz (fst e) p = start (spend (account_after tz es))) (spent_events es)))"
proof -
  have sp: "spend (account_after tz es) = fold (spend_event tz) (spent_events es) new_spend_ledger"
    by (simp add: account_split new_account_ledger_def)
  show ?thesis
    using spends_bucket[OF assms(1) _ sorted_events(2)[OF assms(2)], of "''day''"]
      spends_bucket[OF assms(1) _ sorted_events(2)[OF assms(2)], of "''week''"]
      spends_bucket[OF assms(1) _ sorted_events(2)[OF assms(2)], of "''month''"] assms(3)
    unfolding sp by (simp add: used_of_def start_of_def conj_commute)
qed

lemma buckets_exact_witness:
  "day_used (spend (account_after None [Spend 0 5, Spend (8 * hour) 7, Chat (9 * hour), Spend (10 * hour) 1])) = 8"
proof -
  have "bucket_start None 0 ''day'' = - 57600" "bucket_start None (8 * hour) ''day'' = 28800"
    "bucket_start None (10 * hour) ''day'' = 28800"
    by code_simp+
  then show ?thesis
    using buckets_exact[of None "[Spend 0 5, Spend (8 * hour) 7, Chat (9 * hour), Spend (10 * hour) 1]"]
    by (simp add: spent_events_def)
qed



end
