(* ===== verification/Roster.thy ===== *)
theory Roster
  imports Cooldown
begin

text \<open>
  The fixed-token list of the pool: \<^verbatim>\<open>backend/internal/pool/roster.go\<close>, the slot
  reconciliation of \<^verbatim>\<open>SetConfig\<close> in \<^verbatim>\<open>pool.go\<close>, and the removal, parking and draining of
  tokens in \<^verbatim>\<open>lifecycle.go\<close>. An entry is named by \<open>entry_id\<close>, which stands for the pointer of
  the \<^verbatim>\<open>tokenEntry\<close>; its ledgers, runs and session are modelled in their own theories. The
  mismatch map is keyed by the 1-based position of an entry, 0 being the bridge's window; an
  operation that ranges over it takes the order of the range as an argument.
\<close>

record token_entry =
  entry_id :: nat
  entry_token :: string

record escalation =
  hits :: "go_time list"
  last_storm :: go_time

record token_roster =
  toks :: "token_entry list"
  mismatch :: "int \<rightharpoonup> escalation"

definition no_escalation :: escalation where
  "no_escalation = \<lparr>hits = [], last_storm = zero_time\<rparr>"

definition mismatch_window :: duration where
  "mismatch_window = 60 * second"

definition mismatch_threshold :: nat where
  "mismatch_threshold = 3"

section \<open>The list and the mismatch map\<close>

definition roster_add :: "token_entry \<Rightarrow> token_roster \<Rightarrow> int \<times> token_roster" where
  "roster_add e r = (int (length (toks r)), r\<lparr>toks := toks r @ [e]\<rparr>)"

definition replace_all :: "token_entry list \<Rightarrow> token_roster \<Rightarrow> token_roster" where
  "replace_all es r = r\<lparr>toks := es\<rparr>"

definition remove_last :: "token_roster \<Rightarrow> token_entry option \<times> token_roster" where
  "remove_last r =
     (if toks r = [] then (None, r)
      else (Some (last (toks r)),
            r\<lparr>toks := butlast (toks r), mismatch := (mismatch r)(int (length (toks r)) := None)\<rparr>))"

text \<open>One pass of \<^verbatim>\<open>removeAt\<close>'s range over the mismatch map, which deletes and inserts keys of the
  map it ranges over. A key that is gone when its turn comes is skipped; a key inserted by the
  loop may come up too, so \<open>order\<close> may visit any keys as long as it visits those of the map.\<close>

definition visit_mismatch :: "int \<Rightarrow> int \<Rightarrow> (int \<rightharpoonup> escalation) \<Rightarrow> (int \<rightharpoonup> escalation)" where
  "visit_mismatch idx key m =
     (case m key of
        None \<Rightarrow> m
      | Some v \<Rightarrow>
          if key = idx + 1 then m(key := None)
          else if key > idx + 1 then m(key - 1 \<mapsto> v, key := None)
          else m)"

definition remove_at :: "int list \<Rightarrow> int \<Rightarrow> token_roster \<Rightarrow> token_entry option \<times> token_roster" where
  "remove_at order idx r =
     (if idx < 0 \<or> idx \<ge> int (length (toks r)) then (None, r)
      else (Some (toks r ! nat idx),
            r\<lparr>toks := take (nat idx) (toks r) @ drop (nat idx + 1) (toks r),
              mismatch := fold (visit_mismatch idx) order (mismatch r)\<rparr>))"

definition in_range :: "int \<Rightarrow> token_roster \<Rightarrow> bool" where
  "in_range i r \<longleftrightarrow> 0 \<le> i \<and> i < int (length (toks r))"

definition roster_swap :: "int \<Rightarrow> int \<Rightarrow> token_roster \<Rightarrow> bool \<times> token_roster" where
  "roster_swap i j r =
     (if \<not> in_range i r \<or> \<not> in_range j r \<or> i = j then (False, r)
      else
        let t = toks r; m1 = mismatch r (i + 1); m2 = mismatch r (j + 1)
        in (True, r\<lparr>toks := t[nat i := t ! nat j, nat j := t ! nat i],
                    mismatch := (mismatch r)(j + 1 := m1, i + 1 := m2)\<rparr>))"

text \<open>Where \<^verbatim>\<open>move\<close> sends position \<open>old\<close>.\<close>

definition moved_index :: "int \<Rightarrow> int \<Rightarrow> int \<Rightarrow> int" where
  "moved_index from to old =
     (if old = from then to
      else if from < to then (if old > from \<and> old \<le> to then old - 1 else old)
      else (if old \<ge> to \<and> old < from then old + 1 else old))"

definition move_mismatch :: "int list \<Rightarrow> int \<Rightarrow> int \<Rightarrow> (int \<rightharpoonup> escalation) \<Rightarrow> (int \<rightharpoonup> escalation)" where
  "move_mismatch order from to m =
     fold (\<lambda>key acc. case m key of None \<Rightarrow> acc | Some v \<Rightarrow> acc(moved_index from to (key - 1) + 1 \<mapsto> v)) order Map.empty"

definition roster_move :: "int list \<Rightarrow> int \<Rightarrow> int \<Rightarrow> token_roster \<Rightarrow> bool \<times> token_roster" where
  "roster_move order from to r =
     (if \<not> in_range from r \<or> \<not> in_range to r \<or> from = to then (False, r)
      else
        let t = toks r;
            without = take (nat from) t @ drop (nat from + 1) t
        in (True, r\<lparr>toks := take (nat to) without @ [t ! nat from] @ drop (nat to) without,
                    mismatch := move_mismatch order from to (mismatch r)\<rparr>))"

definition roster_clear :: "token_roster \<Rightarrow> token_roster" where
  "roster_clear r = r\<lparr>toks := [], mismatch := Map.empty\<rparr>"

definition is_pooled_token :: "string \<Rightarrow> token_roster \<Rightarrow> bool" where
  "is_pooled_token raw r \<longleftrightarrow> raw \<noteq> '''' \<and> list_ex (\<lambda>e. entry_token e = raw) (toks r)"

section \<open>The escalation guard\<close>

definition escalate :: "go_time \<Rightarrow> escalation \<Rightarrow> bool \<times> escalation" where
  "escalate now st =
     (let hs = filter (\<lambda>t. time_sub now t < mismatch_window) (hits st) @ [now];
          fire = length hs \<ge> mismatch_threshold \<and> time_sub now (last_storm st) \<ge> mismatch_window
      in (fire, \<lparr>hits = hs, last_storm = (if fire then now else last_storm st)\<rparr>))"

definition record_mismatch ::
  "go_time \<Rightarrow> int \<Rightarrow> rate_limit_error option \<Rightarrow> token_roster \<Rightarrow> (bool \<times> string) \<times> token_roster" where
  "record_mismatch now key rle r =
     (case rle of
        None \<Rightarrow> ((False, ''''), r)
      | Some e \<Rightarrow>
          if rl_status e \<noteq> ''free_mode_invalid_agent_model'' then ((False, ''''), r)
          else
            (case escalate now (case mismatch r key of None \<Rightarrow> no_escalation | Some st \<Rightarrow> st) of
               (fire, st) \<Rightarrow>
                 ((fire, if \<not> fire then '''' else if rl_model e = '''' then rl_status e else rl_model e),
                  r\<lparr>mismatch := (mismatch r)(key \<mapsto> st)\<rparr>)))"

section \<open>Slot reconciliation on a reload\<close>

text \<open>\<open>build\<close> is \<^verbatim>\<open>buildTokenEntry\<close>: the entry constructed for a slot and its token, or no entry
  when the client cannot be built. The answer is the rebuilt list, the entries the loop replaced,
  in slot order, and whether any slot was rebuilt.\<close>

definition available_entries :: "token_entry list \<Rightarrow> (string \<rightharpoonup> token_entry)" where
  "available_entries base =
     fold (\<lambda>e a. if entry_token e \<noteq> '''' then a(entry_token e \<mapsto> e) else a) base Map.empty"

fun reconcile ::
  "(nat \<Rightarrow> string \<Rightarrow> token_entry option) \<Rightarrow> token_entry list \<Rightarrow> nat \<Rightarrow> string list \<Rightarrow> (string \<rightharpoonup> token_entry) \<Rightarrow>
     token_entry list \<times> token_entry list \<times> bool" where
  "reconcile build base i [] avail = ([], [], False)"
| "reconcile build base i (t # ts) avail =
     (if i < length base \<and> entry_token (base ! i) = t then
        (case reconcile build base (i + 1) ts (avail(t := None)) of (es, old, ch) \<Rightarrow> (base ! i # es, old, ch))
      else
        (case avail t of
           Some e \<Rightarrow>
             (case reconcile build base (i + 1) ts (avail(t := None)) of (es, old, ch) \<Rightarrow> (e # es, old, ch))
         | None \<Rightarrow>
             (case build i t of
                None \<Rightarrow>
                  (case reconcile build base (i + 1) ts avail of
                     (es, old, ch) \<Rightarrow> ((if i < length base then base ! i # es else es), old, ch))
              | Some e \<Rightarrow>
                  (case reconcile build base (i + 1) ts avail of
                     (es, old, ch) \<Rightarrow> (e # es, (if i < length base then base ! i # old else old), True)))))"

section \<open>Parking and draining removed tokens\<close>

text \<open>
  \<open>held\<close> lists the leases that are out, by entry: its count for an entry is what the entry's
  \<^verbatim>\<open>InflightCount\<close> reads. \<open>retired\<close> is the map of parked entries, \<open>drained\<close> the entries whose
  \<^verbatim>\<open>sync.Once\<close> has run, each with FINISH for its idle runs and the end of its session.
\<close>

record pool_tokens =
  roster :: token_roster
  held :: "nat list"
  retired :: "nat \<rightharpoonup> go_time"
  drained :: "nat list"

definition entry_inflight :: "nat \<Rightarrow> pool_tokens \<Rightarrow> nat" where
  "entry_inflight e p = length (filter (\<lambda>h. h = e) (held p))"

definition drain_removed :: "nat \<Rightarrow> pool_tokens \<Rightarrow> pool_tokens" where
  "drain_removed e p =
     (if e \<in> set (drained p) then p
      else p\<lparr>drained := drained p @ [e], retired := (retired p)(e := None)\<rparr>)"

definition park :: "go_time \<Rightarrow> nat \<Rightarrow> pool_tokens \<Rightarrow> pool_tokens" where
  "park now e p = p\<lparr>retired := (retired p)(e \<mapsto> now)\<rparr>"

text \<open>\<^verbatim>\<open>LeaseRelease\<close> releases the run, and then looks whether its entry is parked and idle.\<close>

definition release_run :: "nat \<Rightarrow> pool_tokens \<Rightarrow> pool_tokens" where
  "release_run e p = p\<lparr>held := remove1 e (held p)\<rparr>"

definition release_check :: "nat \<Rightarrow> pool_tokens \<Rightarrow> pool_tokens" where
  "release_check e p = (if retired p e \<noteq> None \<and> entry_inflight e p = 0 then drain_removed e p else p)"

definition lease_release :: "nat \<Rightarrow> pool_tokens \<Rightarrow> pool_tokens" where
  "lease_release e p = release_check e (release_run e p)"

definition lease_abandon :: "nat \<Rightarrow> pool_tokens \<Rightarrow> pool_tokens" where
  "lease_abandon e p = p\<lparr>held := remove1 e (held p)\<rparr>"

datatype remove_error = No_Tokens | Token_Busy | Out_Of_Range

text \<open>\<^verbatim>\<open>RemoveLastToken\<close> in its four sections: the busy check, the pop with the second look at the
  leases, the parking, and the drain when no lease slipped in between.\<close>

definition remove_last_check :: "pool_tokens \<Rightarrow> remove_error option" where
  "remove_last_check p =
     (if toks (roster p) = [] then Some No_Tokens
      else if entry_inflight (entry_id (last (toks (roster p)))) p > 0 then Some Token_Busy else None)"

definition remove_last_pop :: "pool_tokens \<Rightarrow> (nat \<times> bool) option \<times> pool_tokens" where
  "remove_last_pop p =
     (case remove_last (roster p) of
        (None, _) \<Rightarrow> (None, p)
      | (Some e, r) \<Rightarrow> (Some (entry_id e, entry_inflight (entry_id e) p > 0), p\<lparr>roster := r\<rparr>))"

definition remove_last_finish :: "go_time \<Rightarrow> nat \<times> bool \<Rightarrow> pool_tokens \<Rightarrow> pool_tokens" where
  "remove_last_finish now es p =
     (let p = park now (fst es) p in if snd es then p else drain_removed (fst es) p)"

definition remove_token_at :: "int list \<Rightarrow> go_time \<Rightarrow> int \<Rightarrow> pool_tokens \<Rightarrow> remove_error option \<times> pool_tokens" where
  "remove_token_at order now idx p =
     (if \<not> in_range idx (roster p) then (Some Out_Of_Range, p)
      else if list_ex (\<lambda>e. entry_inflight (entry_id e) p > 0) (toks (roster p)) then (Some Token_Busy, p)
      else
        (case remove_at order idx (roster p) of
           (None, _) \<Rightarrow> (Some Out_Of_Range, p)
         | (Some e, r) \<Rightarrow> (None, drain_removed (entry_id e) (park now (entry_id e) (p\<lparr>roster := r\<rparr>)))))"

definition swap_tokens :: "int \<Rightarrow> int \<Rightarrow> pool_tokens \<Rightarrow> remove_error option \<times> pool_tokens" where
  "swap_tokens i j p =
     (if \<not> in_range i (roster p) \<or> \<not> in_range j (roster p) then (Some Out_Of_Range, p)
      else if i = j then (None, p)
      else (case roster_swap i j (roster p) of
              (ok, r) \<Rightarrow> if ok then (None, p\<lparr>roster := r\<rparr>) else (Some Out_Of_Range, p)))"

definition move_token :: "int list \<Rightarrow> int \<Rightarrow> int \<Rightarrow> pool_tokens \<Rightarrow> remove_error option \<times> pool_tokens" where
  "move_token order from to p =
     (if \<not> in_range from (roster p) \<or> \<not> in_range to (roster p) then (Some Out_Of_Range, p)
      else if from = to then (None, p)
      else (case roster_move order from to (roster p) of
              (ok, r) \<Rightarrow> if ok then (None, p\<lparr>roster := r\<rparr>) else (Some Out_Of_Range, p)))"

definition add_token :: "(nat \<Rightarrow> string \<Rightarrow> token_entry option) \<Rightarrow> string \<Rightarrow> pool_tokens \<Rightarrow> int option \<times> pool_tokens" where
  "add_token build t p =
     (case build (length (toks (roster p))) t of
        None \<Rightarrow> (None, p)
      | Some e \<Rightarrow> (case roster_add e (roster p) of (idx, r) \<Rightarrow> (Some idx, p\<lparr>roster := r\<rparr>)))"

definition remove_all_tokens :: "pool_tokens \<Rightarrow> pool_tokens" where
  "remove_all_tokens p = p\<lparr>roster := roster_clear (roster p)\<rparr>"

definition set_config ::
  "(nat \<Rightarrow> string \<Rightarrow> token_entry option) \<Rightarrow> go_time \<Rightarrow> string list \<Rightarrow> pool_tokens \<Rightarrow> pool_tokens" where
  "set_config build now tokens p =
     (let base = toks (roster p) in
      case reconcile build base 0 tokens (available_entries base) of
        (es, old, changed) \<Rightarrow>
          if \<not> changed then p
          else
            let p = fold (\<lambda>e. park now (entry_id e)) old (p\<lparr>roster := replace_all es (roster p)\<rparr>)
            in fold (\<lambda>e p. if entry_inflight (entry_id e) p = 0 then drain_removed (entry_id e) p else p) old p)"

definition retired_drain_grace :: duration where
  "retired_drain_grace = 2 * minute"

definition prune_retired :: "go_time \<Rightarrow> pool_tokens \<Rightarrow> pool_tokens" where
  "prune_retired now p =
     p\<lparr>retired := (\<lambda>e. case retired p e of
          None \<Rightarrow> None
        | Some since \<Rightarrow> if entry_inflight e p = 0 \<and> time_sub now since > retired_drain_grace then None else Some since)\<rparr>"

end
