(* ===== verification/Roster_Properties.thy ===== *)
theory Roster_Properties
  imports Roster "HOL-Library.Multiset"
begin

text \<open>
  What the roster operations do to the accounts and to their escalation windows, which accounts
  a reload serves and retires, and when a removed token is drained.
\<close>

section \<open>Moving and swapping\<close>

lemma moved_index_inj: "moved_index from to i = moved_index from to j \<longleftrightarrow> i = j"
  by (auto simp: moved_index_def split: if_splits)

lemma move_mismatch_at:
  "move_mismatch order from to m (moved_index from to i + 1) = (if i + 1 \<in> set order then m (i + 1) else None)"
proof (induction order rule: rev_induct)
  case Nil
  then show ?case by (simp add: move_mismatch_def)
next
  case (snoc k ks)
  have "moved_index from to (k - 1) = moved_index from to i \<longleftrightarrow> k = i + 1"
    using moved_index_inj[of "from" to "k - 1" i] by auto
  moreover have "move_mismatch (ks @ [k]) from to m = (case m k of None \<Rightarrow> move_mismatch ks from to m
      | Some v \<Rightarrow> (move_mismatch ks from to m)(moved_index from to (k - 1) + 1 \<mapsto> v))"
    by (cases "m k") (simp_all add: move_mismatch_def)
  ultimately show ?case using snoc.IH by (cases "m k"; cases "k = i + 1") auto
qed

lemma moved_nth:
  fixes t w :: "'a list"
  assumes "a < n" "b < n" "i < n" and w: "length w = n - 1" "\<And>k. k < n - 1 \<Longrightarrow> w ! k = (if k < a then t ! k else t ! (k + 1))"
  shows "(take b w @ [t ! a] @ drop b w) ! nat (moved_index (int a) (int b) (int i)) = t ! i"
proof -
  have n: "(take b w @ [t ! a] @ drop b w) ! k = (if k < b then w ! k else if k = b then t ! a else w ! (k - 1))"
    if "k < n" for k
  proof -
    have "k - b = Suc (k - 1 - b) \<and> b + (k - 1 - b) = k - 1" if "b < k" using that by simp
    then show ?thesis using that assms(2) w(1) by (auto simp: nth_append min_def linorder_neq_iff)
  qed
  consider "i = a" | "i \<noteq> a" "a < b" "a < i" "i \<le> b" | "i \<noteq> a" "a < b" "i < a \<or> b < i"
    | "i \<noteq> a" "b \<le> a" "b \<le> i" "i < a" | "i \<noteq> a" "b \<le> a" "i < b \<or> a < i" by linarith
  then show ?thesis
  proof cases
    case 1
    then show ?thesis using assms(2) n[of b] by (simp add: moved_index_def)
  next
    case 2
    then have m: "nat (moved_index (int a) (int b) (int i)) = i - 1" by (simp add: moved_index_def)
    show ?thesis unfolding m using 2 assms(2,3) n[of "i - 1"] w(2)[of "i - 1"] by auto
  next
    case 3
    then have m: "nat (moved_index (int a) (int b) (int i)) = i" by (auto simp: moved_index_def)
    show ?thesis unfolding m using 3 assms(2,3) n[of i] w(2)[of i] w(2)[of "i - 1"] by auto
  next
    case 4
    then have m: "nat (moved_index (int a) (int b) (int i)) = i + 1" by (simp add: moved_index_def)
    show ?thesis unfolding m using 4 assms(1-3) n[of "i + 1"] w(2)[of i] by auto
  next
    case 5
    then have m: "nat (moved_index (int a) (int b) (int i)) = i" by (auto simp: moved_index_def)
    show ?thesis unfolding m using 5 assms(1-3) n[of i] w(2)[of i] w(2)[of "i - 1"] by auto
  qed
qed

lemma moved_list:
  assumes "a < length t" "b < length t" "i < length t"
  shows "(take b (take a t @ drop (a + 1) t) @ [t ! a] @ drop b (take a t @ drop (a + 1) t)) !
    nat (moved_index (int a) (int b) (int i)) = t ! i"
proof (rule moved_nth[OF assms])
  show "length (take a t @ drop (a + 1) t) = length t - 1" using assms(1) by simp
  show "(take a t @ drop (a + 1) t) ! k = (if k < a then t ! k else t ! (k + 1))" if "k < length t - 1" for k
    using that assms(1) by (auto simp: nth_append min_def)
qed

lemma moved_mset:
  fixes t :: "'a list"
  assumes "a < length t"
  shows "mset (take b (take a t @ drop (a + 1) t) @ [t ! a] @ drop b (take a t @ drop (a + 1) t)) = mset t"
proof -
  let ?w = "take a t @ drop (a + 1) t"
  have "mset (xs @ [x] @ ys) = add_mset x (mset (xs @ ys))" for x :: 'a and xs ys by simp
  then have "mset (take b ?w @ [t ! a] @ drop b ?w) = add_mset (t ! a) (mset (take b ?w @ drop b ?w))" .
  also have "\<dots> = add_mset (t ! a) (mset (take a t) + mset (drop (a + 1) t))" by (simp only: append_take_drop_id mset_append)
  also have "\<dots> = mset (take a t @ t ! a # drop (Suc a) t)" by simp
  also have "take a t @ t ! a # drop (Suc a) t = t" using assms by (rule id_take_nth_drop[symmetric])
  finally show ?thesis .
qed

section \<open>Removing\<close>

text \<open>The map once the range, in ascending order, has gone past key \<open>b\<close>.\<close>

definition shifted_below :: "int \<Rightarrow> int \<Rightarrow> (int \<rightharpoonup> escalation) \<Rightarrow> (int \<rightharpoonup> escalation)" where
  "shifted_below idx b m = (\<lambda>k. if k \<le> idx then m k else if k + 1 \<le> b then m (k + 1) else if k \<le> b then None else m k)"

lemma visit_next:
  assumes "b < c" "\<forall>k. b < k \<and> k < c \<longrightarrow> m k = None"
  shows "visit_mismatch idx c (shifted_below idx b m) = shifted_below idx c m"
proof (cases "m c")
  case None
  then have "m k = None" if "b < k" "k \<le> c" for k using assms(2) that by (cases "k = c") auto
  moreover have "k = b" if "k \<le> b" "\<not> k + 1 \<le> b" for k using that by simp
  ultimately show ?thesis
    using None assms(1) by (auto simp: visit_mismatch_def shifted_below_def fun_eq_iff)
next
  case (Some v)
  then have "m k = None" if "b < k" "k < c" for k using assms(2) that by simp
  then show ?thesis using Some assms(1)
    by (auto simp: visit_mismatch_def shifted_below_def fun_eq_iff)
qed

lemma visits_ascending:
  "sorted_wrt (<) order \<Longrightarrow> \<forall>k \<in> set order. b < k \<Longrightarrow> \<forall>k. b < k \<and> m k \<noteq> None \<longrightarrow> k \<in> set order \<Longrightarrow>
   fold (visit_mismatch idx) order (shifted_below idx b m) = (\<lambda>k. if k \<le> idx then m k else m (k + 1))"
proof (induction order arbitrary: b)
  case Nil
  then show ?case by (auto simp: shifted_below_def fun_eq_iff)
next
  case (Cons c cs)
  have bc: "b < c" and later: "\<forall>k \<in> set cs. c < k" and sorted: "sorted_wrt (<) cs" using Cons.prems by simp_all
  have none: "m k = None" if "b < k" "k < c" for k
  proof (rule ccontr)
    assume "m k \<noteq> None"
    with Cons.prems(3) that(1) have "k \<in> set (c # cs)" by blast
    with later that(2) show False by auto
  qed
  have rest: "\<forall>k. c < k \<and> m k \<noteq> None \<longrightarrow> k \<in> set cs"
    using Cons.prems(3) bc by (metis dual_order.strict_trans less_irrefl set_ConsD)
  have "visit_mismatch idx c (shifted_below idx b m) = shifted_below idx c m"
    using bc none by (intro visit_next) blast+
  then show ?case using Cons.IH[OF sorted later rest] by simp
qed

lemma remove_ascending:
  assumes "sorted_wrt (<) order" "dom m \<subseteq> set order"
  shows "fold (visit_mismatch idx) order m = (\<lambda>k. if k \<le> idx then m k else m (k + 1))"
proof -
  obtain b where b: "\<forall>k \<in> set order. b < k"
  proof (cases order)
    case Nil
    then show ?thesis using that by simp
  next
    case (Cons c cs)
    then show ?thesis using assms(1) by (intro that[of "c - 1"]) auto
  qed
  have "m k = None" if "k \<le> b" for k
    using that b assms(2) by (meson domIff linorder_not_le subsetD)
  then have "m = shifted_below idx b m" by (auto simp: shifted_below_def fun_eq_iff)
  then show ?thesis using visits_ascending[OF assms(1) b, of m idx] assms(2) by auto
qed

section \<open>Escalations\<close>

lemma window_test: "time_sub now t < mismatch_window \<longleftrightarrow> \<not> t < now - (mismatch_window - 1)"
  using time_sub_lt_iff[of mismatch_window now t]
  by (auto simp: mismatch_window_def min_duration_def max_duration_def)

lemma storm_gap: "time_sub now t \<ge> mismatch_window \<longleftrightarrow> t + mismatch_window \<le> now"
  using window_test[of now t] by linarith

interpretation refusals: rolling_window hits "\<lambda>t. t" "\<lambda>e st. snd (escalate (fst e) st)" fst "\<lambda>e. True" "mismatch_window - 1"
  by unfold_locales (simp_all add: escalate_def Let_def window_test, simp add: mismatch_window_def)

abbreviation escalated :: "go_time list \<Rightarrow> escalation" where
  "escalated ts \<equiv> fold (\<lambda>t st. snd (escalate t st)) ts no_escalation"

fun storm_times :: "escalation \<Rightarrow> go_time list \<Rightarrow> go_time list" where
  "storm_times st [] = []"
| "storm_times st (t # ts) =
     (if fst (escalate t st) then [t] else []) @ storm_times (snd (escalate t st)) ts"

lemma storms_append: "storm_times st (ts @ us) = storm_times st ts @ storm_times (fold (\<lambda>t st. snd (escalate t st)) ts st) us"
  by (induction ts arbitrary: st) simp_all

lemma last_storm_escalated:
  "last_storm (fold (\<lambda>t st. snd (escalate t st)) ts st) =
     (if storm_times st ts = [] then last_storm st else last (storm_times st ts))"
  by (induction ts arbitrary: st) (auto simp: escalate_def Let_def)

lemma storms_gapped:
  "sorted_wrt (\<lambda>a b. a + mismatch_window \<le> b) (storm_times st ts) \<and>
   (\<forall>a \<in> set (storm_times st ts). last_storm st + mismatch_window \<le> a)"
proof (induction ts arbitrary: st)
  case Nil
  then show ?case by simp
next
  case (Cons t ts)
  show ?case
  proof (cases "fst (escalate t st)")
    case True
    then have "last_storm st + mismatch_window \<le> t" "last_storm (snd (escalate t st)) = t"
      by (auto simp: escalate_def Let_def storm_gap)
    then show ?thesis using Cons.IH[of "snd (escalate t st)"] True by (auto simp: mismatch_window_def)
  next
    case False
    then have "last_storm (snd (escalate t st)) = last_storm st" by (auto simp: escalate_def Let_def)
    then show ?thesis using Cons.IH[of "snd (escalate t st)"] False by auto
  qed
qed

lemma escalated_hits:
  assumes "sorted ts" "\<forall>t \<in> set ts. t \<le> now"
  shows "filter (\<lambda>t. time_sub now t < mismatch_window) (hits (escalated ts)) = filter (\<lambda>t. now < t + mismatch_window) ts"
proof -
  have f: "fold (\<lambda>e st. snd (escalate (fst e) st)) (map (\<lambda>t. (t, ())) ts) st = fold (\<lambda>t st. snd (escalate t st)) ts st" for st
    by (induction ts arbitrary: st) simp_all
  have e: "hits no_escalation = []" by (simp add: no_escalation_def)
  have "(\<not> t < now - (mismatch_window - 1)) = (now < t + mismatch_window)" for t by linarith
  then show ?thesis
    using refusals.fold_seen[OF e, of "map (\<lambda>t. (t, ())) ts" now] assms unfolding f
    by (simp add: comp_def window_test)
qed

section \<open>Reloads\<close>

abbreviation base_tokens :: "token_entry list \<Rightarrow> string set" where
  "base_tokens base \<equiv> entry_token ` set base"

definition builds_all :: "(nat \<Rightarrow> string \<Rightarrow> token_entry option) \<Rightarrow> bool" where
  "builds_all build \<longleftrightarrow> (\<forall>i t. \<exists>e. build i t = Some e \<and> entry_token e = t)"

lemma available_iff:
  "distinct (map entry_token base) \<Longrightarrow> t \<noteq> '''' \<Longrightarrow>
     available_entries base t = Some e \<longleftrightarrow> e \<in> set base \<and> entry_token e = t"
proof (induction base rule: rev_induct)
  case Nil
  then show ?case by (simp add: available_entries_def)
next
  case (snoc x xs)
  then have "available_entries xs t = Some e \<longleftrightarrow> e \<in> set xs \<and> entry_token e = t" by simp
  moreover have "available_entries (xs @ [x]) t = (if entry_token x = t then Some x else available_entries xs t)"
    using snoc.prems(2) by (simp add: available_entries_def)
  moreover have "e \<notin> set xs" if "entry_token x = t" "entry_token e = t"
  proof
    assume "e \<in> set xs"
    then have "entry_token e \<in> entry_token ` set xs" by (rule imageI)
    then show False using that snoc.prems(1) by simp
  qed
  ultimately show ?case by (cases "entry_token x = t") auto
qed

lemma reconcile_spec:
  assumes "builds_all build"
  shows "distinct ts \<Longrightarrow> \<forall>t \<in> set ts. \<forall>e. avail t = Some e \<longleftrightarrow> e \<in> set base \<and> entry_token e = t \<Longrightarrow>
    reconcile build base i ts avail = (es, old, ch) \<Longrightarrow>
    map entry_token es = ts \<and> (\<forall>e \<in> set es. entry_token e \<in> base_tokens base \<longrightarrow> e \<in> set base) \<and>
    (ch \<longleftrightarrow> (\<exists>t \<in> set ts. t \<notin> base_tokens base))"
proof (induction ts arbitrary: i avail es old ch)
  case Nil
  then show ?case by simp
next
  case (Cons t ts)
  have av: "\<forall>t \<in> set ts. \<forall>e. a t = Some e \<longleftrightarrow> e \<in> set base \<and> entry_token e = t" if "a = avail \<or> a = avail(t := None)" for a
    using that
  proof
    assume "a = avail"
    then show ?thesis using Cons.prems(2) by simp
  next
    assume a: "a = avail(t := None)"
    have "a u = avail u" if "u \<in> set ts" for u using that Cons.prems(1) unfolding a by auto
    then show ?thesis using Cons.prems(2) by simp
  qed
  have at: "avail t = Some e \<longleftrightarrow> e \<in> set base \<and> entry_token e = t" for e using Cons.prems(2) by simp
  obtain es1 old1 ch1 where r1: "reconcile build base (i + 1) ts (avail(t := None)) = (es1, old1, ch1)"
    by (cases "reconcile build base (i + 1) ts (avail(t := None))") auto
  obtain es2 old2 ch2 where r2: "reconcile build base (i + 1) ts avail = (es2, old2, ch2)"
    by (cases "reconcile build base (i + 1) ts avail") auto
  have d: "distinct ts" using Cons.prems(1) by simp
  note I1 = Cons.IH[OF d av[OF disjI2[OF refl]] r1] and I2 = Cons.IH[OF d av[OF disjI1[OF refl]] r2]
  show ?case
  proof (cases "i < length base \<and> entry_token (base ! i) = t")
    case True
    have es: "es = base ! i # es1" "ch = ch1" using True Cons.prems(3) r1 by simp_all
    have e: "base ! i \<in> set base" "entry_token (base ! i) = t" using True by simp_all
    then have "t \<in> base_tokens base" by (auto intro: rev_image_eqI)
    then show ?thesis using I1 e unfolding es by simp
  next
    case False
    show ?thesis
    proof (cases "avail t")
      case (Some e)
      have "reconcile build base i (t # ts) avail = (e # es1, old1, ch1)"
        by (simp only: reconcile.simps False if_False Some option.case r1 prod.case)
      then have es: "es = e # es1" "ch = ch1" using Cons.prems(3) by simp_all
      have e: "e \<in> set base" "entry_token e = t" using Some at[of e] by simp_all
      then have "t \<in> base_tokens base" by (auto intro: rev_image_eqI)
      then show ?thesis using I1 e unfolding es by simp
    next
      case None
      obtain e where e: "build i t = Some e" "entry_token e = t" using assms by (auto simp: builds_all_def)
      have new: "t \<notin> base_tokens base" using at None by auto
      have "reconcile build base i (t # ts) avail = (e # es2, (if i < length base then base ! i # old2 else old2), True)"
        by (simp only: reconcile.simps False if_False None option.case e(1) r2 prod.case)
      then have es: "es = e # es2" "ch" using Cons.prems(3) by simp_all
      then show ?thesis using e(2) I2 new by simp
    qed
  qed
qed

lemma park_roster [simp]: "roster (park now e p) = roster p"
  by (simp add: park_def)

lemma drain_roster [simp]: "roster (drain_removed e p) = roster p"
  by (simp add: drain_removed_def)

lemma fold_roster: "(\<And>x p. roster (f x p) = roster p) \<Longrightarrow> roster (fold f xs p) = roster p"
  by (induction xs arbitrary: p) simp_all

lemma set_config_roster:
  "roster (set_config build now tokens p) =
     (case reconcile build (toks (roster p)) 0 tokens (available_entries (toks (roster p))) of
        (es, old, ch) \<Rightarrow> if ch then (roster p)\<lparr>toks := es\<rparr> else roster p)"
  by (auto simp: set_config_def Let_def replace_all_def fold_roster split: prod.splits)

section \<open>Properties\<close>

text \<open>Reordering accounts moves their escalation windows with them. After \<^verbatim>\<open>MoveToken\<close> the
  list holds the same entries, each at the position the move sends it to and under the mismatch
  window it had, whatever order the code's range over the map took; the bridge window stays.
  \<^verbatim>\<open>SwapTokens\<close> is the same for two positions, and swapping again restores the roster.\<close>

lemma reorder_carries_windows:
  assumes "in_range a r" "in_range b r" "a \<noteq> b" and "dom (mismatch r) \<subseteq> set order"
  shows "fst (roster_move order a b r) \<and> mset (toks (snd (roster_move order a b r))) = mset (toks r) \<and>
    mismatch (snd (roster_move order a b r)) 0 = mismatch r 0 \<and>
    (\<forall>i. in_range i r \<longrightarrow>
       toks (snd (roster_move order a b r)) ! nat (moved_index a b i) = toks r ! nat i \<and>
       mismatch (snd (roster_move order a b r)) (moved_index a b i + 1) = mismatch r (i + 1)) \<and>
    toks (snd (roster_swap a b r)) ! nat b = toks r ! nat a \<and>
    mismatch (snd (roster_swap a b r)) (b + 1) = mismatch r (a + 1) \<and>
    snd (roster_swap a b (snd (roster_swap a b r))) = r"
proof (intro conjI allI impI)
  let ?m = "snd (roster_move order a b r)" and ?s = "snd (roster_swap a b r)"
  have rg: "0 \<le> a" "0 \<le> b" "nat a < length (toks r)" "nat b < length (toks r)" "nat a \<noteq> nat b"
    using assms(1-3) by (auto simp: in_range_def)
  have t: "toks ?m = take (nat b) (take (nat a) (toks r) @ drop (nat a + 1) (toks r)) @ [toks r ! nat a] @
      drop (nat b) (take (nat a) (toks r) @ drop (nat a + 1) (toks r))"
    and mm: "mismatch ?m = move_mismatch order a b (mismatch r)"
    using assms(1-3) by (simp_all add: roster_move_def Let_def)
  show "fst (roster_move order a b r)" using assms(1-3) by (simp add: roster_move_def Let_def)
  show "mset (toks ?m) = mset (toks r)" unfolding t by (rule moved_mset[OF rg(3)])
  have w: "mismatch ?m (moved_index a b i + 1) = mismatch r (i + 1)" for i
    using assms(4) unfolding mm move_mismatch_at by (cases "mismatch r (i + 1)") (auto simp: dom_def)
  have "moved_index a b (- 1) = - 1" using rg(1,2) by (simp add: moved_index_def)
  with w[of "- 1"] show "mismatch ?m 0 = mismatch r 0" by simp
  fix i
  assume i: "in_range i r"
  show "mismatch ?m (moved_index a b i + 1) = mismatch r (i + 1)" by (rule w)
  have "nat i < length (toks r)" "0 \<le> i" using i by (auto simp: in_range_def)
  with moved_list[OF rg(3,4), of "nat i"] rg(1,2)
  show "toks ?m ! nat (moved_index a b i) = toks r ! nat i" unfolding t by simp
next
  have rg: "0 \<le> a" "0 \<le> b" "nat a < length (toks r)" "nat b < length (toks r)" "nat a \<noteq> nat b"
    using assms(1-3) by (auto simp: in_range_def)
  show "toks (snd (roster_swap a b r)) ! nat b = toks r ! nat a"
    "mismatch (snd (roster_swap a b r)) (b + 1) = mismatch r (a + 1)"
    using assms(1-3) rg by (simp_all add: roster_swap_def Let_def)
  have "(toks r)[nat a := toks r ! nat b, nat b := toks r ! nat a, nat a := toks r ! nat a, nat b := toks r ! nat b] = toks r"
    using rg by (intro nth_equalityI) (auto simp: nth_list_update)
  then show "snd (roster_swap a b (snd (roster_swap a b r))) = r"
    using assms(1-3) rg by (cases r) (auto simp: roster_swap_def in_range_def Let_def fun_eq_iff)
qed

lemma reorder_carries_windows_witness:
  "let e = (\<lambda>n. \<lparr>entry_id = n, entry_token = ''t''\<rparr>); st = \<lparr>hits = [7], last_storm = zero_time\<rparr>
   in mismatch (snd (roster_move [3] 2 0 \<lparr>toks = [e 0, e 1, e 2], mismatch = [3 \<mapsto> st]\<rparr>)) 1 = Some st"
proof -
  let ?e = "\<lambda>n. \<lparr>entry_id = n, entry_token = ''t''\<rparr>" and ?st = "\<lparr>hits = [7], last_storm = zero_time\<rparr>"
  let ?r = "\<lparr>toks = [?e 0, ?e 1, ?e 2], mismatch = [3 \<mapsto> ?st]\<rparr>"
  have "in_range 2 ?r" "in_range 0 ?r" "(2 :: int) \<noteq> 0" "dom (mismatch ?r) \<subseteq> set [3]" by (simp_all add: in_range_def)
  from reorder_carries_windows[OF this] have "mismatch (snd (roster_move [3] 2 0 ?r)) (moved_index 2 0 2 + 1) = mismatch ?r (2 + 1)"
    by (simp add: in_range_def)
  then show ?thesis by (simp add: moved_index_def Let_def)
qed

text \<open>Removing a middle account depends on the map's iteration order. When the range over the
  mismatch map runs in ascending order, every account above the removed one keeps its window at
  its new position; in another order the language allows, the window of one account is
  overwritten by that of its successor, because the loop writes keys it has yet to visit.\<close>

lemma remove_at_order:
  assumes "in_range idx r"
  shows "fst (remove_at order idx r) = Some (toks r ! nat idx) \<and>
    (sorted_wrt (<) order \<longrightarrow> dom (mismatch r) \<subseteq> set order \<longrightarrow>
       (\<forall>k. mismatch (snd (remove_at order idx r)) k = (if k \<le> idx then mismatch r k else mismatch r (k + 1)))) \<and>
    (\<forall>v w. mismatch (snd (remove_at [idx + 3, idx + 2] idx (r\<lparr>mismatch := [idx + 2 \<mapsto> v, idx + 3 \<mapsto> w]\<rparr>))) =
       [idx + 1 \<mapsto> w])"
  using assms remove_ascending[of order "mismatch r" idx]
  by (auto simp: remove_at_def in_range_def visit_mismatch_def fun_eq_iff)

lemma remove_at_order_witness:
  "let e = (\<lambda>n. \<lparr>entry_id = n, entry_token = ''t''\<rparr>); st = (\<lambda>t. \<lparr>hits = [t], last_storm = zero_time\<rparr>)
   in mismatch (snd (remove_at [2, 3] 0 \<lparr>toks = [e 0, e 1, e 2], mismatch = [2 \<mapsto> st 1, 3 \<mapsto> st 2]\<rparr>)) 1 = Some (st 1)"
proof -
  let ?e = "\<lambda>n. \<lparr>entry_id = n, entry_token = ''t''\<rparr>" and ?st = "\<lambda>t. \<lparr>hits = [t], last_storm = zero_time\<rparr>"
  let ?r = "\<lparr>toks = [?e 0, ?e 1, ?e 2], mismatch = [2 \<mapsto> ?st 1, 3 \<mapsto> ?st 2]\<rparr>"
  have "in_range 0 ?r" "sorted_wrt (<) [2, 3 :: int]" "dom (mismatch ?r) \<subseteq> set [2, 3]" by (auto simp: in_range_def)
  with remove_at_order[OF this(1), of "[2, 3]"] have "mismatch (snd (remove_at [2, 3] 0 ?r)) 1 = mismatch ?r 2" by auto
  then show ?thesis by (simp add: Let_def)
qed

text \<open>The escalation guard fires exactly on storms. For refusals of one account on a clock that
  does not run backwards, the refusal at \<open>now\<close> raises the alarm exactly when it is at least the
  third within a minute and the last alarm, if any, is a minute old; and the alarms of any
  sequence are at least a minute apart.\<close>

lemma storms_exact:
  assumes "sorted ts" and "\<forall>t \<in> set ts. t \<le> now" and "zero_time + mismatch_window \<le> now"
  shows "(fst (escalate now (escalated ts)) \<longleftrightarrow>
      2 \<le> length (filter (\<lambda>t. now < t + 60 * second) ts) \<and>
      (\<forall>s \<in> set (storm_times no_escalation ts). s + 60 * second \<le> now)) \<and>
    sorted_wrt (\<lambda>a b. a + 60 * second \<le> b) (storm_times no_escalation ts)"
proof -
  let ?S = "storm_times no_escalation ts"
  note g = storms_gapped[of no_escalation ts]
  have sorted: "sorted_wrt (\<lambda>a b. a + mismatch_window \<le> b) ?S" using g by simp
  have lasts: "last_storm (escalated ts) + mismatch_window \<le> now \<longleftrightarrow> (\<forall>s \<in> set ?S. s + mismatch_window \<le> now)"
  proof (cases "?S = []")
    case True
    then show ?thesis using assms(3) by (simp add: last_storm_escalated) (simp add: no_escalation_def)
  next
    case False
    have "s \<le> last ?S" if "s \<in> set ?S" for s
    proof -
      have "sorted ?S" using sorted by (rule sorted_wrt_mono_rel[rotated]) (simp add: mismatch_window_def)
      then show ?thesis using sorted_last[of "\<lambda>t. t" ?S s] that by simp
    qed
    with False show ?thesis by (force simp: last_storm_escalated)
  qed
  have "fst (escalate now (escalated ts)) \<longleftrightarrow>
      3 \<le> Suc (length (filter (\<lambda>t. now < t + mismatch_window) ts)) \<and> last_storm (escalated ts) + mismatch_window \<le> now"
    using escalated_hits[OF assms(1,2)] by (simp add: escalate_def Let_def mismatch_threshold_def storm_gap)
  with lasts sorted show ?thesis by (auto simp: mismatch_window_def)
qed

lemma storms_exact_witness:
  "fst (escalate (9 * second) (escalated [1 * second, 5 * second])) \<and>
   \<not> fst (escalate (10 * second) (escalated [1 * second, 5 * second, 9 * second]))"
proof -
  have s: "storm_times no_escalation [1 * second, 5 * second] = []"
    "storm_times no_escalation [1 * second, 5 * second, 9 * second] = [9 * second]"
    by code_simp+
  show ?thesis
    using storms_exact[of "[1 * second, 5 * second]" "9 * second"]
      storms_exact[of "[1 * second, 5 * second, 9 * second]" "10 * second"]
    unfolding s by (simp add: zero_time_def mismatch_window_def)
qed

text \<open>A reload serves the configured accounts, if one of them is new. When every entry can be
  built and tokens are distinct, a configuration with a new token makes the roster list exactly
  the configured tokens in order, and an account that was served before keeps its entry, with its
  session, runs and ledger. A configuration without a new token changes nothing, not even the
  order of the accounts.\<close>

lemma reload_serves_config:
  assumes "builds_all build" and "distinct (map entry_token (toks (roster p)))"
    and "distinct tokens" and "'''' \<notin> set tokens"
  shows "if set tokens \<subseteq> base_tokens (toks (roster p)) then set_config build now tokens p = p
    else map entry_token (toks (roster (set_config build now tokens p))) = tokens \<and>
      (\<forall>e \<in> set (toks (roster (set_config build now tokens p))).
         entry_token e \<in> base_tokens (toks (roster p)) \<longrightarrow> e \<in> set (toks (roster p))) \<and>
      mismatch (roster (set_config build now tokens p)) = mismatch (roster p)"
proof -
  obtain es old ch where r: "reconcile build (toks (roster p)) 0 tokens (available_entries (toks (roster p))) = (es, old, ch)"
    by (cases "reconcile build (toks (roster p)) 0 tokens (available_entries (toks (roster p)))") auto
  have "\<forall>t \<in> set tokens. \<forall>e. available_entries (toks (roster p)) t = Some e \<longleftrightarrow> e \<in> set (toks (roster p)) \<and> entry_token e = t"
  proof (intro ballI allI)
    fix t e
    assume "t \<in> set tokens"
    with assms(4) have "t \<noteq> ''''" by metis
    then show "available_entries (toks (roster p)) t = Some e \<longleftrightarrow> e \<in> set (toks (roster p)) \<and> entry_token e = t"
      by (rule available_iff[OF assms(2)])
  qed
  note spec = reconcile_spec[OF assms(1,3) this r]
  show ?thesis
  proof (cases "set tokens \<subseteq> base_tokens (toks (roster p))")
    case True
    with spec have "\<not> ch" by auto
    with True r show ?thesis by (simp add: set_config_def Let_def)
  next
    case False
    with spec have ch by auto
    with r have "roster (set_config build now tokens p) = (roster p)\<lparr>toks := es\<rparr>" by (simp add: set_config_roster)
    with spec False show ?thesis by simp
  qed
qed

definition demo_build :: "nat \<Rightarrow> string \<Rightarrow> token_entry option" where
  "demo_build i t = Some \<lparr>entry_id = 100 + i, entry_token = t\<rparr>"

definition demo_pool :: "token_entry list \<Rightarrow> pool_tokens" where
  "demo_pool es = \<lparr>roster = \<lparr>toks = es, mismatch = Map.empty\<rparr>, held = [], retired = Map.empty, drained = []\<rparr>"

lemma reload_serves_config_witness:
  "map entry_token (toks (roster (set_config demo_build 0 [''c'', ''a'']
     (demo_pool [\<lparr>entry_id = 0, entry_token = ''a''\<rparr>])))) = [''c'', ''a'']"
  using reload_serves_config[of demo_build "demo_pool [\<lparr>entry_id = 0, entry_token = ''a''\<rparr>]" "[''c'', ''a'']" 0]
  by (simp add: builds_all_def demo_build_def demo_pool_def)

text \<open>A reload can retire an account it keeps and forget one it drops. Moving account \<open>a\<close> from
  the first slot to the second behind a new account drains \<open>a\<close>, FINISH and session end included,
  while the new roster serves it; the account \<open>b\<close> that lost its slot is neither parked nor
  drained, so its runs and its session stay open upstream.\<close>

lemma reload_retires_kept_account:
  assumes "toks (roster p) = [a, b]" and "distinct [entry_token a, entry_token b, t]"
    and "'''' \<notin> {entry_token a, t}" and "entry_id a \<noteq> entry_id b"
    and "build 0 t = Some c" and "entry_inflight (entry_id a) p = 0"
    and "entry_id a \<notin> set (drained p)" and "entry_id b \<notin> set (drained p)" and "retired p (entry_id b) = None"
  shows "let p' = set_config build now [t, entry_token a] p in
    toks (roster p') = [c, a] \<and> entry_id a \<in> set (drained p') \<and>
    retired p' (entry_id b) = None \<and> entry_id b \<notin> set (drained p')"
  using assms unfolding Let_def[of "set_config _ _ _ _"]
  by (auto simp: set_config_def available_entries_def replace_all_def park_def drain_removed_def
      entry_inflight_def Let_def)

lemma reload_retires_kept_account_witness:
  "let p = set_config demo_build 0 [''c'', ''a''] (demo_pool [\<lparr>entry_id = 0, entry_token = ''a''\<rparr>, \<lparr>entry_id = 1, entry_token = ''b''\<rparr>])
   in \<lparr>entry_id = 0, entry_token = ''a''\<rparr> \<in> set (toks (roster p)) \<and> 0 \<in> set (drained p) \<and> 1 \<notin> set (drained p)"
  using reload_retires_kept_account[of "demo_pool [\<lparr>entry_id = 0, entry_token = ''a''\<rparr>, \<lparr>entry_id = 1, entry_token = ''b''\<rparr>]"
    "\<lparr>entry_id = 0, entry_token = ''a''\<rparr>" "\<lparr>entry_id = 1, entry_token = ''b''\<rparr>" "''c''" demo_build
    "\<lparr>entry_id = 100, entry_token = ''c''\<rparr>" 0]
  by (simp add: demo_build_def demo_pool_def entry_inflight_def Let_def)

text \<open>Only a plain release drains a removed token. When the last lease on a parked token is
  released, the token is drained and unparked, and only once however often it is released; when
  that lease is abandoned instead, the token stays parked and undrained, and the next pruning
  pass after the grace forgets it: its session is never ended upstream.\<close>

lemma last_lease_of_removed_token:
  assumes "retired p e = Some since" and "e \<notin> set (drained p)" and "held p = [e]"
    and "time_sub now since > retired_drain_grace"
  shows "drained (lease_release e p) = drained p @ [e] \<and> retired (lease_release e p) e = None \<and>
    drained (drain_removed e (lease_release e p)) = drained p @ [e] \<and>
    drained (lease_abandon e p) = drained p \<and> retired (lease_abandon e p) e = Some since \<and>
    drained (prune_retired now (lease_abandon e p)) = drained p \<and>
    retired (prune_retired now (lease_abandon e p)) e = None"
  using assms
  by (simp add: lease_release_def release_check_def release_run_def drain_removed_def lease_abandon_def
      prune_retired_def entry_inflight_def)

lemma last_lease_of_removed_token_witness:
  "let p = \<lparr>roster = \<lparr>toks = [], mismatch = Map.empty\<rparr>, held = [4], retired = [4 \<mapsto> 0], drained = []\<rparr>
   in drained (lease_release 4 p) = [4] \<and> retired (prune_retired (3 * minute) (lease_abandon 4 p)) 4 = None \<and>
      drained (prune_retired (3 * minute) (lease_abandon 4 p)) = []"
  using last_lease_of_removed_token[of "\<lparr>roster = \<lparr>toks = [], mismatch = Map.empty\<rparr>, held = [4], retired = [4 \<mapsto> 0],
    drained = []\<rparr>" 4 0 "3 * minute"]
  by (simp add: retired_drain_grace_def time_sub_def max_duration_def min_duration_def Let_def)

end
