(* ===== verification/Go_Text.thy ===== *)
theory Go_Text
  imports Complex_Main Civil_Date "HOL-Library.Char_ord" "HOL-Library.Sublist"
begin

text \<open>
  What the gateway uses of Go's text packages. A Go string is its list of bytes, so a \<open>string\<close>
  is one byte per character. \<^verbatim>\<open>strings\<close>: lower case, containment and trimming; \<^verbatim>\<open>strconv\<close>:
  decimal integers and numbers; \<^verbatim>\<open>encoding/json\<close>: decoding into \<^verbatim>\<open>any\<close>; \<^verbatim>\<open>time\<close>: RFC 3339; and
  the leftmost match of a \<^verbatim>\<open>regexp\<close>, as a scan of the suffixes.

  Lower case maps the letters A to Z and the two code points above ASCII that lower to an ASCII
  letter (the Kelvin sign and the dotted capital I); the case of other letters does not matter to
  the ASCII markers the code looks for. JSON strings keep bytes that are not UTF-8 as they are,
  and numbers are exact rationals. The nesting limit of the decoder, the words \<^verbatim>\<open>inf\<close> and \<^verbatim>\<open>nan\<close> of
  \<^verbatim>\<open>ParseFloat\<close>, and one-digit hours in times are not modelled.
\<close>

section \<open>Characters\<close>

abbreviation byte :: "nat \<Rightarrow> char" where
  "byte n \<equiv> char_of n"

abbreviation code :: "char \<Rightarrow> nat" where
  "code c \<equiv> of_char c"

definition is_digit :: "char \<Rightarrow> bool" where
  "is_digit c \<longleftrightarrow> 48 \<le> code c \<and> code c \<le> 57"

definition digit_value :: "char \<Rightarrow> int" where
  "digit_value c = int (code c) - 48"

definition is_letter :: "char \<Rightarrow> bool" where
  "is_letter c \<longleftrightarrow> 65 \<le> code c \<and> code c \<le> 90 \<or> 97 \<le> code c \<and> code c \<le> 122"

definition is_word :: "char \<Rightarrow> bool" where
  "is_word c \<longleftrightarrow> is_digit c \<or> is_letter c \<or> c = CHR ''_''"

text \<open>\<^verbatim>\<open>unicode.IsSpace\<close> on ASCII, and the class \<^verbatim>\<open>\s\<close> of a regexp, which has no vertical tab.\<close>

definition is_space :: "char \<Rightarrow> bool" where
  "is_space c \<longleftrightarrow> code c = 32 \<or> 9 \<le> code c \<and> code c \<le> 13"

definition is_rx_space :: "char \<Rightarrow> bool" where
  "is_rx_space c \<longleftrightarrow> is_space c \<and> code c \<noteq> 11"

definition lower_ascii :: "char \<Rightarrow> char" where
  "lower_ascii c = (if 65 \<le> code c \<and> code c \<le> 90 then byte (code c + 32) else c)"

definition upper_ascii :: "char \<Rightarrow> char" where
  "upper_ascii c = (if 97 \<le> code c \<and> code c \<le> 122 then byte (code c - 32) else c)"

fun to_lower :: "string \<Rightarrow> string" where
  "to_lower [] = []"
| "to_lower (c # cs) =
     (if code c = 226 \<and> take 2 cs = [byte 132, byte 170] then CHR ''k'' # to_lower (drop 2 cs)
      else if code c = 196 \<and> take 1 cs = [byte 176] then CHR ''i'' # to_lower (drop 1 cs)
      else lower_ascii c # to_lower cs)"

definition to_upper :: "string \<Rightarrow> string" where
  "to_upper s = map upper_ascii s"

fun contains :: "string \<Rightarrow> string \<Rightarrow> bool" where
  "contains [] n \<longleftrightarrow> n = []"
| "contains (c # cs) n \<longleftrightarrow> take (length n) (c # cs) = n \<or> contains cs n"

definition trim_space :: "string \<Rightarrow> string" where
  "trim_space s = rev (dropWhile is_space (rev (dropWhile is_space s)))"

definition trim_right :: "string \<Rightarrow> string \<Rightarrow> string" where
  "trim_right s cutset = rev (dropWhile (\<lambda>c. c \<in> set cutset) (rev s))"

lemma take_eq_prefix: "take (length n) s = n \<longleftrightarrow> prefix n s"
  by (metis append_eq_conv_conj append_take_drop_id prefix_def)

lemma contains_iff: "contains s n \<longleftrightarrow> sublist n s"
  by (induction s) (simp_all add: take_eq_prefix sublist_Cons_right del: take_Cons)

lemma contains_trans: "contains s m \<Longrightarrow> contains m n \<Longrightarrow> contains s n"
  by (auto simp: contains_iff intro: sublist_order.order_trans)

section \<open>Numbers\<close>

definition digits_value :: "string \<Rightarrow> int" where
  "digits_value s = foldl (\<lambda>n c. 10 * n + digit_value c) 0 s"

definition all_digits :: "string \<Rightarrow> bool" where
  "all_digits s \<longleftrightarrow> s \<noteq> [] \<and> list_all is_digit s"

definition int64_range :: "int \<Rightarrow> bool" where
  "int64_range n \<longleftrightarrow> min_duration \<le> n \<and> n \<le> max_duration"

text \<open>\<^verbatim>\<open>strconv.Atoi\<close> and \<^verbatim>\<open>ParseInt(s, 10, 64)\<close>: a sign, digits, and the range of \<^verbatim>\<open>int64\<close>.\<close>

definition parse_int :: "string \<Rightarrow> int option" where
  "parse_int s =
     (let neg = (take 1 s = ''-'');
          ds = (if take 1 s = ''-'' \<or> take 1 s = ''+'' then drop 1 s else s);
          n = (if neg then - digits_value ds else digits_value ds)
      in if all_digits ds \<and> int64_range n then Some n else None)"

text \<open>\<^verbatim>\<open>int64\<close> arithmetic wraps.\<close>

definition wrap64 :: "int \<Rightarrow> int" where
  "wrap64 n = (n + 9223372036854775808) mod 18446744073709551616 - 9223372036854775808"

lemma wrap64_id: "int64_range n \<Longrightarrow> wrap64 n = n"
  by (simp add: wrap64_def int64_range_def min_duration_def max_duration_def)

lemma wrap64_range: "int64_range (wrap64 n)"
  using pos_mod_bound[of "18446744073709551616 :: int" "n + 9223372036854775808"]
    pos_mod_sign[of "18446744073709551616 :: int" "n + 9223372036854775808"]
  unfolding wrap64_def int64_range_def min_duration_def max_duration_def by linarith

definition power10 :: "int \<Rightarrow> rat" where
  "power10 e = (if e \<ge> 0 then of_int (10 ^ nat e) else 1 / of_int (10 ^ nat (- e)))"

text \<open>The unsigned part of a decimal number: integer digits, fraction, exponent, and the rest.\<close>

definition exponent :: "string \<Rightarrow> (int \<times> string) option" where
  "exponent s =
     (if take 1 s = ''e'' \<or> take 1 s = ''E'' then
        let t = drop 1 s;
            neg = (take 1 t = ''-'');
            t = (if take 1 t = ''-'' \<or> take 1 t = ''+'' then drop 1 t else t);
            ds = takeWhile is_digit t
        in if ds = [] then None
           else Some (if neg then - digits_value ds else digits_value ds, dropWhile is_digit t)
      else Some (0, s))"

definition fraction :: "string \<Rightarrow> (string \<times> string) option" where
  "fraction s =
     (if take 1 s = ''.'' then
        let ds = takeWhile is_digit (drop 1 s)
        in if ds = [] then None else Some (ds, dropWhile is_digit (drop 1 s))
      else Some ([], s))"

definition json_number :: "string \<Rightarrow> (rat \<times> string) option" where
  "json_number s =
     (let neg = (take 1 s = ''-'');
          t = (if neg then drop 1 s else s);
          ds = takeWhile is_digit t
      in if ds = [] \<or> length ds > 1 \<and> take 1 ds = ''0'' then None
         else case fraction (dropWhile is_digit t) of
           None \<Rightarrow> None
         | Some (fs, u) \<Rightarrow>
             (case exponent u of
                None \<Rightarrow> None
              | Some (e, rest) \<Rightarrow>
                  let v = of_int (digits_value (ds @ fs)) * power10 (e - int (length fs))
                  in Some (if neg then - v else v, rest)))"

text \<open>\<^verbatim>\<open>strconv.ParseFloat\<close> on a decimal number: a sign, digits with a point anywhere, an exponent.\<close>

definition parse_float :: "string \<Rightarrow> rat option" where
  "parse_float s =
     (let neg = (take 1 s = ''-'');
          t = (if take 1 s = ''-'' \<or> take 1 s = ''+'' then drop 1 s else s);
          ds = takeWhile is_digit t;
          u = dropWhile is_digit t;
          fs = (if take 1 u = ''.'' then takeWhile is_digit (drop 1 u) else []);
          r = (if take 1 u = ''.'' then dropWhile is_digit (drop 1 u) else u)
      in if ds = [] \<and> fs = [] then None
         else case exponent r of
           Some (e, []) \<Rightarrow>
             let v = of_int (digits_value (ds @ fs)) * power10 (e - int (length fs))
             in Some (if neg then - v else v)
         | _ \<Rightarrow> None)"

definition truncate_rat :: "rat \<Rightarrow> int" where
  "truncate_rat r = (if r < 0 then - \<lfloor>- r\<rfloor> else \<lfloor>r\<rfloor>)"

section \<open>JSON\<close>

datatype json =
    J_Null
  | J_Bool bool
  | J_Num rat
  | J_Str string
  | J_Arr "json list"
  | J_Obj "(string \<times> json) list"

definition hex_value :: "char \<Rightarrow> nat option" where
  "hex_value c =
     (if is_digit c then Some (code c - 48)
      else if 97 \<le> code c \<and> code c \<le> 102 then Some (code c - 87)
      else if 65 \<le> code c \<and> code c \<le> 70 then Some (code c - 55) else None)"

definition hex4 :: "string \<Rightarrow> nat option" where
  "hex4 s =
     (if length s < 4 then None
      else case map hex_value (take 4 s) of
        [Some a, Some b, Some c, Some d] \<Rightarrow> Some (4096 * a + 256 * b + 16 * c + d)
      | _ \<Rightarrow> None)"

definition utf8 :: "nat \<Rightarrow> string" where
  "utf8 n =
     (if n < 128 then [byte n]
      else if n < 2048 then [byte (192 + n div 64), byte (128 + n mod 64)]
      else if n < 65536 then [byte (224 + n div 4096), byte (128 + n div 64 mod 64), byte (128 + n mod 64)]
      else [byte (240 + n div 262144), byte (128 + n div 4096 mod 64), byte (128 + n div 64 mod 64),
            byte (128 + n mod 64)])"

text \<open>The text after \<^verbatim>\<open>\u\<close>: a code point, a surrogate pair, or the replacement character.\<close>

definition unicode_escape :: "string \<Rightarrow> (string \<times> nat) option" where
  "unicode_escape s =
     (case hex4 s of
        None \<Rightarrow> None
      | Some u \<Rightarrow>
          if 55296 \<le> u \<and> u < 57344 then
            (case (if take 2 (drop 4 s) = [byte 92, CHR ''u''] then hex4 (drop 6 s) else None) of
               Some v \<Rightarrow>
                 if u < 56320 \<and> 56320 \<le> v \<and> v < 57344
                 then Some (utf8 ((u - 55296) * 1024 + (v - 56320) + 65536), 10)
                 else Some (utf8 65533, 4)
             | None \<Rightarrow> Some (utf8 65533, 4))
          else Some (utf8 u, 4))"

definition simple_escape :: "char \<Rightarrow> char option" where
  "simple_escape c =
     (if c \<in> {byte 34, byte 92, CHR ''/''} then Some c
      else if c = CHR ''b'' then Some (byte 8)
      else if c = CHR ''f'' then Some (byte 12)
      else if c = CHR ''n'' then Some (byte 10)
      else if c = CHR ''r'' then Some (byte 13)
      else if c = CHR ''t'' then Some (byte 9) else None)"

text \<open>A string after its opening quote.\<close>

fun json_string :: "string \<Rightarrow> (string \<times> string) option" where
  "json_string [] = None"
| "json_string (c # cs) =
     (if code c = 34 then Some ([], cs)
      else if code c < 32 then None
      else if code c \<noteq> 92 then map_option (\<lambda>(t, r). (c # t, r)) (json_string cs)
      else if take 1 cs = ''u'' then
        (case unicode_escape (drop 1 cs) of
           None \<Rightarrow> None
         | Some (t, n) \<Rightarrow> map_option (\<lambda>(u, r). (t @ u, r)) (json_string (drop (1 + n) cs)))
      else
        (case cs of
           [] \<Rightarrow> None
         | e # _ \<Rightarrow>
             (case simple_escape e of
                None \<Rightarrow> None
              | Some x \<Rightarrow> map_option (\<lambda>(u, r). (x # u, r)) (json_string (drop 1 cs)))))"

definition json_space :: "string \<Rightarrow> string" where
  "json_space s = dropWhile (\<lambda>c. code c \<in> {32, 9, 10, 13}) s"

text \<open>Every level of nesting takes two units of fuel and at least one byte.\<close>

fun json_value :: "nat \<Rightarrow> string \<Rightarrow> (json \<times> string) option"
  and json_elements :: "nat \<Rightarrow> string \<Rightarrow> (json list \<times> string) option"
  and json_members :: "nat \<Rightarrow> string \<Rightarrow> ((string \<times> json) list \<times> string) option" where
  "json_value 0 s = None"
| "json_value (Suc n) s =
     (let s = json_space s in
      if take 4 s = ''null'' then Some (J_Null, drop 4 s)
      else if take 4 s = ''true'' then Some (J_Bool True, drop 4 s)
      else if take 5 s = ''false'' then Some (J_Bool False, drop 5 s)
      else if take 1 s = [byte 34] then map_option (\<lambda>(t, r). (J_Str t, r)) (json_string (drop 1 s))
      else if take 1 s = ''['' then
        let t = json_space (drop 1 s)
        in if take 1 t = '']'' then Some (J_Arr [], drop 1 t)
           else map_option (\<lambda>(vs, r). (J_Arr vs, r)) (json_elements n t)
      else if take 1 s = ''{'' then
        let t = json_space (drop 1 s)
        in if take 1 t = ''}'' then Some (J_Obj [], drop 1 t)
           else map_option (\<lambda>(ms, r). (J_Obj ms, r)) (json_members n t)
      else map_option (\<lambda>(v, r). (J_Num v, r)) (json_number s))"
| "json_elements 0 s = None"
| "json_elements (Suc n) s =
     (case json_value n s of
        None \<Rightarrow> None
      | Some (v, r) \<Rightarrow>
          let r = json_space r in
          if take 1 r = '','' then map_option (\<lambda>(vs, r). (v # vs, r)) (json_elements n (drop 1 r))
          else if take 1 r = '']'' then Some ([v], drop 1 r) else None)"
| "json_members 0 s = None"
| "json_members (Suc n) s =
     (let s = json_space s in
      if take 1 s \<noteq> [byte 34] then None
      else case json_string (drop 1 s) of
        None \<Rightarrow> None
      | Some (k, r) \<Rightarrow>
          let r = json_space r in
          if take 1 r \<noteq> '':'' then None
          else case json_value n (drop 1 r) of
            None \<Rightarrow> None
          | Some (v, r) \<Rightarrow>
              let r = json_space r in
              if take 1 r = '','' then map_option (\<lambda>(ms, r). ((k, v) # ms, r)) (json_members n (drop 1 r))
              else if take 1 r = ''}'' then Some ([(k, v)], drop 1 r) else None)"

definition json_decode :: "string \<Rightarrow> json option" where
  "json_decode s =
     (case json_value (2 * length s + 2) s of
        Some (v, r) \<Rightarrow> if json_space r = [] then Some v else None
      | None \<Rightarrow> None)"

text \<open>The value of a key in a \<^verbatim>\<open>map[string]any\<close> is its last one; a struct field also takes the
  keys that differ in case.\<close>

definition obj_get :: "(string \<times> json) list \<Rightarrow> string \<Rightarrow> json option" where
  "obj_get ms k = map_of (rev ms) k"

definition field_get :: "(string \<times> json) list \<Rightarrow> string \<Rightarrow> json option" where
  "field_get ms k = map_option snd (find (\<lambda>m. to_lower (fst m) = to_lower k) (rev ms))"

section \<open>Scanning for a pattern\<close>

fun scan :: "(string \<Rightarrow> 'a option) \<Rightarrow> string \<Rightarrow> 'a option" where
  "scan m [] = m []"
| "scan m (c # cs) = (case m (c # cs) of None \<Rightarrow> scan m cs | Some x \<Rightarrow> Some x)"

definition eat :: "string \<Rightarrow> string \<Rightarrow> string option" where
  "eat lit s = (if take (length lit) s = lit then Some (drop (length lit) s) else None)"

definition eat_spaces :: "string \<Rightarrow> string option" where
  "eat_spaces s = (if s \<noteq> [] \<and> is_rx_space (hd s) then Some (dropWhile is_rx_space s) else None)"

definition eat_digits :: "string \<Rightarrow> (string \<times> string) option" where
  "eat_digits s =
     (let ds = takeWhile is_digit s in if ds = [] then None else Some (ds, dropWhile is_digit s))"

section \<open>RFC 3339\<close>

definition two_digits :: "string \<Rightarrow> int option" where
  "two_digits s = (if length s = 2 \<and> all_digits s then Some (digits_value s) else None)"

definition days_in_month :: "int \<Rightarrow> int \<Rightarrow> int" where
  "days_in_month y m = day_number y (m + 1) 1 - day_number y m 1"

text \<open>The zone suffix: \<^verbatim>\<open>Z\<close> or an offset of at most 23:59, as nanoseconds east of UTC.\<close>

definition zone_suffix :: "string \<Rightarrow> duration option" where
  "zone_suffix s =
     (if s = ''Z'' then Some 0
      else if length s = 6 \<and> (take 1 s = ''+'' \<or> take 1 s = ''-'') \<and> s ! 3 = CHR '':'' then
        (case (two_digits (take 2 (drop 1 s)), two_digits (drop 4 s)) of
           (Some h, Some m) \<Rightarrow>
             if h \<le> 23 \<and> m \<le> 59
             then Some ((if take 1 s = ''-'' then -1 else 1) * (h * hour + m * minute)) else None
         | _ \<Rightarrow> None)
      else None)"

definition nanoseconds :: "string \<Rightarrow> int" where
  "nanoseconds ds = digits_value (take 9 (ds @ ''000000000''))"

definition parse_rfc3339 :: "string \<Rightarrow> go_time option" where
  "parse_rfc3339 s =
     (if length s < 20 \<or> \<not> all_digits (take 4 s) \<or> s ! 4 \<noteq> CHR ''-'' \<or> s ! 7 \<noteq> CHR ''-'' \<or>
         s ! 10 \<noteq> CHR ''T'' \<or> s ! 13 \<noteq> CHR '':'' \<or> s ! 16 \<noteq> CHR '':'' then None
      else
        case (two_digits (take 2 (drop 5 s)), two_digits (take 2 (drop 8 s)), two_digits (take 2 (drop 11 s)),
              two_digits (take 2 (drop 14 s)), two_digits (take 2 (drop 17 s))) of
          (Some mo, Some d, Some h, Some mi, Some se) \<Rightarrow>
            let y = digits_value (take 4 s);
                r = drop 19 s;
                dotted = (take 1 r = ''.'' \<or> take 1 r = '','') \<and> takeWhile is_digit (drop 1 r) \<noteq> [];
                ns = (if dotted then nanoseconds (takeWhile is_digit (drop 1 r)) else 0);
                z = (if dotted then dropWhile is_digit (drop 1 r) else r)
            in if mo < 1 \<or> 12 < mo \<or> d < 1 \<or> days_in_month y mo < d \<or> 23 < h \<or> 59 < mi \<or> 59 < se then None
               else map_option (\<lambda>off. day_number y mo d * (24 * hour) + h * hour + mi * minute + se * second + ns - off)
                      (zone_suffix z)
        | _ \<Rightarrow> None)"

end
