(* ===== verification/Classify.thy ===== *)
theory Classify
  imports Go_Text Cooldown
begin

text \<open>
  What an upstream refusal means: \<^verbatim>\<open>backend/internal/upstream/classify.go\<close>, its helpers in
  \<^verbatim>\<open>wire_helpers.go\<close>, the codes of \<^verbatim>\<open>wirecodes_gen.go\<close>, and the ledger of
  \<^verbatim>\<open>ratelimit.go\<close>. A response is its status, its body and its \<^verbatim>\<open>Retry-After\<close> header (empty
  when absent); \<^verbatim>\<open>http.ParseTime\<close> is the argument \<open>http_time\<close>, and the clock is read once
  (\<open>now\<close>). \<open>classify_error\<close> has the arms of the Go switch in their order.

  A \<^verbatim>\<open>float64\<close> is a rational, and its conversion to \<^verbatim>\<open>int64\<close> out of range is what amd64 does.
  The text of an error made by \<^verbatim>\<open>fmt.Errorf\<close> is reduced to the body it quotes.
\<close>

section \<open>Wire codes\<close>

datatype wire_code =
    Deployment_Outside_Hours | Run_Fanout | Capacity_Deferral | Session_Limit_Reached
  | CLI_Required | Country_Blocking | Ip_Cap | Waiting_Room_Queued | Waiting_Room_Requirement
  | Session_Model_Mismatch | Invalid_Agent_Model | Invalid_Agent_Hierarchy | Cost_Mode_Required
  | Session_Superseded | Turn_Spend_Limit | Update_Required | Session_Expired | Model_Locked
  | Legacy_Luna_Agent | Legacy_Luna | Run_Id_Not_Found | Run_Id_Not_Running | Insufficient_Quota
  | Limit_Burst_Rate | Peak_Hours | Peak_Hours_Status | Load_Shedding | Rate_Limited | Spend_Limited
  | Banned | Account_Suspended | Free_Mode_Unavailability | Consent_Requirement
  | First_Tab_Discount_Changed

fun wire_text :: "wire_code \<Rightarrow> string" where
  "wire_text Deployment_Outside_Hours = ''deployment_outside_hours''"
| "wire_text Run_Fanout = ''free_mode_run_fanout''"
| "wire_text Capacity_Deferral = ''free_mode_capacity_deferred''"
| "wire_text Session_Limit_Reached = ''session_limit_reached''"
| "wire_text CLI_Required = ''free_mode_cli_required''"
| "wire_text Country_Blocking = ''country_blocked''"
| "wire_text Ip_Cap = ''ip_capped''"
| "wire_text Waiting_Room_Queued = ''waiting_room_queued''"
| "wire_text Waiting_Room_Requirement = ''waiting_room_required''"
| "wire_text Session_Model_Mismatch = ''session_model_mismatch''"
| "wire_text Invalid_Agent_Model = ''free_mode_invalid_agent_model''"
| "wire_text Invalid_Agent_Hierarchy = ''free_mode_invalid_agent_hierarchy''"
| "wire_text Cost_Mode_Required = ''free_mode_cost_mode_required''"
| "wire_text Session_Superseded = ''session_superseded''"
| "wire_text Turn_Spend_Limit = ''turn_spend_limit''"
| "wire_text Update_Required = ''freebuff_update_required''"
| "wire_text Session_Expired = ''session_expired''"
| "wire_text Model_Locked = ''model_locked''"
| "wire_text Legacy_Luna_Agent = ''free_mode_legacy_luna_agent''"
| "wire_text Legacy_Luna = ''free_mode_legacy_luna''"
| "wire_text Run_Id_Not_Found = ''runid not found''"
| "wire_text Run_Id_Not_Running = ''runid not running''"
| "wire_text Insufficient_Quota = ''insufficient_quota''"
| "wire_text Limit_Burst_Rate = ''limit_burst_rate''"
| "wire_text Peak_Hours = ''peak hours''"
| "wire_text Peak_Hours_Status = ''peak_hours''"
| "wire_text Load_Shedding = ''load_shedding''"
| "wire_text Rate_Limited = ''rate_limited''"
| "wire_text Spend_Limited = ''spend_limited''"
| "wire_text Banned = ''banned''"
| "wire_text Account_Suspended = ''account_suspended''"
| "wire_text Free_Mode_Unavailability = ''free_mode_unavailable''"
| "wire_text Consent_Requirement = ''consent_required''"
| "wire_text First_Tab_Discount_Changed = ''first_tab_discount_changed''"

section \<open>Wire helpers\<close>

definition contains_any :: "string \<Rightarrow> string list \<Rightarrow> bool" where
  "contains_any s needles \<longleftrightarrow> list_ex (contains s) needles"

definition has_code :: "string \<Rightarrow> wire_code list \<Rightarrow> bool" where
  "has_code s codes \<longleftrightarrow> contains_any s (map wire_text codes)"

definition quoted :: "string \<Rightarrow> string" where
  "quoted s = [byte 34] @ s @ [byte 34]"

definition truncate_text :: "string \<Rightarrow> nat \<Rightarrow> string" where
  "truncate_text s n = (if length s \<le> n then s else take n s @ ''...'')"

text \<open>\<^verbatim>\<open>int64(f)\<close>: out of range, amd64 answers the least integer.\<close>

definition float_to_int64 :: "rat \<Rightarrow> int" where
  "float_to_int64 r = (if int64_range (truncate_rat r) then truncate_rat r else min_duration)"

definition unix_from :: "int \<Rightarrow> go_time" where
  "unix_from secs =
     (if secs \<ge> 100000000000 then wrap64 (secs * millisecond) else secs * second)"

definition parse_flex_time :: "json \<Rightarrow> go_time option" where
  "parse_flex_time v =
     (case v of
        J_Str t \<Rightarrow>
          if t = '''' then None
          else (case parse_rfc3339 t of
                  Some u \<Rightarrow> Some u
                | None \<Rightarrow> map_option unix_from (parse_int t))
      | J_Num r \<Rightarrow> Some (unix_from (float_to_int64 r))
      | _ \<Rightarrow> None)"

definition number_of :: "json \<Rightarrow> rat option" where
  "number_of v =
     (case v of J_Num r \<Rightarrow> Some r | J_Str t \<Rightarrow> parse_float (trim_space t) | _ \<Rightarrow> None)"

definition get_number :: "(string \<times> json) list \<Rightarrow> string list \<Rightarrow> rat option" where
  "get_number ms keys = first_some (\<lambda>k. Option.bind (obj_get ms k) number_of) keys"

definition trimmed :: "json \<Rightarrow> json" where
  "trimmed v = (case v of J_Str t \<Rightarrow> J_Str (trim_space t) | _ \<Rightarrow> v)"

definition get_time :: "(string \<times> json) list \<Rightarrow> string list \<Rightarrow> go_time option" where
  "get_time ms keys =
     first_some (\<lambda>k. Option.bind (obj_get ms k) (\<lambda>v. parse_flex_time (trimmed v))) keys"

definition get_string :: "(string \<times> json) list \<Rightarrow> string \<Rightarrow> string option" where
  "get_string ms k = (case obj_get ms k of Some (J_Str t) \<Rightarrow> Some t | _ \<Rightarrow> None)"

text \<open>\<^verbatim>\<open>json.Unmarshal\<close> into \<^verbatim>\<open>map[string]any\<close> and into a struct: the members, or \<open>None\<close>
  for an error. A null leaves the map nil or the struct as it is.\<close>

definition unmarshal_members :: "string \<Rightarrow> (string \<times> json) list option" where
  "unmarshal_members body =
     (case json_decode body of
        Some (J_Obj ms) \<Rightarrow> Some ms | Some J_Null \<Rightarrow> Some [] | _ \<Rightarrow> None)"

text \<open>One field of a struct: the members whose name folds to the field's set it in turn; \<open>put\<close>
  answers \<open>None\<close> for a value of another type; a null leaves a string or number and empties a
  slice.\<close>

fun fold_name :: "string \<Rightarrow> string" where
  "fold_name [] = []"
| "fold_name (c # cs) =
     (if code c = 226 \<and> take 2 cs = [byte 132, byte 170] then CHR ''k'' # fold_name (drop 2 cs)
      else if code c = 197 \<and> take 1 cs = [byte 191] then CHR ''s'' # fold_name (drop 1 cs)
      else lower_ascii c # fold_name cs)"

definition struct_field ::
  "(json \<Rightarrow> 'a \<Rightarrow> 'a option) \<Rightarrow> 'a \<Rightarrow> (string \<times> json) list \<Rightarrow> string \<Rightarrow> 'a option" where
  "struct_field put z ms k =
     foldl (\<lambda>acc m. if fold_name (fst m) = fold_name k
                     then Option.bind acc (put (snd m)) else acc) (Some z) ms"

definition put_string :: "json \<Rightarrow> string \<Rightarrow> string option" where
  "put_string v old = (case v of J_Str t \<Rightarrow> Some t | J_Null \<Rightarrow> Some old | _ \<Rightarrow> None)"

definition put_number :: "json \<Rightarrow> rat \<Rightarrow> rat option" where
  "put_number v old = (case v of J_Num r \<Rightarrow> Some r | J_Null \<Rightarrow> Some old | _ \<Rightarrow> None)"

definition put_list :: "json \<Rightarrow> json list \<Rightarrow> json list option" where
  "put_list v old = (case v of J_Arr vs \<Rightarrow> Some vs | J_Null \<Rightarrow> Some [] | _ \<Rightarrow> None)"

definition put_strings :: "json \<Rightarrow> string list \<Rightarrow> string list option" where
  "put_strings v old =
     (case v of
        J_Arr vs \<Rightarrow>
          if list_all (\<lambda>x. put_string x '''' \<noteq> None) vs
          then Some (List.map_filter (\<lambda>x. put_string x '''') vs) else None
      | J_Null \<Rightarrow> Some []
      | _ \<Rightarrow> None)"

text \<open>A field of type \<^verbatim>\<open>any\<close> takes every value, a null too.\<close>

definition any_field :: "(string \<times> json) list \<Rightarrow> string \<Rightarrow> json" where
  "any_field ms k =
     (case find (\<lambda>m. fold_name (fst m) = fold_name k) (rev ms) of None \<Rightarrow> J_Null | Some m \<Rightarrow> snd m)"

section \<open>Delays\<close>

definition cooldown_from_millis :: "rat \<Rightarrow> duration" where
  "cooldown_from_millis ms =
     (if ms \<le> 0 then 0
      else if ms > 9223372036854775808 / 1000000 then max_duration
      else float_to_int64 ms * millisecond)"

text \<open>The bound is the double nearest to \<open>2 ^ 63 / 10 ^ 9\<close>, which lies above it.\<close>

definition seconds_bound :: rat where
  "seconds_bound = 9223372036 + 448149 / 524288"

definition cooldown_from_seconds :: "rat \<Rightarrow> duration" where
  "cooldown_from_seconds sec =
     (if sec \<le> 0 then 0
      else if sec > seconds_bound then max_duration
      else float_to_int64 (sec * 1000000000))"

definition until_reset_at :: "go_time \<Rightarrow> go_time \<Rightarrow> duration" where
  "until_reset_at t now =
     (let secs = wrap64 (t div second - now div second)
      in if secs \<le> 0 then 0 else if secs > max_duration div second then max_duration else secs * second)"

definition parse_retry_after :: "(string \<Rightarrow> go_time option) \<Rightarrow> go_time \<Rightarrow> string \<Rightarrow> duration" where
  "parse_retry_after http_time now raw =
     (if raw = '''' then 0
      else case parse_int raw of
        Some n \<Rightarrow>
          if n \<ge> 0 then cooldown_from_seconds (of_int n)
          else (case http_time raw of Some t \<Rightarrow> until_reset_at t now | None \<Rightarrow> 0)
      | None \<Rightarrow> (case http_time raw of Some t \<Rightarrow> until_reset_at t now | None \<Rightarrow> 0))"

text \<open>The patterns \<^verbatim>\<open>retry\s+after\s+(\d+)\s*s\<close>, \<^verbatim>\<open>(\d+)\s+minutes?\s+limit\<close>,
  \<^verbatim>\<open>(\d+)\s+hours?\<close> and \<^verbatim>\<open>resets?\s+at\s+(\d{4}-\d{2}-\d{2}[tT][\d:.]+[zZ]?)\<close> at one position; each
  answers its group.\<close>

definition drop_opt :: "string \<Rightarrow> string \<Rightarrow> string" where
  "drop_opt lit s = (case eat lit s of Some r \<Rightarrow> r | None \<Rightarrow> s)"

definition rx_retry_after :: "string \<Rightarrow> string option" where
  "rx_retry_after s =
     Option.bind (eat ''retry'' s) (\<lambda>s. Option.bind (eat_spaces s) (\<lambda>s.
     Option.bind (eat ''after'' s) (\<lambda>s. Option.bind (eat_spaces s) (\<lambda>s.
     Option.bind (eat_digits s) (\<lambda>(ds, s).
       if take 1 (dropWhile is_rx_space s) = ''s'' then Some ds else None)))))"

definition rx_minutes_limit :: "string \<Rightarrow> string option" where
  "rx_minutes_limit s =
     Option.bind (eat_digits s) (\<lambda>(ds, s). Option.bind (eat_spaces s) (\<lambda>s.
     Option.bind (eat ''minute'' s) (\<lambda>s. Option.bind (eat_spaces (drop_opt ''s'' s)) (\<lambda>s.
     Option.bind (eat ''limit'' s) (\<lambda>s. Some ds)))))"

definition rx_hours :: "string \<Rightarrow> string option" where
  "rx_hours s =
     Option.bind (eat_digits s) (\<lambda>(ds, s). Option.bind (eat_spaces s) (\<lambda>s.
     Option.bind (eat ''hour'' s) (\<lambda>s. Some ds)))"

definition rx_reset_at :: "string \<Rightarrow> string option" where
  "rx_reset_at s =
     Option.bind (eat ''reset'' s) (\<lambda>s. Option.bind (eat_spaces (drop_opt ''s'' s)) (\<lambda>s.
     Option.bind (eat ''at'' s) (\<lambda>s. Option.bind (eat_spaces s) (\<lambda>s.
       let date = take 10 s;
           r = drop 11 s;
           clock = takeWhile (\<lambda>c. is_digit c \<or> c = CHR '':'' \<or> c = CHR ''.'') r;
           z = take 1 (drop (length clock) r)
       in if length date = 10 \<and> all_digits (take 4 date) \<and> date ! 4 = CHR ''-'' \<and>
             all_digits (take 2 (drop 5 date)) \<and> date ! 7 = CHR ''-'' \<and> all_digits (drop 8 date) \<and>
             take 1 (drop 10 s) \<in> {''t'', ''T''} \<and> clock \<noteq> []
          then Some (date @ take 1 (drop 10 s) @ clock @ (if z = ''z'' \<or> z = ''Z'' then z else []))
          else None))))"

text \<open>\<^verbatim>\<open>time.Duration(n) * unit\<close> is an \<^verbatim>\<open>int64\<close> product.\<close>

definition scaled :: "string option \<Rightarrow> duration \<Rightarrow> duration option" where
  "scaled m unit =
     (case Option.bind m parse_int of
        Some n \<Rightarrow> if n > 0 then Some (wrap64 (n * unit)) else None
      | None \<Rightarrow> None)"

definition parse_retry_after_from_text :: "string \<Rightarrow> duration" where
  "parse_retry_after_from_text t =
     (case scaled (scan rx_retry_after t) second of
        Some d \<Rightarrow> d
      | None \<Rightarrow>
          (case scaled (scan rx_minutes_limit t) minute of
             Some d \<Rightarrow> d
           | None \<Rightarrow> (case scaled (scan rx_hours t) hour of Some d \<Rightarrow> d | None \<Rightarrow> 0)))"

definition parse_reset_at_from_text :: "string \<Rightarrow> go_time" where
  "parse_reset_at_from_text t =
     (case scan rx_reset_at t of
        Some m \<Rightarrow> (case parse_rfc3339 (to_upper m) of Some u \<Rightarrow> u | None \<Rightarrow> zero_time)
      | None \<Rightarrow> zero_time)"

section \<open>The ledger's window and code\<close>

definition rate_limit_window :: "string \<Rightarrow> go_error \<Rightarrow> string" where
  "rate_limit_window body e =
     (let lower = to_lower body
      in if contains lower ''1 minute'' then ''1 minute''
         else if contains lower ''30 minutes'' then ''30 minutes''
         else case e of
           Rate_Limit r \<Rightarrow>
             if \<not> is_zero (rl_reset_at r) then ''reset''
             else if rl_retry_after r > 0 then ''retry-after'' else ''none''
         | Ip_Capped r \<Rightarrow> if ic_retry_after r > 0 then ''retry-after'' else ''none''
         | Capacity_Deferred r \<Rightarrow> if cd_retry_after r > 0 then ''retry-after'' else ''none''
         | _ \<Rightarrow> ''none'')"

definition rate_limit_kind :: "go_error \<Rightarrow> string" where
  "rate_limit_kind e = (case e of Rate_Limit r \<Rightarrow> window_kind (Some r) | _ \<Rightarrow> '''')"

definition body_code :: "string \<Rightarrow> string" where
  "body_code body =
     (case unmarshal_members body of
        None \<Rightarrow> ''''
      | Some ms \<Rightarrow>
          (case (struct_field put_string '''' ms ''error'', struct_field put_string '''' ms ''type'') of
             (Some e, Some t) \<Rightarrow> if e \<noteq> '''' then e else t
           | _ \<Rightarrow> ''''))"

definition rate_limit_code :: "string \<Rightarrow> go_error \<Rightarrow> string" where
  "rate_limit_code body e =
     (if rate_limit_kind e \<noteq> '''' then rate_limit_kind e
      else if body_code body \<noteq> '''' then body_code body
      else case e of
        Capacity_Deferred _ \<Rightarrow> wire_text Capacity_Deferral
      | Ip_Capped _ \<Rightarrow> wire_text Ip_Cap
      | Rate_Limit r \<Rightarrow> if rl_status r \<noteq> '''' then rl_status r else wire_text Rate_Limited
      | _ \<Rightarrow> '''')"

definition rate_limit_family :: "go_error \<Rightarrow> bool" where
  "rate_limit_family e =
     (case e of Rate_Limit _ \<Rightarrow> True | Ip_Capped _ \<Rightarrow> True | Capacity_Deferred _ \<Rightarrow> True | _ \<Rightarrow> False)"

definition rate_limit_info :: "string \<Rightarrow> go_error \<Rightarrow> string \<times> string" where
  "rate_limit_info body e =
     (if \<not> rate_limit_family e then ('''', '''')
      else if rate_limit_code body e = '''' then ('''', '''')
      else (rate_limit_code body e, rate_limit_window body e))"

definition rate_limit_fields :: "go_error \<Rightarrow> duration \<times> go_time" where
  "rate_limit_fields e =
     (case e of
        Rate_Limit r \<Rightarrow> (rl_retry_after r, rl_reset_at r)
      | Ip_Capped r \<Rightarrow> (ic_retry_after r, zero_time)
      | Capacity_Deferred r \<Rightarrow> (cd_retry_after r, zero_time)
      | _ \<Rightarrow> (0, zero_time))"

section \<open>Parsing a refusal body\<close>

text \<open>The object the quota fields are read from: a nested \<^verbatim>\<open>error\<close> object when there is one.\<close>

definition quota_target :: "(string \<times> json) list \<Rightarrow> (string \<times> json) list" where
  "quota_target raw = (case obj_get raw ''error'' of Some (J_Obj ms) \<Rightarrow> ms | _ \<Rightarrow> raw)"

definition body_delay :: "(string \<times> json) list \<Rightarrow> duration \<Rightarrow> duration" where
  "body_delay target header =
     (case get_number target [''retryAfterMs'', ''retry_after_ms''] of
        Some ms \<Rightarrow>
          if ms > 0 then cooldown_from_millis ms
          else (case get_number target [''retryAfter'', ''retry_after''] of
                  Some sec \<Rightarrow> if sec > 0 then cooldown_from_seconds sec else header
                | None \<Rightarrow> header)
      | None \<Rightarrow>
          (case get_number target [''retryAfter'', ''retry_after''] of
             Some sec \<Rightarrow> if sec > 0 then cooldown_from_seconds sec else header
           | None \<Rightarrow> header))"

definition freebucks_shortfall_present :: "json option \<Rightarrow> bool" where
  "freebucks_shortfall_present v =
     (case v of None \<Rightarrow> False | Some J_Null \<Rightarrow> False | Some (J_Bool b) \<Rightarrow> b | Some _ \<Rightarrow> True)"

definition has_freebucks_shortfall :: "(string \<times> json) list \<Rightarrow> bool" where
  "has_freebucks_shortfall target =
     list_ex (\<lambda>k. freebucks_shortfall_present (obj_get target k))
       [''freebucksShortfall'', ''freebucks_shortfall'']"

definition blank_rate_limit :: "string \<Rightarrow> duration \<Rightarrow> rate_limit_error" where
  "blank_rate_limit body ra =
     \<lparr>rl_status = '''', rl_model = '''', rl_retry_after = ra, rl_limit = 0, rl_recent_count = 0,
      rl_reset_at = zero_time, rl_period = '''', rl_window = '''', rl_window_hours = 0,
      rl_freebucks_shortfall = False, rl_body = truncate_text body 200\<rparr>"

text \<open>The fields \<^verbatim>\<open>parseRateLimit\<close> reads from a decoded body.\<close>

definition read_quota_fields :: "(string \<times> json) list \<Rightarrow> rate_limit_error \<Rightarrow> rate_limit_error" where
  "read_quota_fields target r =
     r\<lparr>rl_retry_after := body_delay target (rl_retry_after r),
       rl_reset_at :=
         (case get_time target [''resetAt'', ''reset_at'', ''resets_at'', ''resumes_at'', ''reset''] of
            Some t \<Rightarrow> t | None \<Rightarrow> zero_time),
       rl_window_hours :=
         (case get_number target [''windowHours'', ''window_hours''] of
            Some wh \<Rightarrow> if wh > 0 \<and> wh \<le> 2147483647 then float_to_int64 wh else 0 | None \<Rightarrow> 0),
       rl_freebucks_shortfall := has_freebucks_shortfall target,
       rl_limit := (case get_number target [''limit''] of Some n \<Rightarrow> n | None \<Rightarrow> 0),
       rl_recent_count := (case get_number target [''recentCount'', ''recent_count''] of Some n \<Rightarrow> n | None \<Rightarrow> 0),
       rl_model := (case get_string target ''model'' of Some t \<Rightarrow> t | None \<Rightarrow> ''''),
       rl_status := (case get_string target ''status'' of Some t \<Rightarrow> t | None \<Rightarrow> ''''),
       rl_period := (case get_string target ''period'' of Some t \<Rightarrow> t | None \<Rightarrow> '''')\<rparr>"

definition finish_rate_limit :: "go_time \<Rightarrow> string \<Rightarrow> rate_limit_error \<Rightarrow> rate_limit_error" where
  "finish_rate_limit now body r =
     (let lower = to_lower body;
          r = (if rl_retry_after r \<le> 0 then r\<lparr>rl_retry_after := parse_retry_after_from_text lower\<rparr> else r);
          r = (if is_zero (rl_reset_at r) then r\<lparr>rl_reset_at := parse_reset_at_from_text lower\<rparr> else r);
          r = (if \<not> is_zero (rl_reset_at r) \<and> after (rl_reset_at r) now \<and> rl_retry_after r \<le> 0
               then r\<lparr>rl_retry_after := until_reset_at (rl_reset_at r) now\<rparr> else r)
      in r\<lparr>rl_window := rate_limit_window body (Rate_Limit r)\<rparr>)"

definition parse_rate_limit :: "go_time \<Rightarrow> string \<Rightarrow> duration \<Rightarrow> go_error" where
  "parse_rate_limit now body header =
     (case unmarshal_members body of
        None \<Rightarrow> Rate_Limit (finish_rate_limit now body (blank_rate_limit body header))
      | Some raw \<Rightarrow>
          if get_string raw ''error'' = Some (wire_text Turn_Spend_Limit)
          then Status_Error Err_Turn_Spend_Limited 429 (truncate_text body 200)
          else Rate_Limit (finish_rate_limit now body
                 (read_quota_fields (quota_target raw) (blank_rate_limit body header))))"

definition ban_from_body :: "string \<Rightarrow> ban_error" where
  "ban_from_body body =
     \<lparr>resumes_at =
        (case unmarshal_members body of
           None \<Rightarrow> zero_time
         | Some ms \<Rightarrow>
             if struct_field put_string '''' ms ''status'' = None then zero_time
             else (case parse_flex_time (any_field ms ''resumes_at'') of
                     Some t \<Rightarrow> t | None \<Rightarrow> zero_time)),
      ban_body = truncate_text body 200\<rparr>"

definition parse_ban :: "string \<Rightarrow> go_error" where
  "parse_ban body = Ban (ban_from_body body)"

definition country_block_from_body :: "string \<Rightarrow> country_blocked_error" where
  "country_block_from_body body =
     (let none = \<lparr>country_code = '''', country_block_reason = '''', ip_privacy_signals = []\<rparr>
      in case unmarshal_members body of
        None \<Rightarrow> none
      | Some ms \<Rightarrow>
          (case (struct_field put_string '''' ms ''countryCode'',
                 struct_field put_string '''' ms ''countryBlockReason'',
                 struct_field put_strings [] ms ''ipPrivacySignals'') of
             (Some c, Some r, Some s) \<Rightarrow>
               \<lparr>country_code = c, country_block_reason = r, ip_privacy_signals = s\<rparr>
           | _ \<Rightarrow> none))"

definition parse_country_block :: "string \<Rightarrow> go_error" where
  "parse_country_block body = Country_Blocked (country_block_from_body body)"

definition free_mode_unavailable_from_body :: "int \<Rightarrow> string \<Rightarrow> go_error" where
  "free_mode_unavailable_from_body status body =
     (let none = Free_Mode_Unavailable status '''' '''' '''' [] (truncate_text body 200)
      in case unmarshal_members body of
        None \<Rightarrow> none
      | Some ms \<Rightarrow>
          (case (struct_field put_string '''' ms ''message'',
                 struct_field put_string '''' ms ''countryCode'',
                 struct_field put_string '''' ms ''countryBlockReason'',
                 struct_field put_list [] ms ''ipPrivacySignals'') of
             (Some msg, Some c, Some r, Some vs) \<Rightarrow>
               Free_Mode_Unavailable status msg c r
                 (List.map_filter (\<lambda>v. case v of J_Str t \<Rightarrow> if t \<noteq> '''' then Some t else None | _ \<Rightarrow> None) vs)
                 (truncate_text body 200)
           | _ \<Rightarrow> none))"

definition parse_free_mode_unavailable :: "int \<Rightarrow> string \<Rightarrow> go_error" where
  "parse_free_mode_unavailable status body = free_mode_unavailable_from_body status body"

definition parse_provider_usage :: "int \<Rightarrow> string \<Rightarrow> go_error" where
  "parse_provider_usage status body = Status_Error Err_Provider_Usage status (truncate_text body 200)"

definition put_wallet :: "json \<Rightarrow> rat \<Rightarrow> rat option" where
  "put_wallet v old =
     (case v of J_Obj ms \<Rightarrow> struct_field put_number old ms ''walletSpend'' | J_Null \<Rightarrow> Some old | _ \<Rightarrow> None)"

definition parse_consent_required :: "int \<Rightarrow> string \<Rightarrow> go_error" where
  "parse_consent_required status body =
     Consent_Required status
       (case Option.bind (unmarshal_members body) (\<lambda>ms. struct_field put_wallet 0 ms ''walletConsent'') of
          Some w \<Rightarrow> w | None \<Rightarrow> 0)
       (truncate_text body 200)"

definition parse_first_tab_changed :: "int \<Rightarrow> string \<Rightarrow> go_error" where
  "parse_first_tab_changed status body = Status_Error Err_First_Tab_Changed status (truncate_text body 200)"

definition parse_ip_capped :: "string \<Rightarrow> duration \<Rightarrow> go_error" where
  "parse_ip_capped body header =
     (let target = (case unmarshal_members body of None \<Rightarrow> [] | Some raw \<Rightarrow> quota_target raw);
          ra = body_delay target header
      in Ip_Capped
        \<lparr>active_users_for_ip =
           (case get_number target [''activeUsersForIp'', ''active_users_for_ip''] of
              Some n \<Rightarrow> float_to_int64 n | None \<Rightarrow> 0),
         ip_limit = (case get_number target [''limit''] of Some n \<Rightarrow> n | None \<Rightarrow> 0),
         ic_retry_after = (if ra \<le> 0 then minute else ra),
         ic_body = truncate_text body 200\<rparr>)"

text \<open>The pattern \<^verbatim>\<open>no endpoints found for\s+([^\s"']+)\<close>.\<close>

definition rx_no_endpoints :: "string \<Rightarrow> string option" where
  "rx_no_endpoints s =
     Option.bind (eat ''no endpoints found for'' s) (\<lambda>s. Option.bind (eat_spaces s) (\<lambda>s.
       let m = takeWhile (\<lambda>c. \<not> is_rx_space c \<and> code c \<noteq> 34 \<and> code c \<noteq> 39) s
       in if m = [] then None else Some m))"

definition parse_no_endpoints :: "int \<Rightarrow> string \<Rightarrow> go_error" where
  "parse_no_endpoints status body =
     No_Endpoints status
       (case scan rx_no_endpoints (to_lower body) of Some m \<Rightarrow> trim_right m ''.,;:'' | None \<Rightarrow> '''')
       (truncate_text body 500)"

text \<open>\<^verbatim>\<open>reProviderUsageBill\<close>: a phrase between word boundaries.\<close>

definition credit_end :: "string \<Rightarrow> bool" where
  "credit_end s =
     (case eat ''credit'' s of
        None \<Rightarrow> False
      | Some r \<Rightarrow> (case drop_opt ''s'' r of [] \<Rightarrow> True | c # _ \<Rightarrow> \<not> is_word c))"

definition spaced :: "(string \<Rightarrow> bool) \<Rightarrow> string \<Rightarrow> string \<Rightarrow> bool" where
  "spaced k w s = (case Option.bind (eat w s) eat_spaces of None \<Rightarrow> False | Some r \<Rightarrow> k r)"

definition provider_phrase :: "string \<Rightarrow> bool" where
  "provider_phrase s \<longleftrightarrow>
     list_ex (\<lambda>w. spaced credit_end w s) [''not enough'', ''insufficient'', ''out of''] \<or>
     list_ex (\<lambda>w. spaced (\<lambda>r. spaced credit_end ''more'' r \<or> credit_end r) w s) [''add'', ''refill'', ''top up'']"

fun provider_usage_bill :: "bool \<Rightarrow> string \<Rightarrow> bool" where
  "provider_usage_bill in_word [] \<longleftrightarrow> False"
| "provider_usage_bill in_word (c # cs) \<longleftrightarrow>
     (\<not> in_word \<and> provider_phrase (c # cs)) \<or> provider_usage_bill (is_word c) cs"

section \<open>The recovery matrix\<close>

definition ban_marker :: "string \<Rightarrow> bool" where
  "ban_marker lower \<longleftrightarrow> contains lower (quoted ''status'' @ '':'' @ quoted ''banned'')"

definition suspended_marker :: "string \<Rightarrow> bool" where
  "suspended_marker lower \<longleftrightarrow>
     contains lower (quoted ''error'' @ '':'' @ quoted (wire_text Account_Suspended))"

definition status_marker :: "string \<Rightarrow> wire_code \<Rightarrow> bool" where
  "status_marker lower c \<longleftrightarrow> contains lower (quoted ''status'' @ '':'' @ quoted (wire_text c))"

definition bare_rate_limit :: "wire_code \<Rightarrow> string \<Rightarrow> duration \<Rightarrow> go_error" where
  "bare_rate_limit c body ra = Rate_Limit ((blank_rate_limit body ra)\<lparr>rl_status := wire_text c\<rparr>)"

definition waiting_room_refusal :: "string \<Rightarrow> duration \<Rightarrow> go_error" where
  "waiting_room_refusal body ra =
     Waiting_Room \<lparr>wr_position = 0, wr_queue_depth = 0, wr_retry_after = ra, wr_detail = truncate_text body 200\<rparr>"

definition upstream_refusal :: "int \<Rightarrow> string \<Rightarrow> duration \<Rightarrow> bool \<Rightarrow> go_error" where
  "upstream_refusal status body ra retryable =
     Upstream \<lparr>ue_status = status, ue_body = truncate_text body 500, ue_retry_after = ra, ue_retryable = retryable\<rparr>"

definition sentinel_refusal :: "sentinel \<Rightarrow> string \<Rightarrow> go_error" where
  "sentinel_refusal s body = Wrapped (truncate_text body 200) (Sentinel s)"

definition session_invalid_codes :: "wire_code list" where
  "session_invalid_codes =
     [Update_Required, Session_Expired, Session_Model_Mismatch, Model_Locked, Legacy_Luna_Agent, Legacy_Luna]"

definition classify_error ::
  "(string \<Rightarrow> go_time option) \<Rightarrow> go_time \<Rightarrow> int \<Rightarrow> string \<Rightarrow> string \<Rightarrow> go_error" where
  "classify_error http_time now status body header =
     (let lower = to_lower body;
          ra = parse_retry_after http_time now header;
          has = (\<lambda>c. contains lower (wire_text c))
      in if status = 403 \<and> ban_marker lower then parse_ban body
         else if status = 403 \<and> suspended_marker lower then parse_ban body
         else if has Deployment_Outside_Hours then upstream_refusal status body ra True
         else if has Run_Fanout then bare_rate_limit Run_Fanout body ra
         else if has Capacity_Deferral then
           Capacity_Deferred \<lparr>cd_status = status, cd_retry_after = ra, cd_body = truncate_text body 500\<rparr>
         else if has Turn_Spend_Limit then Status_Error Err_Turn_Spend_Limited status (truncate_text body 200)
         else if (status = 402 \<or> status = 401) \<and> provider_usage_bill False lower
           then parse_provider_usage status body
         else if status = 401 then sentinel_refusal Err_Auth_Rejected body
         else if status = 503 then waiting_room_refusal body ra
         else if status = 402 then Status_Error Err_Credits status (truncate_text body 200)
         else if status = 404 \<and> contains lower ''no endpoints'' then parse_no_endpoints status body
         else if status = 409 \<and> has Session_Limit_Reached
           then Status_Error Err_Session_Limit_Reached status (truncate_text body 200)
         else if status = 409 \<and> status_marker lower Consent_Requirement then parse_consent_required status body
         else if status = 409 \<and> status_marker lower First_Tab_Discount_Changed
           then parse_first_tab_changed status body
         else if status = 403 \<and> has CLI_Required then sentinel_refusal Err_Free_Mode_CLI_Required body
         else if status = 403 \<and> has Free_Mode_Unavailability then parse_free_mode_unavailable status body
         else if status = 403 \<and> has Invalid_Agent_Hierarchy
           then sentinel_refusal Err_Free_Mode_Invalid_Agent_Hierarchy body
         else if status = 403 \<and> has Cost_Mode_Required
           then sentinel_refusal Err_Free_Mode_Cost_Mode_Required body
         else if status = 403 \<and> has Country_Blocking then parse_country_block body
         else if has Ip_Cap then parse_ip_capped body ra
         else if has Waiting_Room_Queued then waiting_room_refusal body ra
         else if has Waiting_Room_Requirement then Waiting_Room_Required ra (truncate_text body 200)
         else if has Session_Model_Mismatch \<and> contains lower ''limited'' then
           Limited_Ip \<lparr>li_model = '''', li_retry_after = ra, li_body = truncate_text body 200\<rparr>
         else if has Invalid_Agent_Model then bare_rate_limit Invalid_Agent_Model body ra
         else if has Session_Superseded
           then Status_Error Err_Session_Superseded status (truncate_text body 200)
         else if has_code lower session_invalid_codes then sentinel_refusal Err_Session_Invalid body
         else if status = 400 \<and> has_code lower [Run_Id_Not_Found, Run_Id_Not_Running]
           then sentinel_refusal Err_Run_Invalid body
         else if status = 429 \<and> has_code lower [Insufficient_Quota, Limit_Burst_Rate]
           then bare_rate_limit Load_Shedding body ra
         else if status = 429 \<and> has_code lower [Peak_Hours, Peak_Hours_Status]
           then bare_rate_limit Peak_Hours_Status body ra
         else if status = 429 \<or> has_code lower [Rate_Limited, Spend_Limited]
           then parse_rate_limit now body ra
         else upstream_refusal status body ra False)"

definition err_class_name :: "go_error option \<Rightarrow> string" where
  "err_class_name e =
     (case e of
        None \<Rightarrow> ''''
      | Some (Rate_Limit _) \<Rightarrow> ''RateLimitError''
      | Some (Ip_Capped _) \<Rightarrow> ''IpCappedError''
      | Some (Ban _) \<Rightarrow> ''BanError''
      | Some (Country_Blocked _) \<Rightarrow> ''CountryBlockedError''
      | Some (Status_Error Err_Credits _ _) \<Rightarrow> ''CreditsError''
      | Some (Status_Error Err_Session_Limit_Reached _ _) \<Rightarrow> ''SessionLimitError''
      | Some (Limited_Ip _) \<Rightarrow> ''LimitedIpError''
      | Some (Status_Error Err_Session_Superseded _ _) \<Rightarrow> ''SessionSupersededError''
      | Some (Capacity_Deferred _) \<Rightarrow> ''CapacityDeferredError''
      | Some (Waiting_Room _) \<Rightarrow> ''WaitingRoomError''
      | Some (Waiting_Room_Required _ _) \<Rightarrow> ''WaitingRoomRequiredError''
      | Some (No_Endpoints _ _ _) \<Rightarrow> ''NoEndpointsError''
      | Some _ \<Rightarrow> ''UpstreamError'')"

section \<open>Transient refusals\<close>

definition as_capacity_deferred :: "go_error \<Rightarrow> capacity_deferred_error option" where
  "as_capacity_deferred e =
     first_some (\<lambda>n. case n of Capacity_Deferred c \<Rightarrow> Some c | _ \<Rightarrow> None) (error_chain e)"

definition is_capacity_deferred :: "go_error \<Rightarrow> bool" where
  "is_capacity_deferred e \<longleftrightarrow> as_capacity_deferred e \<noteq> None"

definition is_waiting_room :: "go_error \<Rightarrow> bool" where
  "is_waiting_room e \<longleftrightarrow> as_waiting_room e \<noteq> None"

definition queue_retry_after :: "go_error \<Rightarrow> duration" where
  "queue_retry_after e =
     (case as_capacity_deferred e of
        Some c \<Rightarrow>
          if cd_retry_after c > 0 then cd_retry_after c
          else (case as_waiting_room e of
                  Some w \<Rightarrow> if wr_retry_after w > 0 then wr_retry_after w else 0 | None \<Rightarrow> 0)
      | None \<Rightarrow>
          (case as_waiting_room e of
             Some w \<Rightarrow> if wr_retry_after w > 0 then wr_retry_after w else 0 | None \<Rightarrow> 0))"

section \<open>The client's ledger\<close>

record client_state =
  waiting_room_required :: bool
  rate_limit_events :: "string \<rightharpoonup> int"

definition new_client_state :: client_state where
  "new_client_state = \<lparr>waiting_room_required = False, rate_limit_events = Map.empty\<rparr>"

definition count_rate_limit_event :: "string \<Rightarrow> client_state \<Rightarrow> client_state" where
  "count_rate_limit_event lc c =
     c\<lparr>rate_limit_events :=
         (rate_limit_events c)(lc \<mapsto>
           (case rate_limit_events c lc of None \<Rightarrow> 0 | Some n \<Rightarrow> n) + 1)\<rparr>"

record response =
  resp_status :: int
  resp_body :: string
  resp_retry_after :: string
  resp_at :: go_time

definition classify ::
  "(string \<Rightarrow> go_time option) \<Rightarrow> response \<Rightarrow> client_state \<Rightarrow> go_error \<times> client_state" where
  "classify http_time r c =
     (let e = classify_error http_time (resp_at r) (resp_status r) (resp_body r) (resp_retry_after r);
          c1 = (if errors_is e Err_Waiting_Room_Required then c\<lparr>waiting_room_required := True\<rparr> else c);
          lc = fst (rate_limit_info (resp_body r) e)
      in (e, if lc \<noteq> '''' then count_rate_limit_event lc c1 else c1))"

end
