(* ===== verification/Classify_Properties.thy ===== *)
theory Classify_Properties
  imports Classify
begin

text \<open>
  What the recovery matrix guarantees: which refusals ban an account, which ones end a session,
  in which range the delays lie, and what the per-code ledger counts.
\<close>

section \<open>The class of every refusal the matrix builds\<close>

named_theorems refusal_class

lemma concrete_class [refusal_class]:
  "errors_is (Ban b) t \<longleftrightarrow> t = Err_Banned"
  "errors_is (Rate_Limit r) t \<longleftrightarrow> t = Err_Rate_Limited"
  "errors_is (Status_Error s st bd) t \<longleftrightarrow> t = s"
  "errors_is (Sentinel s) t \<longleftrightarrow> t = s"
  "errors_is (Upstream u) t \<longleftrightarrow> False"
  "errors_is (Waiting_Room w) t \<longleftrightarrow> t = Err_Waiting_Room"
  "errors_is (Waiting_Room_Required ra d) t \<longleftrightarrow> t = Err_Waiting_Room_Required"
  "errors_is (No_Endpoints st mo bd) t \<longleftrightarrow> t = Err_No_Endpoints"
  "errors_is (Country_Blocked cb) t \<longleftrightarrow> t = Err_Country_Blocked"
  "errors_is (Capacity_Deferred cd) t \<longleftrightarrow> t = Err_Capacity_Deferred"
  "errors_is (Ip_Capped ic) t \<longleftrightarrow> t = Err_Ip_Capped"
  "errors_is (Limited_Ip li) t \<longleftrightarrow> t = Err_Model_IP_Limited"
  "errors_is (Free_Mode_Unavailable st msg c re sg bd) t \<longleftrightarrow> t = Err_Free_Mode_Unavailable"
  "errors_is (Consent_Required st wa bd) t \<longleftrightarrow> t = Err_Consent_Required"
  by (auto simp: errors_is_def matches_def)

lemma concrete_views [refusal_class]:
  "as_ban (Ban b) = Some b" "as_ban (Rate_Limit r) = None" "as_ban (Status_Error s st bd) = None"
  "as_ban (Sentinel s) = None" "as_ban (Upstream u) = None" "as_ban (Waiting_Room w) = None"
  "as_ban (Waiting_Room_Required ra d) = None" "as_ban (No_Endpoints st mo bd) = None"
  "as_ban (Country_Blocked cb) = None" "as_ban (Capacity_Deferred cd) = None"
  "as_ban (Ip_Capped ic) = None" "as_ban (Limited_Ip li) = None"
  "as_ban (Free_Mode_Unavailable st msg c re sg bd) = None" "as_ban (Consent_Required st wa bd) = None"
  "as_rate_limit (Rate_Limit r) = Some r" "as_rate_limit (Ban b) = None"
  "as_rate_limit (Status_Error s st bd) = None" "as_rate_limit (Sentinel s) = None"
  "as_rate_limit (Upstream u) = None" "as_rate_limit (Waiting_Room w) = None"
  "as_rate_limit (Waiting_Room_Required ra d) = None" "as_rate_limit (No_Endpoints st mo bd) = None"
  "as_rate_limit (Country_Blocked cb) = None" "as_rate_limit (Capacity_Deferred cd) = None"
  "as_rate_limit (Ip_Capped ic) = None" "as_rate_limit (Limited_Ip li) = None"
  "as_rate_limit (Free_Mode_Unavailable st msg c re sg bd) = None"
  "as_rate_limit (Consent_Required st wa bd) = None"
  by (simp_all add: errors_as_defs)

lemma free_mode_class [refusal_class]:
  "errors_is (free_mode_unavailable_from_body st body) t \<longleftrightarrow> t = Err_Free_Mode_Unavailable"
  "as_ban (free_mode_unavailable_from_body st body) = None"
  "as_rate_limit (free_mode_unavailable_from_body st body) = None"
  by (auto simp: free_mode_unavailable_from_body_def Let_def refusal_class split: option.split)

lemma ip_capped_class [refusal_class]:
  "errors_is (parse_ip_capped body ra) t \<longleftrightarrow> t = Err_Ip_Capped"
  "as_ban (parse_ip_capped body ra) = None"
  "as_rate_limit (parse_ip_capped body ra) = None"
  by (simp_all add: parse_ip_capped_def Let_def refusal_class)

lemma rate_limit_class [refusal_class]:
  "errors_is (parse_rate_limit now body ra) t \<Longrightarrow> t = Err_Rate_Limited \<or> t = Err_Turn_Spend_Limited"
  "as_ban (parse_rate_limit now body ra) = None"
  by (auto simp: parse_rate_limit_def refusal_class split: option.splits if_splits)

lemmas refusal_makers [refusal_class] = parse_ban_def parse_provider_usage_def parse_consent_required_def
  parse_first_tab_changed_def parse_no_endpoints_def parse_country_block_def
  parse_free_mode_unavailable_def bare_rate_limit_def waiting_room_refusal_def upstream_refusal_def
  sentinel_refusal_def

text \<open>A property of \<open>classify_error\<close> follows arm by arm.\<close>

abbreviation has_marker :: "string \<Rightarrow> wire_code \<Rightarrow> bool" where
  "has_marker body c \<equiv> contains (to_lower body) (wire_text c)"

lemma classify_ban:
  "as_ban (classify_error ht now st body hdr) =
     (if st = 403 \<and> (ban_marker (to_lower body) \<or> suspended_marker (to_lower body))
      then Some (ban_from_body body) else None)"
  unfolding classify_error_def Let_def
  by (simp add: refusal_class del: wire_text.simps)

text \<open>The views distribute over the arms, so a question about the matrix is one about its guards.\<close>

lemma refusal_if:
  "errors_is (if c then d else e) t \<longleftrightarrow> (if c then errors_is d t else errors_is e t)"
  "as_rate_limit (if c then d else e) = (if c then as_rate_limit d else as_rate_limit e)"
  by simp_all

lemma rate_limit_other_class [refusal_class]:
  "errors_is (parse_rate_limit now body ra) Err_Session_Invalid \<longleftrightarrow> False"
  "errors_is (parse_rate_limit now body ra) Err_Run_Invalid \<longleftrightarrow> False"
  "errors_is (parse_rate_limit now body ra) Err_Auth_Rejected \<longleftrightarrow> False"
  "errors_is (parse_rate_limit now body ra) Err_Waiting_Room_Required \<longleftrightarrow> False"
  by (auto dest: rate_limit_class(1))

definition gate_codes :: "wire_code list" where
  "gate_codes =
     [Deployment_Outside_Hours, Run_Fanout, Capacity_Deferral, Turn_Spend_Limit, Ip_Cap,
      Waiting_Room_Queued, Waiting_Room_Requirement, Invalid_Agent_Model, Session_Superseded]"

lemma classify_session_invalid:
  "errors_is (classify_error ht now st body hdr) Err_Session_Invalid \<Longrightarrow>
     has_code (to_lower body) session_invalid_codes \<and> \<not> has_code (to_lower body) gate_codes \<and>
     st \<notin> {401, 402, 503}"
  unfolding classify_error_def Let_def refusal_if
  by (simp add: refusal_class has_code_def contains_any_def gate_codes_def
      del: wire_text.simps split: if_split_asm)

lemma classify_banned:
  "errors_is (classify_error ht now st body hdr) Err_Banned \<longleftrightarrow>
     st = 403 \<and> (ban_marker (to_lower body) \<or> suspended_marker (to_lower body))"
proof
  assume b: "errors_is (classify_error ht now st body hdr) Err_Banned"
  have no: "\<not> errors_is (parse_rate_limit now body ra) Err_Banned" for ra
    by (auto dest: rate_limit_class(1))
  show "st = 403 \<and> (ban_marker (to_lower body) \<or> suspended_marker (to_lower body))"
    using b no unfolding classify_error_def Let_def refusal_if
    by (simp add: refusal_class del: wire_text.simps split: if_split_asm)
qed (auto simp: classify_error_def Let_def parse_ban_def refusal_class)

lemma turn_spend_terminal:
  "has_marker body Turn_Spend_Limit \<Longrightarrow>
   \<not> has_code (to_lower body) [Deployment_Outside_Hours, Run_Fanout, Capacity_Deferral] \<Longrightarrow>
   \<not> (st = 403 \<and> (ban_marker (to_lower body) \<or> suspended_marker (to_lower body))) \<Longrightarrow>
     classify_error ht now st body hdr = Status_Error Err_Turn_Spend_Limited st (truncate_text body 200)"
  by (auto simp: classify_error_def has_code_def contains_any_def Let_def simp del: wire_text.simps)

section \<open>Delays\<close>


















section \<open>The ledger\<close>

definition response_error :: "(string \<Rightarrow> go_time option) \<Rightarrow> response \<Rightarrow> go_error" where
  "response_error ht r = classify_error ht (resp_at r) (resp_status r) (resp_body r) (resp_retry_after r)"

definition ledger_code :: "(string \<Rightarrow> go_time option) \<Rightarrow> response \<Rightarrow> string" where
  "ledger_code ht r = fst (rate_limit_info (resp_body r) (response_error ht r))"

definition classify_all ::
  "(string \<Rightarrow> go_time option) \<Rightarrow> response list \<Rightarrow> client_state \<Rightarrow> client_state" where
  "classify_all ht rs c = foldl (\<lambda>c r. snd (classify ht r c)) c rs"

lemma ledger_code_family: "ledger_code ht r \<noteq> '''' \<longleftrightarrow> rate_limit_family (response_error ht r)"
  by (auto simp: ledger_code_def rate_limit_info_def rate_limit_code_def rate_limit_family_def
      split: go_error.splits)

lemma classify_step:
  "snd (classify ht r c) =
     (let c1 = (if errors_is (response_error ht r) Err_Waiting_Room_Required
                then c\<lparr>waiting_room_required := True\<rparr> else c)
      in if ledger_code ht r \<noteq> '''' then count_rate_limit_event (ledger_code ht r) c1 else c1)"
  by (simp add: classify_def response_error_def ledger_code_def Let_def)

lemma classify_all_snoc [simp]:
  "classify_all ht (rs @ [r]) c = snd (classify ht r (classify_all ht rs c))"
  by (simp add: classify_all_def)

lemma classify_all_Nil [simp]: "classify_all ht [] c = c"
  by (simp add: classify_all_def)

lemma ledger_flag:
  "waiting_room_required (classify_all ht rs new_client_state) \<longleftrightarrow>
     (\<exists>r\<in>set rs. errors_is (response_error ht r) Err_Waiting_Room_Required)"
  by (induction rs rule: rev_induct)
    (auto simp: new_client_state_def classify_step Let_def count_rate_limit_event_def)

lemma ledger_counts:
  "rate_limit_events (classify_all ht rs new_client_state) lc =
     (if lc = '''' \<or> count_if (\<lambda>r. ledger_code ht r = lc) rs = 0 then None
      else Some (count_if (\<lambda>r. ledger_code ht r = lc) rs))"
proof (induction rs rule: rev_induct)
  case (snoc r rs)
  have "count_if (\<lambda>r. ledger_code ht r = lc) rs + 1 \<noteq> 0"
    using count_if_nonneg[of "\<lambda>r. ledger_code ht r = lc" rs] by linarith
  with snoc show ?case
    by (auto simp: classify_step Let_def count_rate_limit_event_def)
qed (simp add: new_client_state_def)

section \<open>Properties\<close>

text \<open>A refusal is a ban exactly when its status is 403 and its body has one of the two exact
  markers, whatever other codes the body carries; and an account banned by a body that names no
  time stays banned at every later clock reading once the ban is parked.\<close>

lemma ban_exactly_marked:
  assumes "case unmarshal_members body of None \<Rightarrow> True | Some ms \<Rightarrow> any_field ms ''resumes_at'' = J_Null"
  shows "(errors_is (classify_error ht now st body hdr) Err_Banned \<longleftrightarrow>
      st = 403 \<and> (ban_marker (to_lower body) \<or> suspended_marker (to_lower body))) \<and>
    as_ban (classify_error ht now st body hdr) =
      (if st = 403 \<and> (ban_marker (to_lower body) \<or> suspended_marker (to_lower body))
       then Some (ban_from_body body) else None) \<and>
    ban_live t (cooldown_ban now (Some (ban_from_body body)) s) = Some (ban_from_body body)"
proof -
  have "resumes_at (ban_from_body body) = zero_time"
    using assms by (auto simp: ban_from_body_def parse_flex_time_def split: option.splits)
  then have "ban_live t (cooldown_ban now (Some (ban_from_body body)) s) = Some (ban_from_body body)"
    by (simp add: cooldown_ban_def ban_live_def)
  then show ?thesis by (simp add: classify_banned classify_ban)
qed

definition suspended_body :: string where
  "suspended_body = ''{'' @ quoted ''error'' @ '':'' @ quoted ''account_suspended'' @ ''}''"

lemma ban_exactly_marked_witness:
  "errors_is (classify_error (\<lambda>_. None) 5 403 suspended_body '''') Err_Banned \<and>
   ban_live 99 (cooldown_ban 5 (Some (ban_from_body suspended_body)) no_cooldown) \<noteq> None"
proof -
  have "unmarshal_members suspended_body = Some [(''error'', J_Str ''account_suspended'')]"
    "suspended_marker (to_lower suspended_body)"
    by code_simp+
  then show ?thesis
    using ban_exactly_marked[of suspended_body "\<lambda>_. None" 5 403 "''''" 99 no_cooldown]
    by (simp add: any_field_def lower_ascii_def)
qed

text \<open>A gate refusal never ends a session: a body with one of the gate codes, or a 401, 402 or
  503, is not a session-invalid error, and an error that is one has a session-invalid code in its
  body. A turn stopped by its spend limit is terminal on every status, with no delay to wait out.\<close>

lemma gates_keep_session:
  fixes body :: string
  defines "lower \<equiv> to_lower body"
  assumes "has_code lower gate_codes \<or> st \<in> {401, 402, 503} \<or> \<not> has_code lower session_invalid_codes"
  shows "\<not> errors_is (classify_error ht now st body hdr) Err_Session_Invalid \<and>
    (contains lower (wire_text Turn_Spend_Limit) \<and>
     \<not> has_code lower [Deployment_Outside_Hours, Run_Fanout, Capacity_Deferral] \<and>
     \<not> (st = 403 \<and> (ban_marker lower \<or> suspended_marker lower)) \<longrightarrow>
       errors_is (classify_error ht now st body hdr) Err_Turn_Spend_Limited \<and>
       as_rate_limit (classify_error ht now st body hdr) = None \<and>
       queue_retry_after (classify_error ht now st body hdr) = 0)"
proof -
  have "\<not> errors_is (classify_error ht now st body hdr) Err_Session_Invalid"
    using assms(2) classify_session_invalid unfolding lower_def by blast
  then show ?thesis
    using turn_spend_terminal[of body st ht now hdr] unfolding lower_def
    by (auto simp: refusal_class queue_retry_after_def as_capacity_deferred_def as_waiting_room_def)
qed

lemma gates_keep_session_witness:
  "\<not> errors_is (classify_error (\<lambda>_. None) 5 429 ''turn_spend_limit session_expired'' '''') Err_Session_Invalid"
proof -
  have "has_code (to_lower ''turn_spend_limit session_expired'') gate_codes" by code_simp
  then show ?thesis
    using gates_keep_session[of "''turn_spend_limit session_expired''" 429 "\<lambda>_. None" 5 "''''"] by simp
qed




text \<open>After any responses the client's ledger holds, for every code, the number of rate-limit
  refusals recorded under it, a response is recorded exactly when it is such a refusal, and the
  waiting-room flag is up exactly when some response demanded the chain.\<close>

lemma ledger_counts_refusals:
  "rate_limit_events (classify_all ht rs new_client_state) lc =
     (let n = count_if (\<lambda>r. rate_limit_family (response_error ht r) \<and> ledger_code ht r = lc) rs
      in if n = 0 then None else Some n) \<and>
   (waiting_room_required (classify_all ht rs new_client_state) \<longleftrightarrow>
     (\<exists>r\<in>set rs. errors_is (response_error ht r) Err_Waiting_Room_Required))"
proof (cases "lc = ''''")
  case True
  have "count_if (\<lambda>r. rate_limit_family (response_error ht r) \<and> ledger_code ht r = '''') rs = 0"
    by (auto simp: count_if_def ledger_code_family[symmetric])
  with True show ?thesis by (simp add: ledger_flag ledger_counts)
next
  case False
  have "count_if (\<lambda>r. rate_limit_family (response_error ht r) \<and> ledger_code ht r = lc) rs =
      count_if (\<lambda>r. ledger_code ht r = lc) rs"
    using False ledger_code_family[of ht]
    by (auto simp: count_if_def intro!: arg_cong[of _ _ length] filter_cong)
  with False show ?thesis by (simp add: ledger_flag ledger_counts)
qed

end
