(* ===== verification/Freebucks.thy ===== *)
theory Freebucks
  imports Go_Text Pacific Wire_Errors
begin

text \<open>
  The Freebucks allowance and the gate it decides: \<^verbatim>\<open>backend/internal/pool/quota.go\<close> and
  \<^verbatim>\<open>quotaerr.go\<close>, the allowance block of \<^verbatim>\<open>upstream/session_types_freebucks.go\<close>, and the
  fields of \<^verbatim>\<open>session.SessionSnapshot\<close> the gates read. Amounts are rationals. Absent
  \<^verbatim>\<open>PriceNotices\<close> read as the empty string, as a Go map does. The arguments are the premium test
  of the generated model catalog (\<open>premium\<close>), the \<^verbatim>\<open>%g\<close> rendering of an amount (\<open>fmt_g\<close>) and the
  zone (\<open>tz\<close>); the clock is read once.
\<close>

section \<open>The allowance block\<close>

record freebucks_window =
  fw_limit :: rat
  fw_spent :: rat
  fw_remaining :: rat
  fw_reset_at :: go_time

record freebucks_wallet =
  wallet_balance :: rat
  monthly_bonus :: rat
  next_bonus_at :: go_time

record monthly_allowance =
  ma_limit_usd :: rat
  ma_spent_usd :: rat
  ma_remaining_usd :: rat
  ma_reset_at :: go_time

record price_change =
  pc_at :: string
  pc_model :: string
  pc_price :: rat
  pc_tagline :: string

record off_peak_price =
  start_hour_utc :: int
  end_hour_utc :: int
  op_price :: rat
  op_regular :: rat

record first_tab_discount =
  ft_amount :: rat
  ft_available :: bool

record freebucks_info =
  fb_balance :: rat
  fb_daily :: freebucks_window
  fb_wallet :: freebucks_wallet
  fb_monthly :: "monthly_allowance option"
  quota_exempt :: bool
  prices :: "string \<rightharpoonup> rat"
  price_notices :: "string \<Rightarrow> string"
  price_changes :: "price_change list"
  claimable_grant :: rat
  first_tab :: "first_tab_discount option"
  off_peak :: "string \<rightharpoonup> off_peak_price"

definition spendable :: "freebucks_info option \<Rightarrow> rat" where
  "spendable fb = (case fb of None \<Rightarrow> 0 | Some f \<Rightarrow> fb_balance f + claimable_grant f)"

definition discounted_session_price :: "rat \<Rightarrow> rat \<Rightarrow> rat" where
  "discounted_session_price price discount = (if price - discount > 0 then price - discount else 0)"

definition active_discount :: "freebucks_info \<Rightarrow> rat" where
  "active_discount f = (case first_tab f of Some d \<Rightarrow> if ft_available d then ft_amount d else 0 | None \<Rightarrow> 0)"

text \<open>A change is due when its time parses and is not in the future.\<close>

definition change_time :: "price_change \<Rightarrow> go_time" where
  "change_time c = (case parse_rfc3339 (pc_at c) of Some t \<Rightarrow> t | None \<Rightarrow> zero_time)"

definition due :: "go_time \<Rightarrow> price_change \<Rightarrow> bool" where
  "due now c = (case parse_rfc3339 (pc_at c) of Some t \<Rightarrow> \<not> after t now | None \<Rightarrow> False)"

text \<open>\<open>ApplyFreebucksPriceChanges\<close> sorts with \<^verbatim>\<open>sort.Slice\<close>, which is not stable: \<open>arrange\<close> is any
  sort by time.\<close>

definition apply_change :: "price_change \<Rightarrow> freebucks_info \<Rightarrow> freebucks_info" where
  "apply_change c f =
     (if prices f (pc_model c) = None then f
      else f\<lparr>prices := (prices f)(pc_model c \<mapsto> discounted_session_price (pc_price c) (active_discount f)),
             price_notices := (price_notices f)(pc_model c := pc_tagline c)\<rparr>)"

definition apply_price_changes ::
  "(price_change list \<Rightarrow> price_change list) \<Rightarrow> go_time \<Rightarrow> freebucks_info \<Rightarrow> freebucks_info" where
  "apply_price_changes arrange now f =
     (let ready = filter (due now) (price_changes f);
          pending = filter (\<lambda>c. \<not> due now c) (price_changes f)
      in if ready = [] then f
         else (fold apply_change (arrange ready) f)\<lparr>price_changes := pending\<rparr>)"

section \<open>The quote at read time\<close>

definition off_peak_quote_at ::
  "(rat \<Rightarrow> string) \<Rightarrow> off_peak_price \<Rightarrow> go_time \<Rightarrow> rat \<times> string" where
  "off_peak_quote_at fmt_g offer now =
     (let start0 = utc_day now * (24 * hour) + start_hour_utc offer * hour;
          start = (if after start0 now then start0 - 24 * hour else start0);
          end0 = utc_day start * (24 * hour) + end_hour_utc offer * hour;
          stop = (if \<not> after end0 start then end0 + 24 * hour else end0);
          dot = [byte 194, byte 183]
      in if before now stop
         then (op_price offer, ''Off-peak pricing '' @ dot @ '' '' @ fmt_g (op_regular offer) @ '' Freebucks/hour at peak'')
         else (op_regular offer, ''Peak pricing '' @ dot @ '' '' @ fmt_g (op_price offer) @ '' Freebucks/hour off-peak''))"

text \<open>The adjustments of a quote: due changes in the order of their times, then the off-peak policy,
  for models on the meter only.\<close>

definition adjust ::
  "freebucks_info \<Rightarrow> string \<Rightarrow> rat \<Rightarrow> string \<Rightarrow> (string \<rightharpoonup> rat \<times> string) \<Rightarrow> string \<rightharpoonup> rat \<times> string" where
  "adjust f model raw tagline adj =
     (if prices f model = None then adj
      else adj(model \<mapsto> (discounted_session_price raw (active_discount f), tagline)))"

definition scheduled_adjustments :: "go_time \<Rightarrow> freebucks_info \<Rightarrow> string \<rightharpoonup> rat \<times> string" where
  "scheduled_adjustments now f =
     fold (\<lambda>c. adjust f (pc_model c) (pc_price c) (pc_tagline c))
       (sort_key change_time (filter (due now) (price_changes f))) Map.empty"

definition final_adjustments ::
  "(rat \<Rightarrow> string) \<Rightarrow> go_time \<Rightarrow> freebucks_info \<Rightarrow> string \<rightharpoonup> rat \<times> string" where
  "final_adjustments fmt_g now f model =
     (case off_peak f model of
        Some offer \<Rightarrow>
          (case off_peak_quote_at fmt_g offer now of
             (raw, tagline) \<Rightarrow> adjust f model raw tagline (scheduled_adjustments now f) model)
      | None \<Rightarrow> scheduled_adjustments now f model)"

definition effective_prices ::
  "(rat \<Rightarrow> string) \<Rightarrow> freebucks_info option \<Rightarrow> go_time \<Rightarrow> (string \<rightharpoonup> rat) \<times> (string \<Rightarrow> string)" where
  "effective_prices fmt_g fb now =
     (case fb of
        None \<Rightarrow> (Map.empty, (\<lambda>_. ''''))
      | Some f \<Rightarrow>
          let adj = final_adjustments fmt_g now f
          in ((\<lambda>m. case adj m of Some (p, _) \<Rightarrow> Some p | None \<Rightarrow> prices f m),
              (\<lambda>m. case adj m of Some (_, t) \<Rightarrow> t | None \<Rightarrow> price_notices f m)))"

section \<open>The session snapshot and the cap\<close>

record session_snapshot =
  ss_status :: string
  ss_instance :: string
  ss_model :: string
  ss_expires_at :: go_time
  ss_grace_ends_at :: go_time
  ss_freebucks :: "freebucks_info option"

definition expiry_margin :: duration where
  "expiry_margin = 5 * second"

definition usable :: "go_time \<Rightarrow> session_snapshot \<Rightarrow> bool" where
  "usable now ss \<longleftrightarrow>
     ss_instance ss \<noteq> '''' \<and>
     (ss_status ss = ''active'' \<and> \<not> is_zero (ss_expires_at ss) \<and>
        before now (ss_expires_at ss - expiry_margin) \<or>
      \<not> is_zero (ss_grace_ends_at ss) \<and> before now (ss_grace_ends_at ss))"

definition matches_model :: "session_snapshot \<Rightarrow> string \<Rightarrow> bool" where
  "matches_model ss model \<longleftrightarrow> model = '''' \<or> ss_model ss = '''' \<or> ss_model ss = model"

definition session_usable_for_model :: "go_time \<Rightarrow> session_snapshot \<Rightarrow> string \<Rightarrow> bool" where
  "session_usable_for_model now ss model \<longleftrightarrow>
     usable now ss \<and> (ss_model ss = '''' \<or> ss_model ss = model)"

definition live_reuse :: "go_time \<Rightarrow> session_snapshot \<Rightarrow> string \<Rightarrow> bool" where
  "live_reuse now ss model \<longleftrightarrow>
     ss_status ss = ''active'' \<and> ss_instance ss \<noteq> '''' \<and> (ss_model ss = '''' \<or> ss_model ss = model) \<and>
     (is_zero (ss_expires_at ss) \<or> before now (ss_expires_at ss))"

definition monthly_spent :: "freebucks_info \<Rightarrow> bool" where
  "monthly_spent f = (case fb_monthly f of Some m \<Rightarrow> ma_remaining_usd m \<le> 0 | None \<Rightarrow> False)"

definition recovery_candidates :: "freebucks_info \<Rightarrow> go_time list" where
  "recovery_candidates f =
     [fw_reset_at (fb_daily f), next_bonus_at (fb_wallet f)] @
     (case fb_monthly f of Some m \<Rightarrow> if monthly_spent f then [ma_reset_at m] else [] | None \<Rightarrow> [])"

text \<open>One turn of the loop over the recovery instants: the earliest future one so far, and whether a
  past one was seen.\<close>

definition recovery_step :: "go_time \<Rightarrow> go_time \<Rightarrow> go_time \<times> bool \<Rightarrow> go_time \<times> bool" where
  "recovery_step now t acc =
     (case acc of (earliest, past) \<Rightarrow>
        if is_zero t then (earliest, past)
        else if \<not> after t now then (earliest, True)
        else if is_zero earliest \<or> before t earliest then (t, past) else (earliest, past))"

definition freebucks_capped ::
  "(string \<Rightarrow> bool) \<Rightarrow> (rat \<Rightarrow> string) \<Rightarrow> zone option \<Rightarrow> go_time \<Rightarrow> session_snapshot \<Rightarrow> string \<Rightarrow> bool \<times> duration"
where
  "freebucks_capped premium fmt_g tz now ss model =
     (case ss_freebucks ss of
        None \<Rightarrow> (False, 0)
      | Some f \<Rightarrow>
          if live_reuse now ss model then (False, 0)
          else
            (case (case fst (effective_prices fmt_g (Some f) now) model of
                     Some p \<Rightarrow> Some p | None \<Rightarrow> if premium model then Some 1 else None) of
               None \<Rightarrow> (False, 0)
             | Some price \<Rightarrow>
                 if quota_exempt f \<and> \<not> monthly_spent f then (False, 0)
                 else if spendable (Some f) \<ge> price \<and> \<not> monthly_spent f then (False, 0)
                 else
                   (case fold (recovery_step now) (recovery_candidates f) (zero_time, False) of
                      (earliest, past) \<Rightarrow>
                        if is_zero earliest
                        then if past then (False, 0)
                             else (True, time_sub (next_pacific_midnight tz now) now)
                        else (True, time_sub earliest now))))"

definition freebucks_limit_error ::
  "(string \<Rightarrow> bool) \<Rightarrow> (rat \<Rightarrow> string) \<Rightarrow> zone option \<Rightarrow> go_time \<Rightarrow> session_snapshot \<Rightarrow> string \<Rightarrow> rate_limit_error"
where
  "freebucks_limit_error premium fmt_g tz now ss model =
     (let price = (case fst (effective_prices fmt_g (ss_freebucks ss) now) model of Some p \<Rightarrow> p | None \<Rightarrow> 0)
      in \<lparr>rl_status = ''rate_limited'', rl_model = model,
          rl_retry_after = snd (freebucks_capped premium fmt_g tz now ss model),
          rl_limit = 0, rl_recent_count = 0, rl_reset_at = zero_time, rl_period = '''',
          rl_window = '''', rl_window_hours = 0, rl_freebucks_shortfall = False,
          rl_body =
            (case ss_freebucks ss of
               None \<Rightarrow> ''freebucks balance insufficient for model''
             | Some f \<Rightarrow>
                 if monthly_spent f then ''freebucks monthly allowance exhausted for model''
                 else ''freebucks balance insufficient for model (spendable '' @
                   fmt_g (spendable (Some f)) @ '' < price '' @ fmt_g price @ '')'')\<rparr>)"

section \<open>Which refusals are quota refusals\<close>

definition pacific_period :: "string \<Rightarrow> bool" where
  "pacific_period p \<longleftrightarrow> p \<in> {''pacific_day'', ''pacific_week'', ''pacific_month''}"

definition is_daily_cap_reset :: "rate_limit_error \<Rightarrow> bool" where
  "is_daily_cap_reset r \<longleftrightarrow>
     pacific_period (rl_period r) \<and> rl_limit r > 0 \<and> rl_recent_count r \<ge> rl_limit r"

definition is_quota_exhausted :: "rate_limit_error \<Rightarrow> bool" where
  "is_quota_exhausted r \<longleftrightarrow>
     \<not> is_zero (rl_reset_at r) \<or> pacific_period (rl_period r) \<or> is_daily_cap_reset r \<or>
     rl_limit r > 0 \<and> rl_recent_count r \<ge> rl_limit r \<or>
     rl_body r = ''session quota exhausted for model'' \<or>
     contains (rl_body r) ''referral entitlement required'' \<or> contains (rl_body r) ''no referral quota''"

definition can_serve_other_model :: "rate_limit_error option \<Rightarrow> string \<Rightarrow> bool" where
  "can_serve_other_model e model =
     (case e of
        None \<Rightarrow> False
      | Some r \<Rightarrow>
          rl_model r \<noteq> '''' \<and> rl_model r \<noteq> model \<and> window_kind (Some r) \<noteq> ''freebucks_window'' \<and>
          is_quota_exhausted r)"

end
