(* ===== verification/Freebucks_Properties.thy ===== *)
theory Freebucks_Properties
  imports Freebucks
begin

text \<open>
  When an account is capped and for how long, and that the two places the code applies a repricing
  schedule (when a response is parsed and when a quote is read) agree.
\<close>

section \<open>Recovery instants\<close>

definition known_instants :: "freebucks_info \<Rightarrow> go_time list" where
  "known_instants f = filter (\<lambda>t. \<not> is_zero t) (recovery_candidates f)"

lemma recovery_step_eq [simp]:
  "recovery_step now t (e, p) =
     (if is_zero t then (e, p) else if \<not> after t now then (e, True)
      else (if is_zero e then t else min e t, p))"
  by (auto simp: recovery_step_def before_def min_def)

lemma recovery_past:
  "snd (fold (recovery_step now) ts (e, p)) \<longleftrightarrow> p \<or> (\<exists>t\<in>set ts. \<not> is_zero t \<and> \<not> after t now)"
  by (induction ts arbitrary: e p) auto

lemma Min_insert_min: "finite S \<Longrightarrow> Min (insert (min e t) S) = Min (insert e (insert t S))" for e :: int
  by (cases "S = {}") (simp_all add: min.assoc)

lemma recovery_some:
  "\<not> is_zero e \<Longrightarrow> fst (fold (recovery_step now) ts (e, p)) =
    Min (insert e (set (filter (\<lambda>t. \<not> is_zero t \<and> after t now) ts)))"
proof (induction ts arbitrary: e p)
  case (Cons t ts)
  have "\<not> is_zero (min e t)" if "\<not> is_zero t"
    using Cons.prems that by (simp add: min_def)
  with Cons show ?case by (simp add: Min_insert_min del: Min_insert)
qed simp

lemma recovery_none:
  "fst (fold (recovery_step now) ts (zero_time, p)) =
    (let fut = filter (\<lambda>t. \<not> is_zero t \<and> after t now) ts
     in if fut = [] then zero_time else Min (set fut))"
  by (induction ts arbitrary: p) (simp_all add: recovery_some Let_def)

section \<open>The cap\<close>

definition asking_price ::
  "(string \<Rightarrow> bool) \<Rightarrow> (rat \<Rightarrow> string) \<Rightarrow> freebucks_info \<Rightarrow> go_time \<Rightarrow> string \<Rightarrow> rat option" where
  "asking_price premium fmt_g f now model =
     (case fst (effective_prices fmt_g (Some f) now) model of
        Some p \<Rightarrow> Some p | None \<Rightarrow> if premium model then Some 1 else None)"

definition short_of :: "freebucks_info \<Rightarrow> rat \<Rightarrow> bool" where
  "short_of f price \<longleftrightarrow> monthly_spent f \<or> \<not> quota_exempt f \<and> spendable (Some f) < price"

definition recovers :: "go_time \<Rightarrow> freebucks_info \<Rightarrow> bool" where
  "recovers now f \<longleftrightarrow> (\<exists>t\<in>set (known_instants f). after t now)"

lemma freebucks_capped_eq:
  assumes "ss_freebucks ss = Some f"
  shows "freebucks_capped premium fmt_g tz now ss model =
    (if live_reuse now ss model \<or> \<not> (\<exists>p. asking_price premium fmt_g f now model = Some p \<and> short_of f p) then (False, 0)
     else if recovers now f then (True, time_sub (Min {t \<in> set (known_instants f). after t now}) now)
     else if known_instants f = [] then (True, time_sub (next_pacific_midnight tz now) now)
     else (False, 0))"
proof -
  let ?ts = "recovery_candidates f"
  let ?fut = "filter (\<lambda>t. \<not> is_zero t \<and> after t now) ?ts"
  have fut: "set ?fut = {t \<in> set (known_instants f). after t now}"
    by (auto simp: known_instants_def)
  have rec: "recovers now f \<longleftrightarrow> ?fut \<noteq> []"
    by (auto simp: recovers_def known_instants_def filter_empty_conv)
  have nz: "\<not> is_zero (Min (set ?fut))" if "?fut \<noteq> []"
    using Min_in[of "set ?fut"] that by (auto simp: filter_empty_conv)
  have past: "(\<exists>t\<in>set ?ts. \<not> is_zero t \<and> \<not> after t now) \<longleftrightarrow> known_instants f \<noteq> []" if "?fut = []"
    using that by (auto simp: known_instants_def filter_empty_conv)
  have fold: "fold (recovery_step now) ?ts (zero_time, False) =
      (if ?fut = [] then zero_time else Min (set ?fut), \<exists>t\<in>set ?ts. \<not> is_zero t \<and> \<not> after t now)"
    by (rule prod_eqI) (simp_all only: fst_conv snd_conv recovery_none recovery_past Let_def, simp_all)
  show ?thesis
    using nz past
    by (auto simp: freebucks_capped_def assms fold rec fut[symmetric] asking_price_def[symmetric] short_of_def
        split: option.splits simp del: set_filter)
qed


text \<open>What \<^verbatim>\<open>nextPacificMidnight\<close> answers for an instant that is not a midnight.\<close>

lemma offset_cases: "pacific_offset_at t = 7 * hour \<or> pacific_offset_at t = 8 * hour"
  by (simp add: pacific_offset_at_def Let_def)

lemma add_day_local: "add_date z t 0 1 = from_local z (to_local z t + day_ns)"
proof -
  obtain y m d where c: "civil (local_day z t) = (y, m, d)" by (cases "civil (local_day z t)")
  have "day_number y m (d + 1) = local_day z t + 1"
    using civil_eq(4)[OF c] by (simp add: day_number_add_days)
  moreover have "local_day z t * day_ns + to_local z t mod day_ns = to_local z t"
    by (simp add: local_day_def utc_day_def day_ns_def mult.commute)
  ultimately have "day_number y m (d + 1) * day_ns + to_local z t mod day_ns = to_local z t + day_ns"
    by (simp add: distrib_right)
  then show ?thesis by (simp add: add_date_def c)
qed

lemma zone_day_later:
  "next_pacific_midnight (Some us_zone) t - t \<in> {23 * hour, 24 * hour, 25 * hour}"
  using offset_cases[of t]
    offset_cases[of "to_local us_zone t + day_ns + pacific_offset_at (to_local us_zone t + day_ns)"]
  by (auto simp: next_pacific_midnight_def add_day_local from_local_def to_local_def us_zone_def day_ns_def)

lemma fallback_next_midnight: "next_pacific_midnight None t = midnight (pacific_day t + 1)"
proof -
  have "utc_day (l + day_ns) = utc_day l + 1" for l
    by (simp add: utc_day_def day_ns_def)
  then show ?thesis
    by (simp add: next_pacific_midnight_def add_day_local from_local_def to_local_def utc_def
        civil_midnight_of pacific_day_def)
qed

section \<open>Repricing schedules\<close>

abbreviation changes_of :: "string \<Rightarrow> price_change list \<Rightarrow> price_change list" where
  "changes_of m cs \<equiv> filter (\<lambda>c. pc_model c = m) cs"

definition quoted_at :: "freebucks_info \<Rightarrow> price_change \<Rightarrow> rat \<times> string" where
  "quoted_at f c = (discounted_session_price (pc_price c) (active_discount f), pc_tagline c)"

lemma fold_adjust:
  "fold (\<lambda>c. adjust f (pc_model c) (pc_price c) (pc_tagline c)) cs adj m =
     (if prices f m = None \<or> changes_of m cs = [] then adj m
      else Some (quoted_at f (last (changes_of m cs))))"
  by (induction cs arbitrary: adj) (auto simp: adjust_def quoted_at_def)

lemma fold_apply:
  defines "g \<equiv> \<lambda>cs f. fold apply_change cs f"
  shows "prices (g cs f) m =
      (if prices f m = None \<or> changes_of m cs = [] then prices f m
       else Some (fst (quoted_at f (last (changes_of m cs)))))"
    and "price_notices (g cs f) m =
      (if prices f m = None \<or> changes_of m cs = [] then price_notices f m
       else snd (quoted_at f (last (changes_of m cs))))"
    and "active_discount (g cs f) = active_discount f" "off_peak (g cs f) = off_peak f"
  unfolding g_def
  by (induction cs arbitrary: f) (auto simp: apply_change_def quoted_at_def active_discount_def)

definition sorts_by_time :: "(price_change list \<Rightarrow> price_change list) \<Rightarrow> bool" where
  "sorts_by_time arrange \<longleftrightarrow> (\<forall>xs. set (arrange xs) = set xs \<and> sorted (map change_time (arrange xs)))"

definition no_ties :: "price_change list \<Rightarrow> bool" where
  "no_ties cs \<longleftrightarrow> (\<forall>c\<in>set cs. \<forall>d\<in>set cs. pc_model c = pc_model d \<and> change_time c = change_time d \<longrightarrow> c = d)"

lemma due_time: "due now c \<longleftrightarrow> parse_rfc3339 (pc_at c) \<noteq> None \<and> change_time c \<le> now"
  by (auto simp: due_def change_time_def after_def split: option.split)

lemma latest_unique:
  assumes "no_ties cs" "set xs \<subseteq> set cs" "sorted (map change_time xs)" "c \<in> set xs" "pc_model c = m"
    "\<And>d. d \<in> set xs \<Longrightarrow> pc_model d = m \<Longrightarrow> change_time d \<le> change_time c"
  shows "changes_of m xs \<noteq> [] \<and> last (changes_of m xs) = c"
proof -
  let ?ys = "changes_of m xs"
  have c: "c \<in> set ?ys" using assms(4,5) by simp
  then have ne: "?ys \<noteq> []" by (metis list.set_cases empty_iff list.set(1))
  have "sorted (map change_time ?ys)" using assms(3) by (rule sorted_filter)
  then have "change_time c \<le> change_time (last ?ys)" using c by (rule sorted_last)
  moreover have l: "last ?ys \<in> set xs" "pc_model (last ?ys) = m" using last_in_set[OF ne] by auto
  ultimately have "change_time (last ?ys) = change_time c" using assms(6)[OF l] by simp
  then have "last ?ys = c" using assms(1,2,4,5) l unfolding no_ties_def by blast
  with ne show ?thesis by simp
qed

lemma apply_uniform:
  assumes "sorts_by_time arrange"
  shows "apply_price_changes arrange now f =
    (fold apply_change (arrange (filter (due now) (price_changes f))) f)
      \<lparr>price_changes := filter (\<lambda>c. \<not> due now c) (price_changes f)\<rparr>"
proof (cases "filter (due now) (price_changes f) = []")
  case True
  then have "filter (\<lambda>c. \<not> due now c) (price_changes f) = price_changes f"
    by (auto simp: filter_empty_conv intro: filter_True)
  moreover have "set (arrange []) = set []" using assms unfolding sorts_by_time_def by blast
  then have "arrange [] = []" by simp
  ultimately show ?thesis using True by (simp add: apply_price_changes_def)
qed (simp add: apply_price_changes_def Let_def)

text \<open>Applying a schedule early and projecting the rest agrees with projecting all of it.\<close>

lemma scheduled_split:
  assumes a: "sorts_by_time arrange" and t: "no_ties (price_changes f)" and le: "now \<le> now'"
    and p: "prices f m \<noteq> None"
  defines "f1 \<equiv> apply_price_changes arrange now f"
  shows "(case scheduled_adjustments now' f1 m of
            Some q \<Rightarrow> q | None \<Rightarrow> (the (prices f1 m), price_notices f1 m)) =
         (case scheduled_adjustments now' f m of
            Some q \<Rightarrow> q | None \<Rightarrow> (the (prices f m), price_notices f m))"
proof -
  let ?cs = "price_changes f"
  let ?R = "arrange (filter (due now) ?cs)"
  let ?B = "sort_key change_time (filter (due now') (filter (\<lambda>c. \<not> due now c) ?cs))"
  let ?D = "sort_key change_time (filter (due now') ?cs)"
  have R: "set ?R = {c \<in> set ?cs. due now c}" "sorted (map change_time ?R)"
    using a unfolding sorts_by_time_def by auto
  obtain p0 where p0: "prices f m = Some p0" using p by blast
  have disc: "active_discount (g\<lparr>price_changes := x\<rparr>) = active_discount g" for g x
    by (simp add: active_discount_def)
  have f1: "prices f1 m = (if changes_of m ?R = [] then prices f m else Some (fst (quoted_at f (last (changes_of m ?R)))))"
    "price_notices f1 m = (if changes_of m ?R = [] then price_notices f m else snd (quoted_at f (last (changes_of m ?R))))"
    "active_discount f1 = active_discount f" "price_changes f1 = filter (\<lambda>c. \<not> due now c) ?cs"
    unfolding f1_def apply_uniform[OF a] by (simp_all add: fold_apply p0 disc)
  have q: "quoted_at f1 = quoted_at f" by (simp add: quoted_at_def f1(3) fun_eq_iff)
  have s1: "scheduled_adjustments now' f1 m =
      (if changes_of m ?B = [] then None else Some (quoted_at f (last (changes_of m ?B))))"
    by (simp add: scheduled_adjustments_def fold_adjust q f1(1,4) p0)
  have s: "scheduled_adjustments now' f m =
      (if changes_of m ?D = [] then None else Some (quoted_at f (last (changes_of m ?D))))"
    by (simp add: scheduled_adjustments_def fold_adjust p0)
  have D: "set ?D \<subseteq> set ?cs" "sorted (map change_time ?D)" by auto
  show ?thesis
  proof (cases "changes_of m ?B = []")
    case False
    then obtain c where c: "c = last (changes_of m ?B)" "c \<in> set ?B" "pc_model c = m"
      using last_in_set[OF False] by auto
    have "change_time d \<le> change_time c" if "d \<in> set ?D" "pc_model d = m" for d
    proof (cases "due now d")
      case True
      then show ?thesis using c(2) that by (auto simp: due_time)
    next
      case nd: False
      then have "d \<in> set (changes_of m ?B)" using that by auto
      then show ?thesis unfolding c(1) by (intro sorted_last sorted_filter) auto
    qed
    then have "changes_of m ?D \<noteq> [] \<and> last (changes_of m ?D) = c"
      using c by (intro latest_unique[OF t D]) auto
    with False c(1) show ?thesis by (simp add: s s1)
  next
    case B: True
    then have old: "due now d" if "d \<in> set ?D" "pc_model d = m" for d
      using that by (auto simp: filter_empty_conv)
    show ?thesis
    proof (cases "changes_of m ?R = []")
      case True
      then have "changes_of m ?D = []" using old R(1) by (auto simp: filter_empty_conv)
      with B True show ?thesis by (simp add: s s1 f1)
    next
      case False
      then obtain c where c: "c = last (changes_of m ?R)" "c \<in> set ?R" "pc_model c = m"
        using last_in_set[OF False] by auto
      have "change_time d \<le> change_time c" if "d \<in> set ?D" "pc_model d = m" for d
      proof -
        have "d \<in> set (changes_of m ?R)" using old[OF that] that R(1) by auto
        then show ?thesis unfolding c(1) using R(2) by (intro sorted_last sorted_filter)
      qed
      moreover have "c \<in> set ?D" using c(2) R(1) le by (auto simp: due_time)
      ultimately have "changes_of m ?D \<noteq> [] \<and> last (changes_of m ?D) = c"
        using c(3) by (intro latest_unique[OF t D])
      with B False c(1) show ?thesis by (simp add: s s1 f1)
    qed
  qed
qed

section \<open>Properties\<close>


definition poor_account :: "go_time \<Rightarrow> freebucks_info" where
  "poor_account reset =
     \<lparr>fb_balance = 1, fb_daily = \<lparr>fw_limit = 5, fw_spent = 5, fw_remaining = 0, fw_reset_at = reset\<rparr>,
      fb_wallet = \<lparr>wallet_balance = 1, monthly_bonus = 0, next_bonus_at = zero_time\<rparr>, fb_monthly = None,
      quota_exempt = False, prices = [''glm'' \<mapsto> 2], price_notices = (\<lambda>_. ''''), price_changes = [],
      claimable_grant = 0, first_tab = None, off_peak = Map.empty\<rparr>"

definition poor_snapshot :: "go_time \<Rightarrow> session_snapshot" where
  "poor_snapshot reset =
     \<lparr>ss_status = ''none'', ss_instance = '''', ss_model = '''', ss_expires_at = zero_time,
      ss_grace_ends_at = zero_time, ss_freebucks = Some (poor_account reset)\<rparr>"

lemma poor_price: "asking_price premium fmt_g (poor_account r) now ''glm'' = Some 2"
  by (simp add: asking_price_def effective_prices_def final_adjustments_def scheduled_adjustments_def
      poor_account_def)

lemma poor_short: "short_of (poor_account r) 2"
  by (simp add: short_of_def monthly_spent_def spendable_def poor_account_def)


text \<open>When no recovery instant is known the code means to wait for the next Pacific midnight.
  With a tz database it waits a whole day from now instead, whatever the time of day, because the
  helper it calls expects a midnight; without one it waits for the midnight, so the two paths
  disagree by up to a day.\<close>

lemma refill_wait_off_midnight:
  assumes "ss_freebucks ss = Some f" "known_instants f = []"
    and "fst (freebucks_capped premium fmt_g None now ss model)"
  shows "snd (freebucks_capped premium fmt_g (Some us_zone) now ss model) \<in> {23 * hour, 24 * hour, 25 * hour} \<and>
    snd (freebucks_capped premium fmt_g None now ss model) = upstream_next_pacific_midnight (Some us_zone) now - now \<and>
    snd (freebucks_capped premium fmt_g None now ss model) \<le> 25 * hour"
proof -
  have len: "midnight (pacific_day now + 1) - now \<le> 25 * hour" "0 < midnight (pacific_day now + 1) - now"
    using day_lengths[of "pacific_day now"] midnight_le_iff[of "pacific_day now" now]
      before_midnight_iff[of now "pacific_day now + 1"] by auto
  have "time_sub (next_pacific_midnight (Some us_zone) now) now = next_pacific_midnight (Some us_zone) now - now"
    using zone_day_later[of now] by (intro time_sub_exact) (auto simp: max_duration_def min_duration_def)
  moreover have "time_sub (midnight (pacific_day now + 1)) now = midnight (pacific_day now + 1) - now"
    using len by (intro time_sub_exact) (auto simp: max_duration_def min_duration_def)
  ultimately show ?thesis
    using assms(2,3) len zone_day_later[of now]
    by (auto simp: freebucks_capped_eq[OF assms(1)] recovers_def fallback_next_midnight upstream_midnight_zone
        split: if_splits)
qed

lemma refill_wait_off_midnight_witness:
  "snd (freebucks_capped (\<lambda>_. False) (\<lambda>_. ''2'') (Some us_zone) 1787036400000000001 (poor_snapshot zero_time) ''glm'')
     \<ge> 23 * hour"
proof -
  have k: "known_instants (poor_account zero_time) = []"
    by (simp add: known_instants_def recovery_candidates_def poor_account_def)
  have s: "ss_freebucks (poor_snapshot zero_time) = Some (poor_account zero_time)"
    by (simp add: poor_snapshot_def)
  have "fst (freebucks_capped (\<lambda>_. False) (\<lambda>_. ''2'') None 1787036400000000001 (poor_snapshot zero_time) ''glm'')"
    by (simp add: freebucks_capped_eq[OF s] k recovers_def poor_price poor_short) (simp add: poor_snapshot_def live_reuse_def)
  from refill_wait_off_midnight[OF s k this] show ?thesis by auto
qed

text \<open>Applying the announced repricing schedule when a response is parsed and projecting the rest
  when a quote is read gives the prices and notices that projecting the whole schedule at the read
  gives, whatever order the unstable sort leaves equal times of different models in.\<close>

lemma schedule_applied_or_projected:
  assumes "sorts_by_time arrange" "no_ties (price_changes f)" "now \<le> now'"
  shows "effective_prices fmt_g (Some (apply_price_changes arrange now f)) now' =
    effective_prices fmt_g (Some f) now'"
proof -
  define f1 where "f1 = apply_price_changes arrange now f"
  define quote where "quote = (\<lambda>g m. case final_adjustments fmt_g now' g m of
      Some q \<Rightarrow> q | None \<Rightarrow> (the (prices g m), price_notices g m))"
  have disc: "active_discount (g\<lparr>price_changes := x\<rparr>) = active_discount g" for g x
    by (simp add: active_discount_def)
  have u: "active_discount f1 = active_discount f" "off_peak f1 = off_peak f"
    "prices f1 m = None \<longleftrightarrow> prices f m = None"
    "prices f m = None \<Longrightarrow> price_notices f1 m = price_notices f m" for m
    unfolding f1_def apply_uniform[OF assms(1)] by (simp_all add: fold_apply disc)
  have none: "final_adjustments fmt_g now' g m = None" if "prices g m = None" for g m
    using that by (simp add: final_adjustments_def adjust_def scheduled_adjustments_def fold_adjust
        split: option.split prod.split)
  have eff: "fst (effective_prices fmt_g (Some g) now') m = (if prices g m = None then None else Some (fst (quote g m)))"
    "snd (effective_prices fmt_g (Some g) now') m = (if prices g m = None then price_notices g m else snd (quote g m))"
    for g m by (auto simp: effective_prices_def quote_def none Let_def split: option.splits)
  have "quote f1 m = quote f m" if p: "prices f m \<noteq> None" for m
  proof (cases "off_peak f m")
    case None
    then show ?thesis
      using scheduled_split[OF assms p, folded f1_def] by (simp add: quote_def final_adjustments_def u)
  next
    case (Some offer)
    then show ?thesis
      using p u(3)[of m]
      by (cases "off_peak_quote_at fmt_g offer now'") (auto simp: quote_def final_adjustments_def u(1,2) adjust_def)
  qed
  then show ?thesis
    unfolding f1_def[symmetric] by (intro prod_eqI ext) (simp_all add: eff u)
qed

definition rising_account :: freebucks_info where
  "rising_account = (poor_account 0)\<lparr>price_changes :=
     [\<lparr>pc_at = ''2026-08-22T07:00:00Z'', pc_model = ''glm'', pc_price = 3, pc_tagline = ''up''\<rparr>]\<rparr>"

lemma schedule_applied_or_projected_witness:
  "effective_prices (\<lambda>_. '''') (Some (apply_price_changes (sort_key change_time) 1787382000000000000 rising_account))
      1787382000000000001 = effective_prices (\<lambda>_. '''') (Some rising_account) 1787382000000000001"
proof -
  have "sorts_by_time (sort_key change_time)" by (simp add: sorts_by_time_def)
  moreover have "no_ties (price_changes rising_account)" by (simp add: no_ties_def rising_account_def)
  ultimately show ?thesis by (rule schedule_applied_or_projected) simp
qed

end
