(* ===== verification/Lane_Gates.thy ===== *)
theory Lane_Gates
  imports Freebucks Cooldown Slot_Ledger
begin

text \<open>
  Which lanes a request may be routed to: the gates of \<^verbatim>\<open>pool/acquire_route.go\<close>
  (\<open>walk_gates\<close>), their side-effect-free mirror in \<^verbatim>\<open>pool/model_queue.go\<close>
  (\<open>lane_admissible\<close>), the pins of \<^verbatim>\<open>pool/pin.go\<close>, the quarantine and the classification of
  \<^verbatim>\<open>pool/cooldown.go\<close>, the order of \<^verbatim>\<open>pool/spill_order.go\<close> and the hints of
  \<^verbatim>\<open>pool/cooldown_hint.go\<close>. A lane is the part of a \<^verbatim>\<open>tokenEntry\<close> the gates read. The texts
  the walk collects for its last error are kept as values (\<open>lane_note\<close>); the time format that two
  ban texts are compared in is reduced to the second it shows.
\<close>

section \<open>Lanes\<close>

record quarantine_state =
  q_reason :: string
  q_err :: go_error
  q_lift_at :: go_time

record cooldown_hint =
  hint_kind :: string
  hint_until_ms :: int

record lane =
  ln_token :: string
  ln_locked :: bool
  ln_quarantine :: "quarantine_state option"
  ln_cool :: cooldown_state
  ln_session :: session_snapshot
  ln_pin_skips :: nat

text \<open>What does not change during a request: the configuration, the registry and the catalog.\<close>

record routing =
  rt_model :: string
  rt_pins :: "int \<rightharpoonup> string"
  rt_resolve :: "(string \<Rightarrow> string) option"
  rt_premium :: "string \<Rightarrow> bool"
  rt_fmt :: "rat \<Rightarrow> string"
  rt_zone :: "zone option"
  rt_hash :: "string \<Rightarrow> string"

section \<open>Pins\<close>

definition pinned_out :: "routing \<Rightarrow> int \<Rightarrow> bool" where
  "pinned_out rt idx \<longleftrightarrow>
     (case rt_pins rt idx of
        None \<Rightarrow> False
      | Some pin \<Rightarrow>
          if pin = '''' then False
          else if rt_model rt = pin then False
          else (case rt_resolve rt of
                  Some res \<Rightarrow> res (rt_model rt) \<noteq> res pin | None \<Rightarrow> True))"

definition all_pinned_out :: "routing \<Rightarrow> nat \<Rightarrow> bool" where
  "all_pinned_out rt n \<longleftrightarrow> n \<noteq> 0 \<and> list_all (\<lambda>i. pinned_out rt (int i)) [0..<n]"

section \<open>Terminal-cooldown hints\<close>

definition hint_fresh ::
  "string \<Rightarrow> go_time \<Rightarrow> (string \<rightharpoonup> cooldown_hint) \<Rightarrow> bool \<times> (string \<rightharpoonup> cooldown_hint)" where
  "hint_fresh h now hints =
     (case hints h of
        None \<Rightarrow> (False, hints)
      | Some b \<Rightarrow>
          if hint_until_ms b > 0 \<and> hint_until_ms b \<le> unix_milli now then (False, hints(h := None))
          else (True, hints))"

definition store_cooldown_hint ::
  "string \<Rightarrow> cooldown_hint \<Rightarrow> (string \<rightharpoonup> cooldown_hint) \<Rightarrow> (string \<rightharpoonup> cooldown_hint)" where
  "store_cooldown_hint h b hints =
     (if h = '''' then hints
      else if hint_kind b \<noteq> ''banned'' \<and> hint_kind b \<noteq> ''country_blocked'' then hints
      else hints(h \<mapsto> b))"

definition clear_cooldown_hint :: "string \<Rightarrow> (string \<rightharpoonup> cooldown_hint) \<Rightarrow> (string \<rightharpoonup> cooldown_hint)" where
  "clear_cooldown_hint h hints = (if h = '''' then hints else hints(h := None))"

definition clear_cooldown_hint_for ::
  "(string \<Rightarrow> string) \<Rightarrow> string \<Rightarrow> (string \<rightharpoonup> cooldown_hint) \<Rightarrow> (string \<rightharpoonup> cooldown_hint)" where
  "clear_cooldown_hint_for hash token hints =
     (if token = '''' then hints else clear_cooldown_hint (hash token) hints)"

definition store_ban_hint ::
  "(string \<Rightarrow> string) \<Rightarrow> go_time \<Rightarrow> lane \<Rightarrow> (string \<rightharpoonup> cooldown_hint) \<Rightarrow> (string \<rightharpoonup> cooldown_hint)" where
  "store_ban_hint hash now l hints =
     (if ln_token l = '''' then hints
      else case ban_live now (ln_cool l) of
        None \<Rightarrow> clear_cooldown_hint (hash (ln_token l)) hints
      | Some b \<Rightarrow>
          store_cooldown_hint (hash (ln_token l))
            \<lparr>hint_kind = ''banned'',
             hint_until_ms = (if is_zero (resumes_at b) then 0 else unix_milli (resumes_at b))\<rparr> hints)"

definition store_country_hint ::
  "(string \<Rightarrow> string) \<Rightarrow> lane \<Rightarrow> go_time \<Rightarrow> (string \<rightharpoonup> cooldown_hint) \<Rightarrow> (string \<rightharpoonup> cooldown_hint)" where
  "store_country_hint hash l until hints =
     (if ln_token l = '''' \<or> is_zero until then hints
      else store_cooldown_hint (hash (ln_token l))
        \<lparr>hint_kind = ''country_blocked'', hint_until_ms = unix_milli until\<rparr> hints)"

definition country_block_window :: "duration \<Rightarrow> duration" where
  "country_block_window cfg = (if cfg > 0 then cfg else 15 * minute)"

definition parse_cooldown_hint :: "cooldown_hint option \<Rightarrow> cooldown_hint option" where
  "parse_cooldown_hint b =
     (case b of
        None \<Rightarrow> None
      | Some b \<Rightarrow>
          if hint_kind b \<noteq> ''banned'' \<and> hint_kind b \<noteq> ''country_blocked'' then None
          else if hint_until_ms b < 0 then None else Some b)"

text \<open>The rows of the store under their prefix, decoded or corrupt (\<open>None\<close>).\<close>

definition restore_cooldown_hints ::
  "go_time \<Rightarrow> (string \<times> cooldown_hint option) list \<Rightarrow> (string \<rightharpoonup> cooldown_hint) \<Rightarrow> (string \<rightharpoonup> cooldown_hint)"
where
  "restore_cooldown_hints now rows hints =
     fold (\<lambda>(h, raw) hs.
       case parse_cooldown_hint raw of
         None \<Rightarrow> hs
       | Some b \<Rightarrow>
           if h = '''' then hs
           else if hint_until_ms b > 0 \<and> hint_until_ms b \<le> unix_milli now then hs(h := None)
           else hs(h \<mapsto> b)) rows hints"

text \<open>The lanes of an order, by position in the snapshot; positions outside it are skipped.\<close>

definition hint_skippable ::
  "(string \<Rightarrow> string) \<Rightarrow> go_time \<Rightarrow> lane list \<Rightarrow> int list \<Rightarrow> (string \<rightharpoonup> cooldown_hint) \<Rightarrow> bool" where
  "hint_skippable hash now lanes order hints =
     (let seen = filter (\<lambda>i. 0 \<le> i \<and> i < int (length lanes)) order
      in seen = [] \<or>
         list_ex (\<lambda>i. \<not> fst (hint_fresh (hash (ln_token (lanes ! nat i))) now hints)) seen)"

section \<open>Quarantine\<close>

definition quarantine_token :: "string \<Rightarrow> go_time \<Rightarrow> go_error \<Rightarrow> lane \<Rightarrow> lane" where
  "quarantine_token reason now e l =
     (case ln_quarantine l of
        Some _ \<Rightarrow> l
      | None \<Rightarrow>
          l\<lparr>ln_quarantine := Some
              \<lparr>q_reason = reason, q_err = e,
               q_lift_at =
                 (case as_ban e of
                    Some b \<Rightarrow>
                      if reason = ''banned'' \<and> \<not> is_zero (resumes_at b) \<and> after (resumes_at b) now
                      then resumes_at b else zero_time
                  | None \<Rightarrow> zero_time)\<rparr>\<rparr>)"

definition quarantine_lifted :: "go_time \<Rightarrow> quarantine_state \<Rightarrow> bool" where
  "quarantine_lifted now q \<longleftrightarrow> \<not> is_zero (q_lift_at q) \<and> \<not> before now (q_lift_at q)"

text \<open>\<open>clearLiftedQuarantine\<close>: whether a marker was cleared, the lane, the hints.\<close>

definition clear_lifted_quarantine ::
  "(string \<Rightarrow> string) \<Rightarrow> go_time \<Rightarrow> lane \<Rightarrow> (string \<rightharpoonup> cooldown_hint) \<Rightarrow>
     bool \<times> lane \<times> (string \<rightharpoonup> cooldown_hint)" where
  "clear_lifted_quarantine hash now l hints =
     (case ln_quarantine l of
        None \<Rightarrow> (False, l, hints)
      | Some q \<Rightarrow>
          if quarantine_lifted now q
          then (True, l\<lparr>ln_quarantine := None\<rparr>, clear_cooldown_hint_for hash (ln_token l) hints)
          else (False, l, hints))"

definition unlock_token ::
  "(string \<Rightarrow> string) \<Rightarrow> lane \<Rightarrow> (string \<rightharpoonup> cooldown_hint) \<Rightarrow> lane \<times> (string \<rightharpoonup> cooldown_hint)" where
  "unlock_token hash l hints =
     (l\<lparr>ln_cool := clear_cooldowns (ln_cool l), ln_quarantine := None\<rparr>,
      clear_cooldown_hint_for hash (ln_token l) hints)"

definition cooldown_token_ban ::
  "(string \<Rightarrow> string) \<Rightarrow> go_time \<Rightarrow> ban_error \<Rightarrow> lane \<Rightarrow> (string \<rightharpoonup> cooldown_hint) \<Rightarrow>
     lane \<times> (string \<rightharpoonup> cooldown_hint)" where
  "cooldown_token_ban hash now b l hints =
     (let l1 = l\<lparr>ln_cool := cooldown_ban now (Some b) (ln_cool l)\<rparr>;
          l2 = (if ban_live now (ln_cool l1) \<noteq> None then quarantine_token ''banned'' now (Ban b) l1 else l1)
      in (l2, store_ban_hint hash now l2 hints))"

definition cooldown_token_country_blocked ::
  "(string \<Rightarrow> string) \<Rightarrow> duration \<Rightarrow> go_time \<Rightarrow> country_blocked_error \<Rightarrow> lane \<Rightarrow>
     (string \<rightharpoonup> cooldown_hint) \<Rightarrow> lane \<times> (string \<rightharpoonup> cooldown_hint)" where
  "cooldown_token_country_blocked hash w now c l hints =
     (let l1 = l\<lparr>ln_cool := cooldown_country_blocked w now (Some c) (ln_cool l)\<rparr>
      in (l1, store_country_hint hash l1 (cooldown_until (ln_cool l1)) hints))"

section \<open>Errors of a lane\<close>

text \<open>\<^verbatim>\<open>session.WaitingRoomError\<close> is not \<^verbatim>\<open>upstream.WaitingRoomError\<close>: the session manager makes it
  from its own queue position.\<close>

record session_wait =
  sw_position :: int
  sw_queue_depth :: int
  sw_retry_after :: duration

datatype lane_error = Session_Wait session_wait | Refusal go_error

record classified_error =
  auth_rejected :: bool
  ce_rate_limited :: "rate_limit_error option"
  ce_ip_capped :: "ip_capped_error option"
  ce_banned :: "ban_error option"
  ce_country :: "country_blocked_error option"
  ce_limited_ip :: "limited_ip_error option"
  spend_limited :: bool

text \<open>\<open>classifyAndCooldown\<close>: the flags, and the ban memory it writes.\<close>

definition classify_and_cooldown ::
  "go_time \<Rightarrow> lane_error \<Rightarrow> cooldown_state \<Rightarrow> classified_error \<times> cooldown_state" where
  "classify_and_cooldown now le s =
     (case le of
        Session_Wait _ \<Rightarrow>
          (\<lparr>auth_rejected = False, ce_rate_limited = None, ce_ip_capped = None, ce_banned = None,
            ce_country = None, ce_limited_ip = None, spend_limited = False\<rparr>, s)
      | Refusal e \<Rightarrow>
          (\<lparr>auth_rejected = errors_is e Err_Auth_Rejected, ce_rate_limited = as_rate_limit e,
            ce_ip_capped = as_ip_capped e, ce_banned = as_ban e, ce_country = as_country_blocked e,
            ce_limited_ip = as_limited_ip e,
            spend_limited = (case as_rate_limit e of Some r \<Rightarrow> rl_status r = ''spend_limited'' | None \<Rightarrow> False)\<rparr>,
           cooldown_ban now (as_ban e) s))"

definition tag_rate_limit_model :: "rate_limit_error \<Rightarrow> string \<Rightarrow> rate_limit_error" where
  "tag_rate_limit_model r model = (if rl_model r \<noteq> '''' then r else r\<lparr>rl_model := model\<rparr>)"

definition tag_limited_ip_model :: "limited_ip_error \<Rightarrow> string \<Rightarrow> limited_ip_error" where
  "tag_limited_ip_model e model = e\<lparr>li_model := model\<rparr>"

section \<open>The buckets of a request\<close>

datatype lane_note =
    Hinted int
  | Quarantined int quarantine_state
  | Not_Pinned int
  | Balance_Capped int duration
  | Cooling int go_time
  | Remembered int rate_limit_error
  | Lane_Failed int lane_error

record spill_chain =
  sc_max :: int
  sc_hops :: nat
  sc_err :: "slot_queue_exhausted option"
  sc_cap :: int

definition new_spill_chain :: "int \<Rightarrow> spill_chain" where
  "new_spill_chain mx = \<lparr>sc_max = mx, sc_hops = 0, sc_err = None, sc_cap = 0\<rparr>"

definition spill_note :: "slot_queue_exhausted \<Rightarrow> int \<Rightarrow> spill_chain \<Rightarrow> bool \<times> spill_chain" where
  "spill_note q cap s =
     (let s1 = s\<lparr>sc_err := Some q, sc_cap := cap, sc_hops := sc_hops s + 1\<rparr>
      in (sc_max s1 \<le> 0 \<or> int (sc_hops s1) \<le> sc_max s1, s1))"

record buckets =
  errs :: "lane_note list"
  waiting :: "session_wait list"
  rate_limited :: "(rate_limit_error \<times> int) list"
  banned :: "ban_error list"
  spill :: spill_chain
  queue_wait :: duration

definition new_buckets :: "int \<Rightarrow> buckets" where
  "new_buckets mx = \<lparr>errs = [], waiting = [], rate_limited = [], banned = [],
     spill = new_spill_chain mx, queue_wait = 0\<rparr>"

definition same_ban_text :: "ban_error \<Rightarrow> ban_error \<Rightarrow> bool" where
  "same_ban_text a b \<longleftrightarrow>
     ban_body a = ban_body b \<and> is_zero (resumes_at a) = is_zero (resumes_at b) \<and>
     resumes_at a div second = resumes_at b div second"

definition append_ban :: "ban_error list \<Rightarrow> ban_error \<Rightarrow> ban_error list" where
  "append_ban dst b = (if list_ex (same_ban_text b) dst then dst else dst @ [b])"

definition append_rate_limit :: "rate_limit_error \<Rightarrow> int \<Rightarrow> buckets \<Rightarrow> buckets" where
  "append_rate_limit r idx bk = bk\<lparr>rate_limited := rate_limited bk @ [(r, idx)]\<rparr>"

definition add_note :: "lane_note \<Rightarrow> buckets \<Rightarrow> buckets" where
  "add_note n bk = bk\<lparr>errs := errs bk @ [n]\<rparr>"

definition add_ban :: "ban_error \<Rightarrow> buckets \<Rightarrow> buckets" where
  "add_ban b bk = bk\<lparr>banned := append_ban (banned bk) b\<rparr>"

section \<open>The gates\<close>

record gate_state =
  gs_lane :: lane
  gs_hints :: "string \<rightharpoonup> cooldown_hint"
  gs_buckets :: buckets

definition capped :: "routing \<Rightarrow> go_time \<Rightarrow> lane \<Rightarrow> bool \<times> duration" where
  "capped rt now l = freebucks_capped (rt_premium rt) (rt_fmt rt) (rt_zone rt) now (ln_session l) (rt_model rt)"

definition limit_error :: "routing \<Rightarrow> go_time \<Rightarrow> lane \<Rightarrow> rate_limit_error" where
  "limit_error rt now l =
     freebucks_limit_error (rt_premium rt) (rt_fmt rt) (rt_zone rt) now (ln_session l) (rt_model rt)"

text \<open>The last two gates read the refusal memories of the run manager.\<close>

definition memory_gate :: "routing \<Rightarrow> go_time \<Rightarrow> int \<Rightarrow> gate_state \<Rightarrow> bool \<times> gate_state" where
  "memory_gate rt now idx g =
     (let l = gs_lane g
      in case model_rate_limit now (rt_model rt) (ln_cool l) of
        (Some r, s) \<Rightarrow>
          let t = tag_rate_limit_model r (rt_model rt)
          in (True, g\<lparr>gs_lane := l\<lparr>ln_cool := s\<rparr>,
                      gs_buckets := add_note (Remembered idx t) (append_rate_limit t idx (gs_buckets g))\<rparr>)
      | (None, s) \<Rightarrow> (False, g\<lparr>gs_lane := l\<lparr>ln_cool := s\<rparr>\<rparr>))"

definition cooldown_gate :: "routing \<Rightarrow> go_time \<Rightarrow> int \<Rightarrow> gate_state \<Rightarrow> bool \<times> gate_state" where
  "cooldown_gate rt now idx g =
     (let s = ln_cool (gs_lane g)
      in if (before now (cooldown_until s) \<or> ban_live now s \<noteq> None) \<and>
            \<not> can_serve_other_model (rate_limit_live now s) (rt_model rt)
         then let b1 = add_note (Cooling idx (cooldown_until s)) (gs_buckets g);
                  b2 = (case ban_live now s of Some b \<Rightarrow> add_ban b b1 | None \<Rightarrow> b1);
                  b3 = (case rate_limit_live now s of Some r \<Rightarrow> append_rate_limit r idx b2 | None \<Rightarrow> b2)
              in (True, g\<lparr>gs_buckets := b3\<rparr>)
         else memory_gate rt now idx g)"

definition pin_gate :: "routing \<Rightarrow> go_time \<Rightarrow> int \<Rightarrow> gate_state \<Rightarrow> bool \<times> gate_state" where
  "pin_gate rt now idx g =
     (let l = gs_lane g
      in if pinned_out rt idx
         then (True, g\<lparr>gs_lane := l\<lparr>ln_pin_skips := ln_pin_skips l + 1\<rparr>,
                       gs_buckets := add_note (Not_Pinned idx) (gs_buckets g)\<rparr>)
         else if fst (capped rt now l)
         then (True, g\<lparr>gs_buckets :=
                add_note (Balance_Capped idx (snd (capped rt now l)))
                  (append_rate_limit (limit_error rt now l) idx (gs_buckets g))\<rparr>)
         else cooldown_gate rt now idx g)"

definition quarantine_gate :: "routing \<Rightarrow> go_time \<Rightarrow> int \<Rightarrow> gate_state \<Rightarrow> bool \<times> gate_state" where
  "quarantine_gate rt now idx g =
     (case ln_quarantine (gs_lane g) of
        None \<Rightarrow> pin_gate rt now idx g
      | Some q \<Rightarrow>
          (case clear_lifted_quarantine (rt_hash rt) now (gs_lane g) (gs_hints g) of
             (True, l, hs) \<Rightarrow> pin_gate rt now idx (g\<lparr>gs_lane := l, gs_hints := hs\<rparr>)
           | (False, _, _) \<Rightarrow>
               let b1 = add_note (Quarantined idx q) (gs_buckets g)
               in (True, g\<lparr>gs_buckets := (case q_err q of Ban b \<Rightarrow> add_ban b b1 | _ \<Rightarrow> b1)\<rparr>)))"

definition walk_gates :: "routing \<Rightarrow> bool \<Rightarrow> go_time \<Rightarrow> int \<Rightarrow> gate_state \<Rightarrow> bool \<times> gate_state" where
  "walk_gates rt skip_hinted now idx g =
     (let l = gs_lane g
      in if ln_locked l then (True, g)
         else if skip_hinted \<and> ln_token l \<noteq> '''' then
           (case hint_fresh (rt_hash rt (ln_token l)) now (gs_hints g) of
              (True, hs) \<Rightarrow>
                (True, g\<lparr>gs_hints := hs, gs_buckets := add_note (Hinted idx) (gs_buckets g)\<rparr>)
            | (False, hs) \<Rightarrow> quarantine_gate rt now idx (g\<lparr>gs_hints := hs\<rparr>))
         else quarantine_gate rt now idx g)"

text \<open>\<open>laneAdmissible\<close>. Its reads drop an expired hint and an expired model refusal, which no reader
  can tell.\<close>

definition lane_admissible ::
  "routing \<Rightarrow> bool \<Rightarrow> go_time \<Rightarrow> int \<Rightarrow> lane \<Rightarrow> (string \<rightharpoonup> cooldown_hint) \<Rightarrow> bool" where
  "lane_admissible rt skip_hinted now idx l hints \<longleftrightarrow>
     \<not> ln_locked l \<and>
     (case ln_quarantine l of
        None \<Rightarrow> True | Some q \<Rightarrow> \<not> (is_zero (q_lift_at q) \<or> before now (q_lift_at q))) \<and>
     \<not> pinned_out rt idx \<and>
     \<not> fst (capped rt now l) \<and>
     \<not> ((before now (cooldown_until (ln_cool l)) \<or> ban_live now (ln_cool l) \<noteq> None) \<and>
        \<not> can_serve_other_model (rate_limit_live now (ln_cool l)) (rt_model rt)) \<and>
     fst (model_rate_limit now (rt_model rt) (ln_cool l)) = None \<and>
     \<not> (skip_hinted \<and> ln_token l \<noteq> '''' \<and> fst (hint_fresh (rt_hash rt (ln_token l)) now hints))"

section \<open>The order of a request\<close>

text \<open>\<open>spillOrder\<close> over the lanes of the snapshot: the eligible positions in ascending order (all of
  them when none is), and the refusals of the capped lanes left out; the filter clears lifted
  markers and counts pin skips.\<close>

definition eligible ::
  "routing \<Rightarrow> go_time \<Rightarrow> int \<Rightarrow> lane \<Rightarrow> (string \<rightharpoonup> cooldown_hint) \<Rightarrow> bool \<times> lane \<times> (string \<rightharpoonup> cooldown_hint)"
where
  "eligible rt now idx l hints =
     (if ln_locked l then (False, l, hints)
      else case (if ln_quarantine l = None then (True, l, hints)
                 else clear_lifted_quarantine (rt_hash rt) now l hints) of
        (False, l1, hs) \<Rightarrow> (False, l1, hs)
      | (True, l1, hs) \<Rightarrow>
          if pinned_out rt idx then (False, l1\<lparr>ln_pin_skips := ln_pin_skips l1 + 1\<rparr>, hs)
          else (\<not> fst (capped rt now l1), l1, hs))"

fun spill_filter ::
  "routing \<Rightarrow> go_time \<Rightarrow> int \<Rightarrow> lane list \<Rightarrow> (string \<rightharpoonup> cooldown_hint) \<Rightarrow>
     int list \<times> lane list \<times> (string \<rightharpoonup> cooldown_hint)" where
  "spill_filter rt now idx [] hints = ([], [], hints)"
| "spill_filter rt now idx (l # ls) hints =
     (case eligible rt now idx l hints of
        (ok, l1, hs) \<Rightarrow>
          (case spill_filter rt now (idx + 1) ls hs of
             (order, ls1, hs1) \<Rightarrow> ((if ok then idx # order else order), l1 # ls1, hs1)))"

definition spill_order ::
  "routing \<Rightarrow> go_time \<Rightarrow> lane list \<Rightarrow> (string \<rightharpoonup> cooldown_hint) \<Rightarrow>
     int list \<times> (rate_limit_error \<times> int) list \<times> lane list \<times> (string \<rightharpoonup> cooldown_hint)" where
  "spill_order rt now ls hints =
     (case spill_filter rt now 0 ls hints of
        (order, ls1, hs) \<Rightarrow>
          if order = [] then (map int [0..<length ls], [], ls1, hs)
          else (order,
                map (\<lambda>i. (limit_error rt now (ls1 ! nat i), i))
                  (filter (\<lambda>i. i \<notin> set order \<and> fst (capped rt now (ls1 ! nat i))) (map int [0..<length ls])),
                ls1, hs))"

end
