(* ===== verification/Acquire_Walk.thy ===== *)
theory Acquire_Walk
  imports Lane_Gates
begin

text \<open>
  One request's walk over the lanes: \<^verbatim>\<open>backend/internal/pool/acquire_route.go\<close>, with the spill
  budget of \<^verbatim>\<open>spill_queue.go\<close> and the pickers of \<^verbatim>\<open>acquire_buckets.go\<close> and
  \<^verbatim>\<open>spill_order.go\<close>. The walk is a machine: \<open>control\<close> says where in which Go function the request
  is, and \<open>walk_step\<close> runs it to its next interaction with the rest of the gateway. Before every
  step the environment changes the shared pool in any way (\<open>en_pool\<close>); it also answers slot takes,
  parks, session admissions and run starts, the clock and the request's context. What the walk does
  to permits, seats and runs is its trace; a permit is named by the tick it was taken at.
\<close>

section \<open>The pool as a walk sees it\<close>

record walk_pool =
  wp_lanes :: "nat \<Rightarrow> lane"
  wp_roster :: "nat list"
  wp_hints :: "string \<rightharpoonup> cooldown_hint"

datatype park_result =
    Lane_Handed int nat duration
  | Queue_Refused slot_queue_exhausted
  | Wait_Cancelled

record env =
  en_pool :: "nat \<Rightarrow> walk_pool \<Rightarrow> walk_pool"
  en_now :: "nat \<Rightarrow> go_time"
  en_cancelled :: "nat \<Rightarrow> bool"
  en_slot :: "nat \<Rightarrow> nat \<Rightarrow> bool \<times> int"
  en_park :: "nat \<Rightarrow> park_result"
  en_jail_cancelled :: "nat \<Rightarrow> bool"
  en_session :: "nat \<Rightarrow> nat \<Rightarrow> lane_error + string"
  en_run :: "nat \<Rightarrow> nat \<Rightarrow> string \<Rightarrow> lane_error + string"

record walk_config =
  wc_routing :: routing
  wc_agent :: string
  wc_agent_for :: "string \<Rightarrow> string option"
  wc_toks :: "nat list"
  wc_order :: "int list"
  wc_quota_limited :: "(rate_limit_error \<times> int) list"
  wc_cap :: int
  wc_wait :: duration
  wc_max_spill :: int
  wc_country_window :: duration

section \<open>Outcomes\<close>

record lease =
  lease_token :: int
  lease_model :: string
  lease_agent :: string
  lease_run :: string
  lease_instance :: string
  lease_entry :: nat
  lease_permit :: "nat option"
  lease_queue_wait :: duration

datatype acquire_error =
    Pin_Fail_Fast string nat
  | All_Banned ban_error
  | All_Rate_Limited rate_limit_error int "int list"
  | In_Waiting_Room session_wait
  | Spill_Exhausted slot_queue_exhausted string int
  | No_Lane "lane_note list"
  | Context_Ended
  | Ip_Cap_Refusal ip_capped_error
  | Country_Refusal country_blocked_error
  | Limited_Ip_Refusal limited_ip_error

datatype outcome = Granted lease | Failed acquire_error

text \<open>How a lane that grants nothing is left: \<open>scaleoutFrom\<close> at a position, parking or not, or the
  next turn of \<open>legacyLoop\<close>.\<close>

datatype cont = Resume nat bool | Resume_Legacy nat

datatype control =
    Scan nat
  | Walk nat bool "slot_queue_exhausted option"
  | Park nat
  | Legacy nat
  | Admit int nat "nat option" cont
  | In_Session int nat "nat option" cont
  | In_Run int nat "nat option" cont string
  | Jail int nat "nat option" cont go_time
  | Rescan nat nat cont go_time
  | Repark nat cont go_time
  | Retry int nat "nat option"
  | Done outcome

datatype effect =
    Take nat nat
  | Give_Back nat
  | Seat_Up nat
  | Seat_Down nat
  | Run_Leased nat string
  | Run_Returned nat string
  | Spend_Limited nat
  | Served nat string
  | Jailed nat

record walk =
  wk_control :: control
  wk_pool :: walk_pool
  wk_buckets :: buckets
  wk_skip_hinted :: bool
  wk_tick :: nat
  wk_trace :: "effect list"

section \<open>Picking the error to surface\<close>

fun best_rate_limit :: "(rate_limit_error \<times> int) \<Rightarrow> (rate_limit_error \<times> int) list \<Rightarrow> rate_limit_error \<times> int" where
  "best_rate_limit best [] = best"
| "best_rate_limit best (e # es) =
     best_rate_limit (if rl_retry_after (fst e) < rl_retry_after (fst best) then e else best) es"

definition limited_tokens :: "(rate_limit_error \<times> int) list \<Rightarrow> int list" where
  "limited_tokens es = sort (remdups (filter (\<lambda>i. 0 \<le> i) (map snd es)))"

definition better_wait :: "session_wait \<Rightarrow> session_wait \<Rightarrow> bool" where
  "better_wait a b \<longleftrightarrow>
     (if sw_position a \<le> 0 then False
      else if sw_position b \<le> 0 then True
      else if sw_position a \<noteq> sw_position b then sw_position a < sw_position b
      else sw_queue_depth a < sw_queue_depth b)"

fun best_waiting_room :: "session_wait \<Rightarrow> session_wait list \<Rightarrow> session_wait" where
  "best_waiting_room best [] = best"
| "best_waiting_room best (w # ws) = best_waiting_room (if better_wait w best then w else best) ws"

definition walk_tail :: "walk_config \<Rightarrow> buckets \<Rightarrow> acquire_error" where
  "walk_tail cfg bk =
     (let rls = rate_limited bk @ wc_quota_limited cfg
      in if all_pinned_out (wc_routing cfg) (length (wc_toks cfg))
         then Pin_Fail_Fast (rt_model (wc_routing cfg)) (length (wc_toks cfg))
         else case banned bk of
           b # _ \<Rightarrow> All_Banned b
         | [] \<Rightarrow>
             (case rls of
                e # es \<Rightarrow>
                  (case best_rate_limit e es of (r, i) \<Rightarrow> All_Rate_Limited r i (limited_tokens rls))
              | [] \<Rightarrow>
                  (case waiting bk of
                     x # xs \<Rightarrow> In_Waiting_Room (best_waiting_room x xs)
                   | [] \<Rightarrow>
                       (case sc_err (spill bk) of
                          Some q \<Rightarrow> Spill_Exhausted q (rt_model (wc_routing cfg)) (sc_cap (spill bk))
                        | None \<Rightarrow> No_Lane (errs bk)))))"

section \<open>Steps\<close>

definition go :: "control \<Rightarrow> walk \<Rightarrow> walk" where
  "go c w = w\<lparr>wk_control := c\<rparr>"

definition emit :: "effect list \<Rightarrow> walk \<Rightarrow> walk" where
  "emit es w = w\<lparr>wk_trace := wk_trace w @ es\<rparr>"

definition release :: "nat option \<Rightarrow> walk \<Rightarrow> walk" where
  "release p w = (case p of None \<Rightarrow> w | Some i \<Rightarrow> emit [Give_Back i] w)"

definition to_tail :: "walk_config \<Rightarrow> walk \<Rightarrow> walk" where
  "to_tail cfg w = go (Done (Failed (walk_tail cfg (wk_buckets w)))) w"

definition put_lane :: "nat \<Rightarrow> lane \<Rightarrow> walk \<Rightarrow> walk" where
  "put_lane e l w = w\<lparr>wk_pool := (wk_pool w)\<lparr>wp_lanes := (wp_lanes (wk_pool w))(e := l)\<rparr>\<rparr>"

definition put_hints :: "(string \<rightharpoonup> cooldown_hint) \<Rightarrow> walk \<Rightarrow> walk" where
  "put_hints hs w = w\<lparr>wk_pool := (wk_pool w)\<lparr>wp_hints := hs\<rparr>\<rparr>"

definition with_buckets :: "(buckets \<Rightarrow> buckets) \<Rightarrow> walk \<Rightarrow> walk" where
  "with_buckets f w = w\<lparr>wk_buckets := f (wk_buckets w)\<rparr>"

definition lane_of :: "walk \<Rightarrow> nat \<Rightarrow> lane" where
  "lane_of w e = wp_lanes (wk_pool w) e"

definition still_current :: "walk \<Rightarrow> int \<Rightarrow> nat \<Rightarrow> bool" where
  "still_current w idx e \<longleftrightarrow>
     0 \<le> idx \<and> idx < int (length (wp_roster (wk_pool w))) \<and> wp_roster (wk_pool w) ! nat idx = e"

definition pos_in_order :: "walk_config \<Rightarrow> int \<Rightarrow> int" where
  "pos_in_order cfg idx =
     (let n = length (takeWhile (\<lambda>i. i \<noteq> idx) (wc_order cfg))
      in if n < length (wc_order cfg) then int n else -1)"

text \<open>A position that vanished restarts at the head.\<close>

definition resume_after :: "walk_config \<Rightarrow> int \<Rightarrow> nat" where
  "resume_after cfg idx = nat (pos_in_order cfg idx + 1)"

definition next_lane :: "cont \<Rightarrow> control" where
  "next_lane k = (case k of Resume pos park \<Rightarrow> Walk pos park None | Resume_Legacy pos \<Rightarrow> Legacy pos)"

definition gates :: "env \<Rightarrow> walk_config \<Rightarrow> int \<Rightarrow> nat \<Rightarrow> walk \<Rightarrow> bool \<times> walk" where
  "gates en cfg idx e w =
     (case walk_gates (wc_routing cfg) (wk_skip_hinted w) (en_now en (wk_tick w)) idx
             \<lparr>gs_lane = lane_of w e, gs_hints = wp_hints (wk_pool w), gs_buckets = wk_buckets w\<rparr> of
        (skip, g) \<Rightarrow>
          (skip, put_lane e (gs_lane g) (put_hints (gs_hints g) (with_buckets (\<lambda>_. gs_buckets g) w))))"

text \<open>The lane a position of the order stands for; positions outside the snapshot are skipped.\<close>

definition lane_at :: "walk_config \<Rightarrow> nat \<Rightarrow> (int \<times> nat) option" where
  "lane_at cfg pos =
     (let idx = wc_order cfg ! pos
      in if 0 \<le> idx \<and> idx < int (length (wc_toks cfg)) then Some (idx, wc_toks cfg ! nat idx) else None)"

definition warm_free :: "env \<Rightarrow> walk_config \<Rightarrow> int \<Rightarrow> nat \<Rightarrow> walk \<Rightarrow> bool" where
  "warm_free en cfg idx e w \<longleftrightarrow>
     lane_admissible (wc_routing cfg) (wk_skip_hinted w) (en_now en (wk_tick w)) idx (lane_of w e)
       (wp_hints (wk_pool w)) \<and>
     session_usable_for_model (en_now en (wk_tick w)) (ln_session (lane_of w e)) (rt_model (wc_routing cfg)) \<and>
     fst (en_slot en (wk_tick w) e)"

definition scan_step :: "env \<Rightarrow> walk_config \<Rightarrow> nat \<Rightarrow> walk \<Rightarrow> walk" where
  "scan_step en cfg pos w =
     (if pos \<ge> length (wc_order cfg) \<or> en_cancelled en (wk_tick w) then go (Walk 0 True None) w
      else case lane_at cfg pos of
        None \<Rightarrow> go (Scan (pos + 1)) w
      | Some (idx, e) \<Rightarrow>
          if warm_free en cfg idx e w
          then go (Admit idx e (Some (wk_tick w)) (Resume (resume_after cfg idx) True)) (emit [Take (wk_tick w) e] w)
          else go (Scan (pos + 1)) w)"

definition full_lane_signal :: "slot_queue_exhausted option \<Rightarrow> int \<Rightarrow> int \<Rightarrow> int \<Rightarrow> slot_queue_exhausted" where
  "full_lane_signal src idx cap n =
     \<lparr>qe_reason = (case src of Some q \<Rightarrow> qe_reason q | None \<Rightarrow> Queue_Timeout), qe_token = idx + 1,
      qe_cap = cap, qe_live = n, qe_wait = (case src of Some q \<Rightarrow> qe_wait q | None \<Rightarrow> 0)\<rparr>"

text \<open>A spill hop: the next control when the budget allows it, else the tail.\<close>

definition spill_or_tail :: "walk_config \<Rightarrow> slot_queue_exhausted \<Rightarrow> control \<Rightarrow> walk \<Rightarrow> walk" where
  "spill_or_tail cfg q c w =
     (case spill_note q (wc_cap cfg) (spill (wk_buckets w)) of
        (again, s) \<Rightarrow>
          let w1 = with_buckets (\<lambda>b. b\<lparr>spill := s\<rparr>) w
          in if again then go c w1 else to_tail cfg w1)"

definition walk_at :: "env \<Rightarrow> walk_config \<Rightarrow> nat \<Rightarrow> bool \<Rightarrow> slot_queue_exhausted option \<Rightarrow> walk \<Rightarrow> walk" where
  "walk_at en cfg pos park q w =
     (if pos \<ge> length (wc_order cfg) then to_tail cfg w
      else if en_cancelled en (wk_tick w) then go (Done (Failed Context_Ended)) w
      else case lane_at cfg pos of
        None \<Rightarrow> go (Walk (pos + 1) park q) w
      | Some (idx, e) \<Rightarrow>
          (case gates en cfg idx e w of
             (True, w1) \<Rightarrow> go (Walk (pos + 1) park q) w1
           | (False, w1) \<Rightarrow>
               (case en_slot en (wk_tick w) e of
                  (True, _) \<Rightarrow>
                    go (Admit idx e (Some (wk_tick w)) (Resume (pos + 1) park)) (emit [Take (wk_tick w) e] w1)
                | (False, n) \<Rightarrow>
                    if park then go (Park pos) w1
                    else spill_or_tail cfg (full_lane_signal q idx (wc_cap cfg) n)
                           (Walk (pos + 1) park q) w1)))"

definition add_wait :: "duration \<Rightarrow> buckets \<Rightarrow> buckets" where
  "add_wait d b = b\<lparr>queue_wait := queue_wait b + d\<rparr>"

definition timed_out :: "slot_queue_exhausted \<Rightarrow> buckets \<Rightarrow> buckets" where
  "timed_out q b = (if qe_reason q = Queue_Timeout then add_wait (qe_wait q) b else b)"

definition park_step :: "env \<Rightarrow> walk_config \<Rightarrow> nat \<Rightarrow> walk \<Rightarrow> walk" where
  "park_step en cfg pos w =
     (case en_park en (wk_tick w) of
        Queue_Refused q \<Rightarrow>
          spill_or_tail cfg q (Walk (pos + 1) False (Some q)) (with_buckets (timed_out q) w)
      | Wait_Cancelled \<Rightarrow> go (Done (Failed Context_Ended)) w
      | Lane_Handed idx e d \<Rightarrow>
          go (Admit idx e (Some (wk_tick w)) (Resume (resume_after cfg idx) False))
            (emit [Take (wk_tick w) e] (with_buckets (add_wait d) w)))"

definition legacy_step :: "env \<Rightarrow> walk_config \<Rightarrow> nat \<Rightarrow> walk \<Rightarrow> walk" where
  "legacy_step en cfg pos w =
     (if pos \<ge> length (wc_order cfg) then to_tail cfg w
      else if en_cancelled en (wk_tick w) then go (Done (Failed Context_Ended)) w
      else case lane_at cfg pos of
        None \<Rightarrow> go (Legacy (pos + 1)) w
      | Some (idx, e) \<Rightarrow>
          (case gates en cfg idx e w of
             (True, w1) \<Rightarrow> go (Legacy (pos + 1)) w1
           | (False, w1) \<Rightarrow> go (Admit idx e None (Resume_Legacy (pos + 1))) w1))"

section \<open>Admission on a lane\<close>

text \<open>\<open>admitOnLane\<close> up to the session admission: the seat is counted first, and a lane whose entry
  left the roster is left without contact.\<close>

definition leave :: "nat \<Rightarrow> nat option \<Rightarrow> control \<Rightarrow> walk \<Rightarrow> walk" where
  "leave e p c w = go c (emit [Seat_Down e] (release p w))"

definition admit_step :: "walk_config \<Rightarrow> int \<Rightarrow> nat \<Rightarrow> nat option \<Rightarrow> cont \<Rightarrow> walk \<Rightarrow> walk" where
  "admit_step cfg idx e p k w =
     (let w1 = emit [Seat_Up e] w
      in if \<not> still_current w1 idx e then leave e p (next_lane k) w1
         else go (In_Session idx e p k) w1)"

definition quota_requeue :: "walk_config \<Rightarrow> classified_error \<Rightarrow> bool" where
  "quota_requeue cfg c \<longleftrightarrow>
     (case ce_rate_limited c of
        None \<Rightarrow> False
      | Some r \<Rightarrow>
          \<not> auth_rejected c \<and> ce_banned c = None \<and> ce_ip_capped c = None \<and> ce_country c = None \<and>
          ce_limited_ip c = None \<and> wc_cap cfg > 0 \<and> 0 < rl_retry_after r \<and> rl_retry_after r \<le> wc_wait cfg)"

definition spend_event :: "nat \<Rightarrow> classified_error \<Rightarrow> effect list" where
  "spend_event e c = (if spend_limited c then [Spend_Limited e] else [])"

definition record_rate_limit ::
  "walk_config \<Rightarrow> go_time \<Rightarrow> int \<Rightarrow> nat \<Rightarrow> classified_error \<Rightarrow> walk \<Rightarrow> walk" where
  "record_rate_limit cfg now idx e c w =
     (case ce_rate_limited c of
        None \<Rightarrow> w
      | Some r \<Rightarrow>
          let model = rt_model (wc_routing cfg);
              t = tag_rate_limit_model r model;
              l = lane_of w e
          in emit (spend_event e c)
               (put_lane e (l\<lparr>ln_cool := remember_model_rate_limit now model (Some t) (ln_cool l)\<rparr>)
                 (with_buckets (append_rate_limit t idx) w)))"

definition record_ban ::
  "walk_config \<Rightarrow> go_time \<Rightarrow> nat \<Rightarrow> lane_error \<Rightarrow> classified_error \<Rightarrow> walk \<Rightarrow> walk" where
  "record_ban cfg now e le c w =
     (case ce_banned c of
        None \<Rightarrow> w
      | Some b \<Rightarrow>
          let l = lane_of w e;
              err = (case le of Refusal g \<Rightarrow> g | Session_Wait _ \<Rightarrow> Other '''');
              l1 = (if ban_live now (ln_cool l) \<noteq> None then quarantine_token ''banned'' now err l else l)
          in with_buckets (add_ban b)
               (put_hints (store_ban_hint (rt_hash (wc_routing cfg)) now l1 (wp_hints (wk_pool w)))
                 (put_lane e l1 w)))"

text \<open>One refusal of a lane, by the session (\<open>run = False\<close>) or by the run start: the limited-IP refusal
  is surfaced directly only on the session path.\<close>

definition refuse ::
  "env \<Rightarrow> walk_config \<Rightarrow> bool \<Rightarrow> int \<Rightarrow> nat \<Rightarrow> nat option \<Rightarrow> cont \<Rightarrow> lane_error \<Rightarrow> walk \<Rightarrow> walk" where
  "refuse en cfg run idx e p k le w =
     (let now = en_now en (wk_tick w);
          l = lane_of w e
      in case classify_and_cooldown now le (ln_cool l) of
        (c, cool) \<Rightarrow>
          let w1 = put_lane e (l\<lparr>ln_cool := cool\<rparr>) w;
              w2 = (case le of
                      Session_Wait x \<Rightarrow> with_buckets (\<lambda>b. b\<lparr>waiting := waiting b @ [x]\<rparr>) w1
                    | Refusal _ \<Rightarrow> w1)
          in if quota_requeue cfg c
             then go (Jail idx e p k now) (emit (spend_event e c @ [Jailed e]) w2)
             else
               let w3 = record_rate_limit cfg now idx e c w2
               in case ce_ip_capped c of
                 Some x \<Rightarrow> leave e p (Done (Failed (Ip_Cap_Refusal x))) w3
               | None \<Rightarrow>
                   let w4 = record_ban cfg now e le c w3
                   in case ce_country c of
                     Some x \<Rightarrow>
                       leave e p (Done (Failed (Country_Refusal x)))
                         (put_hints (store_country_hint (rt_hash (wc_routing cfg)) (lane_of w4 e)
                            (now + country_block_window (wc_country_window cfg)) (wp_hints (wk_pool w4))) w4)
                   | None \<Rightarrow>
                       (case (if run then None else ce_limited_ip c) of
                          Some x \<Rightarrow>
                            leave e p (Done (Failed (Limited_Ip_Refusal
                              (tag_limited_ip_model x (rt_model (wc_routing cfg)))))) w4
                        | None \<Rightarrow>
                            leave e p (next_lane k) (with_buckets (add_note (Lane_Failed idx le)) w4)))"

definition session_step :: "env \<Rightarrow> walk_config \<Rightarrow> int \<Rightarrow> nat \<Rightarrow> nat option \<Rightarrow> cont \<Rightarrow> walk \<Rightarrow> walk" where
  "session_step en cfg idx e p k w =
     (case en_session en (wk_tick w) e of
        Inl le \<Rightarrow> refuse en cfg False idx e p k le w
      | Inr inst \<Rightarrow>
          let l = lane_of w e;
              w1 = put_hints (clear_cooldown_hint_for (rt_hash (wc_routing cfg)) (ln_token l) (wp_hints (wk_pool w)))
                     (put_lane e (l\<lparr>ln_cool := clear_cooldowns (ln_cool l)\<rparr>) w)
          in if still_current w1 idx e then go (In_Run idx e p k inst) w1
             else leave e p (next_lane k) w1)"

definition effective_model :: "walk_config \<Rightarrow> lane \<Rightarrow> string \<times> string" where
  "effective_model cfg l =
     (let bound = ss_model (ln_session l)
      in if bound \<noteq> '''' \<and> bound \<noteq> rt_model (wc_routing cfg)
         then (bound, case wc_agent_for cfg bound of Some a \<Rightarrow> a | None \<Rightarrow> wc_agent cfg)
         else (rt_model (wc_routing cfg), wc_agent cfg))"

definition run_step_of :: "env \<Rightarrow> walk_config \<Rightarrow> int \<Rightarrow> nat \<Rightarrow> nat option \<Rightarrow> cont \<Rightarrow> string \<Rightarrow> walk \<Rightarrow> walk" where
  "run_step_of en cfg idx e p k inst w =
     (case effective_model cfg (lane_of w e) of
        (model, agent) \<Rightarrow>
          (case en_run en (wk_tick w) e agent of
             Inl le \<Rightarrow> refuse en cfg True idx e p k le w
           | Inr r \<Rightarrow>
               let w1 = emit [Run_Leased e r] w
               in if still_current w1 idx e
                  then go (Done (Granted \<lparr>lease_token = idx, lease_model = model, lease_agent = agent,
                         lease_run = r, lease_instance = inst, lease_entry = e, lease_permit = p,
                         lease_queue_wait = queue_wait (wk_buckets w1)\<rparr>))
                         (emit [Served e model] w1)
                  else leave e p (next_lane k) (emit [Run_Returned e r] w1)))"

section \<open>Waiting out a short quota window\<close>

definition waited :: "env \<Rightarrow> go_time \<Rightarrow> walk \<Rightarrow> walk" where
  "waited en start w = with_buckets (add_wait (en_now en (wk_tick w) - start)) w"

definition jail_step :: "env \<Rightarrow> int \<Rightarrow> nat \<Rightarrow> nat option \<Rightarrow> cont \<Rightarrow> go_time \<Rightarrow> walk \<Rightarrow> walk" where
  "jail_step en idx e p k start w =
     (if en_jail_cancelled en (wk_tick w) then leave e p (Done (Failed Context_Ended)) w
      else if still_current w idx e then go (Retry idx e p) (emit [Seat_Down e] (waited en start w))
      else go (Rescan 0 e k start) (release p w))"

definition rescan_step :: "env \<Rightarrow> walk_config \<Rightarrow> nat \<Rightarrow> nat \<Rightarrow> cont \<Rightarrow> go_time \<Rightarrow> walk \<Rightarrow> walk" where
  "rescan_step en cfg pos e0 k start w =
     (if pos \<ge> length (wc_order cfg) \<or> en_cancelled en (wk_tick w) then go (Repark e0 k start) w
      else case lane_at cfg pos of
        None \<Rightarrow> go (Rescan (pos + 1) e0 k start) w
      | Some (idx, e) \<Rightarrow>
          if warm_free en cfg idx e w
          then go (Retry idx e (Some (wk_tick w))) (emit [Take (wk_tick w) e, Seat_Down e0] (waited en start w))
          else go (Rescan (pos + 1) e0 k start) w)"

definition repark_step :: "env \<Rightarrow> walk_config \<Rightarrow> nat \<Rightarrow> cont \<Rightarrow> go_time \<Rightarrow> walk \<Rightarrow> walk" where
  "repark_step en cfg e0 k start w =
     (case en_park en (wk_tick w) of
        Queue_Refused q \<Rightarrow>
          spill_or_tail cfg q (next_lane k) (emit [Seat_Down e0] (with_buckets (timed_out q) w))
      | Wait_Cancelled \<Rightarrow> go (Done (Failed Context_Ended)) (emit [Seat_Down e0] w)
      | Lane_Handed idx e _ \<Rightarrow>
          go (Retry idx e (Some (wk_tick w))) (emit [Take (wk_tick w) e, Seat_Down e0] (waited en start w)))"

definition retry_step :: "env \<Rightarrow> walk_config \<Rightarrow> int \<Rightarrow> nat \<Rightarrow> nat option \<Rightarrow> walk \<Rightarrow> walk" where
  "retry_step en cfg idx e p w =
     (if p = None then go (Walk 0 True None) w
      else if en_cancelled en (wk_tick w) then go (Done (Failed Context_Ended)) (release p w)
      else if \<not> still_current w idx e then go (Walk 0 True None) (release p w)
      else case gates en cfg idx e w of
        (True, w1) \<Rightarrow> go (Walk (resume_after cfg idx) True None) (release p w1)
      | (False, w1) \<Rightarrow> go (Admit idx e p (Resume (resume_after cfg idx) True)) w1)"

section \<open>The machine\<close>

definition control_step :: "env \<Rightarrow> walk_config \<Rightarrow> walk \<Rightarrow> walk" where
  "control_step en cfg w =
     (case wk_control w of
        Scan pos \<Rightarrow> scan_step en cfg pos w
      | Walk pos park q \<Rightarrow> walk_at en cfg pos park q w
      | Park pos \<Rightarrow> park_step en cfg pos w
      | Legacy pos \<Rightarrow> legacy_step en cfg pos w
      | Admit idx e p k \<Rightarrow> admit_step cfg idx e p k w
      | In_Session idx e p k \<Rightarrow> session_step en cfg idx e p k w
      | In_Run idx e p k inst \<Rightarrow> run_step_of en cfg idx e p k inst w
      | Jail idx e p k start \<Rightarrow> jail_step en idx e p k start w
      | Rescan pos e0 k start \<Rightarrow> rescan_step en cfg pos e0 k start w
      | Repark e0 k start \<Rightarrow> repark_step en cfg e0 k start w
      | Retry idx e p \<Rightarrow> retry_step en cfg idx e p w
      | Done out \<Rightarrow> w)"

definition walk_step :: "env \<Rightarrow> walk_config \<Rightarrow> walk \<Rightarrow> walk" where
  "walk_step en cfg w =
     (case wk_control w of
        Done out \<Rightarrow> w
      | _ \<Rightarrow> (control_step en cfg (w\<lparr>wk_pool := en_pool en (wk_tick w) (wk_pool w)\<rparr>))
               \<lparr>wk_tick := wk_tick w + 1\<rparr>)"

definition start_walk :: "env \<Rightarrow> walk_config \<Rightarrow> walk_pool \<Rightarrow> walk" where
  "start_walk en cfg pool =
     \<lparr>wk_control = (if wc_cap cfg \<le> 0 then Legacy 0 else Scan 0), wk_pool = pool,
      wk_buckets = new_buckets (wc_max_spill cfg),
      wk_skip_hinted =
        hint_skippable (rt_hash (wc_routing cfg)) (en_now en 0) (map (wp_lanes pool) (wc_toks cfg))
          (wc_order cfg) (wp_hints pool),
      wk_tick = 0, wk_trace = []\<rparr>"

fun walk_run :: "env \<Rightarrow> walk_config \<Rightarrow> nat \<Rightarrow> walk \<Rightarrow> walk" where
  "walk_run en cfg 0 w = w"
| "walk_run en cfg (Suc n) w = walk_step en cfg (walk_run en cfg n w)"

text \<open>\<open>Acquire\<close>: the drain gate, the empty pool, the registry and the pins come first.\<close>

datatype acquire_entry =
    Refused_Draining
  | Refused_No_Tokens
  | Refused_Model
  | Refused_Pinned acquire_error
  | Start_Walk walk_config

definition acquire ::
  "bool \<Rightarrow> (string \<Rightarrow> string option) \<Rightarrow> go_time \<Rightarrow> routing \<Rightarrow> slot_config \<Rightarrow> int \<Rightarrow> duration \<Rightarrow> walk_pool \<Rightarrow>
     acquire_entry \<times> walk_pool" where
  "acquire draining agent_for now rt sc max_spill country pool =
     (let toks = wp_roster pool
      in if draining then (Refused_Draining, pool)
         else if toks = [] then (Refused_No_Tokens, pool)
         else case agent_for (rt_model rt) of
           None \<Rightarrow> (Refused_Model, pool)
         | Some agent \<Rightarrow>
             if all_pinned_out rt (length toks)
             then (Refused_Pinned (Pin_Fail_Fast (rt_model rt) (length toks)),
                   pool\<lparr>wp_lanes := (\<lambda>e. if e \<in> set toks
                          then (wp_lanes pool e)\<lparr>ln_pin_skips := ln_pin_skips (wp_lanes pool e) + 1\<rparr>
                          else wp_lanes pool e)\<rparr>)
             else case spill_order rt now (map (wp_lanes pool) toks) (wp_hints pool) of
               (order, quota, ls, hs) \<Rightarrow>
                 (case slot_params (Some sc) of
                    (cap, depth, wait) \<Rightarrow>
                      (Start_Walk \<lparr>wc_routing = rt, wc_agent = agent, wc_agent_for = agent_for, wc_toks = toks,
                         wc_order = order, wc_quota_limited = quota, wc_cap = cap, wc_wait = wait,
                         wc_max_spill = max_spill, wc_country_window = country\<rparr>,
                       pool\<lparr>wp_lanes := fold (\<lambda>(e, l) f. f(e := l)) (zip toks ls) (wp_lanes pool),
                            wp_hints := hs\<rparr>)))"

end
