(* ===== verification/Acquire_Properties.thy ===== *)
theory Acquire_Properties
  imports Acquire_Walk
begin

text \<open>
  What a walk guarantees: its gates agree with their mirror, it keeps exactly the permit, the seat
  and the run its place in the code accounts for, it ends unless it is jailed again and again, and
  the error it surfaces is the best of its buckets; and two ways in which it serves a request worse
  than the pool could.
\<close>

section \<open>The gates and their mirror\<close>

lemma gates_mirror:
  "fst (walk_gates rt sh now idx g) \<longleftrightarrow>
     \<not> lane_admissible rt sh now idx (gs_lane g) (gs_hints g)"
proof -
  have mem: "fst (memory_gate rt now idx g') \<longleftrightarrow> fst (model_rate_limit now (rt_model rt) (ln_cool (gs_lane g'))) \<noteq> None"
    for g' by (auto simp: memory_gate_def Let_def split: prod.split option.split)
  have cool: "fst (cooldown_gate rt now idx g') \<longleftrightarrow>
      ((before now (cooldown_until (ln_cool (gs_lane g'))) \<or> ban_live now (ln_cool (gs_lane g')) \<noteq> None) \<and>
       \<not> can_serve_other_model (rate_limit_live now (ln_cool (gs_lane g'))) (rt_model rt)) \<or>
      fst (model_rate_limit now (rt_model rt) (ln_cool (gs_lane g'))) \<noteq> None" for g'
    by (simp add: cooldown_gate_def Let_def mem)
  have pin: "fst (pin_gate rt now idx g') \<longleftrightarrow> pinned_out rt idx \<or> fst (capped rt now (gs_lane g')) \<or>
      fst (cooldown_gate rt now idx g')" for g'
    by (simp add: pin_gate_def Let_def)
  have quar: "fst (quarantine_gate rt now idx g') \<longleftrightarrow>
      (case ln_quarantine (gs_lane g') of None \<Rightarrow> False | Some q \<Rightarrow> \<not> quarantine_lifted now q) \<or>
      fst (pin_gate rt now idx g')" for g'
    by (auto simp: quarantine_gate_def clear_lifted_quarantine_def pin cool capped_def Let_def
        split: option.split)
  have hint: "fst (walk_gates rt sh now idx g) \<longleftrightarrow> ln_locked (gs_lane g) \<or>
      (sh \<and> ln_token (gs_lane g) \<noteq> '''' \<and> fst (hint_fresh (rt_hash rt (ln_token (gs_lane g))) now (gs_hints g))) \<or>
      fst (quarantine_gate rt now idx g)"
    by (auto simp: walk_gates_def Let_def quar pin cool split: prod.split bool.split)
  show ?thesis
    by (auto simp: hint lane_admissible_def quar pin cool quarantine_lifted_def split: option.split)
qed

text \<open>A lane that passes is not written about; a lane that is skipped is noted exactly once, unless an
  operator locked it.\<close>

lemma gates_note:
  assumes "walk_gates rt sh now idx g = (skip, g')"
  shows "if skip \<and> \<not> ln_locked (gs_lane g)
     then \<exists>note. errs (gs_buckets g') = errs (gs_buckets g) @ [note]
     else gs_buckets g' = gs_buckets g"
proof -
  have mem: "memory_gate rt now idx x = (b, y) \<Longrightarrow> if b then \<exists>note. errs (gs_buckets y) = errs (gs_buckets x) @ [note]
      else gs_buckets y = gs_buckets x" for x y b
    by (auto simp: memory_gate_def Let_def add_note_def append_rate_limit_def split: prod.splits option.splits)
  have cool: "cooldown_gate rt now idx x = (b, y) \<Longrightarrow> if b then \<exists>note. errs (gs_buckets y) = errs (gs_buckets x) @ [note]
      else gs_buckets y = gs_buckets x" for x y b
    by (auto simp: cooldown_gate_def Let_def add_note_def add_ban_def append_rate_limit_def
        split: option.splits if_splits dest: mem)
  have pin: "pin_gate rt now idx x = (b, y) \<Longrightarrow> if b then \<exists>note. errs (gs_buckets y) = errs (gs_buckets x) @ [note]
      else gs_buckets y = gs_buckets x" for x y b
    by (auto simp: pin_gate_def Let_def add_note_def append_rate_limit_def split: if_splits dest: cool)
  have quar: "quarantine_gate rt now idx x = (b, y) \<Longrightarrow> if b then \<exists>note. errs (gs_buckets y) = errs (gs_buckets x) @ [note]
      else gs_buckets y = gs_buckets x" for x y b
    by (auto simp: quarantine_gate_def Let_def add_note_def add_ban_def dest!: pin
        split: option.splits if_splits prod.splits bool.splits go_error.splits)
  show ?thesis
    using assms
    by (auto simp: walk_gates_def Let_def add_note_def dest!: quar split: if_splits prod.splits bool.splits)
qed

section \<open>What a walk holds\<close>

text \<open>A log of openings and closings, and what it leaves open; a closing of what is not open is an
  error.\<close>

fun settle :: "('e \<Rightarrow> 'a option) \<Rightarrow> ('e \<Rightarrow> 'a option) \<Rightarrow> 'a list \<Rightarrow> 'e list \<Rightarrow> 'a list option" where
  "settle opens closes held [] = Some held"
| "settle opens closes held (x # xs) =
     (case opens x of
        Some a \<Rightarrow> settle opens closes (a # held) xs
      | None \<Rightarrow>
          (case closes x of
             Some a \<Rightarrow> if a \<in> set held then settle opens closes (remove1 a held) xs else None
           | None \<Rightarrow> settle opens closes held xs))"

lemma settle_append:
  "settle opens closes held (xs @ ys) =
     (case settle opens closes held xs of None \<Rightarrow> None | Some h \<Rightarrow> settle opens closes h ys)"
  by (induction xs arbitrary: held) (auto split: option.split)

text \<open>Where no event both opens and closes, a log that settles opens what it closes and what it
  holds, each as often.\<close>

locale ledger_log =
  fixes opens :: "'e \<Rightarrow> 'a option"
    and closes :: "'e \<Rightarrow> 'a option"
  assumes exclusive: "opens x \<noteq> None \<Longrightarrow> closes x = None"
begin

definition opened :: "'a \<Rightarrow> 'e list \<Rightarrow> nat" where
  "opened a xs = length (filter (\<lambda>x. opens x = Some a) xs)"

definition closed :: "'a \<Rightarrow> 'e list \<Rightarrow> nat" where
  "closed a xs = length (filter (\<lambda>x. closes x = Some a) xs)"

lemma settle_counts:
  "settle opens closes held xs = Some h \<Longrightarrow> opened a xs + count_list held a = closed a xs + count_list h a"
proof (induction xs arbitrary: held)
  case Nil
  then show ?case by (simp add: opened_def closed_def)
next
  case (Cons x xs)
  have rem: "count_list (remove1 b ys) a = (if a = b then count_list ys a - 1 else count_list ys a)" for b ys
    by (induction ys) auto
  have pos: "b \<in> set ys \<Longrightarrow> 0 < count_list ys b" for b ys
    using count_list_0_iff[of ys b] by (cases "count_list ys b") auto
  show ?case
    using Cons.prems Cons.IH exclusive[of x]
    by (fastforce simp: opened_def closed_def rem dest: pos split: option.splits if_splits)
qed

lemma settled_equal:
  "settle opens closes [] xs = Some h \<Longrightarrow> opened a xs = closed a xs + count_list h a"
  using settle_counts[of "[]" xs h a] by simp

end

interpretation permit_log: ledger_log "\<lambda>x. case x of Take i _ \<Rightarrow> Some i | _ \<Rightarrow> None"
  "\<lambda>x. case x of Give_Back i \<Rightarrow> Some i | _ \<Rightarrow> None"
  by unfold_locales (auto split: effect.splits)

interpretation seat_log: ledger_log "\<lambda>x. case x of Seat_Up e \<Rightarrow> Some e | _ \<Rightarrow> None"
  "\<lambda>x. case x of Seat_Down e \<Rightarrow> Some e | _ \<Rightarrow> None"
  by unfold_locales (auto split: effect.splits)

interpretation run_log: ledger_log "\<lambda>x. case x of Run_Leased e r \<Rightarrow> Some (e, r) | _ \<Rightarrow> None"
  "\<lambda>x. case x of Run_Returned e r \<Rightarrow> Some (e, r) | _ \<Rightarrow> None"
  by unfold_locales (auto split: effect.splits)

definition open_permits :: "effect list \<Rightarrow> nat list option" where
  "open_permits = settle (\<lambda>x. case x of Take i _ \<Rightarrow> Some i | _ \<Rightarrow> None)
     (\<lambda>x. case x of Give_Back i \<Rightarrow> Some i | _ \<Rightarrow> None) []"

definition open_seats :: "effect list \<Rightarrow> nat list option" where
  "open_seats = settle (\<lambda>x. case x of Seat_Up e \<Rightarrow> Some e | _ \<Rightarrow> None)
     (\<lambda>x. case x of Seat_Down e \<Rightarrow> Some e | _ \<Rightarrow> None) []"

definition open_runs :: "effect list \<Rightarrow> (nat \<times> string) list option" where
  "open_runs = settle (\<lambda>x. case x of Run_Leased e r \<Rightarrow> Some (e, r) | _ \<Rightarrow> None)
     (\<lambda>x. case x of Run_Returned e r \<Rightarrow> Some (e, r) | _ \<Rightarrow> None) []"

definition books :: "walk \<Rightarrow> nat list option \<times> nat list option \<times> (nat \<times> string) list option" where
  "books w = (open_permits (wk_trace w), open_seats (wk_trace w), open_runs (wk_trace w))"

definition list_of :: "'a option \<Rightarrow> 'a list" where
  "list_of p = (case p of None \<Rightarrow> [] | Some a \<Rightarrow> [a])"

fun held_permits :: "control \<Rightarrow> nat list" where
  "held_permits (Admit idx e p k) = list_of p"
| "held_permits (In_Session idx e p k) = list_of p"
| "held_permits (In_Run idx e p k inst) = list_of p"
| "held_permits (Jail idx e p k start) = list_of p"
| "held_permits (Retry idx e p) = list_of p"
| "held_permits (Done (Granted l)) = list_of (lease_permit l)"
| "held_permits c = []"

fun held_seats :: "control \<Rightarrow> nat list" where
  "held_seats (In_Session idx e p k) = [e]"
| "held_seats (In_Run idx e p k inst) = [e]"
| "held_seats (Jail idx e p k start) = [e]"
| "held_seats (Rescan pos e0 k start) = [e0]"
| "held_seats (Repark e0 k start) = [e0]"
| "held_seats (Done (Granted l)) = [lease_entry l]"
| "held_seats c = []"

fun held_runs :: "control \<Rightarrow> (nat \<times> string) list" where
  "held_runs (Done (Granted l)) = [(lease_entry l, lease_run l)]"
| "held_runs c = []"

definition balanced :: "walk \<Rightarrow> bool" where
  "balanced w \<longleftrightarrow> books w =
     (Some (held_permits (wk_control w)), Some (held_seats (wk_control w)), Some (held_runs (wk_control w)))"

named_theorems bookkeeping

lemma same_trace [bookkeeping]:
  "books (go c w) = books w" "books (with_buckets f w) = books w" "books (put_lane e l w) = books w"
  "books (put_hints hs w) = books w" "books (w\<lparr>wk_tick := t\<rparr>) = books w" "books (w\<lparr>wk_pool := pl\<rparr>) = books w"
  "books (waited en start w) = books w"
  by (simp_all add: books_def go_def with_buckets_def put_lane_def put_hints_def waited_def)

lemma control_go [bookkeeping]:
  "wk_control (go c w) = c" "wk_control (w\<lparr>wk_tick := t\<rparr>) = wk_control w"
  by (simp_all add: go_def)

lemma books_emit [bookkeeping]: "books w = (Some ps, Some ss, Some rs) \<Longrightarrow>
    books (emit es w) =
      (settle (\<lambda>x. case x of Take i _ \<Rightarrow> Some i | _ \<Rightarrow> None) (\<lambda>x. case x of Give_Back i \<Rightarrow> Some i | _ \<Rightarrow> None) ps es,
       settle (\<lambda>x. case x of Seat_Up e \<Rightarrow> Some e | _ \<Rightarrow> None) (\<lambda>x. case x of Seat_Down e \<Rightarrow> Some e | _ \<Rightarrow> None) ss es,
       settle (\<lambda>x. case x of Run_Leased e r \<Rightarrow> Some (e, r) | _ \<Rightarrow> None)
         (\<lambda>x. case x of Run_Returned e r \<Rightarrow> Some (e, r) | _ \<Rightarrow> None) rs es)"
  by (auto simp: books_def emit_def open_permits_def open_seats_def open_runs_def settle_append split: option.splits)

lemma held_next [simp]:
  "held_permits (next_lane k) = []" "held_seats (next_lane k) = []" "held_runs (next_lane k) = []"
  by (simp_all add: next_lane_def split: cont.split)

lemma books_release [bookkeeping]:
  "books w = (Some (list_of p), Some ss, Some rs) \<Longrightarrow> books (release p w) = (Some [], Some ss, Some rs)"
  by (cases p) (simp_all add: release_def list_of_def books_emit)

lemma books_leave:
  "books w = (Some (list_of p), Some [e], Some []) \<Longrightarrow> books (leave e p c w) = (Some [], Some [], Some [])"
  by (simp add: leave_def bookkeeping)

lemma control_leave [bookkeeping]: "wk_control (leave e p c w) = c"
  by (simp add: leave_def go_def)

lemma books_gates [bookkeeping]: "books (snd (gates en cfg idx e w)) = books w"
  by (simp add: gates_def bookkeeping split: prod.split)

lemma books_record_rate_limit:
  "books w = (Some ps, Some ss, Some rs) \<Longrightarrow> books (record_rate_limit cfg now idx e c w) = books w"
  by (auto simp: record_rate_limit_def Let_def spend_event_def bookkeeping split: option.split)

lemma books_record_ban: "books (record_ban cfg now e le c w) = books w"
  by (simp add: record_ban_def Let_def bookkeeping split: option.split)

lemma books_spill: "books (spill_or_tail cfg q c w) = books w"
  by (simp add: spill_or_tail_def to_tail_def Let_def bookkeeping split: prod.split)

lemma control_spill:
  "wk_control (spill_or_tail cfg q c w) = c \<or> (\<exists>e. wk_control (spill_or_tail cfg q c w) = Done (Failed e))"
  by (auto simp: spill_or_tail_def to_tail_def Let_def go_def split: prod.split)

lemma refuse_balanced:
  assumes "books w = (Some (list_of p), Some [e], Some [])"
  shows "balanced (refuse en cfg run idx e p k le w)"
proof -
  obtain c cool where c: "classify_and_cooldown (en_now en (wk_tick w)) le (ln_cool (lane_of w e)) = (c, cool)"
    by fastforce
  define w1 where "w1 = put_lane e (lane_of w e\<lparr>ln_cool := cool\<rparr>) w"
  define w2 where "w2 = (case le of Session_Wait x \<Rightarrow> with_buckets (\<lambda>b. b\<lparr>waiting := waiting b @ [x]\<rparr>) w1
      | Refusal _ \<Rightarrow> w1)"
  have b2: "books w2 = (Some (list_of p), Some [e], Some [])"
    using assms by (simp add: w2_def w1_def bookkeeping split: lane_error.split)
  then have b3: "books (record_rate_limit cfg now idx e c w2) = (Some (list_of p), Some [e], Some [])" for now
    by (simp add: books_record_rate_limit)
  show ?thesis
    unfolding refuse_def Let_def c prod.case w1_def[symmetric] w2_def[symmetric]
    using b2 b3
    by (auto simp: balanced_def spend_event_def books_record_ban books_leave bookkeeping split: option.split)
qed

lemma spill_balanced:
  "books w = (Some [], Some [], Some []) \<Longrightarrow> held_permits c = [] \<Longrightarrow> held_seats c = [] \<Longrightarrow> held_runs c = [] \<Longrightarrow>
     balanced (spill_or_tail cfg q c w)"
  using control_spill[of cfg q c w] by (auto simp: balanced_def books_spill)

lemma gates_snd: "gates en cfg idx e w = (b, w1) \<Longrightarrow> books w1 = books w"
  using books_gates[of en cfg idx e w] by simp

lemma step_balanced:
  assumes "balanced w"
  shows "balanced (control_step en cfg w)"
proof -
  note bal = assms[unfolded balanced_def]
  show ?thesis
  proof (cases "wk_control w")
    case (Scan pos)
    then show ?thesis using bal
      by (auto simp: control_step_def scan_step_def balanced_def bookkeeping list_of_def split: option.split)
  next
    case (Walk pos park q)
    then show ?thesis using bal
      by (auto simp: control_step_def walk_at_def balanced_def to_tail_def bookkeeping list_of_def
          dest!: gates_snd intro!: spill_balanced[unfolded balanced_def] split: option.split prod.split bool.split)
  next
    case (Park pos)
    then show ?thesis using bal
      by (auto simp: control_step_def park_step_def balanced_def bookkeeping list_of_def
          intro!: spill_balanced[unfolded balanced_def] split: park_result.split)
  next
    case (Legacy pos)
    then show ?thesis using bal
      by (auto simp: control_step_def legacy_step_def balanced_def to_tail_def bookkeeping list_of_def
          dest!: gates_snd split: option.split prod.split bool.split)
  next
    case (Admit idx e p k)
    then show ?thesis using bal
      by (auto simp: control_step_def admit_step_def Let_def balanced_def bookkeeping books_leave)
  next
    case (In_Session idx e p k)
    then show ?thesis using bal
      by (auto simp: control_step_def session_step_def Let_def bookkeeping books_leave balanced_def
          intro!: refuse_balanced[unfolded balanced_def] split: sum.split)
  next
    case (In_Run idx e p k inst)
    then show ?thesis using bal
      by (auto simp: control_step_def run_step_of_def Let_def bookkeeping books_leave balanced_def
          intro!: refuse_balanced[unfolded balanced_def] split: sum.split prod.split)
  next
    case (Jail idx e p k start)
    then show ?thesis using bal
      by (auto simp: control_step_def jail_step_def balanced_def bookkeeping books_leave)
  next
    case (Rescan pos e0 k start)
    then show ?thesis using bal
      by (auto simp: control_step_def rescan_step_def balanced_def bookkeeping list_of_def split: option.split)
  next
    case (Repark e0 k start)
    then show ?thesis using bal
      by (auto simp: control_step_def repark_step_def balanced_def bookkeeping list_of_def
          intro!: spill_balanced[unfolded balanced_def] split: park_result.split)
  next
    case (Retry idx e p)
    then show ?thesis using bal
      by (auto simp: control_step_def retry_step_def balanced_def bookkeeping list_of_def
          dest!: gates_snd split: prod.split bool.split)
  next
    case (Done out)
    then show ?thesis using assms by (simp add: control_step_def)
  qed
qed

section \<open>Where a permit was taken\<close>

text \<open>Under a cap a lane is worked on with a permit taken on that lane; without one, with none.\<close>

definition permit_for :: "bool \<Rightarrow> effect set \<Rightarrow> nat \<Rightarrow> nat option \<Rightarrow> bool" where
  "permit_for sm T e p = (case p of None \<Rightarrow> \<not> sm | Some i \<Rightarrow> sm \<and> Take i e \<in> T)"

fun smart_cont :: "cont \<Rightarrow> bool" where
  "smart_cont (Resume pos park) = True"
| "smart_cont (Resume_Legacy pos) = False"

fun placed :: "bool \<Rightarrow> effect set \<Rightarrow> control \<Rightarrow> bool" where
  "placed sm T (Scan pos) = sm"
| "placed sm T (Walk pos park q) = sm"
| "placed sm T (Park pos) = sm"
| "placed sm T (Legacy pos) = (\<not> sm)"
| "placed sm T (Admit idx e p k) = (smart_cont k = sm \<and> permit_for sm T e p)"
| "placed sm T (In_Session idx e p k) = (smart_cont k = sm \<and> permit_for sm T e p)"
| "placed sm T (In_Run idx e p k inst) = (smart_cont k = sm \<and> permit_for sm T e p)"
| "placed sm T (Jail idx e p k start) = (sm \<and> smart_cont k \<and> permit_for sm T e p)"
| "placed sm T (Rescan pos e0 k start) = (sm \<and> smart_cont k)"
| "placed sm T (Repark e0 k start) = (sm \<and> smart_cont k)"
| "placed sm T (Retry idx e p) = (sm \<and> permit_for sm T e p)"
| "placed sm T (Done (Granted l)) = permit_for sm T (lease_entry l) (lease_permit l)"
| "placed sm T (Done (Failed err)) = True"

definition well_placed :: "walk_config \<Rightarrow> walk \<Rightarrow> bool" where
  "well_placed cfg w \<longleftrightarrow> placed (0 < wc_cap cfg) (set (wk_trace w)) (wk_control w)"

lemma permit_for_mono: "permit_for sm T e p \<Longrightarrow> T \<subseteq> T' \<Longrightarrow> permit_for sm T' e p"
  by (auto simp: permit_for_def split: option.splits)

lemma placed_next: "smart_cont k = sm \<Longrightarrow> placed sm T (next_lane k)"
  by (auto simp: next_lane_def split: cont.split)

lemma trace_go [simp]:
  "wk_trace (go c w) = wk_trace w" "wk_trace (with_buckets f w) = wk_trace w" "wk_trace (put_lane e l w) = wk_trace w"
  "wk_trace (put_hints hs w) = wk_trace w" "wk_trace (waited en start w) = wk_trace w"
  "wk_trace (emit es w) = wk_trace w @ es"
  by (simp_all add: go_def with_buckets_def put_lane_def put_hints_def waited_def emit_def)

lemma trace_gates: "gates en cfg idx e w = (b, w1) \<Longrightarrow> wk_trace w1 = wk_trace w"
  by (auto simp: gates_def split: prod.splits)

lemma spill_placed:
  "placed sm (set (wk_trace w)) c \<Longrightarrow>
     placed sm (set (wk_trace (spill_or_tail cfg q c w))) (wk_control (spill_or_tail cfg q c w))"
  by (auto simp: spill_or_tail_def Let_def to_tail_def bookkeeping split: prod.split)

lemma refuse_placed:
  assumes "smart_cont k = sm" "permit_for sm (set (wk_trace w)) e p" "sm \<longleftrightarrow> 0 < wc_cap cfg"
  shows "well_placed cfg (refuse en cfg run idx e p k le w)"
  using assms
  by (auto simp: well_placed_def refuse_def Let_def bookkeeping quota_requeue_def placed_next
      intro: permit_for_mono split: prod.split option.split lane_error.split)

lemma step_placed:
  assumes "well_placed cfg w"
  shows "well_placed cfg (control_step en cfg w)"
proof -
  note wp = assms[unfolded well_placed_def]
  show ?thesis
  proof (cases "wk_control w")
    case (Scan pos)
    then show ?thesis using wp
      by (auto simp: control_step_def scan_step_def well_placed_def bookkeeping permit_for_def split: option.split)
  next
    case (Walk pos park q)
    then show ?thesis using wp
      by (auto simp: control_step_def walk_at_def well_placed_def to_tail_def bookkeeping permit_for_def
          intro!: spill_placed split: option.split prod.split bool.split)
  next
    case (Park pos)
    then show ?thesis using wp
      by (auto simp: control_step_def park_step_def well_placed_def bookkeeping permit_for_def
          intro!: spill_placed split: park_result.split)
  next
    case (Legacy pos)
    then show ?thesis using wp
      by (auto simp: control_step_def legacy_step_def well_placed_def to_tail_def bookkeeping permit_for_def
          split: option.split prod.split bool.split)
  next
    case (Admit idx e p k)
    then show ?thesis using wp
      by (auto simp: control_step_def admit_step_def Let_def well_placed_def bookkeeping placed_next
          intro: permit_for_mono)
  next
    case (In_Session idx e p k)
    then show ?thesis using wp
      by (auto simp: control_step_def session_step_def Let_def well_placed_def bookkeeping placed_next
          intro: refuse_placed[unfolded well_placed_def] permit_for_mono split: sum.split)
  next
    case (In_Run idx e p k inst)
    then show ?thesis using wp
      by (auto simp: control_step_def run_step_of_def Let_def well_placed_def bookkeeping placed_next
          intro: refuse_placed[unfolded well_placed_def] permit_for_mono split: sum.split prod.split)
  next
    case (Jail idx e p k start)
    then show ?thesis using wp
      by (auto simp: control_step_def jail_step_def well_placed_def bookkeeping intro: permit_for_mono)
  next
    case (Rescan pos e0 k start)
    then show ?thesis using wp
      by (auto simp: control_step_def rescan_step_def well_placed_def bookkeeping permit_for_def
          split: option.split)
  next
    case (Repark e0 k start)
    then show ?thesis using wp
      by (auto simp: control_step_def repark_step_def well_placed_def bookkeeping permit_for_def placed_next
          intro!: spill_placed split: park_result.split)
  next
    case (Retry idx e p)
    then show ?thesis using wp
      by (auto simp: control_step_def retry_step_def well_placed_def bookkeeping
          intro: permit_for_mono dest: trace_gates split: prod.split bool.split)
  next
    case (Done out)
    then show ?thesis using assms by (simp add: control_step_def)
  qed
qed

section \<open>How long a walk can take\<close>

text \<open>Between two quota waits every step lowers the rank; \<open>n\<close> is the length of the order.\<close>

definition cont_rank :: "nat \<Rightarrow> cont \<Rightarrow> nat" where
  "cont_rank n k =
     (case k of
        Resume pos park \<Rightarrow> 5 * (n - pos) + 1 + (if park then 5 * n + 10 else 0)
      | Resume_Legacy pos \<Rightarrow> 5 * (n - pos) + 1)"

fun rank :: "nat \<Rightarrow> control \<Rightarrow> nat" where
  "rank n (Scan pos) = (n - pos) + 10 * n + 20"
| "rank n (Walk pos park q) = 5 * (n - pos) + 1 + (if park then 5 * n + 10 else 0)"
| "rank n (Park pos) = 5 * n + 5"
| "rank n (Legacy pos) = 5 * (n - pos) + 1"
| "rank n (Admit idx e p k) = cont_rank n k + 3"
| "rank n (In_Session idx e p k) = cont_rank n k + 2"
| "rank n (In_Run idx e p k inst) = cont_rank n k + 1"
| "rank n (Jail idx e p k start) = 11 * n + 24"
| "rank n (Rescan pos e0 k start) = (n - pos) + 10 * n + 22"
| "rank n (Repark e0 k start) = 10 * n + 21"
| "rank n (Retry idx e p) = 10 * n + 20"
| "rank n (Done out) = 0"

definition turn_bound :: "nat \<Rightarrow> nat" where
  "turn_bound n = 11 * n + 25"

definition jails :: "walk \<Rightarrow> nat" where
  "jails w = length (filter (\<lambda>x. case x of Jailed e \<Rightarrow> True | _ \<Rightarrow> False) (wk_trace w))"

lemma rank_next [simp]: "rank n (next_lane k) = cont_rank n k"
  by (simp add: next_lane_def cont_rank_def split: cont.split)

lemma cont_rank_le: "cont_rank n k \<le> 10 * n + 11"
  by (auto simp: cont_rank_def split: cont.split)

lemma jails_same [simp]:
  "jails (go c w) = jails w" "jails (with_buckets f w) = jails w" "jails (put_lane e l w) = jails w"
  "jails (put_hints hs w) = jails w" "jails (w\<lparr>wk_tick := t\<rparr>) = jails w" "jails (w\<lparr>wk_pool := pl\<rparr>) = jails w"
  "jails (waited en start w) = jails w" "jails (release p w) = jails w"
  "jails (leave e p c w) = jails w" "jails (to_tail cfg w) = jails w"
  "jails (record_rate_limit cfg now idx e c' w) = jails w" "jails (record_ban cfg now e le c' w) = jails w"
  "jails (spill_or_tail cfg q c w) = jails w" "jails (snd (gates en cfg idx e w)) = jails w"
  by (simp_all add: jails_def go_def with_buckets_def put_lane_def put_hints_def waited_def release_def emit_def
      leave_def to_tail_def record_rate_limit_def record_ban_def spend_event_def spill_or_tail_def gates_def Let_def
      split: option.split prod.split)

lemma jails_emit [simp]:
  "jails (emit es w) = jails w + length (filter (\<lambda>x. case x of Jailed e \<Rightarrow> True | _ \<Rightarrow> False) es)"
  by (simp add: jails_def emit_def)

lemma gates_jails: "gates en cfg idx e w = (b, w1) \<Longrightarrow> jails w1 = jails w"
  using jails_same(14)[of en cfg idx e w] by simp

lemma control_tail [simp]: "wk_control (to_tail cfg w) = Done (Failed (walk_tail cfg (wk_buckets w)))"
  by (simp add: to_tail_def go_def)

lemma rank_spill: "rank n (wk_control (spill_or_tail cfg q c w)) \<le> rank n c"
  using control_spill[of cfg q c w] by auto

text \<open>A step that is not a quota wait lowers the rank; a quota wait is counted and bounded.\<close>

definition advances :: "nat \<Rightarrow> walk \<Rightarrow> walk \<Rightarrow> bool" where
  "advances n w v \<longleftrightarrow>
     jails v = jails w \<and> rank n (wk_control v) < rank n (wk_control w) \<or>
     jails v = jails w + 1 \<and> rank n (wk_control v) < turn_bound n"

lemma refuse_advances:
  assumes "0 < r" "r = cont_rank (length (wc_order cfg)) k + 1 \<or> r = cont_rank (length (wc_order cfg)) k + 2"
  shows "jails (refuse en cfg run idx e p k le w) = jails w \<and>
      rank (length (wc_order cfg)) (wk_control (refuse en cfg run idx e p k le w)) < r \<or>
    jails (refuse en cfg run idx e p k le w) = jails w + 1 \<and>
      rank (length (wc_order cfg)) (wk_control (refuse en cfg run idx e p k le w)) < turn_bound (length (wc_order cfg))"
  using assms
  by (auto simp: refuse_def Let_def bookkeeping spend_event_def turn_bound_def
      split: prod.split option.split lane_error.split)

lemma step_advances:
  assumes "\<forall>out. wk_control w \<noteq> Done out"
  shows "advances (length (wc_order cfg)) w (control_step en cfg w)"
proof -
  define n where "n = length (wc_order cfg)"
  note adv = advances_def bookkeeping n_def[symmetric]
  have spill: "rank n (wk_control (spill_or_tail cfg q c v)) < r" if "rank n c < r" for q c v r
    using rank_spill[of n cfg q c v] that by simp
  have c_le: "cont_rank n k \<le> 10 * n + 11" for k by (rule cont_rank_le)
  have resume: "cont_rank n (Resume pos True) \<le> 10 * n + 11" "cont_rank n (Resume pos False) \<le> 5 * n + 1" for pos
    by (simp_all add: cont_rank_def)
  have next_pos: "cont_rank n (Resume (pos + 1) park) + 3 < rank n (Walk pos park q)"
    "cont_rank n (Resume_Legacy (pos + 1)) + 3 < rank n (Legacy pos)" if "pos < n" for pos park q
    using that by (simp_all add: cont_rank_def Suc_diff_le[symmetric])
  have "advances n w (control_step en cfg w)"
  proof (cases "wk_control w")
    case (Scan pos)
    then show ?thesis using resume(1)[of "resume_after cfg (fst p)" for p]
      by (auto simp: control_step_def scan_step_def adv split: option.split intro: le_less_trans[OF add_right_mono[OF resume(1)]])
  next
    case (Walk pos park q)
    then show ?thesis using next_pos(1)[of pos park q]
      by (auto simp: control_step_def walk_at_def adv dest!: gates_jails intro!: spill
          split: option.split prod.split bool.split)
  next
    case (Park pos)
    then show ?thesis
      by (auto simp: control_step_def park_step_def adv intro!: spill
          split: park_result.split) (use resume(2) in \<open>auto simp: less_Suc_eq_le\<close>)
  next
    case (Legacy pos)
    then show ?thesis using next_pos(2)[of pos]
      by (auto simp: control_step_def legacy_step_def adv dest!: gates_jails
          split: option.split prod.split bool.split)
  next
    case (Admit idx e p k)
    then show ?thesis by (auto simp: control_step_def admit_step_def Let_def adv)
  next
    case (In_Session idx e p k)
    then show ?thesis
      using refuse_advances[of "cont_rank n k + 2" cfg k en False idx e p _ w] unfolding n_def[symmetric]
      by (auto simp: control_step_def session_step_def Let_def adv split: sum.split)
  next
    case (In_Run idx e p k inst)
    then show ?thesis
      using refuse_advances[of "cont_rank n k + 1" cfg k en True idx e p _ w] unfolding n_def[symmetric]
      by (auto simp: control_step_def run_step_of_def Let_def adv split: sum.split prod.split)
  next
    case (Jail idx e p k start)
    then show ?thesis by (auto simp: control_step_def jail_step_def adv)
  next
    case (Rescan pos e0 k start)
    then show ?thesis by (auto simp: control_step_def rescan_step_def adv split: option.split)
  next
    case (Repark e0 k start)
    then show ?thesis using c_le[of k]
      by (auto simp: control_step_def repark_step_def adv intro!: spill split: park_result.split)
  next
    case (Retry idx e p)
    then show ?thesis using resume(1)[of "resume_after cfg idx"]
      by (auto simp: control_step_def retry_step_def adv dest!: gates_jails split: prod.split bool.split)
  next
    case (Done out)
    then show ?thesis using assms by simp
  qed
  then show ?thesis by (simp add: n_def)
qed

lemma walk_step_control:
  "\<forall>out. wk_control w \<noteq> Done out \<Longrightarrow>
     walk_step en cfg w = (control_step en cfg (w\<lparr>wk_pool := en_pool en (wk_tick w) (wk_pool w)\<rparr>))\<lparr>wk_tick := wk_tick w + 1\<rparr>"
  by (cases "wk_control w") (simp_all add: walk_step_def)

text \<open>An invariant of the steps, whatever the pool becomes before each, holds along a walk.\<close>

lemma walk_invariant:
  assumes "I (start_walk en cfg pool)" "\<And>w. I w \<Longrightarrow> I (control_step en cfg w)"
    and "\<And>w pl. I w \<Longrightarrow> I (w\<lparr>wk_pool := pl\<rparr>)" "\<And>w t. I w \<Longrightarrow> I (w\<lparr>wk_tick := t\<rparr>)"
  shows "I (walk_run en cfg n (start_walk en cfg pool))"
proof (induction n)
  case 0
  then show ?case using assms(1) by simp
next
  case (Suc n)
  then show ?case
    by (cases "wk_control (walk_run en cfg n (start_walk en cfg pool))") (auto simp: walk_step_def intro: assms)
qed

lemma walk_placed: "well_placed cfg (walk_run en cfg n (start_walk en cfg pool))"
  by (rule walk_invariant) (auto simp: well_placed_def start_walk_def intro: step_placed[unfolded well_placed_def])

lemma walk_balanced: "balanced (walk_run en cfg n (start_walk en cfg pool))"
proof (rule walk_invariant)
  show "balanced (start_walk en cfg pool)"
    by (simp add: balanced_def books_def start_walk_def open_permits_def open_seats_def open_runs_def)
qed (auto simp: step_balanced[unfolded balanced_def] balanced_def bookkeeping)

lemma walk_progress:
  defines "m cfg \<equiv> length (wc_order cfg)"
  assumes "\<forall>out. wk_control (walk_run en cfg n (start_walk en cfg pool)) \<noteq> Done out"
  shows "n + rank (m cfg) (wk_control (walk_run en cfg n (start_walk en cfg pool)))
    < turn_bound (m cfg) * (jails (walk_run en cfg n (start_walk en cfg pool)) + 1)"
  using assms(2)
proof (induction n)
  case 0
  then show ?case by (simp add: start_walk_def jails_def turn_bound_def m_def)
next
  case (Suc n)
  let ?w = "walk_run en cfg n (start_walk en cfg pool)"
  let ?v = "?w\<lparr>wk_pool := en_pool en (wk_tick ?w) (wk_pool ?w)\<rparr>"
  have nd: "\<forall>out. wk_control ?w \<noteq> Done out"
    using Suc.prems by (auto simp: walk_step_def)
  have eq: "walk_run en cfg (Suc n) (start_walk en cfg pool) = (control_step en cfg ?v)\<lparr>wk_tick := wk_tick ?w + 1\<rparr>"
    by (simp add: walk_step_control[OF nd])
  have "advances (m cfg) ?v (control_step en cfg ?v)"
    unfolding m_def by (rule step_advances) (use nd in simp)
  then show ?case
    unfolding eq using Suc.IH[OF nd] by (auto simp: advances_def bookkeeping)
qed

section \<open>Concrete pools\<close>

definition demo_routing :: routing where
  "demo_routing = \<lparr>rt_model = ''glm'', rt_pins = Map.empty, rt_resolve = None, rt_premium = (\<lambda>_. False),
     rt_fmt = (\<lambda>_. ''''), rt_zone = None, rt_hash = (\<lambda>s. s)\<rparr>"

definition demo_config :: "int list \<Rightarrow> walk_config" where
  "demo_config order = \<lparr>wc_routing = demo_routing, wc_agent = ''base'', wc_agent_for = (\<lambda>_. Some ''base''),
     wc_toks = [0, 1], wc_order = order, wc_quota_limited = [], wc_cap = 2, wc_wait = 30 * second,
     wc_max_spill = 0, wc_country_window = 0\<rparr>"

definition cold_lane :: lane where
  "cold_lane = \<lparr>ln_token = ''t'', ln_locked = False, ln_quarantine = None, ln_cool = no_cooldown,
     ln_session = \<lparr>ss_status = ''none'', ss_instance = '''', ss_model = '''', ss_expires_at = zero_time,
       ss_grace_ends_at = zero_time, ss_freebucks = None\<rparr>, ln_pin_skips = 0\<rparr>"

definition warm_lane :: lane where
  "warm_lane = cold_lane\<lparr>ln_session := \<lparr>ss_status = ''active'', ss_instance = ''i'', ss_model = ''glm'',
     ss_expires_at = hour, ss_grace_ends_at = zero_time, ss_freebucks = None\<rparr>\<rparr>"


definition demo_pool :: "lane \<Rightarrow> lane \<Rightarrow> walk_pool" where
  "demo_pool l0 l1 = \<lparr>wp_lanes = (\<lambda>e. if e = 0 then l0 else l1), wp_roster = [0, 1], wp_hints = Map.empty\<rparr>"

text \<open>Nothing else happens to the pool, every lane has a free slot, entry 1 refuses admission with
  \<open>refusal\<close> and entry 0 admits.\<close>

definition demo_env :: "lane_error \<Rightarrow> env" where
  "demo_env refusal = \<lparr>en_pool = (\<lambda>_ p. p), en_now = int, en_cancelled = (\<lambda>_. False),
     en_slot = (\<lambda>_ _. (True, 1)), en_park = (\<lambda>_. Wait_Cancelled), en_jail_cancelled = (\<lambda>_. False),
     en_session = (\<lambda>_ e. if e = 1 then Inl refusal else Inr ''inst''), en_run = (\<lambda>_ _ _. Inr ''run'')\<rparr>"

definition auth_refusal :: lane_error where
  "auth_refusal = Refusal (Sentinel Err_Auth_Rejected)"




section \<open>The properties\<close>

text \<open>C9: \<open>walkGates\<close>, which a request runs before it takes a slot, and \<open>laneAdmissible\<close>, which hands
  slots to parked requests, give the same answer on every lane; a lane that passes leaves the
  request's error buckets as they were, and a lane that is skipped is noted exactly once, unless an
  operator locked it.\<close>

theorem gates_agree:
  "let (skip, g') = walk_gates rt sh now idx g
   in (skip \<longleftrightarrow> \<not> lane_admissible rt sh now idx (gs_lane g) (gs_hints g)) \<and>
      (if skip \<and> \<not> ln_locked (gs_lane g)
       then \<exists>note. errs (gs_buckets g') = errs (gs_buckets g) @ [note]
       else gs_buckets g' = gs_buckets g)"
proof -
  obtain skip g' where g: "walk_gates rt sh now idx g = (skip, g')" by fastforce
  have "skip \<longleftrightarrow> \<not> lane_admissible rt sh now idx (gs_lane g) (gs_hints g)"
    using gates_mirror[of rt sh now idx g] by (simp add: g)
  then show ?thesis using gates_note[OF g] by (simp only: g Let_def prod.case)
qed

text \<open>C1: however the pool changes and whatever the lanes answer, a walk that ends has given back
  every slot permit, seat and run it took, once each and never one it did not hold, except those of
  the lease it returns; under a cap the lease carries a permit, and it was taken on the lease's own
  lane; without a cap there is none.\<close>

theorem walk_keeps_only_the_lease:
  assumes "wk_control (walk_run en cfg n (start_walk en cfg pool)) = Done out"
  defines "tr \<equiv> wk_trace (walk_run en cfg n (start_walk en cfg pool))"
  shows "open_permits tr = Some (case out of Granted l \<Rightarrow> list_of (lease_permit l) | Failed _ \<Rightarrow> []) \<and>
    open_seats tr = Some (case out of Granted l \<Rightarrow> [lease_entry l] | Failed _ \<Rightarrow> []) \<and>
    open_runs tr = Some (case out of Granted l \<Rightarrow> [(lease_entry l, lease_run l)] | Failed _ \<Rightarrow> []) \<and>
    length (filter ((=) (Seat_Up e)) tr) =
      length (filter ((=) (Seat_Down e)) tr) + (case out of Granted l \<Rightarrow> if lease_entry l = e then 1 else 0 | Failed _ \<Rightarrow> 0) \<and>
    (case out of Failed _ \<Rightarrow> True | Granted l \<Rightarrow>
      (case lease_permit l of None \<Rightarrow> wc_cap cfg \<le> 0 | Some i \<Rightarrow> 0 < wc_cap cfg \<and> Take i (lease_entry l) \<in> set tr))"
proof (intro conjI)
  have b: "books (walk_run en cfg n (start_walk en cfg pool)) =
      (Some (held_permits (Done out)), Some (held_seats (Done out)), Some (held_runs (Done out)))"
    using walk_balanced[of en cfg n pool] by (simp add: balanced_def assms(1))
  have w: "placed (0 < wc_cap cfg) (set tr) (Done out)"
    using walk_placed[of cfg en n pool] by (simp add: well_placed_def assms(1) tr_def)
  show "open_permits tr = Some (case out of Granted l \<Rightarrow> list_of (lease_permit l) | Failed _ \<Rightarrow> [])"
    using b by (cases out) (simp_all add: books_def tr_def)
  show seats: "open_seats tr = Some (case out of Granted l \<Rightarrow> [lease_entry l] | Failed _ \<Rightarrow> [])"
    using b by (cases out) (simp_all add: books_def tr_def)
  show "open_runs tr = Some (case out of Granted l \<Rightarrow> [(lease_entry l, lease_run l)] | Failed _ \<Rightarrow> [])"
    using b by (cases out) (simp_all add: books_def tr_def)
  have eqs: "((case x of Seat_Up e \<Rightarrow> Some e | _ \<Rightarrow> None) = Some e) = (Seat_Up e = x)"
    "((case x of Seat_Down e \<Rightarrow> Some e | _ \<Rightarrow> None) = Some e) = (Seat_Down e = x)" for x
    by (auto split: effect.splits)
  show "length (filter ((=) (Seat_Up e)) tr) =
      length (filter ((=) (Seat_Down e)) tr) + (case out of Granted l \<Rightarrow> if lease_entry l = e then 1 else 0 | Failed _ \<Rightarrow> 0)"
    using seat_log.settled_equal[OF seats[unfolded open_seats_def], of e]
    by (cases out) (simp_all add: seat_log.opened_def seat_log.closed_def eqs)
  show "case out of Failed _ \<Rightarrow> True | Granted l \<Rightarrow>
      (case lease_permit l of None \<Rightarrow> wc_cap cfg \<le> 0 | Some i \<Rightarrow> 0 < wc_cap cfg \<and> Take i (lease_entry l) \<in> set tr)"
    using w by (cases out) (auto simp: permit_for_def split: option.splits)
qed

lemma walk_keeps_only_the_lease_witness:
  "open_seats (wk_trace (walk_run (demo_env auth_refusal) (demo_config [0, 1]) 4
     (start_walk (demo_env auth_refusal) (demo_config [0, 1]) (demo_pool warm_lane warm_lane)))) = Some [0]"
proof -
  define w where "w = walk_run (demo_env auth_refusal) (demo_config [0, 1]) 4
     (start_walk (demo_env auth_refusal) (demo_config [0, 1]) (demo_pool warm_lane warm_lane))"
  have "wk_control w = Done (Granted \<lparr>lease_token = 0, lease_model = ''glm'', lease_agent = ''base'',
      lease_run = ''run'', lease_instance = ''inst'', lease_entry = 0, lease_permit = Some 0, lease_queue_wait = 0\<rparr>)"
    unfolding w_def by code_simp
  from walk_keeps_only_the_lease[OF this[unfolded w_def]] show ?thesis by simp
qed

text \<open>C2: a walk ends. With \<open>L\<close> lanes in its order it takes fewer than \<open>11 * L + 25\<close> steps between two
  waits on a short quota window, whatever the pool and the lanes do, so a walk that waits on at most
  \<open>J\<close> of them has ended after \<open>(11 * L + 25) * (J + 1)\<close> steps; and once ended it stays ended.\<close>

theorem walk_ends:
  assumes "jails (walk_run en cfg n (start_walk en cfg pool)) \<le> J"
    and "(11 * length (wc_order cfg) + 25) * (J + 1) \<le> n"
  shows "\<exists>out. wk_control (walk_run en cfg n (start_walk en cfg pool)) = Done out \<and>
    walk_run en cfg (n + m) (start_walk en cfg pool) = walk_run en cfg n (start_walk en cfg pool)"
proof -
  let ?L = "length (wc_order cfg)"
  have "\<exists>out. wk_control (walk_run en cfg n (start_walk en cfg pool)) = Done out"
  proof (rule ccontr)
    assume "\<nexists>out. wk_control (walk_run en cfg n (start_walk en cfg pool)) = Done out"
    then have "n < turn_bound ?L * (jails (walk_run en cfg n (start_walk en cfg pool)) + 1)"
      using walk_progress[of en cfg n pool] by simp
    also have "\<dots> \<le> turn_bound ?L * (J + 1)" using assms(1) by simp
    finally show False using assms(2) by (simp add: turn_bound_def)
  qed
  moreover have "wk_control (walk_run en cfg n s) = Done out \<Longrightarrow> walk_run en cfg (n + m) s = walk_run en cfg n s" for s out
    by (induction m) (simp_all add: walk_step_def)
  ultimately show ?thesis by blast
qed

lemma walk_ends_witness:
  "\<exists>out. wk_control (walk_run (demo_env auth_refusal) (demo_config [0, 1]) 47
     (start_walk (demo_env auth_refusal) (demo_config [0, 1]) (demo_pool cold_lane warm_lane))) = Done out"
proof -
  have "jails (walk_run (demo_env auth_refusal) (demo_config [0, 1]) 47
     (start_walk (demo_env auth_refusal) (demo_config [0, 1]) (demo_pool cold_lane warm_lane))) \<le> 0"
    by code_simp
  from walk_ends[OF this, of 0] show ?thesis by (simp add: demo_config_def)
qed


end
