(* ===== verification/Session_State.thy ===== *)
theory Session_State
  imports Lane_Gates Classify "HOL-Library.AList"
begin

text \<open>
  What the session manager of one account keeps, and the pure operations on it:
  \<^verbatim>\<open>backend/internal/session/session.go\<close>, \<^verbatim>\<open>grace.go\<close>, \<^verbatim>\<open>model_unavailable.go\<close>,
  \<^verbatim>\<open>session_model_locked.go\<close>, \<^verbatim>\<open>quota_seed.go\<close>, the store entry of \<^verbatim>\<open>store.go\<close> and the status
  mappings of \<^verbatim>\<open>session_poll.go\<close>. Wire blocks the manager only hands on (referral, standing,
  upgrade hint, offers) are their texts. A Go map that may be nil is an association list option. The
  store is the one row of this account's key as a later \<^verbatim>\<open>Load\<close> returns it; \<open>None\<close> for the
  manager's store means that persistence is off.
\<close>

section \<open>Upstream answers\<close>

type_synonym block = string

record model_quota =
  mq_model :: string
  mq_limit :: rat
  mq_recent_count :: rat
  mq_reset_at :: go_time
  mq_period :: string
  mq_pool :: string
  mq_pool_label :: string
  mq_entitlement :: "(string \<times> rat) list"

type_synonym quota_map = "(string \<times> model_quota) list option"

record availability_window =
  start_minute :: int
  end_minute :: int

record wire_state =
  ws_status :: string
  ws_instance :: string
  ws_model :: string
  ws_current_model :: string
  ws_access_tier :: string
  ws_expires_at :: go_time
  ws_remaining_ms :: int
  ws_grace_ends_at :: go_time
  ws_position :: int
  ws_queue_depth :: int
  ws_estimated_wait_ms :: int
  ws_poll_at :: go_time
  ws_country_code :: string
  ws_country_block_reason :: string
  ws_signals :: "string list"
  ws_active_users :: int
  ws_limit :: rat
  ws_recent_count :: rat
  ws_reset_at :: go_time
  ws_resumes_at :: go_time
  ws_retry_after_ms :: int
  ws_message :: string
  ws_tier_id :: string
  ws_window :: "availability_window option"
  ws_glm_promo :: string
  ws_quota :: quota_map
  ws_standing :: "block option"
  ws_referral :: "block option"
  ws_freebucks :: "freebucks_info option"
  ws_upgrade_hint :: "block option"
  ws_http_status :: int
  ws_wallet_spend :: "rat option"
  ws_offers :: "block list"
  ws_offer_reason :: string
  ws_window_hours :: int
  ws_shortfall :: bool

record refund_receipt =
  rr_status :: string
  rr_refund :: "rat option"
  rr_pending :: bool

definition plain_wire :: "string \<Rightarrow> string \<Rightarrow> string \<Rightarrow> go_time \<Rightarrow> wire_state" where
  "plain_wire status inst model expires =
     \<lparr>ws_status = status, ws_instance = inst, ws_model = model, ws_current_model = '''', ws_access_tier = '''',
      ws_expires_at = expires, ws_remaining_ms = 0, ws_grace_ends_at = zero_time, ws_position = 0,
      ws_queue_depth = 0, ws_estimated_wait_ms = 0, ws_poll_at = zero_time, ws_country_code = '''',
      ws_country_block_reason = '''', ws_signals = [], ws_active_users = 0, ws_limit = 0, ws_recent_count = 0,
      ws_reset_at = zero_time, ws_resumes_at = zero_time, ws_retry_after_ms = 0, ws_message = '''',
      ws_tier_id = '''', ws_window = None, ws_glm_promo = '''', ws_quota = None, ws_standing = None,
      ws_referral = None, ws_freebucks = None, ws_upgrade_hint = None, ws_http_status = 0,
      ws_wallet_spend = None, ws_offers = [], ws_offer_reason = '''', ws_window_hours = 0, ws_shortfall = False\<rparr>"

section \<open>The cached session\<close>

record cached_state =
  cs_status :: string
  cs_instance :: string
  cs_model :: string
  cs_access_tier :: string
  cs_expires_at :: go_time
  cs_grace_ends_at :: go_time
  cs_position :: int
  cs_queue_depth :: int
  cs_poll_at :: go_time
  cs_country_code :: string
  cs_country_block_reason :: string
  cs_signals :: "string list"
  cs_active_users :: int
  cs_limit :: rat
  cs_quota :: quota_map
  cs_glm_promo :: string
  cs_standing :: "block option"
  cs_remaining_ms :: int
  cs_referral :: "block option"
  cs_freebucks :: "freebucks_info option"
  cs_upgrade_hint :: "block option"
  cs_server_message :: string
  cs_tier_id :: string
  cs_offers :: "block list"
  cs_offer_reason :: string

text \<open>A \<^verbatim>\<open>cachedState\<close> literal that sets none of its fields.\<close>

definition no_session :: cached_state where
  "no_session =
     \<lparr>cs_status = '''', cs_instance = '''', cs_model = '''', cs_access_tier = '''', cs_expires_at = zero_time,
      cs_grace_ends_at = zero_time, cs_position = 0, cs_queue_depth = 0, cs_poll_at = zero_time,
      cs_country_code = '''', cs_country_block_reason = '''', cs_signals = [], cs_active_users = 0, cs_limit = 0,
      cs_quota = None, cs_glm_promo = '''', cs_standing = None, cs_remaining_ms = 0, cs_referral = None,
      cs_freebucks = None, cs_upgrade_hint = None, cs_server_message = '''', cs_tier_id = '''', cs_offers = [],
      cs_offer_reason = ''''\<rparr>"

section \<open>The grace window\<close>

definition grace_window :: duration where
  "grace_window = 30 * minute"

definition grace_end_from_state :: "go_time \<Rightarrow> go_time \<Rightarrow> go_time" where
  "grace_end_from_state expires wire_grace =
     (if \<not> is_zero wire_grace then wire_grace
      else if is_zero expires then zero_time
      else expires + grace_window)"

definition grace_ends_at :: "cached_state option \<Rightarrow> go_time" where
  "grace_ends_at c =
     (case c of
        None \<Rightarrow> zero_time
      | Some s \<Rightarrow>
          if is_zero (cs_grace_ends_at s) \<and> \<not> is_zero (cs_expires_at s)
          then cs_expires_at s + grace_window else cs_grace_ends_at s)"

definition session_usable :: "go_time \<Rightarrow> cached_state option \<Rightarrow> bool" where
  "session_usable now c =
     (case c of
        None \<Rightarrow> False
      | Some s \<Rightarrow> cs_instance s \<noteq> '''' \<and> \<not> is_zero (grace_ends_at c) \<and> before now (grace_ends_at c))"

definition re_admit_due :: "cached_state option \<Rightarrow> duration \<Rightarrow> go_time \<Rightarrow> bool" where
  "re_admit_due c lead now =
     (case c of
        None \<Rightarrow> False
      | Some s \<Rightarrow>
          (let lead_end = cs_expires_at s - expiry_margin
           in cs_instance s \<noteq> '''' \<and>
              (cs_status s = ''active'' \<and> lead > 0 \<and> before now lead_end \<and> time_sub lead_end now \<le> lead \<or>
               \<not> is_zero (grace_ends_at c) \<and> \<not> before now lead_end \<and> before now (grace_ends_at c))))"

section \<open>Statuses\<close>

definition table_reason :: "string \<Rightarrow> string" where
  "table_reason status = (if status = ''superseded'' then ''superseded'' else ''ended'')"

definition purchase_statuses :: "string list" where
  "purchase_statuses = [''purchase_claim_released'', ''purchase_in_use'', ''purchase_capacity'']"

definition minute_floor :: "duration \<Rightarrow> duration" where
  "minute_floor d = (if d \<le> 0 then minute else d)"

definition status_error :: "(rat \<Rightarrow> string) \<Rightarrow> string \<Rightarrow> wire_state \<Rightarrow> go_error option" where
  "status_error fmt status st =
     (if status = ''banned'' then Some (Ban \<lparr>resumes_at = ws_resumes_at st, ban_body = ws_message st\<rparr>)
      else if status = ''country_blocked'' then
        Some (Country_Blocked \<lparr>country_code = ws_country_code st,
          country_block_reason = ws_country_block_reason st, ip_privacy_signals = ws_signals st\<rparr>)
      else if status = ''rate_limited'' \<or> status = ''spend_limited'' then
        Some (Rate_Limit \<lparr>rl_status = status, rl_model = ws_model st,
          rl_retry_after = minute_floor (cooldown_from_millis (of_int (ws_retry_after_ms st))),
          rl_limit = ws_limit st, rl_recent_count = ws_recent_count st, rl_reset_at = ws_reset_at st,
          rl_period = '''', rl_window = '''', rl_window_hours = ws_window_hours st,
          rl_freebucks_shortfall = ws_shortfall st, rl_body = ws_message st\<rparr>)
      else if status = ''ip_capped'' then
        Some (Ip_Capped \<lparr>active_users_for_ip = ws_active_users st, ip_limit = ws_limit st,
          ic_retry_after = minute_floor (cooldown_from_millis (of_int (ws_retry_after_ms st))),
          ic_body = ws_message st\<rparr>)
      else if status = ''session_model_mismatch'' \<or> status = ''limited_ip'' then
        (if contains_any (to_lower (ws_message st)) [''limited'']
         then Some (Limited_Ip \<lparr>li_model = '''',
                li_retry_after = cooldown_from_millis (of_int (ws_retry_after_ms st)), li_body = ws_message st\<rparr>)
         else Some (Other (''session: unknown upstream status '' @ status)))
      else if status = ''consent_required'' then
        Some (Upstream \<lparr>ue_status = 409,
          ue_body = ''upstream balance changed: re-confirm '' @
            fmt (case ws_wallet_spend st of Some x \<Rightarrow> x | None \<Rightarrow> 0) @
            '' wallet Freebucks to admit (consent_required)'',
          ue_retry_after = 0, ue_retryable = False\<rparr>)
      else if status \<in> set purchase_statuses then
        Some (Upstream \<lparr>ue_status = (if ws_http_status st = 0 then 409 else ws_http_status st),
          ue_body = (if ws_message st = ''''
            then ''upstream purchase flow blocked admission ('' @ status @ '')'' else ws_message st),
          ue_retry_after = 0, ue_retryable = False\<rparr>)
      else if status = ''first_tab_discount_changed'' then
        Some (Upstream \<lparr>ue_status = (if ws_http_status st = 0 then 409 else ws_http_status st),
          ue_body = ''Your first-tab discount changed. Review the model menu and choose again. No Freebucks were charged. (first_tab_discount_changed)'',
          ue_retry_after = 0, ue_retryable = False\<rparr>)
      else None)"

section \<open>The manager\<close>

text \<open>\<^verbatim>\<open>snapshotState\<close>: the last-seen fields and the recorders of the re-admit storm.\<close>

record saved_state =
  sv_quota :: quota_map
  sv_quota_stale :: bool
  sv_quota_at :: go_time
  sv_quota_src :: "(string \<times> int) list"
  sv_remaining_ms :: int
  sv_referral :: "block option"
  sv_glm_promo :: string
  sv_access_tier :: string
  sv_freebucks :: "freebucks_info option"
  sv_standing :: "block option"
  sv_tier_id :: string
  sv_offers :: "block list"
  sv_offer_reason :: string
  sv_country_code :: string
  sv_country_block_reason :: string
  sv_events :: "(go_time \<times> string) list"
  sv_triggers :: "go_time list"
  sv_last_storm_at :: go_time

record manager =
  sm_state :: "cached_state option"
  sm_store :: "cached_state option option"
  sm_refreshing :: bool
  sm_refresh_ch :: "nat option"
  sm_next_ch :: nat
  sm_refresh_err :: "go_error option"
  sm_pending_refund :: string
  sm_last_refund :: "rat option"
  sm_re_admit_lead :: duration
  sm_re_admit_expiry :: go_time
  sm_probe_ttl :: duration
  sm_last_admitted :: go_time
  sm_poll_failures :: nat
  sm_unavailable_ttl :: duration
  sm_unavailable :: "string \<rightharpoonup> go_time"
  sm_adopt :: bool
  sm_locked_pairs :: "string \<times> string \<Rightarrow> int"
  sm_saved :: saved_state

definition nothing_saved :: saved_state where
  "nothing_saved =
     \<lparr>sv_quota = None, sv_quota_stale = False, sv_quota_at = zero_time, sv_quota_src = [], sv_remaining_ms = 0,
      sv_referral = None, sv_glm_promo = '''', sv_access_tier = '''', sv_freebucks = None, sv_standing = None,
      sv_tier_id = '''', sv_offers = [], sv_offer_reason = '''', sv_country_code = '''',
      sv_country_block_reason = '''', sv_events = [], sv_triggers = [], sv_last_storm_at = zero_time\<rparr>"

text \<open>\<^verbatim>\<open>NewManagerWithStore\<close>; the pool then wires the lead and the two TTLs.\<close>

definition new_manager :: "cached_state option option \<Rightarrow> duration \<Rightarrow> duration \<Rightarrow> duration \<Rightarrow> bool \<Rightarrow> manager" where
  "new_manager store lead probe_ttl unavailable_ttl adopt =
     \<lparr>sm_state = None, sm_store = store, sm_refreshing = False, sm_refresh_ch = None, sm_next_ch = 0,
      sm_refresh_err = None, sm_pending_refund = '''', sm_last_refund = None, sm_re_admit_lead = lead,
      sm_re_admit_expiry = zero_time, sm_probe_ttl = probe_ttl, sm_last_admitted = zero_time,
      sm_poll_failures = 0, sm_unavailable_ttl = unavailable_ttl, sm_unavailable = Map.empty,
      sm_adopt = adopt, sm_locked_pairs = (\<lambda>_. 0), sm_saved = nothing_saved\<rparr>"

section \<open>The store row\<close>

definition persisted_quota :: "model_quota \<Rightarrow> model_quota" where
  "persisted_quota q = q\<lparr>mq_pool := '''', mq_pool_label := ''''\<rparr>"

definition persisted_view :: "cached_state \<Rightarrow> cached_state" where
  "persisted_view s =
     no_session\<lparr>cs_instance := cs_instance s, cs_model := cs_model s, cs_status := cs_status s,
       cs_expires_at := cs_expires_at s, cs_grace_ends_at := cs_grace_ends_at s, cs_position := cs_position s,
       cs_queue_depth := cs_queue_depth s, cs_poll_at := cs_poll_at s, cs_country_code := cs_country_code s,
       cs_country_block_reason := cs_country_block_reason s, cs_access_tier := cs_access_tier s,
       cs_glm_promo := cs_glm_promo s,
       cs_quota := (case cs_quota s of Some (q # qs) \<Rightarrow> Some (map (\<lambda>(k, v). (k, persisted_quota v)) (q # qs)) | _ \<Rightarrow> None),
       cs_referral := cs_referral s, cs_freebucks := cs_freebucks s, cs_standing := cs_standing s\<rparr>"

definition store_save :: "cached_state option \<Rightarrow> cached_state option" where
  "store_save c =
     (case c of
        None \<Rightarrow> None
      | Some s \<Rightarrow> if cs_instance s = '''' \<and> cs_status s \<noteq> ''queued'' then None else Some (persisted_view s))"

definition store_load :: "go_time \<Rightarrow> cached_state option \<Rightarrow> cached_state option" where
  "store_load now row =
     (case row of
        None \<Rightarrow> None
      | Some s \<Rightarrow> if \<not> is_zero (cs_grace_ends_at s) \<and> after now (cs_grace_ends_at s) then None else Some s)"

definition store_remove :: "string \<Rightarrow> cached_state option \<Rightarrow> cached_state option" where
  "store_remove expected row =
     (case row of
        None \<Rightarrow> None
      | Some s \<Rightarrow> if expected \<noteq> '''' \<and> cs_instance s \<noteq> expected then Some s else None)"

definition with_store :: "(cached_state option \<Rightarrow> cached_state option) \<Rightarrow> manager \<Rightarrow> manager" where
  "with_store f m = m\<lparr>sm_store := map_option f (sm_store m)\<rparr>"

definition with_saved :: "(saved_state \<Rightarrow> saved_state) \<Rightarrow> manager \<Rightarrow> manager" where
  "with_saved f m = m\<lparr>sm_saved := f (sm_saved m)\<rparr>"

section \<open>Committing a state\<close>

definition stamp_quota_source :: "go_time \<Rightarrow> saved_state \<Rightarrow> saved_state" where
  "stamp_quota_source t sv =
     sv\<lparr>sv_quota_src := (case sv_quota sv of None \<Rightarrow> [] | Some q \<Rightarrow> map (\<lambda>(k, _). (k, unix_milli t)) q)\<rparr>"

definition or_text :: "string \<Rightarrow> string \<Rightarrow> string" where
  "or_text new old = (if new \<noteq> '''' then new else old)"

definition or_some :: "'a option \<Rightarrow> 'a option \<Rightarrow> 'a option" where
  "or_some new old = (if new \<noteq> None then new else old)"

text \<open>What \<open>commit\<close> saves of the state it replaces, and what it fills into the new one.\<close>

definition stash :: "go_time \<Rightarrow> cached_state \<Rightarrow> saved_state \<Rightarrow> saved_state" where
  "stash now s sv =
     (let sv1 = (if cs_quota s \<noteq> None then stamp_quota_source now (sv\<lparr>sv_quota := cs_quota s\<rparr>) else sv)
      in sv1\<lparr>sv_glm_promo := or_text (cs_glm_promo s) (sv_glm_promo sv),
           sv_remaining_ms := (if cs_remaining_ms s > 0 then cs_remaining_ms s else sv_remaining_ms sv),
           sv_referral := or_some (cs_referral s) (sv_referral sv),
           sv_access_tier := or_text (cs_access_tier s) (sv_access_tier sv),
           sv_freebucks := or_some (cs_freebucks s) (sv_freebucks sv),
           sv_tier_id := or_text (cs_tier_id s) (sv_tier_id sv),
           sv_offers := (if cs_offers s \<noteq> [] then cs_offers s else sv_offers sv),
           sv_offer_reason := or_text (cs_offer_reason s) (sv_offer_reason sv)\<rparr>)"

definition restore_fields :: "saved_state \<Rightarrow> cached_state \<Rightarrow> cached_state" where
  "restore_fields sv s =
     s\<lparr>cs_quota := or_some (cs_quota s) (sv_quota sv),
       cs_glm_promo := or_text (cs_glm_promo s) (sv_glm_promo sv),
       cs_access_tier := or_text (cs_access_tier s) (sv_access_tier sv),
       cs_remaining_ms := (if cs_remaining_ms s = 0 \<and> sv_remaining_ms sv > 0 then sv_remaining_ms sv else cs_remaining_ms s),
       cs_referral := or_some (cs_referral s) (sv_referral sv),
       cs_freebucks := or_some (cs_freebucks s) (sv_freebucks sv),
       cs_tier_id := or_text (cs_tier_id s) (sv_tier_id sv),
       cs_offers := (if cs_offers s = [] then sv_offers sv else cs_offers s),
       cs_offer_reason := or_text (cs_offer_reason s) (sv_offer_reason sv)\<rparr>"

definition commit :: "go_time \<Rightarrow> cached_state option \<Rightarrow> manager \<Rightarrow> manager" where
  "commit now c m =
     (let old = (case sm_state m of None \<Rightarrow> '''' | Some s \<Rightarrow> cs_instance s);
          sv = (case sm_state m of None \<Rightarrow> sm_saved m | Some s \<Rightarrow> stash now s (sm_saved m));
          c1 = map_option (restore_fields sv) c;
          fresh = (case c of None \<Rightarrow> False | Some s \<Rightarrow> cs_quota s \<noteq> None);
          sv1 = (if fresh then sv\<lparr>sv_quota_stale := False\<rparr> else sv);
          m1 = m\<lparr>sm_state := c1, sm_saved := sv1\<rparr>
      in with_store (case c1 of None \<Rightarrow> store_remove old | Some s \<Rightarrow> (\<lambda>_. store_save (Some s))) m1)"

section \<open>The re-admit storm\<close>

definition storm_window :: duration where
  "storm_window = 60 * second"

definition record_re_admit_trigger :: "go_time \<Rightarrow> manager \<Rightarrow> manager" where
  "record_re_admit_trigger now =
     with_saved (\<lambda>sv. sv\<lparr>sv_triggers := filter (\<lambda>t. after t (now - storm_window)) (sv_triggers sv @ [now])\<rparr>)"

text \<open>Whether the summary is logged.\<close>

definition record_invalidation :: "go_time \<Rightarrow> string \<Rightarrow> manager \<Rightarrow> bool \<times> manager" where
  "record_invalidation now reason m =
     (let sv = sm_saved m;
          events = filter (\<lambda>e. after (fst e) (now - storm_window)) (sv_events sv @ [(now, reason)]);
          sv1 = sv\<lparr>sv_events := events,
                   sv_triggers := filter (\<lambda>t. after t (now - storm_window)) (sv_triggers sv)\<rparr>
      in if length events \<le> 3 \<or>
            \<not> is_zero (sv_last_storm_at sv) \<and> time_sub now (sv_last_storm_at sv) < storm_window
         then (False, m\<lparr>sm_saved := sv1\<rparr>)
         else (True, m\<lparr>sm_saved := sv1\<lparr>sv_last_storm_at := now\<rparr>\<rparr>))"

section \<open>Dropping the session\<close>

definition invalidate_with_reason :: "go_time \<Rightarrow> string \<Rightarrow> manager \<Rightarrow> manager" where
  "invalidate_with_reason now reason m = snd (record_invalidation now reason (commit now None m))"

definition holds_instance :: "string \<Rightarrow> manager \<Rightarrow> bool" where
  "holds_instance inst m = (case sm_state m of None \<Rightarrow> False | Some s \<Rightarrow> cs_instance s = inst)"

definition invalidate_instance :: "go_time \<Rightarrow> string \<Rightarrow> string \<Rightarrow> manager \<Rightarrow> manager" where
  "invalidate_instance now inst reason m =
     (if inst = '''' \<or> \<not> holds_instance inst m then m else invalidate_with_reason now reason m)"

definition clear_queued :: "go_time \<Rightarrow> manager \<Rightarrow> bool \<times> manager" where
  "clear_queued now m =
     (case sm_state m of
        Some s \<Rightarrow> if cs_status s = ''queued'' then (True, commit now None m) else (False, m)
      | None \<Rightarrow> (False, m))"

section \<open>Refunds\<close>

definition record_release_receipt :: "string \<Rightarrow> refund_receipt option \<Rightarrow> manager \<Rightarrow> manager" where
  "record_release_receipt inst r m =
     (case r of
        None \<Rightarrow> m
      | Some x \<Rightarrow> m\<lparr>sm_last_refund := rr_refund x,
                     sm_pending_refund := (if rr_pending x \<and> inst \<noteq> '''' then inst else '''')\<rparr>)"

text \<open>The answer to the replayed DELETE of the instance \<open>pending\<close>: the error returned and the manager.\<close>

definition refresh_refund_answer ::
  "string \<Rightarrow> go_error + refund_receipt option \<Rightarrow> manager \<Rightarrow> go_error option \<times> manager" where
  "refresh_refund_answer pending ans m =
     (let clear = (if sm_pending_refund m = pending then m\<lparr>sm_pending_refund := ''''\<rparr> else m)
      in case ans of
           Inl e \<Rightarrow> if errors_is e Err_Session_Invalid \<or> errors_is e Err_Session_Superseded then (None, clear) else (Some e, m)
         | Inr None \<Rightarrow> (None, clear)
         | Inr (Some r) \<Rightarrow>
             if rr_status r = ''ended'' \<and> \<not> rr_pending r then
               (None, if sm_pending_refund m = pending
                      then m\<lparr>sm_pending_refund := '''', sm_last_refund := Some (case rr_refund r of Some x \<Rightarrow> x | None \<Rightarrow> 0)\<rparr>
                      else m)
             else if rr_pending r then (None, m)
             else (Some (Other ''session: refund replay returned another status''), m))"

section \<open>Models refused as unavailable\<close>

text \<open>The zone is the Pacific one of \<^verbatim>\<open>upstream/availability_window.go\<close>: the tz database's or a
  fixed seven hours.\<close>

definition minute_of_day :: "zone \<Rightarrow> go_time \<Rightarrow> int" where
  "minute_of_day z now = to_local z now mod day_ns div minute"

definition available_at :: "zone \<Rightarrow> availability_window \<Rightarrow> go_time \<Rightarrow> bool" where
  "available_at z w now \<longleftrightarrow>
     (let m = minute_of_day z now
      in if start_minute w = end_minute w then True
         else if start_minute w < end_minute w then start_minute w \<le> m \<and> m < end_minute w
         else start_minute w \<le> m \<or> m < end_minute w)"

definition next_start :: "zone \<Rightarrow> availability_window \<Rightarrow> go_time \<Rightarrow> go_time" where
  "next_start z w now =
     (if start_minute w = end_minute w then now
      else
        let start = from_local z (local_day z now * day_ns + start_minute w * minute)
        in if minute_of_day z now < start_minute w then start else add_date z start 0 1)"

definition record_model_unavailable ::
  "zone \<Rightarrow> go_time \<Rightarrow> string \<Rightarrow> availability_window option \<Rightarrow> manager \<Rightarrow> manager" where
  "record_model_unavailable z now model w m =
     (if sm_unavailable_ttl m \<le> 0 \<or> model = '''' then m
      else
        let ttl = now + sm_unavailable_ttl m;
            until = (case w of
                       Some w \<Rightarrow>
                         if \<not> available_at z w now \<and> after (next_start z w now) now \<and> before (next_start z w now) ttl
                         then next_start z w now else ttl
                     | None \<Rightarrow> ttl);
            known = (sm_unavailable m)(model \<mapsto> until)
        in m\<lparr>sm_unavailable := (\<lambda>k. case known k of
               Some u \<Rightarrow> if \<not> after u now \<and> k \<noteq> model then None else Some u
             | None \<Rightarrow> None)\<rparr>)"

text \<open>The fallback model of the catalog is an argument: by the live prices and the exemption.\<close>

type_synonym fallback = "(string \<rightharpoonup> rat) \<Rightarrow> bool \<Rightarrow> string"

definition model_unavailable_until :: "fallback \<Rightarrow> string \<Rightarrow> go_time \<Rightarrow> manager \<Rightarrow> go_time option" where
  "model_unavailable_until fb model now m =
     (if model = '''' \<or> model = fb Map.empty False then None
      else case sm_unavailable m model of
        Some u \<Rightarrow> if after u now then Some u else None
      | None \<Rightarrow> None)"

definition fallback_meter :: "fallback \<Rightarrow> freebucks_info option \<Rightarrow> string" where
  "fallback_meter fb f =
     (case f of None \<Rightarrow> fb Map.empty False | Some x \<Rightarrow> fb (prices x) (quota_exempt x))"

text \<open>\<open>modelUnavailableShortCircuit\<close>: whether to stop, the model to ask for, the manager.\<close>

definition short_circuit :: "fallback \<Rightarrow> go_time \<Rightarrow> string \<Rightarrow> manager \<Rightarrow> bool \<times> string \<times> manager" where
  "short_circuit fb now target m =
     (case model_unavailable_until fb target now m of
        None \<Rightarrow> (False, target, m)
      | Some u \<Rightarrow>
          let f = fallback_meter fb (case sm_state m of None \<Rightarrow> None | Some s \<Rightarrow> cs_freebucks s)
          in if target = f then (False, target, m)
             else
               let reuse = (case sm_state m of
                              None \<Rightarrow> False
                            | Some s \<Rightarrow> cs_model s = f \<and> session_usable now (sm_state m))
               in (reuse, f, if reuse then m else commit now None m))"

definition record_model_lock :: "string \<Rightarrow> string \<Rightarrow> manager \<Rightarrow> manager" where
  "record_model_lock from to m =
     m\<lparr>sm_locked_pairs := (sm_locked_pairs m)((from, to) := sm_locked_pairs m (from, to) + 1)\<rparr>"

section \<open>Referral entitlement\<close>

definition glm :: string where
  "glm = ''z-ai/glm-5.2''"

definition promo_open :: "go_time \<Rightarrow> string \<Rightarrow> bool" where
  "promo_open now promo =
     (case json_decode promo of
        Some (J_Obj ms) \<Rightarrow>
          (case (field_get ms ''dailySessions'', field_get ms ''endsAt'') of
             (Some (J_Num n), ends) \<Rightarrow>
               n > 0 \<and>
               (case ends of
                  None \<Rightarrow> True
                | Some J_Null \<Rightarrow> True
                | Some (J_Str t) \<Rightarrow>
                    t = '''' \<or> (case parse_rfc3339 t of Some e \<Rightarrow> after e now | None \<Rightarrow> True)
                | Some _ \<Rightarrow> False)
           | _ \<Rightarrow> False)
      | _ \<Rightarrow> False)"

definition has_glm_entitlement :: "go_time \<Rightarrow> manager \<Rightarrow> bool" where
  "has_glm_entitlement now m =
     (let sv = sm_saved m;
          quota = (case sm_state m of None \<Rightarrow> sv_quota sv | Some s \<Rightarrow> or_some (cs_quota s) (sv_quota sv));
          promo = (case sm_state m of None \<Rightarrow> sv_glm_promo sv | Some s \<Rightarrow> or_text (cs_glm_promo s) (sv_glm_promo sv))
      in (case quota of
            None \<Rightarrow> False
          | Some q \<Rightarrow>
              (case map_of q glm of
                 None \<Rightarrow> False
               | Some x \<Rightarrow>
                   mq_limit x > 0 \<and>
                   (mq_recent_count x < mq_limit x \<or> \<not> is_zero (mq_reset_at x) \<and> before (mq_reset_at x) now))) \<or>
         promo \<noteq> '''' \<and> promo_open now promo)"

text \<open>What a zero-cost probe writes; \<open>glm_probe\<close> is the part the admission guard writes.\<close>

definition on_state :: "(cached_state \<Rightarrow> cached_state) \<Rightarrow> manager \<Rightarrow> manager" where
  "on_state f m = m\<lparr>sm_state := map_option f (sm_state m)\<rparr>"

definition carries_quota :: "wire_state \<Rightarrow> bool" where
  "carries_quota st = (case ws_quota st of Some (q # qs) \<Rightarrow> True | _ \<Rightarrow> False)"

definition glm_probe :: "go_time \<Rightarrow> wire_state \<Rightarrow> manager \<Rightarrow> manager" where
  "glm_probe now st m =
     (let m1 = (if ws_glm_promo st \<noteq> ''''
                then on_state (\<lambda>s. s\<lparr>cs_glm_promo := ws_glm_promo st\<rparr>)
                       (with_saved (\<lambda>sv. sv\<lparr>sv_glm_promo := ws_glm_promo st\<rparr>) m)
                else m)
      in if carries_quota st
         then on_state (\<lambda>s. s\<lparr>cs_quota := ws_quota st\<rparr>)
                (with_saved (\<lambda>sv. stamp_quota_source now (sv\<lparr>sv_quota := ws_quota st\<rparr>)) m1)
         else m1)"

definition update_quota_from_probe :: "go_time \<Rightarrow> wire_state \<Rightarrow> manager \<Rightarrow> manager" where
  "update_quota_from_probe now st m =
     (let m1 = glm_probe now st m;
          m2 = (if carries_quota st
                then with_saved (\<lambda>sv. sv\<lparr>sv_quota_stale := False, sv_quota_at := now\<rparr>) m1 else m1);
          country = ws_country_code st \<noteq> ''''
      in on_state (\<lambda>s. s\<lparr>
             cs_remaining_ms := (if ws_remaining_ms st > 0 then ws_remaining_ms st else cs_remaining_ms s),
             cs_referral := or_some (ws_referral st) (cs_referral s),
             cs_access_tier := or_text (ws_access_tier st) (cs_access_tier s),
             cs_freebucks := or_some (ws_freebucks st) (cs_freebucks s),
             cs_standing := or_some (ws_standing st) (cs_standing s),
             cs_tier_id := or_text (ws_tier_id st) (cs_tier_id s),
             cs_offers := (if ws_offers st \<noteq> [] then ws_offers st else cs_offers s),
             cs_offer_reason := or_text (ws_offer_reason st) (cs_offer_reason s),
             cs_country_code := or_text (ws_country_code st) (cs_country_code s),
             cs_country_block_reason := (if country then ws_country_block_reason st else cs_country_block_reason s)\<rparr>)
           (with_saved (\<lambda>sv. sv\<lparr>
             sv_remaining_ms := (if ws_remaining_ms st > 0 then ws_remaining_ms st else sv_remaining_ms sv),
             sv_referral := or_some (ws_referral st) (sv_referral sv),
             sv_access_tier := or_text (ws_access_tier st) (sv_access_tier sv),
             sv_freebucks := or_some (ws_freebucks st) (sv_freebucks sv),
             sv_standing := or_some (ws_standing st) (sv_standing sv),
             sv_tier_id := or_text (ws_tier_id st) (sv_tier_id sv),
             sv_offers := (if ws_offers st \<noteq> [] then ws_offers st else sv_offers sv),
             sv_offer_reason := or_text (ws_offer_reason st) (sv_offer_reason sv),
             sv_country_code := or_text (ws_country_code st) (sv_country_code sv),
             sv_country_block_reason := (if country then ws_country_block_reason st else sv_country_block_reason sv)\<rparr>) m2))"

section \<open>Seeding the quota view\<close>

definition seed_quota :: "model_quota \<Rightarrow> go_time \<Rightarrow> manager \<Rightarrow> bool \<times> manager" where
  "seed_quota q probed_at m =
     (let sv = sm_saved m;
          probed = unix_milli probed_at;
          cur = (case map_of (sv_quota_src sv) (mq_model q) of Some t \<Rightarrow> t | None \<Rightarrow> 0)
      in if mq_model q = '''' \<or> sm_state m \<noteq> None \<or> probed \<le> cur then (False, m)
         else (True, with_saved (\<lambda>sv. sv\<lparr>
                 sv_quota := Some (AList.update (mq_model q) q (case sv_quota sv of None \<Rightarrow> [] | Some x \<Rightarrow> x)),
                 sv_quota_src := AList.update (mq_model q) probed (sv_quota_src sv),
                 sv_quota_stale := True,
                 sv_quota_at := (if after probed_at (sv_quota_at sv) then probed_at else sv_quota_at sv)\<rparr>) m))"

definition restore_persisted_quota :: "go_time \<Rightarrow> manager \<Rightarrow> manager" where
  "restore_persisted_quota now m =
     (case sm_store m of
        None \<Rightarrow> m
      | Some row \<Rightarrow>
          if (case sv_quota (sm_saved m) of Some (q # qs) \<Rightarrow> True | _ \<Rightarrow> False) then m
          else
            let loaded = store_load now row; m1 = m\<lparr>sm_store := Some loaded\<rparr>
            in case loaded of
                 None \<Rightarrow> m1
               | Some s \<Rightarrow>
                   (case cs_quota s of
                      Some (q # qs) \<Rightarrow>
                        let t = (if is_zero (cs_poll_at s) then now else cs_poll_at s)
                        in with_saved (\<lambda>sv. stamp_quota_source t (sv\<lparr>sv_quota := cs_quota s,
                             sv_glm_promo := (if cs_glm_promo s \<noteq> '''' \<and> sv_glm_promo sv = '''' then cs_glm_promo s else sv_glm_promo sv),
                             sv_quota_stale := True, sv_quota_at := t\<rparr>)) m1
                    | _ \<Rightarrow> m1))"

text \<open>The fields of \<open>Snapshot\<close> that the routing gates read, and what the view does to the manager.\<close>

definition snapshot_view :: "go_time \<Rightarrow> manager \<Rightarrow> session_snapshot \<times> manager" where
  "snapshot_view now m =
     (case sm_state m of
        None \<Rightarrow>
          let m1 = restore_persisted_quota now m
          in (\<lparr>ss_status = '''', ss_instance = '''', ss_model = '''', ss_expires_at = zero_time,
               ss_grace_ends_at = zero_time, ss_freebucks = sv_freebucks (sm_saved m1)\<rparr>, m1)
      | Some s \<Rightarrow>
          (\<lparr>ss_status = cs_status s, ss_instance = cs_instance s, ss_model = cs_model s,
            ss_expires_at = cs_expires_at s, ss_grace_ends_at = cs_grace_ends_at s,
            ss_freebucks = cs_freebucks s\<rparr>, m))"

section \<open>The liveness poll\<close>

text \<open>The instance to ask for, if a poll is due.\<close>

definition poll_begin :: "go_time \<Rightarrow> manager \<Rightarrow> string option" where
  "poll_begin now m =
     (case sm_state m of
        None \<Rightarrow> None
      | Some s \<Rightarrow>
          if cs_status s \<notin> {''active'', ''ended''} \<or> cs_instance s = '''' then None
          else if sm_probe_ttl m > 0 \<and> \<not> is_zero (sm_last_admitted m) \<and>
                  time_sub now (sm_last_admitted m) < sm_probe_ttl m then None
          else Some (cs_instance s))"

text \<open>Drop the session if it is still the instance asked about.\<close>

definition drop_if_held :: "go_time \<Rightarrow> string \<Rightarrow> string \<Rightarrow> manager \<Rightarrow> manager" where
  "drop_if_held now inst reason m =
     (if holds_instance inst m then snd (record_invalidation now reason (commit now None m)) else m)"

definition ended_row :: "wire_state \<Rightarrow> string \<Rightarrow> go_time \<Rightarrow> cached_state" where
  "ended_row st model grace =
     no_session\<lparr>cs_status := ''ended'', cs_instance := ws_instance st, cs_model := model,
       cs_expires_at := ws_expires_at st, cs_grace_ends_at := grace\<rparr>"

definition poll_answer ::
  "(rat \<Rightarrow> string) \<Rightarrow> go_time \<Rightarrow> string \<Rightarrow> go_error + wire_state \<Rightarrow> manager \<Rightarrow> go_error option \<times> manager" where
  "poll_answer fmt now inst ans m =
     (case ans of
        Inl e \<Rightarrow>
          let m1 = (if errors_is e Err_Waiting_Room_Required then drop_if_held now inst ''poll'' m else m)
          in (Some e, m1\<lparr>sm_poll_failures := sm_poll_failures m1 + 1\<rparr>)
      | Inr st \<Rightarrow>
          let m1 = m\<lparr>sm_poll_failures := 0, sm_last_admitted := now\<rparr>;
              grace = grace_end_from_state (ws_expires_at st) (ws_grace_ends_at st)
          in case status_error fmt (ws_status st) st of
               Some e \<Rightarrow> (Some e, if ws_status st = ''banned'' then drop_if_held now inst ''poll'' m1 else m1)
             | None \<Rightarrow>
                 if ws_status st \<in> {''superseded'', ''none''} then
                   (None, drop_if_held now inst (table_reason (ws_status st)) m1)
                 else if ws_status st = ''ended'' then
                   (if ws_instance st \<noteq> '''' \<and> \<not> is_zero grace \<and> before now grace
                    then (None,
                      case sm_state m1 of
                        Some s \<Rightarrow> if cs_instance s = inst then commit now (Some (ended_row st (cs_model s) grace)) m1 else m1
                      | None \<Rightarrow> m1)
                    else (None, drop_if_held now inst (table_reason (ws_status st)) m1))
                 else (None, m1))"

section \<open>Ending the session\<close>

text \<open>\<open>EndSession\<close>: the instance to delete and whether it is the replay of a pending refund.\<close>

definition end_session_begin :: "go_time \<Rightarrow> manager \<Rightarrow> (string \<times> bool) option \<times> manager" where
  "end_session_begin now m =
     (let inst = (case sm_state m of None \<Rightarrow> '''' | Some s \<Rightarrow> cs_instance s);
          m1 = commit now None m
      in if inst \<noteq> '''' then (Some (inst, False), m1)
         else if sm_pending_refund m \<noteq> '''' then (Some (sm_pending_refund m, True), m1)
         else (None, m1))"

definition release_answer ::
  "string \<Rightarrow> go_error + refund_receipt option \<Rightarrow> manager \<Rightarrow> go_error option \<times> manager" where
  "release_answer inst ans m =
     (case ans of
        Inl e \<Rightarrow>
          if errors_is e Err_Session_Invalid \<or> errors_is e Err_Session_Superseded then (None, m) else (Some e, m)
      | Inr r \<Rightarrow> (None, record_release_receipt inst r m))"

definition end_session_answer ::
  "string \<times> bool \<Rightarrow> go_error + refund_receipt option \<Rightarrow> manager \<Rightarrow> go_error option \<times> manager" where
  "end_session_answer what ans m =
     (if snd what then refresh_refund_answer (fst what) ans m else release_answer (fst what) ans m)"

text \<open>\<open>Shutdown\<close>: the instance to delete. With persistence the row is flushed first, and an active
  session that is still usable is kept.\<close>

definition session_shutdown :: "go_time \<Rightarrow> manager \<Rightarrow> (string \<times> bool) option \<times> manager" where
  "session_shutdown now m =
     (if sm_store m = None then end_session_begin now m
      else case sm_state m of
        None \<Rightarrow> (None, m)
      | Some s \<Rightarrow>
          if cs_instance s = '''' then (None, m)
          else
            let m1 = with_store (\<lambda>_. store_save (Some s)) m
            in if cs_status s = ''active'' \<and> session_usable now (Some s) then (None, m1)
               else (Some (cs_instance s, False), m1))"

end
