(* ===== verification/Session_Refresh.thy ===== *)
theory Session_Refresh
  imports Session_State
begin

text \<open>
  One refresh of a session, \<^verbatim>\<open>Manager.refresh\<close> of
  \<^verbatim>\<open>backend/internal/session/session_admission.go\<close> with \<^verbatim>\<open>adoptOrCreate\<close>,
  \<^verbatim>\<open>createSessionForModel\<close>, \<^verbatim>\<open>releaseHeldSlotForTarget\<close> and \<^verbatim>\<open>pollPersisted\<close>
  (\<^verbatim>\<open>session_poll.go\<close>), as a machine. A step runs one locked section or one call; before it the
  other users of the manager may change the manager in any way (\<open>se_world\<close>). The upstream, the
  clock, the context, the owner file of the CLI and the liveness of its process are the environment.
  The trace holds the calls, their statuses and the pauses. Texts of errors are shortened.
\<close>

record session_env =
  se_now :: "nat \<Rightarrow> go_time"
  se_ctx :: "nat \<Rightarrow> go_error option"
  se_world :: "nat \<Rightarrow> manager \<Rightarrow> manager"
  se_get :: "nat \<Rightarrow> string \<Rightarrow> go_error + wire_state"
  se_create :: "nat \<Rightarrow> string \<Rightarrow> go_error + wire_state"
  se_delete :: "nat \<Rightarrow> string \<Rightarrow> go_error + refund_receipt option"
  se_probe :: "nat \<Rightarrow> wire_state option \<times> go_error option"
  se_owner_file :: "nat \<Rightarrow> (string \<times> int) option"
  se_alive :: "nat \<Rightarrow> int \<Rightarrow> bool"

record session_config =
  sg_fallback :: fallback
  sg_fmt :: "rat \<Rightarrow> string"
  sg_zone :: zone
  sg_owner :: "string \<times> int"

datatype call =
    Get string
  | Create string
  | Delete string
  | Probe
  | Status string
  | Pause

datatype refresh_pc =
    Begin
  | Iterate nat bool
  | Pick nat
  | Ask_Queued nat cached_state
  | Resume_Row nat
  | Ask_Row nat cached_state
  | Check_Held nat string
  | Release_Held nat string string
  | Admit_New nat "string option"
  | Glm_Ask nat "string option"
  | Glm_Check nat "string option"
  | Post nat "string option"
  | Ask_Cli nat "string option" string
  | Answered nat bool "string option" "go_error + wire_state"
  | Lock_Resolve nat
  | Lock_Release nat string
  | Finished "go_error option"

record refresh =
  rf_pc :: refresh_pc
  rf_target :: string
  rf_preemptive :: bool
  rf_manager :: manager
  rf_tick :: nat
  rf_trace :: "call list"

definition max_refresh_iterations :: nat where
  "max_refresh_iterations = 5"

section \<open>Rows of the answers\<close>

definition active_row :: "wire_state \<Rightarrow> string \<Rightarrow> cached_state" where
  "active_row st target =
     \<lparr>cs_status = ''active'', cs_instance = ws_instance st,
      cs_model = (if ws_model st = '''' then target else ws_model st), cs_access_tier = ws_access_tier st,
      cs_expires_at = ws_expires_at st,
      cs_grace_ends_at = grace_end_from_state (ws_expires_at st) (ws_grace_ends_at st),
      cs_position = 0, cs_queue_depth = 0, cs_poll_at = zero_time, cs_country_code = ws_country_code st,
      cs_country_block_reason = ws_country_block_reason st, cs_signals = ws_signals st,
      cs_active_users = ws_active_users st, cs_limit = ws_limit st, cs_quota = ws_quota st,
      cs_glm_promo = ws_glm_promo st, cs_standing = ws_standing st, cs_remaining_ms = ws_remaining_ms st,
      cs_referral = ws_referral st, cs_freebucks = ws_freebucks st, cs_upgrade_hint = ws_upgrade_hint st,
      cs_server_message = ws_message st, cs_tier_id = ws_tier_id st, cs_offers = ws_offers st,
      cs_offer_reason = ws_offer_reason st\<rparr>"

text \<open>The wait of a queued answer is clamped to one to five seconds.\<close>

definition queue_poll_at :: "go_time \<Rightarrow> wire_state \<Rightarrow> go_time" where
  "queue_poll_at now st =
     (if \<not> is_zero (ws_poll_at st) then ws_poll_at st
      else now + min (5 * second) (max second (ws_estimated_wait_ms st * millisecond)))"

definition queued_row :: "go_time \<Rightarrow> wire_state \<Rightarrow> cached_state" where
  "queued_row now st =
     no_session\<lparr>cs_status := ''queued'', cs_instance := ws_instance st, cs_model := ws_model st,
       cs_position := ws_position st, cs_queue_depth := ws_queue_depth st, cs_poll_at := queue_poll_at now st,
       cs_glm_promo := ws_glm_promo st, cs_access_tier := ws_access_tier st, cs_referral := ws_referral st,
       cs_freebucks := ws_freebucks st, cs_tier_id := ws_tier_id st, cs_offers := ws_offers st,
       cs_offer_reason := ws_offer_reason st\<rparr>"

text \<open>\<^verbatim>\<open>rle.Model = model\<close> through \<^verbatim>\<open>errors.As\<close>, when the refusal names none.\<close>

fun tag_error :: "string \<Rightarrow> go_error \<Rightarrow> go_error" where
  "tag_error model (Rate_Limit r) = Rate_Limit (if rl_model r = '''' then r\<lparr>rl_model := model\<rparr> else r)"
| "tag_error model (Wrapped t e) = Wrapped t (tag_error model e)"
| "tag_error model e = e"

definition no_referral_quota :: "string \<Rightarrow> go_error" where
  "no_referral_quota model =
     Rate_Limit \<lparr>rl_status = ''rate_limited'', rl_model = model, rl_retry_after = 0, rl_limit = 0,
       rl_recent_count = 0, rl_reset_at = zero_time, rl_period = '''', rl_window = '''', rl_window_hours = 0,
       rl_freebucks_shortfall = False, rl_body = ''token has no referral quota for '' @ model\<rparr>"

section \<open>Small steps\<close>

definition jump :: "refresh_pc \<Rightarrow> refresh \<Rightarrow> refresh" where
  "jump pc r = r\<lparr>rf_pc := pc\<rparr>"

definition log_calls :: "call list \<Rightarrow> refresh \<Rightarrow> refresh" where
  "log_calls cs r = r\<lparr>rf_trace := rf_trace r @ cs\<rparr>"

definition on_manager :: "(manager \<Rightarrow> manager) \<Rightarrow> refresh \<Rightarrow> refresh" where
  "on_manager f r = r\<lparr>rf_manager := f (rf_manager r)\<rparr>"

definition held_instance :: "manager \<Rightarrow> string" where
  "held_instance m = (case sm_state m of None \<Rightarrow> '''' | Some s \<Rightarrow> cs_instance s)"

definition begin_step :: "session_env \<Rightarrow> session_config \<Rightarrow> refresh \<Rightarrow> refresh" where
  "begin_step en cfg r =
     (case short_circuit (sg_fallback cfg) (se_now en (rf_tick r)) (rf_target r) (rf_manager r) of
        (stop, target, m) \<Rightarrow>
          jump (if stop then Finished None else Iterate 0 False) (r\<lparr>rf_target := target, rf_manager := m\<rparr>))"

definition iterate_step :: "session_env \<Rightarrow> nat \<Rightarrow> bool \<Rightarrow> refresh \<Rightarrow> refresh" where
  "iterate_step en i admitted r =
     (if i \<ge> max_refresh_iterations
      then jump (Finished (Some (Other ''session: refresh iteration budget exhausted''))) r
      else case se_ctx en (rf_tick r) of
        Some e \<Rightarrow> jump (Finished (Some e)) r
      | None \<Rightarrow> jump (Pick i) (if i > 0 \<and> admitted then log_calls [Pause] r else r))"

definition pick_step :: "session_env \<Rightarrow> nat \<Rightarrow> refresh \<Rightarrow> refresh" where
  "pick_step en i r =
     (case se_ctx en (rf_tick r) of
        Some e \<Rightarrow> jump (Finished (Some e)) r
      | None \<Rightarrow>
          (case sm_state (rf_manager r) of
             None \<Rightarrow> jump (Resume_Row i) r
           | Some s \<Rightarrow>
               if cs_status s = ''queued'' \<and> cs_instance s \<noteq> '''' then jump (Ask_Queued i s) r
               else jump (Check_Held i (cs_instance s)) r))"

text \<open>\<open>releaseHeldSlotForTarget\<close>: the slot bound to another model is deleted before the admission.\<close>

definition check_held_step :: "session_env \<Rightarrow> nat \<Rightarrow> string \<Rightarrow> refresh \<Rightarrow> refresh" where
  "check_held_step en i held r =
     (case sm_state (rf_manager r) of
        None \<Rightarrow> jump (Admit_New i (Some held)) r
      | Some s \<Rightarrow>
          if cs_instance s = '''' \<or> cs_model s = '''' \<or> cs_model s = rf_target r \<or>
             cs_status s \<noteq> ''active'' \<or> \<not> session_usable (se_now en (rf_tick r)) (Some s)
          then jump (Admit_New i (Some held)) r
          else jump (Release_Held i held (cs_instance s)) r)"

definition resume_step :: "session_env \<Rightarrow> nat \<Rightarrow> refresh \<Rightarrow> refresh" where
  "resume_step en i r =
     (let now = se_now en (rf_tick r);
          admit = jump (Admit_New i None)
      in case sm_store (rf_manager r) of
           None \<Rightarrow> admit r
         | Some row \<Rightarrow>
             let r1 = on_manager (with_store (store_load now)) r
             in case store_load now row of
                  None \<Rightarrow> admit r1
                | Some s \<Rightarrow>
                    if cs_status s \<noteq> ''active'' \<or> cs_instance s = '''' then admit r1
                    else if is_zero (cs_expires_at s) \<or> \<not> before now (cs_expires_at s - expiry_margin) \<or>
                            cs_model s \<noteq> '''' \<and> rf_target r \<noteq> '''' \<and> cs_model s \<noteq> rf_target r
                    then admit (on_manager (with_store (store_remove (cs_instance s))) r1)
                    else jump (Ask_Row i s) r1)"

definition row_step :: "session_env \<Rightarrow> nat \<Rightarrow> cached_state \<Rightarrow> refresh \<Rightarrow> refresh" where
  "row_step en i s r =
     (let r0 = log_calls [Get (cs_instance s)] r;
          drop_row = (\<lambda>inst. on_manager (with_store (store_remove inst)))
      in case se_get en (rf_tick r) (cs_instance s) of
           Inl e \<Rightarrow>
             jump (Answered i False None (Inl e))
               (if errors_is e Err_Waiting_Room_Required then drop_row (cs_instance s) r0 else r0)
         | Inr st \<Rightarrow>
             if ws_status st = ''active'' then
               (if ws_model st \<noteq> '''' \<and> rf_target r \<noteq> '''' \<and> ws_model st \<noteq> rf_target r
                then jump (Admit_New i None) (drop_row (ws_instance st) r0)
                else jump (Answered i False None (Inr st)) r0)
             else if ws_status st \<in> {''ended'', ''superseded'', ''none'', ''banned'', ''country_blocked'',
                       ''rate_limited'', ''ip_capped'', ''spend_limited''}
             then jump (Admit_New i None) (drop_row (ws_instance st) r0)
             else jump (Admit_New i None) r0)"

text \<open>The cache is cleared only when the DELETE succeeded and the same instance is still cached.\<close>

definition release_held_step :: "session_env \<Rightarrow> nat \<Rightarrow> string \<Rightarrow> string \<Rightarrow> refresh \<Rightarrow> refresh" where
  "release_held_step en i held inst r =
     (let r0 = log_calls [Delete inst] r
      in case se_delete en (rf_tick r) inst of
           Inl e \<Rightarrow> jump (Admit_New i (Some held)) r0
         | Inr rc \<Rightarrow>
             jump (Admit_New i (Some held))
               (on_manager (\<lambda>m. let m1 = record_release_receipt inst rc m
                                in if holds_instance inst m1 then commit (se_now en (rf_tick r)) None m1 else m1) r0))"

section \<open>Admission\<close>

definition adopt_owner :: "session_env \<Rightarrow> session_config \<Rightarrow> nat \<Rightarrow> (string \<times> int) option" where
  "adopt_owner en cfg t =
     (case se_owner_file en t of
        None \<Rightarrow> None
      | Some w \<Rightarrow> Some (if w = ('''', 0) then sg_owner cfg else w))"

definition cli_refusal :: go_error where
  "cli_refusal = Other ''ADOPT_CLI_SESSION: refusing to create a competing session''"

definition admit_new_step :: "session_env \<Rightarrow> session_config \<Rightarrow> nat \<Rightarrow> string option \<Rightarrow> refresh \<Rightarrow> refresh" where
  "admit_new_step en cfg i held r =
     (let create = (if rf_target r = glm \<and> \<not> has_glm_entitlement (se_now en (rf_tick r)) (rf_manager r)
                    then Glm_Ask i held else Post i held)
      in if \<not> sm_adopt (rf_manager r) then jump create r
         else case adopt_owner en cfg (rf_tick r) of
           None \<Rightarrow> jump (Answered i True held (Inl cli_refusal)) r
         | Some (inst, pid) \<Rightarrow>
             if pid \<le> 0 \<or> \<not> se_alive en (rf_tick r) pid then jump create r
             else if inst = '''' then jump (Answered i True held (Inl cli_refusal)) r
             else jump (Ask_Cli i held inst) r)"

definition glm_ask_step :: "session_env \<Rightarrow> nat \<Rightarrow> string option \<Rightarrow> refresh \<Rightarrow> refresh" where
  "glm_ask_step en i held r =
     (case se_probe en (rf_tick r) of
        (st, e) \<Rightarrow>
          jump (Glm_Check i held)
            (on_manager
              (case st of
                 Some x \<Rightarrow>
                   if (case e of None \<Rightarrow> True | Some x \<Rightarrow> errors_is x Err_No_Active_Session)
                   then glm_probe (se_now en (rf_tick r)) x else id
               | None \<Rightarrow> id)
              (log_calls [Probe] r)))"

definition glm_check_step :: "session_env \<Rightarrow> nat \<Rightarrow> string option \<Rightarrow> refresh \<Rightarrow> refresh" where
  "glm_check_step en i held r =
     (if has_glm_entitlement (se_now en (rf_tick r)) (rf_manager r) then jump (Post i held) r
      else jump (Answered i True held (Inl (no_referral_quota (rf_target r)))) r)"

definition post_step :: "session_env \<Rightarrow> nat \<Rightarrow> string option \<Rightarrow> refresh \<Rightarrow> refresh" where
  "post_step en i held r =
     jump (Answered i True held
       (case se_create en (rf_tick r) (rf_target r) of
          Inl e \<Rightarrow> Inl (tag_error (rf_target r) e)
        | Inr st \<Rightarrow> Inr st))
     (log_calls [Create (rf_target r)] r)"

definition ask_cli_step :: "session_env \<Rightarrow> nat \<Rightarrow> string option \<Rightarrow> string \<Rightarrow> refresh \<Rightarrow> refresh" where
  "ask_cli_step en i held inst r =
     jump (Answered i True held
       (case se_get en (rf_tick r) inst of
          Inl e \<Rightarrow> Inl cli_refusal
        | Inr st \<Rightarrow>
            let status = trim_space (ws_status st)
            in if status = ''active'' then
                 (if rf_target r \<noteq> '''' \<and> ws_model st \<noteq> '''' \<and> ws_model st \<noteq> rf_target r
                  then Inl cli_refusal else Inr st)
               else if status = ''queued'' then Inr (st\<lparr>ws_poll_at := queue_poll_at (se_now en (rf_tick r)) st\<rparr>)
               else if status = ''disabled'' then Inr st
               else Inl cli_refusal))
     (log_calls [Get inst] r)"

section \<open>Acting on an answer\<close>

definition terminal_statuses :: "string list" where
  "terminal_statuses =
     [''banned'', ''country_blocked'', ''rate_limited'', ''ip_capped'', ''spend_limited'', ''session_model_mismatch'',
      ''limited_ip'', ''consent_required''] @ purchase_statuses @ [''first_tab_discount_changed'']"

definition gone_step :: "go_time \<Rightarrow> nat \<Rightarrow> bool \<Rightarrow> wire_state \<Rightarrow> refresh \<Rightarrow> refresh" where
  "gone_step now i admitted st r =
     (let grace = grace_end_from_state (ws_expires_at st) (ws_grace_ends_at st);
          model = (if ws_model st = '''' then rf_target r else ws_model st)
      in if rf_preemptive r
         then jump (Finished (Some (Other ''session: pre-emptive re-admit refused (old session still active)''))) r
         else if ws_status st = ''ended'' \<and> ws_instance st \<noteq> '''' \<and> \<not> is_zero grace \<and> before now grace
         then jump (Finished None) (on_manager (commit now (Some (ended_row st model grace))) r)
         else jump (Iterate (i + 1) admitted)
                (on_manager (\<lambda>m. snd (record_invalidation now (table_reason (ws_status st)) (commit now None m))) r))"

definition locked_step :: "go_time \<Rightarrow> nat \<Rightarrow> wire_state \<Rightarrow> refresh \<Rightarrow> refresh" where
  "locked_step now i st r =
     (let held = held_instance (rf_manager r);
          inst = (if ws_instance st = '''' then held else ws_instance st)
      in jump (if inst = '''' then Lock_Resolve i else Lock_Release i inst)
           (on_manager (\<lambda>m. record_model_lock (ws_current_model st) (rf_target r)
              (snd (record_invalidation now ''model_lock'' (commit now None m)))) r))"

definition unavailable_step :: "session_config \<Rightarrow> go_time \<Rightarrow> nat \<Rightarrow> bool \<Rightarrow> wire_state \<Rightarrow> refresh \<Rightarrow> refresh" where
  "unavailable_step cfg now i admitted st r =
     jump (Iterate (i + 1) admitted)
       (on_manager (\<lambda>m. commit now None (record_model_unavailable (sg_zone cfg) now (rf_target r) (ws_window st) m))
         (r\<lparr>rf_target := fallback_meter (sg_fallback cfg) (ws_freebucks st)\<rparr>))"

definition answered_step ::
  "session_env \<Rightarrow> session_config \<Rightarrow> nat \<Rightarrow> bool \<Rightarrow> string option \<Rightarrow> go_error + wire_state \<Rightarrow> refresh \<Rightarrow> refresh" where
  "answered_step en cfg i admitted held ans r =
     (let now = se_now en (rf_tick r)
      in case ans of
           Inl e \<Rightarrow>
             jump (Finished (Some e))
               (on_manager
                 (case held of
                    Some h \<Rightarrow> if errors_is e Err_Waiting_Room_Required then drop_if_held now h ''poll'' else id
                  | None \<Rightarrow> id) r)
         | Inr st \<Rightarrow>
             let status = ws_status st; r0 = log_calls [Status status] r
             in if status = ''active'' then
                  jump (Finished None)
                    (on_manager (\<lambda>m. (commit now (Some (active_row st (rf_target r))) m)\<lparr>sm_last_admitted := now\<rparr>) r0)
                else if status = ''disabled'' then
                  jump (Finished None) (on_manager (commit now (Some (no_session\<lparr>cs_status := ''disabled''\<rparr>))) r0)
                else if status = ''queued'' then
                  jump (Finished None)
                    (if rf_preemptive r then r0 else on_manager (commit now (Some (queued_row now st))) r0)
                else if status \<in> {''ended'', ''superseded'', ''none''} then gone_step now i admitted st r0
                else if status \<in> set terminal_statuses then
                  jump (Finished (status_error (sg_fmt cfg) status st)) r0
                else if status = ''model_locked'' then locked_step now i st r0
                else if status = ''model_unavailable'' then unavailable_step cfg now i admitted st r0
                else jump (Finished (Some (Other (''session: unknown upstream status '' @ status)))) r0)"

definition ask_queued_step :: "session_env \<Rightarrow> nat \<Rightarrow> cached_state \<Rightarrow> refresh \<Rightarrow> refresh" where
  "ask_queued_step en i s r =
     jump (Answered i False (Some (cs_instance s)) (se_get en (rf_tick r) (cs_instance s)))
       (log_calls [Get (cs_instance s)] r)"

text \<open>A lock without an instance id is resolved by one poll without an id; without one the loop pauses.\<close>

definition lock_resolve_step :: "session_env \<Rightarrow> nat \<Rightarrow> refresh \<Rightarrow> refresh" where
  "lock_resolve_step en i r =
     jump (Lock_Release i (case se_get en (rf_tick r) '''' of Inr st \<Rightarrow> ws_instance st | Inl _ \<Rightarrow> ''''))
       (log_calls [Get ''''] r)"

definition lock_release_step :: "session_env \<Rightarrow> nat \<Rightarrow> string \<Rightarrow> refresh \<Rightarrow> refresh" where
  "lock_release_step en i inst r =
     jump (Iterate (i + 1) True)
       (on_manager (case se_delete en (rf_tick r) inst of Inr rc \<Rightarrow> record_release_receipt inst rc | Inl _ \<Rightarrow> id)
         (log_calls (if inst = '''' then [Delete inst, Pause] else [Delete inst]) r))"

section \<open>The machine\<close>

definition pc_step :: "session_env \<Rightarrow> session_config \<Rightarrow> refresh \<Rightarrow> refresh" where
  "pc_step en cfg r =
     (case rf_pc r of
        Begin \<Rightarrow> begin_step en cfg r
      | Iterate i admitted \<Rightarrow> iterate_step en i admitted r
      | Pick i \<Rightarrow> pick_step en i r
      | Ask_Queued i s \<Rightarrow> ask_queued_step en i s r
      | Resume_Row i \<Rightarrow> resume_step en i r
      | Ask_Row i s \<Rightarrow> row_step en i s r
      | Check_Held i held \<Rightarrow> check_held_step en i held r
      | Release_Held i held inst \<Rightarrow> release_held_step en i held inst r
      | Admit_New i held \<Rightarrow> admit_new_step en cfg i held r
      | Glm_Ask i held \<Rightarrow> glm_ask_step en i held r
      | Glm_Check i held \<Rightarrow> glm_check_step en i held r
      | Post i held \<Rightarrow> post_step en i held r
      | Ask_Cli i held inst \<Rightarrow> ask_cli_step en i held inst r
      | Answered i admitted held ans \<Rightarrow> answered_step en cfg i admitted held ans r
      | Lock_Resolve i \<Rightarrow> lock_resolve_step en i r
      | Lock_Release i inst \<Rightarrow> lock_release_step en i inst r
      | Finished e \<Rightarrow> r)"

definition refresh_step :: "session_env \<Rightarrow> session_config \<Rightarrow> refresh \<Rightarrow> refresh" where
  "refresh_step en cfg r =
     (case rf_pc r of
        Finished e \<Rightarrow> r
      | _ \<Rightarrow> (pc_step en cfg (r\<lparr>rf_manager := se_world en (rf_tick r) (rf_manager r)\<rparr>))
               \<lparr>rf_tick := rf_tick r + 1\<rparr>)"

definition start_refresh :: "string \<Rightarrow> bool \<Rightarrow> nat \<Rightarrow> manager \<Rightarrow> refresh" where
  "start_refresh model preemptive tick m =
     \<lparr>rf_pc = Begin, rf_target = model, rf_preemptive = preemptive, rf_manager = m, rf_tick = tick, rf_trace = []\<rparr>"

fun refresh_run :: "session_env \<Rightarrow> session_config \<Rightarrow> nat \<Rightarrow> refresh \<Rightarrow> refresh" where
  "refresh_run en cfg 0 r = r"
| "refresh_run en cfg (Suc n) r = refresh_step en cfg (refresh_run en cfg n r)"

end
