(* ===== verification/Session_Properties.thy ===== *)
theory Session_Properties
  imports Session_Refresh
begin

text \<open>
  What one refresh guarantees: it ends, it admits at most five times and pauses between any two
  admissions; a pre-emptive one leaves the ridden session alone except for the answers listed; what
  a commit keeps of earlier answers; what a restart resumes; and the ways in which a refresh departs
  from its comments.
\<close>

section \<open>Steps and fields\<close>

named_theorems refresh_fields

lemma jump_fields [refresh_fields]:
  "rf_pc (jump pc r) = pc" "rf_target (jump pc r) = rf_target r" "rf_preemptive (jump pc r) = rf_preemptive r"
  "rf_manager (jump pc r) = rf_manager r" "rf_tick (jump pc r) = rf_tick r" "rf_trace (jump pc r) = rf_trace r"
  by (simp_all add: jump_def)

lemma log_calls_fields [refresh_fields]:
  "rf_pc (log_calls cs r) = rf_pc r" "rf_target (log_calls cs r) = rf_target r"
  "rf_preemptive (log_calls cs r) = rf_preemptive r" "rf_manager (log_calls cs r) = rf_manager r"
  "rf_tick (log_calls cs r) = rf_tick r" "rf_trace (log_calls cs r) = rf_trace r @ cs"
  by (simp_all add: log_calls_def)

lemma on_manager_fields [refresh_fields]:
  "rf_pc (on_manager f r) = rf_pc r" "rf_target (on_manager f r) = rf_target r"
  "rf_preemptive (on_manager f r) = rf_preemptive r" "rf_manager (on_manager f r) = f (rf_manager r)"
  "rf_tick (on_manager f r) = rf_tick r" "rf_trace (on_manager f r) = rf_trace r"
  by (simp_all add: on_manager_def)

lemmas pc_steps = begin_step_def iterate_step_def pick_step_def ask_queued_step_def resume_step_def row_step_def
  check_held_step_def release_held_step_def admit_new_step_def glm_ask_step_def glm_check_step_def post_step_def
  ask_cli_step_def answered_step_def gone_step_def locked_step_def unavailable_step_def lock_resolve_step_def
  lock_release_step_def

text \<open>An invariant of the steps that does not read the manager holds along a run.\<close>

locale refresh_invariant =
  fixes I :: "refresh \<Rightarrow> bool"
    and en :: session_env
    and cfg :: session_config
  assumes steps: "I r \<Longrightarrow> \<forall>e. rf_pc r \<noteq> Finished e \<Longrightarrow> I (pc_step en cfg r)"
    and world: "I r \<Longrightarrow> I (r\<lparr>rf_manager := se_world en t (rf_manager r)\<rparr>)"
    and clock: "I r \<Longrightarrow> I (r\<lparr>rf_tick := t\<rparr>)"
begin

lemma along_run: "I r \<Longrightarrow> I (refresh_run en cfg n r)"
proof (induction n)
  case 0
  then show ?case by simp
next
  case (Suc n)
  then show ?case
    by (cases "rf_pc (refresh_run en cfg n r)") (simp_all add: refresh_step_def steps world clock)
qed

end

section \<open>Admissions are few and paced\<close>

fun paced :: "bool \<Rightarrow> call list \<Rightarrow> bool option" where
  "paced b [] = Some b"
| "paced b (Create m # cs) = (if b then None else paced True cs)"
| "paced b (Pause # cs) = paced False cs"
| "paced b (c # cs) = paced b cs"

lemma paced_append: "paced b (xs @ ys) = (case paced b xs of None \<Rightarrow> None | Some c \<Rightarrow> paced c ys)"
  by (induction b xs rule: paced.induct) auto

definition creates :: "call list \<Rightarrow> nat" where
  "creates cs = length (filter (\<lambda>c. case c of Create m \<Rightarrow> True | _ \<Rightarrow> False) cs)"

lemma creates_append [simp]: "creates (xs @ ys) = creates xs + creates ys"
  by (simp add: creates_def)

lemma creates_simps [simp]:
  "creates [] = 0" "creates (Create m # cs) = Suc (creates cs)" "creates (Get i # cs) = creates cs"
  "creates (Delete i # cs) = creates cs" "creates (Probe # cs) = creates cs"
  "creates (Status st # cs) = creates cs" "creates (Pause # cs) = creates cs"
  by (simp_all add: creates_def)

text \<open>The iteration a control belongs to, and what may have happened by then.\<close>

fun index_ok :: "refresh_pc \<Rightarrow> bool" where
  "index_ok Begin = True"
| "index_ok (Iterate i a) = (i \<le> max_refresh_iterations)"
| "index_ok (Pick i) = (i < max_refresh_iterations)"
| "index_ok (Ask_Queued i s) = (i < max_refresh_iterations)"
| "index_ok (Resume_Row i) = (i < max_refresh_iterations)"
| "index_ok (Ask_Row i s) = (i < max_refresh_iterations)"
| "index_ok (Check_Held i h) = (i < max_refresh_iterations)"
| "index_ok (Release_Held i h x) = (i < max_refresh_iterations)"
| "index_ok (Admit_New i h) = (i < max_refresh_iterations)"
| "index_ok (Glm_Ask i h) = (i < max_refresh_iterations)"
| "index_ok (Glm_Check i h) = (i < max_refresh_iterations)"
| "index_ok (Post i h) = (i < max_refresh_iterations)"
| "index_ok (Ask_Cli i h x) = (i < max_refresh_iterations)"
| "index_ok (Answered i a h ans) = (i < max_refresh_iterations)"
| "index_ok (Lock_Resolve i) = (i < max_refresh_iterations)"
| "index_ok (Lock_Release i x) = (i < max_refresh_iterations)"
| "index_ok (Finished e) = True"

fun created_by :: "refresh_pc \<Rightarrow> nat" where
  "created_by Begin = 0"
| "created_by (Iterate i a) = i"
| "created_by (Pick i) = i"
| "created_by (Ask_Queued i s) = i"
| "created_by (Resume_Row i) = i"
| "created_by (Ask_Row i s) = i"
| "created_by (Check_Held i h) = i"
| "created_by (Release_Held i h x) = i"
| "created_by (Admit_New i h) = i"
| "created_by (Glm_Ask i h) = i"
| "created_by (Glm_Check i h) = i"
| "created_by (Post i h) = i"
| "created_by (Ask_Cli i h x) = i"
| "created_by (Answered i a h ans) = i + 1"
| "created_by (Lock_Resolve i) = i + 1"
| "created_by (Lock_Release i x) = i + 1"
| "created_by (Finished e) = max_refresh_iterations"

fun may_be_open :: "refresh_pc \<Rightarrow> bool" where
  "may_be_open (Iterate i a) = (0 < i \<and> a)"
| "may_be_open (Answered i a h ans) = a"
| "may_be_open (Lock_Resolve i) = True"
| "may_be_open (Lock_Release i x) = True"
| "may_be_open (Finished e) = True"
| "may_be_open pc = False"

definition orderly :: "refresh \<Rightarrow> bool" where
  "orderly r \<longleftrightarrow> index_ok (rf_pc r) \<and> creates (rf_trace r) \<le> created_by (rf_pc r) \<and>
     (\<exists>b. paced False (rf_trace r) = Some b \<and> (b \<longrightarrow> may_be_open (rf_pc r)))"

lemma orderly_step:
  assumes "orderly r" "\<forall>e. rf_pc r \<noteq> Finished e"
  shows "orderly (pc_step en cfg r)"
  using assms
  by (cases "rf_pc r")
    (auto simp: orderly_def pc_step_def pc_steps refresh_fields Let_def paced_append max_refresh_iterations_def
       split: prod.split option.split sum.split)

text \<open>Every step lowers the rank.\<close>

definition left :: "nat \<Rightarrow> nat" where
  "left i = 12 * (max_refresh_iterations - i)"

fun pc_rank :: "refresh_pc \<Rightarrow> nat" where
  "pc_rank Begin = 73"
| "pc_rank (Iterate i a) = left i + 12"
| "pc_rank (Pick i) = left i + 11"
| "pc_rank (Ask_Queued i s) = left i + 4"
| "pc_rank (Resume_Row i) = left i + 10"
| "pc_rank (Ask_Row i s) = left i + 9"
| "pc_rank (Check_Held i h) = left i + 10"
| "pc_rank (Release_Held i h x) = left i + 9"
| "pc_rank (Admit_New i h) = left i + 8"
| "pc_rank (Glm_Ask i h) = left i + 7"
| "pc_rank (Glm_Check i h) = left i + 6"
| "pc_rank (Post i h) = left i + 5"
| "pc_rank (Ask_Cli i h x) = left i + 5"
| "pc_rank (Answered i a h ans) = left i + 3"
| "pc_rank (Lock_Resolve i) = left i + 2"
| "pc_rank (Lock_Release i x) = left i + 1"
| "pc_rank (Finished e) = 0"

lemma left_next: "i < max_refresh_iterations \<Longrightarrow> left (Suc i) + 12 = left i"
  by (simp add: left_def max_refresh_iterations_def)

lemma rank_step:
  assumes "index_ok (rf_pc r)" "\<forall>e. rf_pc r \<noteq> Finished e"
  shows "pc_rank (rf_pc (pc_step en cfg r)) < pc_rank (rf_pc r)"
  using assms left_next
  by (cases "rf_pc r")
    (fastforce simp: pc_step_def pc_steps refresh_fields Let_def left_def max_refresh_iterations_def
       split: prod.split option.split sum.split)+

lemma orderly_fields [simp]:
  "orderly (r\<lparr>rf_manager := m\<rparr>) = orderly r" "orderly (r\<lparr>rf_tick := t\<rparr>) = orderly r"
  by (simp_all add: orderly_def)

interpretation ord: refresh_invariant orderly en cfg for en cfg
  by unfold_locales (simp_all add: orderly_step)

lemma refresh_orderly: "orderly (refresh_run en cfg n (start_refresh model preemptive t m))"
  by (rule ord.along_run) (auto simp: orderly_def start_refresh_def)

lemma refresh_progress:
  assumes "\<forall>e. rf_pc (refresh_run en cfg n (start_refresh model preemptive t m)) \<noteq> Finished e"
  shows "n + pc_rank (rf_pc (refresh_run en cfg n (start_refresh model preemptive t m))) \<le> 73"
  using assms
proof (induction n)
  case 0
  then show ?case by (simp add: start_refresh_def)
next
  case (Suc n)
  let ?r = "refresh_run en cfg n (start_refresh model preemptive t m)"
  have nd: "\<forall>e. rf_pc ?r \<noteq> Finished e" using Suc.prems by (auto simp: refresh_step_def)
  have ok: "index_ok (rf_pc ?r)" using refresh_orderly[of en cfg n model preemptive t m] by (simp add: orderly_def)
  have "refresh_step en cfg ?r =
      (pc_step en cfg (?r\<lparr>rf_manager := se_world en (rf_tick ?r) (rf_manager ?r)\<rparr>))\<lparr>rf_tick := rf_tick ?r + 1\<rparr>"
    using nd by (cases "rf_pc ?r") (simp_all add: refresh_step_def)
  moreover have "pc_rank (rf_pc (pc_step en cfg (?r\<lparr>rf_manager := se_world en (rf_tick ?r) (rf_manager ?r)\<rparr>))) < pc_rank (rf_pc ?r)"
    using rank_step[of "?r\<lparr>rf_manager := se_world en (rf_tick ?r) (rf_manager ?r)\<rparr>" en cfg] ok nd by simp
  ultimately show ?case using Suc.IH[OF nd] by simp
qed

lemma finished_stays: "rf_pc (refresh_run en cfg n r) = Finished e \<Longrightarrow> refresh_run en cfg (n + k) r = refresh_run en cfg n r"
  by (induction k) (simp_all add: refresh_step_def)

section \<open>A pre-emptive refresh and the session it rides\<close>

definition row_key :: "cached_state \<Rightarrow> string \<times> string \<times> string \<times> go_time \<times> go_time" where
  "row_key s = (cs_status s, cs_instance s, cs_model s, cs_expires_at s, cs_grace_ends_at s)"

definition ridden :: "manager \<Rightarrow> (string \<times> string \<times> string \<times> go_time \<times> go_time) option" where
  "ridden m = map_option row_key (sm_state m)"

text \<open>The answers a pre-emptive refresh gives the ridden session up for.\<close>

definition replacing :: "call \<Rightarrow> bool" where
  "replacing c \<longleftrightarrow> c \<in> Status ` {''active'', ''disabled'', ''model_locked'', ''model_unavailable''}"

lemma replacing_simps [simp]:
  "replacing (Status x) = (x \<in> {''active'', ''disabled'', ''model_locked'', ''model_unavailable''})"
  "\<not> replacing (Get i)" "\<not> replacing (Create i)" "\<not> replacing (Delete i)" "\<not> replacing Probe" "\<not> replacing Pause"
  by (auto simp: replacing_def)

fun riding_pc :: "refresh_pc \<Rightarrow> bool" where
  "riding_pc (Ask_Queued i s) = False"
| "riding_pc (Resume_Row i) = False"
| "riding_pc (Ask_Row i s) = False"
| "riding_pc (Release_Held i h x) = False"
| "riding_pc (Lock_Resolve i) = False"
| "riding_pc (Lock_Release i x) = False"
| "riding_pc pc = True"

definition no_seat :: "refresh_pc \<Rightarrow> bool" where
  "no_seat pc = (case pc of Finished (Some e) \<Rightarrow> errors_is e Err_Waiting_Room_Required | _ \<Rightarrow> False)"

definition riding :: "manager \<Rightarrow> string \<Rightarrow> nat \<Rightarrow> refresh \<Rightarrow> bool" where
  "riding m model t r \<longleftrightarrow>
     list_ex replacing (rf_trace r) \<or> no_seat (rf_pc r) \<or>
     ridden (rf_manager r) = ridden m \<and> rf_preemptive r \<and> rf_target r = model \<and> riding_pc (rf_pc r) \<and>
     (rf_pc r = Begin \<longrightarrow> rf_manager r = m \<and> rf_tick r = t)"

lemma ridden_probe [simp]: "ridden (glm_probe now st m) = ridden m"
  by (cases "sm_state m")
    (simp_all add: ridden_def row_key_def glm_probe_def Let_def on_state_def with_saved_def)

lemma riding_step:
  assumes "riding m model t r" "sm_state m = Some s" "cs_status s \<noteq> ''queued''" "cs_model s = model \<or> cs_model s = ''''"
    and "model_unavailable_until (sg_fallback cfg) model (se_now en t) m = None"
    and "\<forall>e. rf_pc r \<noteq> Finished e"
  shows "riding m model t (pc_step en cfg r)"
proof (cases "list_ex replacing (rf_trace r)")
  case True
  have "\<exists>cs. rf_trace (pc_step en cfg r) = rf_trace r @ cs"
    by (cases "rf_pc r")
      (auto simp: pc_step_def pc_steps refresh_fields Let_def split: prod.split option.split sum.split)
  with True show ?thesis by (auto simp: riding_def)
next
  case False
  have st: "\<exists>s'. sm_state (rf_manager r) = Some s' \<and> row_key s' = row_key s"
    using assms(1,2,6) False by (auto simp: riding_def ridden_def no_seat_def split: refresh_pc.splits option.splits)
  then obtain s' where s': "sm_state (rf_manager r) = Some s'" "row_key s' = row_key s" by blast
  show ?thesis
    using assms False s'
    by (cases "rf_pc r")
      (auto simp: riding_def pc_step_def pc_steps refresh_fields Let_def short_circuit_def row_key_def
         terminal_statuses_def purchase_statuses_def no_seat_def
         split: prod.split option.split sum.split)
qed

lemma preemptive_riding:
  assumes "sm_state m = Some s" "cs_status s \<noteq> ''queued''" "cs_model s = model \<or> cs_model s = ''''"
    and "model_unavailable_until (sg_fallback cfg) model (se_now en t) m = None"
    and alone: "\<forall>t m. se_world en t m = m"
  shows "riding m model t (refresh_run en cfg n (start_refresh model True t m))"
proof (induction n)
  case 0
  then show ?case by (simp add: riding_def start_refresh_def)
next
  case (Suc n)
  let ?r = "refresh_run en cfg n (start_refresh model True t m)"
  show ?case
  proof (cases "\<forall>e. rf_pc ?r \<noteq> Finished e")
    case True
    have "riding m model t (pc_step en cfg ?r)" by (rule riding_step[OF Suc.IH assms(1-4) True])
    moreover have "rf_pc (pc_step en cfg ?r) \<noteq> Begin"
      using True by (cases "rf_pc ?r")
        (auto simp: pc_step_def pc_steps refresh_fields Let_def split: prod.split option.split sum.split)
    moreover have "refresh_step en cfg ?r = (pc_step en cfg ?r)\<lparr>rf_tick := rf_tick ?r + 1\<rparr>"
      using True alone by (cases "rf_pc ?r") (simp_all add: refresh_step_def)
    ultimately show ?thesis by (simp add: riding_def)
  next
    case False
    then have "refresh_step en cfg ?r = ?r" by (auto simp: refresh_step_def)
    then show ?thesis using Suc.IH by simp
  qed
qed

section \<open>What a commit keeps\<close>

definition stashed_of :: "go_time \<Rightarrow> manager \<Rightarrow> saved_state" where
  "stashed_of now m = (case sm_state m of None \<Rightarrow> sm_saved m | Some s \<Rightarrow> stash now s (sm_saved m))"

lemma commit_state: "sm_state (commit now c m) = map_option (restore_fields (stashed_of now m)) c"
  by (simp add: commit_def with_store_def Let_def stashed_of_def)

lemma commit_saved:
  "sm_saved (commit now c m) =
     (if \<exists>s. c = Some s \<and> cs_quota s \<noteq> None then (stashed_of now m)\<lparr>sv_quota_stale := False\<rparr> else stashed_of now m)"
  by (cases c) (simp_all add: commit_def with_store_def Let_def stashed_of_def)

definition commits :: "(go_time \<times> cached_state option) list \<Rightarrow> manager \<Rightarrow> manager" where
  "commits es m = fold (\<lambda>(now, c). commit now c) es m"

lemma commits_snoc [simp]: "commits (es @ [(now, c)]) m = commit now c (commits es m)"
  by (simp add: commits_def)

text \<open>The last of the values that is present, or the first one.\<close>

definition last_seen :: "'a \<Rightarrow> 'a \<Rightarrow> 'a list \<Rightarrow> 'a" where
  "last_seen absent first xs = last (first # filter (\<lambda>x. x \<noteq> absent) xs)"

lemma last_seen_snoc [simp]: "last_seen absent first (xs @ [x]) = (if x = absent then last_seen absent first xs else x)"
  by (simp add: last_seen_def)

text \<open>A field of the state that outlives the answers that omit it: \<open>view\<close> is the field, \<open>kept\<close> where
  its last value is saved, \<open>absent\<close> the value of an answer without it.\<close>

locale sticky_field =
  fixes view :: "cached_state \<Rightarrow> 'a"
    and kept :: "saved_state \<Rightarrow> 'a"
    and absent :: 'a
  assumes stashed: "kept (stash now s sv) = (if view s = absent then kept sv else view s)"
    and restored: "view (restore_fields sv s) = (if view s = absent then kept sv else view s)"
    and kept_fresh: "kept (sv\<lparr>sv_quota_stale := b\<rparr>) = kept sv"
begin

definition seen :: "manager \<Rightarrow> 'a" where
  "seen m = (case sm_state m of
     None \<Rightarrow> kept (sm_saved m) | Some s \<Rightarrow> if view s = absent then kept (sm_saved m) else view s)"

lemma seen_stash: "kept (stashed_of now m) = seen m"
  by (cases "sm_state m") (simp_all add: seen_def stashed_of_def stashed)

lemma kept_after: "kept (sm_saved (commit now c m)) = seen m"
  by (cases c) (simp_all add: commit_saved seen_stash kept_fresh)

lemma seen_commit:
  "seen (commit now c m) =
     (case c of None \<Rightarrow> seen m | Some s \<Rightarrow> if view s = absent then seen m else view s)"
  by (cases c) (simp_all add: seen_def[of "commit now c m" for c] kept_after commit_state restored seen_stash)

lemma shown_commit: "sm_state (commit now (Some s) m) = Some s' \<Longrightarrow> view s' = seen (commit now (Some s) m)"
  by (auto simp: seen_commit commit_state restored seen_stash)

lemma seen_commits: "seen (commits es m) = last_seen absent (seen m) (map view (List.map_filter snd es))"
proof (induction es rule: rev_induct)
  case Nil
  then show ?case by (simp add: commits_def last_seen_def map_filter_def)
next
  case (snoc e es)
  obtain now c where "e = (now, c)" by (cases e)
  then show ?case using snoc
    by (cases c) (simp_all add: commits_snoc seen_commit last_seen_snoc map_filter_def)
qed

lemma shown_commits:
  "sm_state (commits (es @ [(now, Some s)]) m) = Some s' \<Longrightarrow>
     view s' = last_seen absent (seen m) (map view (List.map_filter snd (es @ [(now, Some s)])))"
  by (metis seen_commits shown_commit commits_snoc)

end

lemmas sticky_defs = stash_def restore_fields_def stamp_quota_source_def or_text_def or_some_def Let_def

interpretation tier: sticky_field cs_access_tier sv_access_tier "''''"
  by unfold_locales (auto simp: sticky_defs)

interpretation promo: sticky_field cs_glm_promo sv_glm_promo "''''"
  by unfold_locales (auto simp: sticky_defs)

interpretation referral: sticky_field cs_referral sv_referral None
  by unfold_locales (auto simp: sticky_defs)

interpretation allowance: sticky_field cs_freebucks sv_freebucks None
  by unfold_locales (auto simp: sticky_defs)

interpretation quota: sticky_field cs_quota sv_quota None
  by unfold_locales (auto simp: sticky_defs)

interpretation plan: sticky_field cs_tier_id sv_tier_id "''''"
  by unfold_locales (auto simp: sticky_defs)

interpretation offers: sticky_field cs_offers sv_offers "[]"
  by unfold_locales (auto simp: sticky_defs)

interpretation offer_reason: sticky_field cs_offer_reason sv_offer_reason "''''"
  by unfold_locales (auto simp: sticky_defs)

lemma fresh_seen [simp]:
  "tier.seen (new_manager st lead pttl uttl adopt) = ''''" "promo.seen (new_manager st lead pttl uttl adopt) = ''''"
  "referral.seen (new_manager st lead pttl uttl adopt) = None" "allowance.seen (new_manager st lead pttl uttl adopt) = None"
  "quota.seen (new_manager st lead pttl uttl adopt) = None" "plan.seen (new_manager st lead pttl uttl adopt) = ''''"
  "offers.seen (new_manager st lead pttl uttl adopt) = []" "offer_reason.seen (new_manager st lead pttl uttl adopt) = ''''"
  by (simp_all add: tier.seen_def promo.seen_def referral.seen_def allowance.seen_def quota.seen_def plan.seen_def
      offers.seen_def offer_reason.seen_def new_manager_def nothing_saved_def)

lemmas all_shown_commits = tier.shown_commits promo.shown_commits referral.shown_commits allowance.shown_commits
  quota.shown_commits plan.shown_commits offers.shown_commits offer_reason.shown_commits

text \<open>Whatever answers and invalidations a new manager commits, the state it shows carries for each of
  eight fields (tier, promotion, referral, allowance, quota table, plan and the offer block) the last value
  any of the committed answers carried, this one included; the account standing is that of the last answer
  alone, and so is what identifies the session.\<close>

lemma commits_keep_last_seen:
  "case sm_state (commits (es @ [(now, Some s)]) (new_manager st lead pttl uttl adopt)) of
     None \<Rightarrow> False
   | Some s' \<Rightarrow>
       (let answers = List.map_filter snd es @ [s]
        in cs_access_tier s' = last_seen '''' '''' (map cs_access_tier answers) \<and>
           cs_glm_promo s' = last_seen '''' '''' (map cs_glm_promo answers) \<and>
           cs_referral s' = last_seen None None (map cs_referral answers) \<and>
           cs_freebucks s' = last_seen None None (map cs_freebucks answers) \<and>
           cs_quota s' = last_seen None None (map cs_quota answers) \<and>
           cs_tier_id s' = last_seen '''' '''' (map cs_tier_id answers) \<and>
           cs_offers s' = last_seen [] [] (map cs_offers answers) \<and>
           cs_offer_reason s' = last_seen '''' '''' (map cs_offer_reason answers) \<and>
           cs_standing s' = cs_standing s \<and> row_key s' = row_key s)"
proof -
  let ?m = "new_manager st lead pttl uttl adopt"
  obtain s' where s': "sm_state (commits (es @ [(now, Some s)]) ?m) = Some s'"
    by (simp add: commit_state)
  have answers: "List.map_filter snd es @ [s] = List.map_filter snd (es @ [(now, Some s)])"
    by (simp add: map_filter_def)
  have own: "cs_standing s' = cs_standing s" "row_key s' = row_key s"
    using s' by (auto simp: commit_state restore_fields_def row_key_def)
  show ?thesis
    using all_shown_commits[OF s'] own by (simp only: s' option.case Let_def answers fresh_seen)
qed

section \<open>Ends and pauses\<close>

text \<open>C23: Whatever the upstream, the clock, the context and the other users of the manager do, a refresh
  returns within seventy-three steps; it has then asked for at most five admissions, and between any two
  of them it paused.\<close>

theorem refresh_bounded:
  "let r = refresh_run en cfg 73 (start_refresh model preemptive t m)
   in (\<exists>e. rf_pc r = Finished e) \<and> creates (rf_trace r) \<le> 5 \<and> paced False (rf_trace r) \<noteq> None"
proof -
  let ?r = "refresh_run en cfg 73 (start_refresh model preemptive t m)"
  have "\<exists>e. rf_pc ?r = Finished e"
    using refresh_progress[of en cfg 73 model preemptive t m] by (cases "rf_pc ?r") auto
  then show ?thesis
    using refresh_orderly[of en cfg 73 model preemptive t m] by (auto simp: orderly_def Let_def max_refresh_iterations_def)
qed

section \<open>The ridden session\<close>

text \<open>C22: While nobody else touches the manager, a pre-emptive refresh of a session that is not queued, holds
  the wanted model and is not remembered as unavailable leaves its status, instance, model and expiry
  alone at every moment, unless the upstream answered active, disabled, model_locked or
  model_unavailable, or refused with waiting_room_required.\<close>

theorem preemptive_keeps_session:
  assumes "sm_state m = Some s" "cs_status s \<noteq> ''queued''" "cs_model s = model \<or> cs_model s = ''''"
    and "model_unavailable_until (sg_fallback cfg) model (se_now en t) m = None"
    and "\<forall>t m. se_world en t m = m"
  shows "let r = refresh_run en cfg n (start_refresh model True t m)
    in (\<exists>s'. sm_state (rf_manager r) = Some s' \<and> row_key s' = row_key s) \<or>
       (\<exists>x \<in> {''active'', ''disabled'', ''model_locked'', ''model_unavailable''}. Status x \<in> set (rf_trace r)) \<or>
       (\<exists>e. rf_pc r = Finished (Some e) \<and> errors_is e Err_Waiting_Room_Required)"
  using preemptive_riding[OF assms, of n] assms(1)
  by (auto simp: riding_def ridden_def list_ex_iff replacing_def no_seat_def Let_def
      split: refresh_pc.splits option.splits)

text \<open>An upstream that gives one answer to every poll and one to every admission, a free CLI slot.\<close>

definition sample_env :: "go_time \<Rightarrow> (go_error + wire_state) \<Rightarrow> (go_error + wire_state) \<Rightarrow> session_env" where
  "sample_env now polled created =
     \<lparr>se_now = (\<lambda>_. now), se_ctx = (\<lambda>_. None), se_world = (\<lambda>_ m. m), se_get = (\<lambda>_ _. polled),
      se_create = (\<lambda>_ _. created), se_delete = (\<lambda>_ _. Inr None), se_probe = (\<lambda>_. (None, None)),
      se_owner_file = (\<lambda>_. None), se_alive = (\<lambda>_ _. False)\<rparr>"

definition sample_config :: session_config where
  "sample_config =
     \<lparr>sg_fallback = (\<lambda>_ _. ''mini''), sg_fmt = (\<lambda>_. ''1''), sg_zone = (\<lambda>_. 0), sg_owner = ('''', 0)\<rparr>"

definition sample_row :: "string \<Rightarrow> cached_state" where
  "sample_row status =
     no_session\<lparr>cs_status := status, cs_instance := ''i1'', cs_model := ''m'', cs_expires_at := 100 * minute\<rparr>"

definition sample_manager :: "cached_state option \<Rightarrow> manager" where
  "sample_manager c = (new_manager None (2 * minute) 0 minute False)\<lparr>sm_state := c\<rparr>"



lemma preemptive_keeps_session_witness:
  "let r = refresh_run (sample_env 0 (Inl (Other ''x'')) (Inr (plain_wire ''queued'' ''i2'' ''m'' 0))) sample_config 20
             (start_refresh ''m'' True 0 (sample_manager (Some (sample_row ''active''))))
   in ((\<exists>s'. sm_state (rf_manager r) = Some s' \<and> row_key s' = row_key (sample_row ''active'')) \<or>
      (\<exists>x \<in> {''active'', ''disabled'', ''model_locked'', ''model_unavailable''}. Status x \<in> set (rf_trace r)) \<or>
      (\<exists>e. rf_pc r = Finished (Some e) \<and> errors_is e Err_Waiting_Room_Required))"
  by (rule preemptive_keeps_session)
    (simp_all add: sample_manager_def sample_row_def sample_env_def sample_config_def model_unavailable_until_def
       new_manager_def)


section \<open>A restart\<close>

lemma first_steps:
  assumes "\<forall>t m. se_world en t m = m" "\<forall>t. se_ctx en t = None" "sm_state m = None"
    and "model_unavailable_until (sg_fallback cfg) model (se_now en 0) m = None"
  shows "refresh_run en cfg 3 (start_refresh model preemptive 0 m) =
    \<lparr>rf_pc = Resume_Row 0, rf_target = model, rf_preemptive = preemptive, rf_manager = m, rf_tick = 3, rf_trace = []\<rparr>"
  using assms
  by (simp add: eval_nat_numeral refresh_step_def start_refresh_def pc_step_def begin_step_def short_circuit_def
      iterate_step_def pick_step_def jump_def max_refresh_iterations_def)

lemma new_manager_saved [simp]:
  "sm_store (new_manager st lead pttl uttl adopt) = st" "sm_state (new_manager st lead pttl uttl adopt) = None"
  "model_unavailable_until fb model t (new_manager st lead pttl uttl adopt) = None"
  "sm_adopt (new_manager st lead pttl uttl adopt) = adopt"
  by (simp_all add: new_manager_def model_unavailable_until_def)

lemma commit_store:
  "sm_store m = Some row \<Longrightarrow>
     sm_store (commit now (Some s) m) = Some (store_save (Some (restore_fields (stashed_of now m) s)))"
  by (simp add: commit_def with_store_def Let_def stashed_of_def)

lemma restore_key [simp]:
  "cs_status (restore_fields sv s) = cs_status s" "cs_instance (restore_fields sv s) = cs_instance s"
  "cs_model (restore_fields sv s) = cs_model s" "cs_expires_at (restore_fields sv s) = cs_expires_at s"
  "cs_grace_ends_at (restore_fields sv s) = cs_grace_ends_at s"
  by (simp_all add: restore_fields_def)

lemma persisted_key [simp]:
  "cs_status (persisted_view s) = cs_status s" "cs_instance (persisted_view s) = cs_instance s"
  "cs_model (persisted_view s) = cs_model s" "cs_expires_at (persisted_view s) = cs_expires_at s"
  "cs_grace_ends_at (persisted_view s) = cs_grace_ends_at s"
  by (simp_all add: persisted_view_def)

definition resumable :: "string \<Rightarrow> go_time \<Rightarrow> cached_state \<Rightarrow> bool" where
  "resumable model now s \<longleftrightarrow>
     cs_status s = ''active'' \<and> cs_instance s \<noteq> '''' \<and>
     (is_zero (cs_grace_ends_at s) \<or> \<not> after now (cs_grace_ends_at s)) \<and>
     \<not> is_zero (cs_expires_at s) \<and> before now (cs_expires_at s - expiry_margin) \<and>
     (cs_model s = '''' \<or> model = '''' \<or> cs_model s = model)"

lemma resume_persisted:
  fixes en :: session_env
  assumes "sm_store (rf_manager r) = Some (store_save (Some s))"
  defines "now \<equiv> se_now en (rf_tick r)"
  shows "rf_pc (resume_step en 0 r) =
      (if resumable (rf_target r) now s then Ask_Row 0 (persisted_view s) else Admit_New 0 None)"
    and "resumable (rf_target r) now s \<Longrightarrow>
      resume_step en 0 r = r\<lparr>rf_pc := Ask_Row 0 (persisted_view s),
        rf_manager := with_store (store_load now) (rf_manager r)\<rparr>"
proof -
  have load: "store_load now (store_save (Some s)) =
      (if cs_instance s = '''' \<and> cs_status s \<noteq> ''queued'' \<or>
          \<not> is_zero (cs_grace_ends_at s) \<and> after now (cs_grace_ends_at s)
       then None else Some (persisted_view s))"
    by (simp add: store_save_def store_load_def)
  have all: "rf_pc (resume_step en 0 r) =
      (if resumable (rf_target r) now s then Ask_Row 0 (persisted_view s) else Admit_New 0 None) \<and>
      (resumable (rf_target r) now s \<longrightarrow>
        resume_step en 0 r = r\<lparr>rf_pc := Ask_Row 0 (persisted_view s),
          rf_manager := with_store (store_load now) (rf_manager r)\<rparr>)"
  proof (cases "store_load now (store_save (Some s))")
    case None
    then have "\<not> resumable (rf_target r) now s" by (auto simp: load resumable_def split: if_splits)
    with None show ?thesis by (simp add: resume_step_def now_def[symmetric] assms(1) Let_def refresh_fields)
  next
    case (Some v)
    then have v: "v = persisted_view s" "is_zero (cs_grace_ends_at s) \<or> \<not> after now (cs_grace_ends_at s)"
      by (auto simp: load split: if_splits)
    show ?thesis
    proof (cases "cs_status s \<noteq> ''active'' \<or> cs_instance s = ''''")
      case True
      then have "\<not> resumable (rf_target r) now s" by (auto simp: resumable_def)
      with True Some v show ?thesis
        by (simp add: resume_step_def now_def[symmetric] assms(1) Let_def refresh_fields)
    next
      case False
      then have "resumable (rf_target r) now s \<longleftrightarrow>
          \<not> (is_zero (cs_expires_at s) \<or> \<not> before now (cs_expires_at s - expiry_margin) \<or>
             cs_model s \<noteq> '''' \<and> rf_target r \<noteq> '''' \<and> cs_model s \<noteq> rf_target r)"
        using v by (simp only: resumable_def) blast
      with False Some v show ?thesis
        by (simp add: resume_step_def now_def[symmetric] assms(1) Let_def jump_def on_manager_def)
    qed
  qed
  show "rf_pc (resume_step en 0 r) =
      (if resumable (rf_target r) now s then Ask_Row 0 (persisted_view s) else Admit_New 0 None)"
    using all by (rule conjunct1)
  show "resume_step en 0 r = r\<lparr>rf_pc := Ask_Row 0 (persisted_view s),
        rf_manager := with_store (store_load now) (rf_manager r)\<rparr>"
    if "resumable (rf_target r) now s"
    using all that by blast
qed

lemma row_active:
  assumes "se_get en (rf_tick r) (cs_instance s) = Inr w" "ws_status w = ''active''"
    and "ws_model w = '''' \<or> rf_target r = '''' \<or> ws_model w = rf_target r"
  shows "row_step en i s r = jump (Answered i False None (Inr w)) (log_calls [Get (cs_instance s)] r)"
  using assms by (auto simp: row_step_def Let_def)

lemma answered_active:
  assumes "ws_status w = ''active''"
  shows "answered_step en cfg i admitted held (Inr w) r =
    jump (Finished None) (on_manager
      (\<lambda>m. (commit (se_now en (rf_tick r)) (Some (active_row w (rf_target r))) m)\<lparr>sm_last_admitted := se_now en (rf_tick r)\<rparr>)
      (log_calls [Status ''active''] r))"
  using assms by (simp add: answered_step_def Let_def)

text \<open>C27: A restarted process resumes the persisted session: whatever row was last committed to the store, a
  new manager's first refresh asks the upstream about exactly that instance when the row is active, inside
  its grace window, five seconds short of its expiry and for no other model, and otherwise goes on to a
  new admission; and when the upstream answers that the instance is active and for no other model, the
  refresh ends with it and without an admission.\<close>

theorem restart_resumes:
  assumes "sm_store m = Some row" "\<forall>t m. se_world en t m = m" "\<forall>t. se_ctx en t = None"
  shows "let new = new_manager (sm_store (commit now (Some s) m)) lead pttl uttl adopt;
             run = (\<lambda>n. refresh_run en cfg n (start_refresh model preemptive 0 new))
         in rf_pc (run 4) =
              (if resumable model (se_now en 3) s
               then Ask_Row 0 (persisted_view (restore_fields (stashed_of now m) s)) else Admit_New 0 None) \<and>
            (resumable model (se_now en 3) s \<longrightarrow>
              (case se_get en 4 (cs_instance s) of
                 Inr st \<Rightarrow>
                   ws_status st = ''active'' \<and> (ws_model st = '''' \<or> model = '''' \<or> ws_model st = model) \<longrightarrow>
                   rf_pc (run 6) = Finished None \<and> rf_trace (run 6) = [Get (cs_instance s), Status ''active''] \<and>
                   ridden (rf_manager (run 6)) = Some (row_key (active_row st model))
               | Inl e \<Rightarrow> True))"
proof -
  define new where "new = new_manager (sm_store (commit now (Some s) m)) lead pttl uttl adopt"
  define s' where "s' = restore_fields (stashed_of now m) s"
  let ?run = "\<lambda>n. refresh_run en cfg n (start_refresh model preemptive 0 new)"
  have r3: "?run 3 = \<lparr>rf_pc = Resume_Row 0, rf_target = model, rf_preemptive = preemptive, rf_manager = new,
      rf_tick = 3, rf_trace = []\<rparr>"
    by (rule first_steps[OF assms(2,3)]) (simp_all add: new_def)
  have st: "sm_store (rf_manager (?run 3)) = Some (store_save (Some s'))"
    unfolding r3 by (simp add: new_def s'_def commit_store[OF assms(1)])
  have key: "resumable model t s' = resumable model t s" for t by (simp add: resumable_def s'_def)
  have next_step: "?run 4 = refresh_step en cfg (?run 3)" "?run 6 = refresh_step en cfg (refresh_step en cfg (?run 4))"
    using refresh_run.simps(2)[of en cfg 3] refresh_run.simps(2)[of en cfg 4] refresh_run.simps(2)[of en cfg 5] by simp_all
  have r4: "?run 4 = (resume_step en 0 (?run 3))\<lparr>rf_tick := 4\<rparr>"
    using assms(2) unfolding next_step r3 by (simp add: refresh_step_def pc_step_def)
  have one: "rf_pc (?run 4) = (if resumable model (se_now en 3) s then Ask_Row 0 (persisted_view s') else Admit_New 0 None)"
    using resume_persisted(1)[OF st, of en] by (simp add: r4) (simp add: r3 key)
  have two: "rf_pc (?run 6) = Finished None \<and> rf_trace (?run 6) = [Get (cs_instance s), Status ''active''] \<and>
       ridden (rf_manager (?run 6)) = Some (row_key (active_row w model))"
    if res: "resumable model (se_now en 3) s" and get: "se_get en 4 (cs_instance s) = Inr w"
      and act: "ws_status w = ''active''" "ws_model w = '''' \<or> model = '''' \<or> ws_model w = model" for w
  proof -
    have r4': "?run 4 = (?run 3)\<lparr>rf_pc := Ask_Row 0 (persisted_view s'),
        rf_manager := with_store (store_load (se_now en 3)) new, rf_tick := 4\<rparr>"
      using resume_persisted(2)[OF st, of en] res by (simp add: r4) (simp add: r3 key)
    have inst: "cs_instance s' = cs_instance s" by (simp add: s'_def)
    show ?thesis
      using assms(2) get act
      by (simp add: next_step(2) r4' r3 refresh_step_def pc_step_def row_active[where w = w] answered_active refresh_fields inst
          ridden_def commit_state row_key_def)
  qed
  show ?thesis
    using one two unfolding Let_def new_def[symmetric] s'_def[symmetric]
    by (simp split: sum.split)
qed

lemma restart_resumes_witness:
  "resumable ''m'' 0 (sample_row ''active'') \<and>
   rf_trace (refresh_run (sample_env 0 (Inr (plain_wire ''active'' ''i1'' ''m'' (100 * minute))) (Inl (Other ''x'')))
     sample_config 6 (start_refresh ''m'' False 0
       (new_manager (sm_store (commit 0 (Some (sample_row ''active'')) ((sample_manager None)\<lparr>sm_store := Some None\<rparr>)))
         0 0 0 False))) = [Get ''i1'', Status ''active'']"
proof -
  have "resumable ''m'' 0 (sample_row ''active'')" by code_simp
  moreover have "cs_instance (sample_row ''active'') = ''i1''" "ws_status (plain_wire ''active'' ''i1'' ''m'' (100 * minute)) = ''active''"
    "ws_model (plain_wire ''active'' ''i1'' ''m'' (100 * minute)) = ''m''"
    by (simp_all add: sample_row_def plain_wire_def)
  ultimately show ?thesis
    using restart_resumes[where m = "(sample_manager None)\<lparr>sm_store := Some None\<rparr>" and row = None and now = 0
        and en = "sample_env 0 (Inr (plain_wire ''active'' ''i1'' ''m'' (100 * minute))) (Inl (Other ''x''))"
        and cfg = sample_config and model = "''m''" and preemptive = False and s = "sample_row ''active''"
        and lead = 0 and pttl = 0 and uttl = 0 and adopt = False]
    by (simp add: Let_def sample_env_def)
qed

end
