(* ===== verification/Session_Flight.thy ===== *)
theory Session_Flight
  imports Session_Properties
begin

text \<open>
  The single flight of refreshes, \<^verbatim>\<open>EnsureSessionForModel\<close> of
  \<^verbatim>\<open>backend/internal/session/session_manager.go\<close> and \<open>asyncReAdmit\<close> of
  \<^verbatim>\<open>session_admission.go\<close>: any number of calls, each for a model of its own, and the pre-emptive
  refreshes they spawn share one manager. A step is one locked section of one process. While a refresh
  is on its way, and at any other time, the rest of the program may change the manager in every field
  but those of the flight (\<open>flight_key\<close>); that the machine of \<open>Session_Refresh\<close> is such a change is
  \<open>refresh_keeps_flight\<close>. Channels are numbered by the order they are made in; a closed one is in
  \<open>fw_closed\<close>, and receiving from no channel blocks. A context error is its text.
\<close>

section \<open>The locked sections of a call\<close>

datatype ensure_result =
    Instance string
  | Waiting int int duration
  | Failed go_error

datatype look =
    Answer ensure_result
  | Trigger
  | Join "nat option"
  | Lead

definition max_outer_iterations :: nat where
  "max_outer_iterations = 10"

definition waiting_room :: "go_time \<Rightarrow> cached_state \<Rightarrow> ensure_result" where
  "waiting_room now s = Waiting (cs_position s) (cs_queue_depth s) (time_sub (cs_poll_at s) now)"

text \<open>What the cache answers while nobody refreshes; \<open>None\<close> falls through.\<close>

definition cached_answer :: "go_time \<Rightarrow> bool \<Rightarrow> string \<Rightarrow> manager \<Rightarrow> look option" where
  "cached_answer now idle model m =
     (case sm_state m of
        None \<Rightarrow> None
      | Some s \<Rightarrow>
          if sm_refreshing m then None
          else if cs_status s = ''active'' \<or> cs_status s = ''ended'' then
            (if (model = '''' \<or> cs_model s = '''' \<or> cs_model s = model) \<and> session_usable now (Some s) then
               (if sm_re_admit_lead m > 0 \<and> sm_re_admit_expiry m \<noteq> cs_expires_at s \<and>
                   re_admit_due (Some s) (sm_re_admit_lead m) now \<and> idle
                then Some Trigger
                else Some (Answer (Instance (cs_instance s))))
             else None)
          else if cs_status s = ''disabled'' then Some (Answer (Instance ''''))
          else if cs_status s = ''queued'' \<and> before now (cs_poll_at s) then Some (Answer (waiting_room now s))
          else None)"

definition ensure_look :: "go_time \<Rightarrow> bool \<Rightarrow> string \<Rightarrow> manager \<Rightarrow> look" where
  "ensure_look now idle model m =
     (case cached_answer now idle model m of
        Some l \<Rightarrow> l
      | None \<Rightarrow> if sm_refreshing m then Join (sm_refresh_ch m) else Lead)"

definition take_flight :: "manager \<Rightarrow> manager" where
  "take_flight m =
     m\<lparr>sm_refreshing := True, sm_refresh_err := None, sm_refresh_ch := Some (sm_next_ch m),
       sm_next_ch := sm_next_ch m + 1\<rparr>"

definition trigger_flight :: "manager \<Rightarrow> manager" where
  "trigger_flight m =
     take_flight (m\<lparr>sm_re_admit_expiry := (case sm_state m of None \<Rightarrow> zero_time | Some s \<Rightarrow> cs_expires_at s)\<rparr>)"

definition land_flight :: "go_error option \<Rightarrow> manager \<Rightarrow> manager" where
  "land_flight e m =
     m\<lparr>sm_refreshing := False, sm_refresh_err := (if e \<noteq> None then e else sm_refresh_err m), sm_refresh_ch := None\<rparr>"

fun context_error :: "go_error \<Rightarrow> bool" where
  "context_error (Other t) = (t = ''context canceled'' \<or> t = ''context deadline exceeded'')"
| "context_error (Wrapped t e) = context_error e"
| "context_error e = False"

text \<open>A woken waiter: \<open>None\<close> loops, otherwise the error to surface after one look at the state.\<close>

definition woken_error :: "bool \<Rightarrow> manager \<Rightarrow> go_error option" where
  "woken_error alive m =
     (case sm_refresh_err m of
        None \<Rightarrow> None
      | Some e \<Rightarrow> if context_error e \<and> alive then None else Some e)"

definition recheck :: "go_time \<Rightarrow> go_error \<Rightarrow> manager \<Rightarrow> ensure_result" where
  "recheck now e m =
     (case sm_state m of
        None \<Rightarrow> Failed e
      | Some s \<Rightarrow>
          if cs_status s = ''queued'' \<and> before now (cs_poll_at s) then waiting_room now s
          else if session_usable now (Some s) then Instance (cs_instance s)
          else Failed e)"

text \<open>What the leader of a successful refresh returns; \<open>None\<close> loops.\<close>

definition landed_answer :: "go_time \<Rightarrow> manager \<Rightarrow> ensure_result option" where
  "landed_answer now m =
     (case sm_state m of
        None \<Rightarrow> None
      | Some s \<Rightarrow>
          if cs_status s = ''active'' then Some (Instance (cs_instance s))
          else if cs_status s = ''disabled'' then Some (Instance '''')
          else if cs_status s = ''queued'' \<and> before now (cs_poll_at s) then Some (waiting_room now s)
          else None)"

definition not_ready :: go_error where
  "not_ready = Other ''session: not ready after repeated refreshes''"

section \<open>Calls side by side\<close>

datatype phase =
    Idle
  | Top nat
  | Parked nat "nat option"
  | Recheck go_error
  | Leading nat
  | Landed nat
  | Background
  | Returned "ensure_result option"

record flight_world =
  fw_manager :: manager
  fw_closed :: "nat set"
  fw_phase :: "nat \<Rightarrow> phase"
  fw_triggers :: "go_time list"

definition flight_key :: "manager \<Rightarrow> bool \<times> nat option \<times> nat \<times> go_error option \<times> go_time" where
  "flight_key m = (sm_refreshing m, sm_refresh_ch m, sm_next_ch m, sm_refresh_err m, sm_re_admit_expiry m)"

definition to_phase :: "nat \<Rightarrow> phase \<Rightarrow> flight_world \<Rightarrow> flight_world" where
  "to_phase p ph w = w\<lparr>fw_phase := (fw_phase w)(p := ph)\<rparr>"

definition with_manager :: "(manager \<Rightarrow> manager) \<Rightarrow> flight_world \<Rightarrow> flight_world" where
  "with_manager f w = w\<lparr>fw_manager := f (fw_manager w)\<rparr>"

text \<open>\<open>close (m.refreshCh)\<close> and the unlock.\<close>

definition landing :: "go_error option \<Rightarrow> flight_world \<Rightarrow> flight_world" where
  "landing e w =
     w\<lparr>fw_manager := land_flight e (fw_manager w),
       fw_closed := fw_closed w \<union> set_option (sm_refresh_ch (fw_manager w))\<rparr>"

inductive flight_step :: "(nat \<Rightarrow> string) \<Rightarrow> flight_world \<Rightarrow> flight_world \<Rightarrow> bool"
  for model :: "nat \<Rightarrow> string" where
  Call: "fw_phase w p = Idle \<Longrightarrow> flight_step model w (to_phase p (Top 0) w)"
| Exhausted: "fw_phase w p = Top n \<Longrightarrow> \<not> n < max_outer_iterations \<Longrightarrow>
    flight_step model w (to_phase p (Returned (Some (Failed not_ready))) w)"
| Cancelled: "fw_phase w p = Top n \<Longrightarrow> n < max_outer_iterations \<Longrightarrow>
    flight_step model w (to_phase p (Returned (Some (Failed e))) w)"
| Answered_From_Cache: "fw_phase w p = Top n \<Longrightarrow> n < max_outer_iterations \<Longrightarrow>
    ensure_look now idle (model p) (fw_manager w) = Answer a \<Longrightarrow>
    flight_step model w (to_phase p (Returned (Some a)) w)"
| Triggered: "fw_phase w p = Top n \<Longrightarrow> n < max_outer_iterations \<Longrightarrow>
    ensure_look now idle (model p) (fw_manager w) = Trigger \<Longrightarrow> sm_state (fw_manager w) = Some s \<Longrightarrow>
    fw_phase w q = Idle \<Longrightarrow> q \<noteq> p \<Longrightarrow>
    flight_step model w
      ((to_phase q Background (to_phase p (Top (n + 1)) (with_manager trigger_flight w)))
         \<lparr>fw_triggers := cs_expires_at s # fw_triggers w\<rparr>)"
| Parks: "fw_phase w p = Top n \<Longrightarrow> n < max_outer_iterations \<Longrightarrow>
    ensure_look now idle (model p) (fw_manager w) = Join ch \<Longrightarrow> flight_step model w (to_phase p (Parked n ch) w)"
| Leads: "fw_phase w p = Top n \<Longrightarrow> n < max_outer_iterations \<Longrightarrow>
    ensure_look now idle (model p) (fw_manager w) = Lead \<Longrightarrow>
    flight_step model w (to_phase p (Leading n) (with_manager take_flight w))"
| Gives_Up: "fw_phase w p = Parked n ch \<Longrightarrow> flight_step model w (to_phase p (Returned (Some (Failed e))) w)"
| Wakes: "fw_phase w p = Parked n (Some ch) \<Longrightarrow> ch \<in> fw_closed w \<Longrightarrow>
    flight_step model w
      (to_phase p (case woken_error alive (fw_manager w) of None \<Rightarrow> Top (n + 1) | Some e \<Rightarrow> Recheck e) w)"
| Rechecks: "fw_phase w p = Recheck e \<Longrightarrow>
    flight_step model w (to_phase p (Returned (Some (recheck now e (fw_manager w)))) w)"
| Lands: "fw_phase w p = Leading n \<Longrightarrow>
    flight_step model w
      (to_phase p (case e of None \<Rightarrow> Landed n | Some x \<Rightarrow> Returned (Some (Failed x))) (landing e w))"
| Reads: "fw_phase w p = Landed n \<Longrightarrow>
    flight_step model w
      (to_phase p (case landed_answer now (fw_manager w) of None \<Rightarrow> Top (n + 1) | Some a \<Rightarrow> Returned (Some a)) w)"
| Background_Lands: "fw_phase w p = Background \<Longrightarrow>
    flight_step model w (to_phase p (Returned None) (landing e w))"
| World: "flight_key m = flight_key (fw_manager w) \<Longrightarrow> flight_step model w (w\<lparr>fw_manager := m\<rparr>)"

definition flight_start :: "flight_world \<Rightarrow> bool" where
  "flight_start w \<longleftrightarrow>
     (\<forall>p. fw_phase w p = Idle) \<and> fw_closed w = {} \<and> fw_triggers w = [] \<and>
     (\<exists>store lead pttl uttl adopt. fw_manager w = new_manager store lead pttl uttl adopt)"

section \<open>What a look at the manager decides\<close>

lemma look_cases:
  "ensure_look now idle mo m = Join ch \<Longrightarrow> sm_refreshing m \<and> ch = sm_refresh_ch m"
  "ensure_look now idle mo m = Lead \<Longrightarrow> \<not> sm_refreshing m"
  "ensure_look now idle mo m = Trigger \<Longrightarrow>
     \<not> sm_refreshing m \<and> idle \<and> sm_re_admit_lead m > 0 \<and>
     (\<exists>s. sm_state m = Some s \<and> sm_re_admit_expiry m \<noteq> cs_expires_at s \<and> re_admit_due (Some s) (sm_re_admit_lead m) now)"
  by (auto simp: ensure_look_def cached_answer_def split: option.splits if_splits)

lemma flight_manager_simps [simp]:
  "sm_refreshing (take_flight m)" "sm_refresh_ch (take_flight m) = Some (sm_next_ch m)"
  "sm_next_ch (take_flight m) = Suc (sm_next_ch m)" "sm_re_admit_expiry (take_flight m) = sm_re_admit_expiry m"
  "sm_refresh_err (take_flight m) = None"
  "sm_refreshing (trigger_flight m)" "sm_refresh_ch (trigger_flight m) = Some (sm_next_ch m)"
  "sm_next_ch (trigger_flight m) = Suc (sm_next_ch m)" "sm_refresh_err (trigger_flight m) = None"
  "sm_re_admit_expiry (trigger_flight m) = (case sm_state m of None \<Rightarrow> zero_time | Some s \<Rightarrow> cs_expires_at s)"
  "\<not> sm_refreshing (land_flight e m)" "sm_refresh_ch (land_flight e m) = None"
  "sm_next_ch (land_flight e m) = sm_next_ch m" "sm_re_admit_expiry (land_flight e m) = sm_re_admit_expiry m"
  by (simp_all add: take_flight_def trigger_flight_def land_flight_def)

lemma world_simps [simp]:
  "fw_manager (to_phase p ph w) = fw_manager w" "fw_closed (to_phase p ph w) = fw_closed w"
  "fw_triggers (to_phase p ph w) = fw_triggers w" "fw_phase (to_phase p ph w) = (fw_phase w)(p := ph)"
  "fw_manager (with_manager f w) = f (fw_manager w)" "fw_closed (with_manager f w) = fw_closed w"
  "fw_triggers (with_manager f w) = fw_triggers w" "fw_phase (with_manager f w) = fw_phase w"
  "fw_manager (landing e w) = land_flight e (fw_manager w)" "fw_phase (landing e w) = fw_phase w"
  "fw_closed (landing e w) = fw_closed w \<union> set_option (sm_refresh_ch (fw_manager w))"
  "fw_triggers (landing e w) = fw_triggers w"
  by (simp_all add: to_phase_def with_manager_def landing_def)

section \<open>The invariant of the flight\<close>

text \<open>Who refreshes.\<close>

fun refresher :: "phase \<Rightarrow> bool" where
  "refresher (Leading n) = True"
| "refresher Background = True"
| "refresher ph = False"

definition refreshers :: "flight_world \<Rightarrow> nat set" where
  "refreshers w = {p. refresher (fw_phase w p)}"

lemma refreshers_simps [simp]:
  "refreshers (to_phase p ph w) = (if refresher ph then insert p (refreshers w) else refreshers w - {p})"
  "refreshers (with_manager f w) = refreshers w" "refreshers (landing e w) = refreshers w"
  "refreshers (w\<lparr>fw_manager := m\<rparr>) = refreshers w" "refreshers (w\<lparr>fw_triggers := ts\<rparr>) = refreshers w"
  by (auto simp: refreshers_def)

definition one_refresher :: "flight_world \<Rightarrow> bool" where
  "one_refresher w \<longleftrightarrow>
     (if sm_refreshing (fw_manager w)
      then (\<exists>p. refreshers w = {p}) \<and>
           (\<exists>ch. sm_refresh_ch (fw_manager w) = Some ch \<and> ch < sm_next_ch (fw_manager w) \<and> ch \<notin> fw_closed w)
      else refreshers w = {} \<and> sm_refresh_ch (fw_manager w) = None) \<and>
     (\<forall>ch \<in> fw_closed w. ch < sm_next_ch (fw_manager w))"

text \<open>A parked call waits on a channel that is closed or will be; attempts are bounded.\<close>

fun phase_ok :: "nat set \<Rightarrow> nat option \<Rightarrow> phase \<Rightarrow> bool" where
  "phase_ok shut current (Top n) = (n \<le> max_outer_iterations)"
| "phase_ok shut current (Parked n c) =
     (n < max_outer_iterations \<and> (\<exists>ch. c = Some ch \<and> (ch \<in> shut \<or> current = Some ch)))"
| "phase_ok shut current (Leading n) = (n < max_outer_iterations)"
| "phase_ok shut current (Landed n) = (n < max_outer_iterations)"
| "phase_ok shut current ph = True"

definition phases_ok :: "flight_world \<Rightarrow> bool" where
  "phases_ok w \<longleftrightarrow> (\<forall>p. phase_ok (fw_closed w) (sm_refresh_ch (fw_manager w)) (fw_phase w p))"

definition triggers_ok :: "flight_world \<Rightarrow> bool" where
  "triggers_ok w \<longleftrightarrow>
     sm_re_admit_expiry (fw_manager w) = hd (fw_triggers w @ [zero_time]) \<and> distinct_adj (fw_triggers w @ [zero_time])"

definition flight_ok :: "flight_world \<Rightarrow> bool" where
  "flight_ok w \<longleftrightarrow> one_refresher w \<and> phases_ok w \<and> triggers_ok w"

lemma refresher_alone:
  assumes "one_refresher w" "refresher (fw_phase w p)"
  shows "refreshers w = {p}" "sm_refreshing (fw_manager w)"
proof -
  have "p \<in> refreshers w" using assms(2) by (simp add: refreshers_def)
  then show "refreshers w = {p}" "sm_refreshing (fw_manager w)"
    using assms(1) by (auto simp: one_refresher_def split: if_splits)
qed

lemma refreshers_others: "\<not> refresher (fw_phase w p) \<Longrightarrow> refreshers w - {p} = refreshers w"
  by (auto simp: refreshers_def)

lemma keeps_one_refresher: "flight_step model w w' \<Longrightarrow> one_refresher w \<Longrightarrow> one_refresher w'"
proof (induction rule: flight_step.induct)
  case (Lands w p n e)
  then have "refreshers w = {p}" "sm_refreshing (fw_manager w)" using refresher_alone[of w p] by simp_all
  with Lands show ?case by (auto simp: one_refresher_def split: option.split)
next
  case (Background_Lands w p e)
  then have "refreshers w = {p}" "sm_refreshing (fw_manager w)" using refresher_alone[of w p] by simp_all
  with Background_Lands show ?case by (auto simp: one_refresher_def)
next
  case (Triggered w p n now idle s q)
  then show ?case by (auto simp: one_refresher_def refreshers_others dest!: look_cases)
next
  case (Leads w p n now idle)
  then show ?case by (auto simp: one_refresher_def refreshers_others dest!: look_cases)
next
  case (World m w)
  then show ?case by (simp add: one_refresher_def flight_key_def)
qed (simp_all add: one_refresher_def refreshers_others split: option.split)

lemma phases_ok_step:
  assumes "phases_ok w" "phase_ok (fw_closed w) (sm_refresh_ch (fw_manager w)) ph"
  shows "phases_ok (to_phase p ph w)"
  using assms by (simp add: phases_ok_def)

lemma phase_ok_grows:
  assumes "phase_ok shut cur ph" "shut \<subseteq> shut'" "cur = cur' \<or> set_option cur \<subseteq> shut'"
  shows "phase_ok shut' cur' ph"
  using assms by (cases ph) auto

lemma phase_was:
  assumes "phases_ok w" "fw_phase w p = ph"
  shows "phase_ok (fw_closed w) (sm_refresh_ch (fw_manager w)) ph"
  using assms by (auto simp: phases_ok_def)

lemma phases_ok_landing: "phases_ok w \<Longrightarrow> phases_ok (landing e w)"
  unfolding phases_ok_def by (auto intro: phase_ok_grows)

lemma phases_ok_takes:
  assumes "phases_ok w" "one_refresher w" "\<not> sm_refreshing (fw_manager w)"
    and "\<And>m. sm_refresh_ch (f m) = Some (sm_next_ch m)"
  shows "phases_ok (with_manager f w)"
  using assms unfolding phases_ok_def by (auto simp: one_refresher_def intro: phase_ok_grows)

lemma keeps_phases: "flight_step model w w' \<Longrightarrow> one_refresher w \<Longrightarrow> phases_ok w \<Longrightarrow> phases_ok w'"
proof (induction rule: flight_step.induct)
  case (Triggered w p n now idle s q)
  then have "phases_ok (with_manager trigger_flight w)" by (auto intro: phases_ok_takes dest: look_cases)
  with Triggered show ?case by (simp add: phases_ok_def)
next
  case (Leads w p n now idle)
  then have "phases_ok (with_manager take_flight w)" by (auto intro: phases_ok_takes dest: look_cases)
  with Leads show ?case by (simp add: phases_ok_def)
next
  case (Parks w p n now idle ch)
  then show ?case by (intro phases_ok_step) (auto dest!: look_cases simp: one_refresher_def)
next
  case (Lands w p n e)
  then show ?case
    by (intro phases_ok_step phases_ok_landing) (auto dest!: phase_was split: option.split)
next
  case (Background_Lands w p e)
  then show ?case by (intro phases_ok_step phases_ok_landing) auto
next
  case (World m w)
  then show ?case by (simp add: phases_ok_def flight_key_def)
next
  case (Wakes w p n ch alive)
  then show ?case by (intro phases_ok_step) (auto dest!: phase_was split: option.split)
next
  case (Reads w p n now)
  then show ?case by (intro phases_ok_step) (auto dest!: phase_was split: option.split)
qed (auto intro: phases_ok_step)

lemma keeps_triggers: "flight_step model w w' \<Longrightarrow> triggers_ok w \<Longrightarrow> triggers_ok w'"
proof (induction rule: flight_step.induct)
  case (Triggered w p n now idle s q)
  then have "sm_re_admit_expiry (fw_manager w) \<noteq> cs_expires_at s" by (auto dest!: look_cases)
  with Triggered show ?case by (cases "fw_triggers w") (simp_all add: triggers_ok_def)
next
  case (World m w)
  then show ?case by (simp add: triggers_ok_def flight_key_def)
qed (simp_all add: triggers_ok_def)

interpretation flight: invariant_system flight_start "flight_step model" flight_ok for model
proof
  show "flight_ok w" if "flight_start w" for w
    using that
    by (auto simp: flight_start_def flight_ok_def one_refresher_def phases_ok_def triggers_ok_def refreshers_def
        new_manager_def)
  show "flight_ok w'" if "flight_ok w" "flight_step model w w'" for w w'
    using that keeps_one_refresher keeps_phases keeps_triggers by (auto simp: flight_ok_def)
qed


section \<open>What the flight leaves to the rest\<close>

lemma flight_key_simps [simp]:
  "flight_key (m\<lparr>sm_state := a\<rparr>) = flight_key m" "flight_key (m\<lparr>sm_store := b\<rparr>) = flight_key m"
  "flight_key (m\<lparr>sm_saved := c\<rparr>) = flight_key m" "flight_key (m\<lparr>sm_unavailable := d\<rparr>) = flight_key m"
  "flight_key (m\<lparr>sm_locked_pairs := e\<rparr>) = flight_key m" "flight_key (m\<lparr>sm_pending_refund := f\<rparr>) = flight_key m"
  "flight_key (m\<lparr>sm_last_refund := g\<rparr>) = flight_key m" "flight_key (m\<lparr>sm_last_admitted := h\<rparr>) = flight_key m"
  "flight_key (with_store k m) = flight_key m" "flight_key (with_saved l m) = flight_key m"
  by (simp_all add: flight_key_def with_store_def with_saved_def)

lemma flight_key_operations [simp]:
  "flight_key (commit now c m) = flight_key m"
  "flight_key (snd (record_invalidation now reason m)) = flight_key m"
  "flight_key (record_release_receipt inst rc m) = flight_key m"
  "flight_key (record_model_unavailable z now mo win m) = flight_key m"
  "flight_key (record_model_lock mo mo' m) = flight_key m"
  "flight_key (glm_probe now st m) = flight_key m"
  "flight_key (drop_if_held now inst reason m) = flight_key m"
  "flight_key (snd (snd (short_circuit fb now mo m))) = flight_key m"
  by (simp_all add: commit_def Let_def record_invalidation_def record_release_receipt_def record_model_unavailable_def
      record_model_lock_def glm_probe_def drop_if_held_def short_circuit_def on_state_def invalidate_with_reason_def
      split: option.split)

lemma pc_step_flight: "flight_key (rf_manager (pc_step en cfg r)) = flight_key (rf_manager r)"
  by (cases "rf_pc r")
    (auto simp: pc_step_def pc_steps refresh_fields Let_def split: prod.split option.split sum.split
       dest: arg_cong[where f = "\<lambda>x. flight_key (snd (snd x))"])

lemma refresh_keeps_flight:
  assumes "\<forall>t m. flight_key (se_world en t m) = flight_key m"
  shows "flight_key (rf_manager (refresh_run en cfg n (start_refresh model preemptive t m))) = flight_key m"
proof (induction n)
  case 0
  then show ?case by (simp add: start_refresh_def)
next
  case (Suc n)
  then show ?case
    using assms by (auto simp: refresh_step_def pc_step_flight split: refresh_pc.split)
qed


section \<open>Properties\<close>

text \<open>C4: However the calls, the pre-emptive refreshes and the rest of the program interleave, at most one
  refresh is on its way, and one is exactly while the flag is set; a parked call waits on a channel that
  is closed already or that the one refresher will close, never on none; no channel is closed twice; and
  no two successive pre-emptive refreshes are for the same expiry.\<close>

theorem one_refresh_in_flight:
  assumes "reach flight_start (flight_step model) w"
  shows "(sm_refreshing (fw_manager w) \<longleftrightarrow> refreshers w \<noteq> {}) \<and>
    (\<forall>p q. refresher (fw_phase w p) \<and> refresher (fw_phase w q) \<longrightarrow>
       p = q \<and> (\<exists>ch. sm_refresh_ch (fw_manager w) = Some ch \<and> ch \<notin> fw_closed w)) \<and>
    (\<forall>p n c. fw_phase w p = Parked n c \<longrightarrow>
       (\<exists>ch. c = Some ch \<and> (ch \<in> fw_closed w \<or> sm_refresh_ch (fw_manager w) = Some ch \<and> refreshers w \<noteq> {}))) \<and>
    distinct_adj (fw_triggers w)"
proof -
  have ok: "one_refresher w" "phases_ok w" "triggers_ok w"
    using flight.reach_inv[OF assms] by (simp_all add: flight_ok_def)
  have one: "sm_refreshing (fw_manager w) \<longleftrightarrow> refreshers w \<noteq> {}"
    using ok(1) by (auto simp: one_refresher_def split: if_splits)
  moreover have "p = q \<and> (\<exists>ch. sm_refresh_ch (fw_manager w) = Some ch \<and> ch \<notin> fw_closed w)"
    if "refresher (fw_phase w p) \<and> refresher (fw_phase w q)" for p q
    using that ok(1) refresher_alone[OF ok(1), of p] refresher_alone[OF ok(1), of q]
    by (auto simp: one_refresher_def)
  moreover have "\<exists>ch. c = Some ch \<and> (ch \<in> fw_closed w \<or> sm_refresh_ch (fw_manager w) = Some ch \<and> refreshers w \<noteq> {})"
    if "fw_phase w p = Parked n c" for p n c
    using phase_was[OF ok(2) that] ok(1) one by (auto simp: one_refresher_def split: if_splits)
  moreover have "distinct_adj (fw_triggers w)"
    using ok(3) by (cases "fw_triggers w" rule: rev_cases) (auto simp: triggers_ok_def distinct_adj_append_iff)
  ultimately show ?thesis by blast
qed

text \<open>C7: No waiter is stranded: from every reachable state a parked call can leave its channel, at most one
  step of another process away, namely the landing of the one refresher, which its step bound makes
  sure of; it then tries again or surfaces the error of the refresh.\<close>

theorem no_waiter_stranded:
  assumes "reach flight_start (flight_step model) w" "fw_phase w p = Parked n c"
  shows "\<exists>w1 w2. (w1 = w \<or> (\<exists>q. refresher (fw_phase w q) \<and> \<not> refresher (fw_phase w1 q) \<and> flight_step model w w1)) \<and>
    flight_step model w1 w2 \<and> (fw_phase w2 p = Top (n + 1) \<or> (\<exists>e. fw_phase w2 p = Recheck e))"
proof -
  have ok: "one_refresher w" "phases_ok w"
    using flight.reach_inv[OF assms(1)] by (simp_all add: flight_ok_def)
  obtain ch where c: "c = Some ch" and wait: "ch \<in> fw_closed w \<or> sm_refresh_ch (fw_manager w) = Some ch"
    using phase_was[OF ok(2) assms(2)] by auto
  have wakes: "\<exists>w2. flight_step model w1 w2 \<and> (fw_phase w2 p = Top (n + 1) \<or> (\<exists>e. fw_phase w2 p = Recheck e))"
    if "fw_phase w1 p = Parked n (Some ch)" "ch \<in> fw_closed w1" for w1
    using flight_step.Wakes[OF that, of model True]
    by (intro exI conjI) (assumption, auto split: option.split)
  show ?thesis
  proof (cases "ch \<in> fw_closed w")
    case True
    then show ?thesis using wakes[of w] assms(2) c by blast
  next
    case False
    then have "refreshers w \<noteq> {}" and open_ch: "sm_refresh_ch (fw_manager w) = Some ch"
      using ok(1) wait by (auto simp: one_refresher_def split: if_splits)
    then obtain q where q: "refresher (fw_phase w q)" by (auto simp: refreshers_def)
    have "q \<noteq> p" using q assms(2) by auto
    define w1 where "w1 = to_phase q (case fw_phase w q of Leading k \<Rightarrow> Landed k | _ \<Rightarrow> Returned None) (landing None w)"
    have "flight_step model w w1"
      using q flight_step.Lands[of w q _ model None] flight_step.Background_Lands[of w q model None]
      by (cases "fw_phase w q") (auto simp: w1_def)
    moreover have "\<not> refresher (fw_phase w1 q)" by (simp add: w1_def split: phase.split)
    moreover have "fw_phase w1 p = Parked n (Some ch)" "ch \<in> fw_closed w1"
      using \<open>q \<noteq> p\<close> assms(2) c open_ch by (simp_all add: w1_def)
    ultimately show ?thesis using wakes[of w1] q by blast
  qed
qed

text \<open>How often a call may still move.\<close>

fun moves_left :: "phase \<Rightarrow> nat" where
  "moves_left Idle = 43"
| "moves_left (Top n) = 4 * (10 - n) + 2"
| "moves_left (Parked n c) = 4 * (10 - n) + 1"
| "moves_left (Leading n) = 4 * (10 - n) + 1"
| "moves_left (Landed n) = 4 * (10 - n)"
| "moves_left (Recheck e) = 1"
| "moves_left Background = 1"
| "moves_left (Returned a) = 0"

lemma moves_left_step:
  assumes "flight_step model w w'" "flight_ok w"
  shows "fw_phase w' p = fw_phase w p \<or> moves_left (fw_phase w' p) < moves_left (fw_phase w p)"
  using assms(1)
proof (cases rule: flight_step.cases)
  case (Wakes q n ch alive)
  then show ?thesis using assms(2) phase_was[of w q]
    by (auto simp: flight_ok_def max_outer_iterations_def split: option.split)
next
  case (Reads q n now)
  then show ?thesis using assms(2) phase_was[of w q]
    by (auto simp: flight_ok_def max_outer_iterations_def split: option.split)
qed (auto simp: max_outer_iterations_def split: option.split)

fun moves :: "nat \<Rightarrow> flight_world list \<Rightarrow> nat" where
  "moves p (w # w' # ws) = (if fw_phase w' p = fw_phase w p then 0 else 1) + moves p (w' # ws)"
| "moves p ws = 0"

text \<open>Every call returns: on any run, however the others interleave and whatever the upstream answers, one
  call moves at most forty-three times, ten attempts of at most four sections each.\<close>

lemma call_moves_bounded:
  assumes "reach flight_start (flight_step model) w" "successively (flight_step model) (w # ws)"
  shows "moves p (w # ws) \<le> moves_left (fw_phase w p) \<and> moves_left (fw_phase w p) \<le> 43"
proof -
  have "moves p (w # ws) \<le> moves_left (fw_phase w p)" if "flight_ok w" "successively (flight_step model) (w # ws)"
    using that
  proof (induction p "w # ws" arbitrary: w ws rule: moves.induct)
    case (1 p w w' ws)
    then have "flight_ok w'" "successively (flight_step model) (w' # ws)" by (auto intro: flight.inv_step)
    with "1.hyps" have "moves p (w' # ws) \<le> moves_left (fw_phase w' p)" by simp
    moreover have "fw_phase w' p = fw_phase w p \<or> moves_left (fw_phase w' p) < moves_left (fw_phase w p)"
      using 1 moves_left_step by auto
    ultimately show ?case by auto
  qed simp_all
  moreover have "moves_left (fw_phase w p) \<le> 43" by (cases "fw_phase w p") auto
  ultimately show ?thesis using flight.reach_inv[OF assms(1)] assms(2) by simp
qed
section \<open>Samples\<close>

text \<open>Call 0 refreshes for the model \<open>b\<close> while the session of the model \<open>m\<close> drains its grace; call 2 waits.\<close>

definition flight_origin :: flight_world where
  "flight_origin =
     \<lparr>fw_manager = new_manager None (2 * minute) 0 minute False, fw_closed = {}, fw_phase = (\<lambda>_. Idle), fw_triggers = []\<rparr>"

definition flight_waiting :: flight_world where
  "flight_waiting =
     to_phase 2 (Parked 0 (Some 0)) (to_phase 2 (Top 0)
       (to_phase 0 (Leading 0) (with_manager take_flight (to_phase 0 (Top 0)
         (flight_origin\<lparr>fw_manager := sample_manager (Some (sample_row ''ended''))\<rparr>)))))"

lemma flight_waiting_reached: "reach flight_start (flight_step (\<lambda>_. ''b'')) flight_waiting"
proof -
  let ?R = "reach flight_start (flight_step (\<lambda>_. ''b''))"
  let ?m = "sample_manager (Some (sample_row ''ended''))"
  let ?w1 = "flight_origin\<lparr>fw_manager := ?m\<rparr>"
  let ?w3 = "to_phase 0 (Leading 0) (with_manager take_flight (to_phase 0 (Top 0) ?w1))"
  have look: "ensure_look 0 False ''b'' ?m = Lead" "ensure_look 0 False ''b'' (take_flight ?m) = Join (Some 0)"
    by (simp_all add: ensure_look_def cached_answer_def sample_manager_def sample_row_def new_manager_def take_flight_def)
  have "?R flight_origin" by (rule reach_start, unfold flight_start_def flight_origin_def) (simp, intro exI, rule refl)
  then have "?R ?w1"
    by (rule reach_step, intro flight_step.World) (simp add: flight_origin_def sample_manager_def flight_key_def)
  then have "?R (to_phase 0 (Top 0) ?w1)"
    by (rule reach_step, intro flight_step.Call) (simp add: flight_origin_def)
  then have "?R ?w3"
    by (rule reach_step, intro flight_step.Leads[where now = 0 and idle = False])
      (simp_all add: look max_outer_iterations_def flight_origin_def)
  then have "?R (to_phase 2 (Top 0) ?w3)"
    by (rule reach_step, intro flight_step.Call) (simp add: flight_origin_def)
  then show ?thesis
    unfolding flight_waiting_def
    by (rule reach_step, intro flight_step.Parks[where now = 0 and idle = False])
      (simp_all add: look max_outer_iterations_def flight_origin_def)
qed

lemma flight_waiting_phases [simp]:
  "fw_phase flight_waiting 2 = Parked 0 (Some 0)" "fw_phase flight_waiting 0 = Leading 0"
  "fw_manager flight_waiting = take_flight (sample_manager (Some (sample_row ''ended'')))"
  by (simp_all add: flight_waiting_def)

lemma one_refresh_in_flight_witness:
  "sm_refreshing (fw_manager flight_waiting) \<and> refreshers flight_waiting \<noteq> {}"
  using one_refresh_in_flight[OF flight_waiting_reached] by simp

lemma no_waiter_stranded_witness:
  "\<exists>w1 w2. flight_step (\<lambda>_. ''b'') w1 w2 \<and> (fw_phase w2 2 = Top (0 + 1) \<or> (\<exists>e. fw_phase w2 2 = Recheck e))"
  using no_waiter_stranded[OF flight_waiting_reached flight_waiting_phases(1)] by blast

lemma call_moves_bounded_witness:
  "moves 2 [flight_waiting, to_phase 2 (Returned (Some (Failed not_ready))) flight_waiting] \<le> 43"
proof -
  have "successively (flight_step (\<lambda>_. ''b'')) [flight_waiting, to_phase 2 (Returned (Some (Failed not_ready))) flight_waiting]"
    using flight_step.Gives_Up[OF flight_waiting_phases(1)] by simp
  from call_moves_bounded[OF flight_waiting_reached this, of 2] show ?thesis by linarith
qed

text \<open>A waiter can be handed the session of another model: there is a run in which a session of the model m
  drains its grace, a call for the model b refreshes, its admission is refused for quota, which the refresh
  machine answers with that error and the old row left alone, and a second call for b, parked meanwhile,
  returns the instance of m; the call that led returns the error.\<close>

lemma waiter_rides_other_model:
  "let m = sample_manager (Some (sample_row ''ended''));
       e = Sentinel Err_Rate_Limited;
       r = refresh_run (sample_env 0 (Inl (Other ''timeout'')) (Inl e)) sample_config 12 (start_refresh ''b'' False 0 m)
   in (case rf_pc r of Finished (Some x) \<Rightarrow> errors_is x Err_Rate_Limited | _ \<Rightarrow> False) \<and>
      map_option cs_model (sm_state (rf_manager r)) = Some ''m'' \<and>
      (\<exists>w. reach flight_start (flight_step (\<lambda>_. ''b'')) w \<and>
         map_option cs_model (sm_state (fw_manager w)) = Some ''m'' \<and>
         fw_phase w 0 = Returned (Some (Failed e)) \<and> fw_phase w 2 = Returned (Some (Instance ''i1'')))"
proof -
  let ?R = "reach flight_start (flight_step (\<lambda>_. ''b''))"
  let ?e = "Sentinel Err_Rate_Limited"
  let ?r = "refresh_run (sample_env 0 (Inl (Other ''timeout'')) (Inl ?e)) sample_config 12
    (start_refresh ''b'' False 0 (sample_manager (Some (sample_row ''ended''))))"
  let ?w1 = "to_phase 0 (Returned (Some (Failed ?e))) (landing (Some ?e) flight_waiting)"
  let ?w2 = "to_phase 2 (Recheck ?e) ?w1"
  let ?w3 = "to_phase 2 (Returned (Some (recheck 0 ?e (fw_manager ?w2)))) ?w2"
  have err: "case rf_pc ?r of Finished (Some x) \<Rightarrow> errors_is x Err_Rate_Limited | _ \<Rightarrow> False" by code_simp
  have row: "map_option cs_model (sm_state (rf_manager ?r)) = Some ''m''" by code_simp
  have "?R ?w1"
    using flight_waiting_reached flight_step.Lands[OF flight_waiting_phases(2), of "\<lambda>_. ''b''" "Some ?e"]
    by (auto intro: reach_step)
  moreover have "flight_step (\<lambda>_. ''b'') ?w1 ?w2"
    using flight_step.Wakes[of ?w1 2 0 0 "\<lambda>_. ''b''" True]
    by (simp add: woken_error_def land_flight_def take_flight_def sample_manager_def new_manager_def)
  moreover have "flight_step (\<lambda>_. ''b'') ?w2 ?w3" by (rule flight_step.Rechecks) simp
  ultimately have "?R ?w3" by (blast intro: reach_step)
  moreover have "recheck 0 ?e (fw_manager ?w2) = Instance ''i1''"
    by (simp add: recheck_def land_flight_def take_flight_def sample_manager_def sample_row_def session_usable_def
        grace_ends_at_def no_session_def is_zero_def before_def zero_time_def grace_window_def)
  moreover have "map_option cs_model (sm_state (fw_manager ?w3)) = Some ''m''"
    by (simp add: land_flight_def take_flight_def sample_manager_def sample_row_def)
  ultimately have "\<exists>w. ?R w \<and> map_option cs_model (sm_state (fw_manager w)) = Some ''m'' \<and>
      fw_phase w 0 = Returned (Some (Failed ?e)) \<and> fw_phase w 2 = Returned (Some (Instance ''i1''))"
    by (intro exI[of _ ?w3]) simp
  with err row show ?thesis by (simp only: Let_def simp_thms)
qed
end
