(* ===== verification/Gateway_Errors.thy ===== *)
theory Gateway_Errors
  imports Classify
begin

text \<open>
  How the gateway answers an error: \<^verbatim>\<open>writeError\<close>, \<^verbatim>\<open>writeClientError\<close> and the log ledger of
  \<^verbatim>\<open>backend/internal/server/errors.go\<close>, and the maps of \<^verbatim>\<open>error_taxonomy.go\<close>. The switch is the
  list of its arms in order, each \<open>None\<close> when it does not match. \<open>text\<close> is \<^verbatim>\<open>err.Error()\<close>. A message
  is a body handed on, the fixed text of its arm, or the rendered error; a duration in seconds is exact
  instead of a float.
\<close>

text \<open>What an attempt can fail with: \<^verbatim>\<open>session.WaitingRoomError\<close>, the pool's acquire-time 429 with the
  binding token and the limited ones, an unknown model, a context error, or a refusal.\<close>

datatype request_error =
    Session_Queue int int duration
  | Acquire_Limited rate_limit_error int "int list"
  | Unknown_Model
  | Context_Canceled
  | Context_Deadline
  | Refused go_error

definition refusal :: "request_error \<Rightarrow> go_error option" where
  "refusal re = (case re of Refused e \<Rightarrow> Some e | Acquire_Limited r t ts \<Rightarrow> Some (Rate_Limit r) | _ \<Rightarrow> None)"

definition request_is :: "request_error \<Rightarrow> sentinel \<Rightarrow> bool" where
  "request_is re s = (case refusal re of None \<Rightarrow> False | Some e \<Rightarrow> errors_is e s)"

definition request_as :: "(go_error \<Rightarrow> 'a option) \<Rightarrow> request_error \<Rightarrow> 'a option" where
  "request_as view re = Option.bind (refusal re) view"

section \<open>Views of the other typed errors\<close>

definition as_status_error :: "sentinel \<Rightarrow> go_error \<Rightarrow> (int \<times> string) option" where
  "as_status_error s e =
     first_some (\<lambda>n. case n of Status_Error s' st b \<Rightarrow> if s' = s then Some (st, b) else None | _ \<Rightarrow> None) (error_chain e)"

definition as_waiting_required :: "go_error \<Rightarrow> (duration \<times> string) option" where
  "as_waiting_required e =
     first_some (\<lambda>n. case n of Waiting_Room_Required ra d \<Rightarrow> Some (ra, d) | _ \<Rightarrow> None) (error_chain e)"

definition as_no_endpoints :: "go_error \<Rightarrow> string option" where
  "as_no_endpoints e = first_some (\<lambda>n. case n of No_Endpoints st mo b \<Rightarrow> Some b | _ \<Rightarrow> None) (error_chain e)"

definition as_free_mode :: "go_error \<Rightarrow> string option" where
  "as_free_mode e =
     first_some (\<lambda>n. case n of Free_Mode_Unavailable st msg c r sg b \<Rightarrow> Some msg | _ \<Rightarrow> None) (error_chain e)"

definition as_consent :: "go_error \<Rightarrow> rat option" where
  "as_consent e = first_some (\<lambda>n. case n of Consent_Required st w b \<Rightarrow> Some w | _ \<Rightarrow> None) (error_chain e)"

section \<open>The reply\<close>

datatype reply_text =
    Body string
  | Fixed
  | Rendered

record reply =
  rp_status :: int
  rp_code :: string
  rp_text :: reply_text
  rp_retry :: duration

definition answer :: "int \<Rightarrow> string \<Rightarrow> reply_text \<Rightarrow> duration \<Rightarrow> reply" where
  "answer st kind text retry = \<lparr>rp_status = st, rp_code = kind, rp_text = text, rp_retry = retry\<rparr>"

definition body_or_fixed :: "string \<Rightarrow> reply_text" where
  "body_or_fixed b = (if b = '''' then Fixed else Body b)"

definition limit_reply_code :: "string \<Rightarrow> string" where
  "limit_reply_code status =
     (if status \<in> {''load_shedding'', ''peak_hours'', ''free_mode_run_fanout'', ''free_mode_invalid_agent_model''}
      then status else ''rate_limited'')"

definition rate_limit_retry :: "go_time \<Rightarrow> rate_limit_error \<Rightarrow> duration" where
  "rate_limit_retry now r =
     max 0 (if \<not> is_zero (rl_reset_at r) \<and> after (rl_reset_at r) now
            then time_sub (rl_reset_at r) now else rl_retry_after r)"

text \<open>The arms up to the generic \<^verbatim>\<open>UpstreamError\<close>, which the specific ones must precede.\<close>

definition specific_arms :: "go_time \<Rightarrow> (go_error \<Rightarrow> string) \<Rightarrow> request_error \<Rightarrow> reply option list" where
  "specific_arms now text re =
     [map_option (\<lambda>b. answer 403 ''account_banned'' Rendered (max 0 (time_sub (resumes_at b) now)))
        (request_as as_ban re),
      map_option (\<lambda>(st, b). answer 429 ''turn_spend_limited'' (body_or_fixed b) 0)
        (request_as (as_status_error Err_Turn_Spend_Limited) re),
      map_option (\<lambda>r. answer 429 (limit_reply_code (rl_status r)) Rendered (rate_limit_retry now r))
        (request_as as_rate_limit re),
      map_option (\<lambda>c. answer 429 ''ip_capped'' Rendered (max 0 (ic_retry_after c))) (request_as as_ip_capped re),
      map_option (\<lambda>(st, b). answer 409 ''session_limit_reached'' (body_or_fixed b) 0)
        (request_as (as_status_error Err_Session_Limit_Reached) re),
      map_option (\<lambda>l. answer 409 ''model_ip_limited'' Rendered (max 0 (li_retry_after l))) (request_as as_limited_ip re),
      (if request_is re Err_Model_IP_Limited then Some (answer 409 ''model_ip_limited'' Rendered 0) else None),
      (case re of Session_Queue pos depth wait \<Rightarrow> Some (answer 503 ''waiting_room_queued'' Rendered wait) | _ \<Rightarrow> None),
      map_option (\<lambda>w. answer 503 ''waiting_room_queued'' Rendered
                        (if wr_retry_after w \<le> 0 then 10 * second else wr_retry_after w))
        (request_as as_waiting_room re),
      map_option (\<lambda>(ra, d). answer 503 ''waiting_room_required'' Rendered (max 0 ra)) (request_as as_waiting_required re),
      map_option (\<lambda>(st, b). answer 503 ''session_superseded'' (body_or_fixed b) 1)
        (request_as (as_status_error Err_Session_Superseded) re),
      map_option (\<lambda>c. answer 429 ''free_mode_capacity_deferred'' (if cd_body c = '''' then Rendered else Body (cd_body c))
                        (if cd_retry_after c \<le> 0 then 10 * second else cd_retry_after c))
        (request_as as_capacity_deferred re),
      (if request_is re Err_Session_Invalid then
         let msg = (case refusal re of Some e \<Rightarrow> text e | None \<Rightarrow> '''')
         in Some (if contains msg ''free_mode_legacy_luna_agent''
                  then answer 502 ''free_mode_legacy_luna_agent'' Fixed second
                  else if contains msg (wire_text Model_Locked) then answer 409 ''model_locked'' Fixed 0
                  else answer 502 ''session_invalid'' Fixed second)
       else None),
      map_option (\<lambda>b. answer 502 ''model_no_endpoints'' (body_or_fixed b) 0) (request_as as_no_endpoints re)]"

definition generic_arms :: "go_time \<Rightarrow> (go_error \<Rightarrow> string) \<Rightarrow> request_error \<Rightarrow> reply option list" where
  "generic_arms now text re =
     [map_option (\<lambda>u. if ue_retryable u then answer 503 ''upstream_retryable'' (body_or_fixed (ue_body u)) (ue_retry_after u)
                      else answer (if ue_status u \<in> {402, 409, 429} then ue_status u else 502) ''upstream_unavailable''
                             (body_or_fixed (ue_body u)) (ue_retry_after u))
        (request_as as_upstream re),
      (if re = Unknown_Model then Some (answer 400 ''model_not_found'' Rendered 0) else None),
      (if request_is re Err_Auth_Rejected then Some (answer 502 ''upstream_auth_rejected'' Rendered 0) else None),
      (if request_is re Err_Waiting_Room then Some (answer 503 ''waiting_room_queued'' Rendered 0) else None),
      map_option (\<lambda>c. answer 403 ''country_blocked'' Rendered 0) (request_as as_country_blocked re),
      (if request_is re Err_Free_Mode_CLI_Required
       then Some (answer 403 ''free_mode_cli_required'' Rendered 0) else None),
      (if request_is re Err_Free_Mode_Invalid_Agent_Hierarchy
       then Some (answer 403 ''free_mode_invalid_agent_hierarchy'' Rendered 0) else None),
      (if request_is re Err_Free_Mode_Cost_Mode_Required
       then Some (answer 403 ''free_mode_cost_mode_required'' Rendered 0) else None),
      map_option (\<lambda>msg. answer 403 ''free_mode_unavailable'' Fixed 0) (request_as as_free_mode re),
      map_option (\<lambda>(st, b). answer 402 ''provider_usage_exhausted'' (body_or_fixed b) 0)
        (request_as (as_status_error Err_Provider_Usage) re),
      map_option (\<lambda>w. answer 409 ''consent_required'' Fixed 0) (request_as as_consent re),
      map_option (\<lambda>(st, b). answer 409 ''first_tab_discount_changed'' Fixed 0)
        (request_as (as_status_error Err_First_Tab_Changed) re),
      map_option (\<lambda>(st, b). answer 402 ''out_of_credits'' (body_or_fixed b) 0)
        (request_as (as_status_error Err_Credits) re),
      (if re = Context_Deadline then Some (answer 504 ''upstream_timeout'' Rendered 0) else None)]"

definition error_reply :: "go_time \<Rightarrow> (go_error \<Rightarrow> string) \<Rightarrow> request_error \<Rightarrow> reply" where
  "error_reply now text re =
     (case first_some id (specific_arms now text re @ generic_arms now text re) of
        Some r \<Rightarrow> r
      | None \<Rightarrow> answer 502 ''upstream_unavailable'' Rendered 0)"

section \<open>Writing it\<close>

text \<open>The \<^verbatim>\<open>Retry-After\<close> header, in seconds.\<close>

definition retry_header :: "duration \<Rightarrow> int option" where
  "retry_header d = (if d > 0 then Some (max 1 ((d + second - 1) div second)) else None)"

definition open_ai_type :: "string \<Rightarrow> string" where
  "open_ai_type kind =
     (if kind = ''rate_limit_exceeded'' then ''rate_limit_exceeded''
      else if kind \<in> {''missing_bearer_token'', ''strict_violation'', ''invalid_tool_arguments''} then ''invalid_request_error''
      else ''upstream_error'')"

definition anthropic_type :: "int \<Rightarrow> string \<Rightarrow> string" where
  "anthropic_type st kind =
     (if st = 401 then ''authentication_error''
      else if st = 403 then ''permission_error''
      else if st = 404 then ''not_found_error''
      else if st = 429 then ''rate_limit_error''
      else if st = 503 \<and> kind \<in> {''waiting_room_queued'', ''waiting_room_required'', ''capacity_deferred''}
      then ''overloaded_error''
      else if st \<ge> 500 then ''api_error''
      else ''invalid_request_error'')"

text \<open>The log ledger: the first and every fiftieth occurrence of a key is logged.\<close>

type_synonym warn_ledger = "string \<rightharpoonup> int"

definition should_log :: "string \<Rightarrow> warn_ledger \<Rightarrow> bool \<times> warn_ledger" where
  "should_log key m =
     (let n = (case m key of None \<Rightarrow> 0 | Some k \<Rightarrow> k) + 1 in (n = 1 \<or> n mod 50 = 0, m(key \<mapsto> n)))"

datatype log_level = No_Log | Debug | Info | Warn | Err

definition window_of :: "request_error \<Rightarrow> string" where
  "window_of re = (case request_as as_rate_limit re of None \<Rightarrow> '''' | Some r \<Rightarrow> rl_window r)"

text \<open>\<open>label\<close> is the token label of the lease handed in; the reply is \<open>None\<close> when nothing is written.\<close>

definition write_error ::
  "go_time \<Rightarrow> (go_error \<Rightarrow> string) \<Rightarrow> bool \<Rightarrow> string \<Rightarrow> request_error \<Rightarrow> warn_ledger \<Rightarrow> reply option \<times> log_level \<times> warn_ledger" where
  "write_error now text gone label re m =
     (if re = Context_Canceled \<or> gone then (None, Debug, m)
      else
        let r = error_reply now text re;
            expected = rp_code r = ''rate_limited'' \<or> rp_code r = ''session_superseded'';
            key = label @ ''|'' @ rp_code r @ ''|'' @ window_of re;
            level = (if expected then Info else if rp_status r \<ge> 500 then Err else Warn)
        in if expected then
             (case should_log key m of (fire, m') \<Rightarrow> (Some r, if fire then level else No_Log, m'))
           else (Some r, level, m))"

section \<open>The trace line\<close>

text \<open>The status an attempt is listed with; the type switches do not unwrap.\<close>

definition attempt_status :: "request_error \<Rightarrow> int" where
  "attempt_status re =
     (case refusal re of
        Some (Upstream u) \<Rightarrow> ue_status u
      | Some (Status_Error s st b) \<Rightarrow>
          if s \<in> {Err_Credits, Err_Session_Superseded, Err_Turn_Spend_Limited, Err_Session_Limit_Reached,
                  Err_Provider_Usage, Err_First_Tab_Changed} then st else 0
      | Some (Capacity_Deferred c) \<Rightarrow> cd_status c
      | Some (No_Endpoints st mo b) \<Rightarrow> st
      | Some (Waiting_Room_Required ra d) \<Rightarrow> 428
      | Some (Free_Mode_Unavailable st msg c r sg b) \<Rightarrow> st
      | Some (Consent_Required st w b) \<Rightarrow> st
      | Some (Rate_Limit r) \<Rightarrow> (case parse_int (rl_status r) of Some n \<Rightarrow> n | None \<Rightarrow> 429)
      | _ \<Rightarrow> 0)"

definition chat_error_class :: "request_error \<Rightarrow> string" where
  "chat_error_class re =
     (if re = Context_Canceled then ''client_canceled''
      else case re of
        Session_Queue pos depth wait \<Rightarrow> ''waiting_room''
      | _ \<Rightarrow>
        (case refusal re of
           Some (Rate_Limit r) \<Rightarrow> ''rate_limited''
         | Some (Ban b) \<Rightarrow> ''banned''
         | Some (Ip_Capped c) \<Rightarrow> ''ip_capped''
         | Some (Limited_Ip l) \<Rightarrow> ''model_ip_limited''
         | Some (Status_Error s st b) \<Rightarrow>
             if s = Err_Session_Limit_Reached then ''session_limit_reached''
             else if s = Err_Session_Superseded then ''session_superseded''
             else if s = Err_Turn_Spend_Limited then ''turn_spend_limited''
             else if s = Err_Provider_Usage then ''provider_usage_exhausted''
             else if s = Err_First_Tab_Changed then ''first_tab_discount_changed''
             else ''error''
         | Some (Waiting_Room w) \<Rightarrow> ''waiting_room''
         | Some (Waiting_Room_Required ra d) \<Rightarrow> ''waiting_room''
         | Some (No_Endpoints st mo b) \<Rightarrow> ''model_no_endpoints''
         | Some (Free_Mode_Unavailable st msg c r sg b) \<Rightarrow> ''free_mode_unavailable''
         | Some (Consent_Required st w b) \<Rightarrow> ''consent_required''
         | Some (Upstream u) \<Rightarrow> ''upstream''
         | _ \<Rightarrow> ''error''))"

end
