(* ===== verification/Gateway_Engine.thy ===== *)
theory Gateway_Engine
  imports Gateway_Errors
begin

text \<open>
  One completion request: the credentials and the routing of \<^verbatim>\<open>backend/internal/server/middleware_auth.go\<close>
  and \<^verbatim>\<open>chatCore\<close> (\<^verbatim>\<open>engine.go\<close>), and the attempt of \<^verbatim>\<open>engine_attempt.go\<close>. The pool, the upstream and
  the client's context are the environment, by attempt; an effect is one call on the backend, in order.
  The relay of the stream is one effect.
\<close>

section \<open>Credentials\<close>

record headers =
  hd_authorization :: string
  hd_api_key :: string
  hd_anthropic_key :: string

record server_config =
  sc_tokens :: "string list"
  sc_bridge_enabled :: bool
  sc_api_keys :: "string list"

definition bridge_mode :: "server_config \<Rightarrow> bool" where
  "bridge_mode cfg \<longleftrightarrow> sc_tokens cfg = []"

definition hybrid_mode :: "server_config \<Rightarrow> bool" where
  "hybrid_mode cfg \<longleftrightarrow> sc_tokens cfg \<noteq> [] \<and> sc_bridge_enabled cfg"

text \<open>Byte equality folds ASCII letters only, as no other rune folds into the seven of the prefix.\<close>

definition extract_bearer :: "string \<Rightarrow> string option" where
  "extract_bearer h =
     (let t = trim_space h
      in if length t \<ge> 7 \<and> to_lower (take 7 t) = ''bearer '' then Some (trim_space (drop 7 t)) else None)"

definition provided_key :: "headers \<Rightarrow> string" where
  "provided_key h =
     (case extract_bearer (hd_authorization h) of
        Some t \<Rightarrow> t
      | None \<Rightarrow>
          if trim_space (hd_api_key h) \<noteq> '''' then trim_space (hd_api_key h) else trim_space (hd_anthropic_key h))"

definition authorized :: "server_config \<Rightarrow> headers \<Rightarrow> bool" where
  "authorized cfg h \<longleftrightarrow> provided_key h \<noteq> '''' \<and> provided_key h \<in> set (sc_api_keys cfg)"

definition client_token :: "headers \<Rightarrow> string" where
  "client_token h =
     trim_space
       (case extract_bearer (hd_authorization h) of
          Some t \<Rightarrow> t
        | None \<Rightarrow> if hd_api_key h \<noteq> '''' then hd_api_key h else hd_anthropic_key h)"

text \<open>\<^verbatim>\<open>requireAuth\<close> lets the request through to \<^verbatim>\<open>chatCore\<close>.\<close>

definition require_auth :: "server_config \<Rightarrow> headers \<Rightarrow> bool" where
  "require_auth cfg h \<longleftrightarrow> sc_api_keys cfg = [] \<or> bridge_mode cfg \<or> hybrid_mode cfg \<or> authorized cfg h"

datatype route =
    Denied
  | Pooled
  | Bridged string

definition choose_route :: "server_config \<Rightarrow> headers \<Rightarrow> route" where
  "choose_route cfg h =
     (if bridge_mode cfg then (if client_token h = '''' then Denied else Bridged (client_token h))
      else if hybrid_mode cfg then
        (if client_token h = '''' \<and> sc_api_keys cfg \<noteq> [] then Denied
         else if client_token h \<noteq> '''' \<and> sc_api_keys cfg \<noteq> [] \<and> \<not> authorized cfg h then Bridged (client_token h)
         else Pooled)
      else Pooled)"

text \<open>The whole decision for one configuration snapshot, and the key the usage is attributed to.\<close>

definition serve_route :: "server_config \<Rightarrow> headers \<Rightarrow> route" where
  "serve_route cfg h = (if require_auth cfg h then choose_route cfg h else Denied)"

definition usage_key :: "(string \<Rightarrow> string) \<Rightarrow> server_config \<Rightarrow> headers \<Rightarrow> string" where
  "usage_key hash cfg h =
     (case choose_route cfg h of
        Pooled \<Rightarrow> if authorized cfg h then hash (provided_key h) else ''''
      | _ \<Rightarrow> '''')"

section \<open>One attempt\<close>

record chat_lease =
  cl_token :: int
  cl_bridge :: bool
  cl_model :: string
  cl_agent :: string
  cl_instance :: string

text \<open>\<^verbatim>\<open>strconv.Itoa\<close> of a non-negative number.\<close>

fun show_nat :: "nat \<Rightarrow> string" where
  "show_nat n = (if n < 10 then [byte (48 + n)] else show_nat (n div 10) @ [byte (48 + n mod 10)])"

declare show_nat.simps [simp del]

definition token_label :: "chat_lease option \<Rightarrow> string" where
  "token_label l =
     (case l of None \<Rightarrow> ''bridge'' | Some x \<Rightarrow> if cl_bridge x then ''bridge'' else show_nat (nat (cl_token x + 1)))"

text \<open>\<open>Chat model stale\<close>: the body was normalized again for the lease's model.\<close>

datatype engine_effect =
    Acquire
  | Chat string bool
  | Release chat_lease
  | Abandon chat_lease
  | Invalidate_Session chat_lease
  | Invalidate_Superseded chat_lease
  | Invalidate_Run chat_lease
  | Cooldown_Ban chat_lease ban_error
  | Mark_Failed "chat_lease option"
  | Relay string
  | Record_Step chat_lease
  | Record_Spend chat_lease

record chat_env =
  ce_acquire :: "nat \<Rightarrow> request_error + chat_lease"
  ce_chat :: "nat \<Rightarrow> request_error option"
  ce_gone :: "nat \<Rightarrow> bool"
  ce_gone_retry :: bool
  ce_gone_relay :: bool

definition chat_model :: "string \<Rightarrow> chat_lease \<Rightarrow> string" where
  "chat_model model l = (if cl_model l = '''' then model else cl_model l)"

definition give_back :: "bool \<Rightarrow> chat_lease \<Rightarrow> engine_effect" where
  "give_back gone l = (if gone then Abandon l else Release l)"

text \<open>The arms of the switch of \<^verbatim>\<open>chatAttempt\<close> that act; every other one releases and surfaces.\<close>

definition refusal_effects :: "bool \<Rightarrow> chat_lease \<Rightarrow> request_error \<Rightarrow> engine_effect list" where
  "refusal_effects gone l re =
     (let release = give_back gone l
      in if request_is re Err_Model_IP_Limited then [release]
         else if request_is re Err_Session_Invalid then [release, Invalidate_Session l]
         else if request_is re Err_Waiting_Room_Required then [release, Invalidate_Session l]
         else if request_is re Err_Waiting_Room then [release]
         else if request_is re Err_Session_Limit_Reached then [release]
         else if request_is re Err_Session_Superseded then [release, Invalidate_Superseded l]
         else if request_is re Err_Turn_Spend_Limited then [release]
         else if request_is re Err_Run_Invalid then [release, Invalidate_Run l]
         else if request_is re Err_Auth_Rejected then [release]
         else if request_is re Err_Banned then
           (case request_as as_ban re of Some b \<Rightarrow> [Cooldown_Ban l b] | None \<Rightarrow> []) @ [release]
         else [release])"

record attempt_trace =
  tr_attempts :: nat
  tr_statuses :: "int list"
  tr_retried :: bool
  tr_failed_token :: string
  tr_rate_token :: string
  tr_rate_tokens :: "int list"

definition note_failure :: "chat_lease \<Rightarrow> request_error \<Rightarrow> attempt_trace \<Rightarrow> attempt_trace" where
  "note_failure l re tr =
     tr\<lparr>tr_statuses := tr_statuses tr @ (if attempt_status re \<noteq> 0 then [attempt_status re] else []),
        tr_failed_token := token_label (Some l)\<rparr>"

definition chat_attempt ::
  "chat_env \<Rightarrow> string \<Rightarrow> nat \<Rightarrow> attempt_trace \<Rightarrow> (request_error + chat_lease) \<times> engine_effect list \<times> attempt_trace" where
  "chat_attempt en model i tr =
     (case ce_acquire en i of
        Inl re \<Rightarrow> (Inl re, [Acquire], tr)
      | Inr l \<Rightarrow>
          let m = chat_model model l;
              call = [Acquire, Chat m (m \<noteq> model)];
              tr1 = tr\<lparr>tr_attempts := tr_attempts tr + 1\<rparr>
          in case ce_chat en i of
               None \<Rightarrow> (Inr l, call, tr1\<lparr>tr_statuses := tr_statuses tr1 @ [200]\<rparr>)
             | Some re \<Rightarrow> (Inl re, call @ refusal_effects (ce_gone en i) l re, note_failure l re tr1))"

section \<open>The request\<close>

definition new_trace :: attempt_trace where
  "new_trace =
     \<lparr>tr_attempts = 0, tr_statuses = [], tr_retried = False, tr_failed_token = '''', tr_rate_token = '''',
      tr_rate_tokens = []\<rparr>"

definition rate_attribution :: "request_error \<Rightarrow> attempt_trace \<Rightarrow> attempt_trace" where
  "rate_attribution re tr =
     (case re of
        Acquire_Limited r t ts \<Rightarrow>
          if t < 0 then tr
          else
            let shown = filter (\<lambda>i. i \<ge> 0) ts
            in tr\<lparr>tr_rate_token := show_nat (nat (t + 1)),
                  tr_rate_tokens := map (\<lambda>i. i + 1) (if shown = [] then [t] else shown)\<rparr>
      | _ \<Rightarrow> tr)"

text \<open>The label of the access line.\<close>

definition access_label :: "chat_lease option \<Rightarrow> attempt_trace \<Rightarrow> string" where
  "access_label l tr =
     (case l of
        Some x \<Rightarrow> token_label (Some x)
      | None \<Rightarrow> if tr_failed_token tr \<noteq> '''' then tr_failed_token tr else tr_rate_token tr)"

text \<open>How a request ended: with a lease that served, or an error and the label it is logged under; the
  token index its record is filed under.\<close>

datatype chat_outcome =
    Served chat_lease
  | Error_Reply request_error string

record chat_result =
  cr_outcome :: chat_outcome
  cr_effects :: "engine_effect list"
  cr_trace :: attempt_trace
  cr_record_token :: int

definition lease_token :: "chat_lease option \<Rightarrow> int" where
  "lease_token l = (case l of None \<Rightarrow> - 1 | Some x \<Rightarrow> cl_token x)"

definition finish_request ::
  "chat_env \<Rightarrow> string \<Rightarrow> (request_error + chat_lease) \<times> engine_effect list \<times> attempt_trace \<Rightarrow> chat_result" where
  "finish_request en model out =
     (case out of
        (Inl re, es, tr) \<Rightarrow>
          let lease = None :: chat_lease option; tr1 = rate_attribution re tr
          in \<lparr>cr_outcome = Error_Reply re (token_label lease), cr_effects = es @ [Mark_Failed lease],
              cr_trace = tr1, cr_record_token = lease_token lease\<rparr>
      | (Inr l, es, tr) \<Rightarrow>
          \<lparr>cr_outcome = Served l,
           cr_effects = es @ [Relay (chat_model model l), Record_Step l, Record_Spend l, give_back (ce_gone_relay en) l],
           cr_trace = tr, cr_record_token = lease_token (Some l)\<rparr>)"

text \<open>\<^verbatim>\<open>chatCore\<close> after routing: an invalid run is retried once with a fresh acquire.\<close>

definition chat_core :: "chat_env \<Rightarrow> string \<Rightarrow> chat_result" where
  "chat_core en model =
     finish_request en model
       (case chat_attempt en model 0 new_trace of
          (Inl re, es, tr) \<Rightarrow>
            if \<not> ce_gone_retry en \<and> request_is re Err_Run_Invalid then
              (case chat_attempt en model 1 (tr\<lparr>tr_retried := True\<rparr>) of (out, es', tr') \<Rightarrow> (out, es @ es', tr'))
            else (Inl re, es, tr)
        | out \<Rightarrow> out)"

end
