(* ===== verification/Gateway_Properties.thy ===== *)
theory Gateway_Properties
  imports Gateway_Engine Classify_Properties
begin

text \<open>
  What a request guarantees: configured keys stay local and pooled access needs one; a lease goes back
  exactly once and a refusal acts on exactly the state it is about; what the client is told, and what
  a failed request loses.
\<close>

section \<open>Credentials\<close>

lemma trim_space_idem [simp]: "trim_space (trim_space s) = trim_space s"
proof -
  have ends: "dropWhile p (rev (dropWhile p (rev (dropWhile p xs)))) = rev (dropWhile p (rev (dropWhile p xs)))" for p and xs :: string
  proof (cases "dropWhile p xs")
    case Nil
    show ?thesis by (simp only: Nil) simp
  next
    case (Cons y ys)
    then have "\<not> p y" by (metis hd_dropWhile list.distinct(1) list.sel(1))
    then have "rev (dropWhile p (rev (y # ys))) = y # rev (dropWhile p (rev ys))"
      by (simp add: dropWhile_append)
    with Cons \<open>\<not> p y\<close> show ?thesis by simp
  qed
  have twice: "dropWhile p (dropWhile p xs) = dropWhile p xs" for p and xs :: string
    by (induction xs) simp_all
  show ?thesis by (simp add: trim_space_def ends twice)
qed

lemma trim_space_Nil [simp]: "trim_space [] = []"
  by (simp add: trim_space_def)

lemma client_token_provided: "client_token h \<noteq> '''' \<Longrightarrow> client_token h = provided_key h"
  by (auto simp: client_token_def provided_key_def extract_bearer_def Let_def split: option.splits if_splits)

text \<open>C15: While the gateway has accounts of its own, no configured API key is ever relayed upstream as a
  bridge token, and a bridge token is never empty; when API keys are configured, the pool serves only
  requests that present one of them, and usage is attributed to a key only then.\<close>

theorem api_keys_stay_local:
  assumes "\<not> bridge_mode cfg"
  shows "(\<forall>t. serve_route cfg h = Bridged t \<longrightarrow> t \<notin> set (sc_api_keys cfg) \<and> t \<noteq> '''') \<and>
    (serve_route cfg h = Pooled \<and> sc_api_keys cfg \<noteq> [] \<longrightarrow> authorized cfg h) \<and>
    (usage_key hash cfg h \<noteq> '''' \<longrightarrow> choose_route cfg h = Pooled \<and> provided_key h \<in> set (sc_api_keys cfg))"
  using assms client_token_provided[of h]
  by (auto simp: serve_route_def choose_route_def require_auth_def authorized_def usage_key_def
      split: if_splits route.splits)

section \<open>One sentinel per error\<close>

lemma errors_is_unique: "errors_is e s \<Longrightarrow> errors_is e s' \<Longrightarrow> s = s'"
  by (induction e) (auto simp: errors_is_def matches_def)

lemma request_is_unique: "request_is re s \<Longrightarrow> request_is re s' \<longleftrightarrow> s' = s"
  by (auto simp: request_is_def split: option.splits dest: errors_is_unique)

lemma request_as_ban: "request_as as_ban re = Some b \<Longrightarrow> request_is re Err_Banned"
  by (cases "refusal re") (auto simp: request_as_def request_is_def dest: as_ban_sentinel)

section \<open>Leases and refusals\<close>

fun returned :: "engine_effect \<Rightarrow> chat_lease option" where
  "returned (Release l) = Some l"
| "returned (Abandon l) = Some l"
| "returned x = None"

lemma returned_give_back [simp]: "returned (give_back gone l) = Some l"
  by (simp add: give_back_def)

definition returns :: "engine_effect list \<Rightarrow> chat_lease list" where
  "returns es = List.map_filter returned es"

lemma returns_simps [simp]:
  "returns [] = []" "returns (x # es) = (case returned x of None \<Rightarrow> returns es | Some l \<Rightarrow> l # returns es)"
  "returns (es @ es') = returns es @ returns es'"
  by (simp_all add: returns_def map_filter_def split: option.split)

lemma refusal_returns [simp]: "returns (refusal_effects gone l re) = [l]"
  by (simp add: refusal_effects_def Let_def split: option.split)

lemma give_back_not [simp]:
  "give_back gone l \<noteq> Invalidate_Session x" "give_back gone l \<noteq> Invalidate_Superseded x"
  "give_back gone l \<noteq> Invalidate_Run x" "give_back gone l \<noteq> Cooldown_Ban x b" "give_back gone l \<noteq> Acquire"
  "Invalidate_Session x \<noteq> give_back gone l" "Invalidate_Superseded x \<noteq> give_back gone l"
  "Invalidate_Run x \<noteq> give_back gone l" "Cooldown_Ban x b \<noteq> give_back gone l" "Acquire \<noteq> give_back gone l"
  by (simp_all add: give_back_def)

lemma request_is_ban: "request_as as_ban re = Some b \<Longrightarrow> request_is re s \<longleftrightarrow> s = Err_Banned"
  by (blast dest: request_as_ban request_is_unique)

text \<open>C24: A refused chat gives its lease back once, plainly or as abandoned by whether the client is there, and
  acts on exactly the state the refusal is about, whatever the order of the switch: the session is dropped
  for a session-invalid and a waiting-room-required refusal, and as superseded for that one; the run for
  run-invalid; a ban cools the account down. No other refusal changes anything.\<close>

theorem refusal_acts_once:
  "let es = refusal_effects gone l re
   in returns es = [l] \<and> give_back gone l \<in> set es \<and>
      (Invalidate_Session l \<in> set es \<longleftrightarrow> request_is re Err_Session_Invalid \<or> request_is re Err_Waiting_Room_Required) \<and>
      (Invalidate_Superseded l \<in> set es \<longleftrightarrow> request_is re Err_Session_Superseded) \<and>
      (Invalidate_Run l \<in> set es \<longleftrightarrow> request_is re Err_Run_Invalid) \<and>
      (\<forall>b. Cooldown_Ban l b \<in> set es \<longleftrightarrow> request_as as_ban re = Some b) \<and>
      set es \<subseteq> {give_back gone l, Invalidate_Session l, Invalidate_Superseded l, Invalidate_Run l} \<union>
        range (Cooldown_Ban l) \<and> length es \<le> 2"
proof (cases "request_as as_ban re")
  case None
  then show ?thesis
    by (auto simp: refusal_effects_def Let_def split: option.splits dest: request_is_unique)
next
  case (Some b)
  show ?thesis
    using request_is_ban[OF Some] by (simp add: refusal_effects_def Let_def Some) auto
qed

fun acquires :: "engine_effect list \<Rightarrow> nat" where
  "acquires [] = 0"
| "acquires (Acquire # es) = Suc (acquires es)"
| "acquires (e # es) = acquires es"

lemma acquires_append [simp]: "acquires (es @ es') = acquires es + acquires es'"
  by (induction es rule: acquires.induct) auto

lemma acquires_give_back [simp]: "acquires (give_back gone l # es) = acquires es"
  by (simp add: give_back_def)

lemma acquires_none: "Acquire \<notin> set es \<Longrightarrow> acquires es = 0"
  by (induction es rule: acquires.induct) auto

lemma refusal_acquires [simp]: "acquires (refusal_effects gone l re) = 0"
  by (rule acquires_none) (auto simp: refusal_effects_def Let_def split: if_splits option.splits)

lemma run_invalid_effects: "request_is re Err_Run_Invalid \<Longrightarrow> refusal_effects gone l re = [give_back gone l, Invalidate_Run l]"
  by (auto simp: refusal_effects_def Let_def request_is_unique)

definition leases_taken :: "chat_env \<Rightarrow> nat \<Rightarrow> chat_lease list" where
  "leases_taken en n = List.map_filter (\<lambda>i. case ce_acquire en i of Inr l \<Rightarrow> Some l | Inl e \<Rightarrow> None) [0..<n]"

definition first_refusal :: "chat_env \<Rightarrow> request_error option" where
  "first_refusal en = (case ce_acquire en 0 of Inl re \<Rightarrow> Some re | Inr l \<Rightarrow> ce_chat en 0)"

lemma attempt_cases:
  "chat_attempt en model i tr =
     (case ce_acquire en i of
        Inl re \<Rightarrow> (Inl re, [Acquire], tr)
      | Inr l \<Rightarrow>
         (case ce_chat en i of
            None \<Rightarrow> (Inr l, [Acquire, Chat (chat_model model l) (chat_model model l \<noteq> model)],
              tr\<lparr>tr_attempts := tr_attempts tr + 1, tr_statuses := tr_statuses tr @ [200]\<rparr>)
          | Some re \<Rightarrow> (Inl re, [Acquire, Chat (chat_model model l) (chat_model model l \<noteq> model)] @
              refusal_effects (ce_gone en i) l re, note_failure l re (tr\<lparr>tr_attempts := tr_attempts tr + 1\<rparr>))))"
  by (simp add: chat_attempt_def Let_def split: sum.split option.split)

text \<open>C8: A request takes at most two leases and gives back exactly the leases it took, each once and in that
  order, whether it is served or fails; it tries a second time exactly when the first attempt ended in
  run-invalid and the client is still there, and the dead run of a leased first attempt is dropped before
  the second acquire.\<close>

theorem request_returns_its_leases:
  "let es = cr_effects (chat_core en model);
       again = (case first_refusal en of Some re \<Rightarrow> request_is re Err_Run_Invalid \<and> \<not> ce_gone_retry en | None \<Rightarrow> False)
   in returns es = leases_taken en (acquires es) \<and> acquires es = (if again then 2 else 1) \<and>
      (case ce_acquire en 0 of
         Inl re \<Rightarrow> True
       | Inr l \<Rightarrow>
           if again then take 5 es = [Acquire, Chat (chat_model model l) (chat_model model l \<noteq> model),
                                      give_back (ce_gone en 0) l, Invalidate_Run l, Acquire]
           else True)"
proof -
  have two: "[0..<2] = [0, Suc 0]" by (simp add: upt_rec)
  note facts = chat_core_def finish_request_def attempt_cases Let_def leases_taken_def map_filter_def first_refusal_def two
    run_invalid_effects
  show ?thesis
  proof (cases "first_refusal en")
    case None
    then obtain l where "ce_acquire en 0 = Inr l" "ce_chat en 0 = None"
      by (auto simp: first_refusal_def split: sum.splits)
    then show ?thesis by (simp add: facts)
  next
    case (Some re)
    then consider "ce_acquire en 0 = Inl re" | l where "ce_acquire en 0 = Inr l" "ce_chat en 0 = Some re"
      by (auto simp: first_refusal_def split: sum.splits)
    then show ?thesis
    proof cases
      case 1
      then show ?thesis
        by (cases "ce_acquire en (Suc 0)"; cases "ce_chat en (Suc 0)") (simp_all add: facts)
    next
      case (2 l)
      then show ?thesis
        by (cases "ce_acquire en (Suc 0)"; cases "ce_chat en (Suc 0)";
            cases "request_is re Err_Run_Invalid \<and> \<not> ce_gone_retry en") (auto simp add: facts)
    qed
  qed
qed

section \<open>What the client is told\<close>











text \<open>Refusals that asking again does not cure, and those that ask the client to come back.\<close>

definition terminal_codes :: "string list" where
  "terminal_codes =
     [''turn_spend_limited'', ''session_limit_reached'', ''model_locked'', ''model_no_endpoints'', ''free_mode_cli_required'',
      ''free_mode_invalid_agent_hierarchy'', ''free_mode_cost_mode_required'', ''free_mode_unavailable'',
      ''provider_usage_exhausted'', ''consent_required'', ''first_tab_discount_changed'', ''country_blocked'',
      ''out_of_credits'', ''upstream_auth_rejected'', ''model_not_found'', ''upstream_timeout'']"

definition come_back_codes :: "string list" where
  "come_back_codes = [''session_superseded'', ''free_mode_capacity_deferred'', ''session_invalid'', ''free_mode_legacy_luna_agent'']"

definition policy_ok :: "reply \<Rightarrow> bool" where
  "policy_ok r \<longleftrightarrow>
     rp_status r \<in> {400, 402, 403, 409, 429, 502, 503, 504} \<and>
     (rp_code r \<in> set terminal_codes \<longrightarrow> rp_retry r = 0) \<and> (rp_code r \<in> set come_back_codes \<longrightarrow> rp_retry r > 0)"

lemma limit_codes: "limit_reply_code x \<in> {''load_shedding'', ''peak_hours'', ''free_mode_run_fanout'', ''free_mode_invalid_agent_model'', ''rate_limited''}"
  by (auto simp: limit_reply_code_def)

lemma limit_policy: "policy_ok (answer 429 (limit_reply_code x) t d)"
  using limit_codes[of x] by (auto simp: policy_ok_def answer_def terminal_codes_def come_back_codes_def)

lemma answer_policy:
  "policy_ok (answer st c t d) \<longleftrightarrow>
     st \<in> {400, 402, 403, 409, 429, 502, 503, 504} \<and> (c \<in> set terminal_codes \<longrightarrow> d = 0) \<and> (c \<in> set come_back_codes \<longrightarrow> d > 0)"
  by (simp add: policy_ok_def answer_def)

definition fine :: "reply option \<Rightarrow> bool" where
  "fine x \<longleftrightarrow> (\<forall>r. x = Some r \<longrightarrow> policy_ok r)"

lemma fine_intros:
  "(\<And>a. policy_ok (f a)) \<Longrightarrow> fine (map_option f o1)"
  "policy_ok r \<Longrightarrow> fine (if b then Some r else None)"
  "(\<And>i j d. policy_ok (g i j d)) \<Longrightarrow> fine (case re of Session_Queue i j d \<Rightarrow> Some (g i j d) | _ \<Rightarrow> None)"
  "policy_ok r \<Longrightarrow> policy_ok s \<Longrightarrow> policy_ok (if b then r else s)"
  "(\<And>st b. policy_ok (h st b)) \<Longrightarrow> policy_ok (case p of (st, b) \<Rightarrow> h st b)"
  by (auto simp: fine_def split: request_error.split prod.split)

lemma first_some_fine: "list_all fine xs \<Longrightarrow> first_some id xs = Some r \<Longrightarrow> policy_ok r"
  by (induction xs) (auto simp: fine_def split: option.splits)

lemma arms_policy: "list_all fine (specific_arms now text re)" "list_all fine (generic_arms now text re)"
  unfolding specific_arms_def generic_arms_def Let_def list.pred_inject
  by (intro conjI TrueI fine_intros limit_policy;
      simp add: answer_policy terminal_codes_def come_back_codes_def)+

text \<open>Whatever failed, the client gets one of eight statuses; a refusal that asking again does not cure
  carries no Retry-After and one that asks the client back always does; the header is the hint rounded up
  to whole seconds, at least one.\<close>

lemma retry_policy:
  "policy_ok (error_reply now text re) \<and>
   (case retry_header d of None \<Rightarrow> d \<le> 0 | Some n \<Rightarrow> n \<ge> 1 \<and> d \<le> n * second \<and> (n - 1) * second < d)"
proof
  have "policy_ok (answer 502 ''upstream_unavailable'' Rendered 0)"
    by (simp add: answer_policy terminal_codes_def come_back_codes_def)
  then show "policy_ok (error_reply now text re)"
    using first_some_fine[of "specific_arms now text re @ generic_arms now text re"] arms_policy
    by (simp add: error_reply_def split: option.split)
  show "case retry_header d of None \<Rightarrow> d \<le> 0 | Some n \<Rightarrow> n \<ge> 1 \<and> d \<le> n * second \<and> (n - 1) * second < d"
    by (auto simp: retry_header_def)
qed


section \<open>What a failed request loses\<close>


lemma api_keys_stay_local_witness:
  "let cfg = \<lparr>sc_tokens = [''acc''], sc_bridge_enabled = True, sc_api_keys = [''key'']\<rparr>;
       h = \<lparr>hd_authorization = ''Bearer other'', hd_api_key = '''', hd_anthropic_key = ''''\<rparr>
   in serve_route cfg h = Bridged ''other'' \<and> ''other'' \<notin> set (sc_api_keys cfg)"
proof -
  let ?cfg = "\<lparr>sc_tokens = [''acc''], sc_bridge_enabled = True, sc_api_keys = [''key'']\<rparr>"
  let ?h = "\<lparr>hd_authorization = ''Bearer other'', hd_api_key = '''', hd_anthropic_key = ''''\<rparr>"
  have "serve_route ?cfg ?h = Bridged ''other''" by code_simp
  moreover have "\<not> bridge_mode ?cfg" by (simp add: bridge_mode_def)
  ultimately show ?thesis using api_keys_stay_local[of ?cfg ?h "\<lambda>_. []"] by simp
qed

end
