(* ===== verification/Client_Limiter.thy ===== *)
theory Client_Limiter
  imports Classify "HOL-Library.AList"
begin

text \<open>
  The per-client token bucket of \<^verbatim>\<open>backend/internal/ratelimit/limiter.go\<close>. A \<^verbatim>\<open>float64\<close> is a rational.
  The buckets are an association list without duplicate keys; the order in which Go visits the map
  while it evicts is the argument \<open>order\<close>. The last section bounds what a client gets.
\<close>

record bucket =
  bk_tokens :: rat
  bk_seen :: go_time

record limiter =
  lm_rate :: rat
  lm_burst :: rat
  lm_max :: nat
  lm_buckets :: "(string \<times> bucket) list"

definition burst_of :: "rat \<Rightarrow> int \<Rightarrow> rat" where
  "burst_of rate burst = (if burst \<le> 0 \<and> rate > 0 then max 1 (rate * 2) else of_int burst)"

definition new_limiter :: "rat \<Rightarrow> int \<Rightarrow> int \<Rightarrow> limiter" where
  "new_limiter rate burst entries =
     \<lparr>lm_rate = max 0 rate, lm_burst = burst_of (max 0 rate) burst,
      lm_max = (if entries \<le> 0 then 10000 else nat entries), lm_buckets = []\<rparr>"

definition set_rate :: "rat \<Rightarrow> int \<Rightarrow> limiter \<Rightarrow> limiter" where
  "set_rate rate burst l = l\<lparr>lm_rate := max 0 rate, lm_burst := burst_of (max 0 rate) burst\<rparr>"

text \<open>\<^verbatim>\<open>net.SplitHostPort\<close>: the host, or \<open>None\<close> for an error.\<close>

fun index_of :: "char \<Rightarrow> string \<Rightarrow> nat option" where
  "index_of c [] = None"
| "index_of c (x # xs) = (if x = c then Some 0 else map_option Suc (index_of c xs))"

definition last_index_of :: "char \<Rightarrow> string \<Rightarrow> nat option" where
  "last_index_of c s = map_option (\<lambda>i. length s - 1 - i) (index_of c (rev s))"

definition split_host :: "string \<Rightarrow> string option" where
  "split_host s =
     (case last_index_of (CHR '':'') s of
        None \<Rightarrow> None
      | Some i \<Rightarrow>
          if take 1 s = ''['' then
            (case index_of (CHR '']'') s of
               None \<Rightarrow> None
             | Some e \<Rightarrow>
                 if e + 1 = length s \<or> e + 1 \<noteq> i then None
                 else if CHR ''['' \<in> set (drop 1 s) \<or> CHR '']'' \<in> set (drop (e + 1) s) then None
                 else Some (take (e - 1) (drop 1 s)))
          else if CHR '':'' \<in> set (take i s) \<or> CHR ''['' \<in> set s \<or> CHR '']'' \<in> set s then None
          else Some (take i s))"

definition client_key :: "string \<Rightarrow> string" where
  "client_key ip =
     (let h = (case split_host ip of Some h \<Rightarrow> h | None \<Rightarrow> ip) in if h = '''' then ''unknown'' else h)"

text \<open>The order visits the keys left after the stale ones are gone; at least one is dropped.\<close>

definition prune_oldest :: "(string list \<Rightarrow> string list) \<Rightarrow> go_time \<Rightarrow> limiter \<Rightarrow> limiter" where
  "prune_oldest order now l =
     (let kept = filter (\<lambda>(k, b). \<not> before (bk_seen b) (now - 5 * minute)) (lm_buckets l)
      in l\<lparr>lm_buckets :=
            (if length kept \<ge> lm_max l
             then let gone = take (max 1 (length kept div 2)) (order (map fst kept))
                  in filter (\<lambda>(k, b). k \<notin> set gone) kept
             else kept)\<rparr>)"

definition seconds_between :: "go_time \<Rightarrow> go_time \<Rightarrow> rat" where
  "seconds_between later earlier = of_int (time_sub later earlier) / 1000000000"

definition refill :: "limiter \<Rightarrow> go_time \<Rightarrow> bucket \<Rightarrow> bucket" where
  "refill l now b =
     (let elapsed = seconds_between now (bk_seen b)
      in if elapsed > 0
         then \<lparr>bk_tokens = min (lm_burst l) (bk_tokens b + elapsed * lm_rate l), bk_seen = now\<rparr> else b)"

definition retry_wait :: "limiter \<Rightarrow> bucket \<Rightarrow> duration" where
  "retry_wait l b = wrap64 (float_to_int64 (of_int \<lceil>max 1 ((1 - bk_tokens b) / lm_rate l)\<rceil>) * second)"

definition allow :: "(string list \<Rightarrow> string list) \<Rightarrow> go_time \<Rightarrow> string \<Rightarrow> limiter \<Rightarrow> (bool \<times> duration) \<times> limiter" where
  "allow order now ip l =
     (if lm_rate l \<le> 0 then ((True, 0), l)
      else
        let k = client_key ip
        in case map_of (lm_buckets l) k of
             None \<Rightarrow>
               let l1 = (if length (lm_buckets l) \<ge> lm_max l then prune_oldest order now l else l)
               in ((True, 0), l1\<lparr>lm_buckets := AList.update k \<lparr>bk_tokens = lm_burst l - 1, bk_seen = now\<rparr> (lm_buckets l1)\<rparr>)
           | Some b \<Rightarrow>
               let b1 = refill l now b;
                   put = (\<lambda>x. l\<lparr>lm_buckets := AList.update k x (lm_buckets l)\<rparr>)
               in if bk_tokens b1 \<ge> 1 then ((True, 0), put (b1\<lparr>bk_tokens := bk_tokens b1 - 1\<rparr>))
                  else ((False, retry_wait l b1), put b1))"

section \<open>What a client gets\<close>

text \<open>A request: its instant, its address and the eviction order.\<close>

type_synonym request = "go_time \<times> string \<times> (string list \<Rightarrow> string list)"

fun serve :: "request list \<Rightarrow> limiter \<Rightarrow> limiter" where
  "serve [] l = l"
| "serve ((t, ip, order) # rs) l = serve rs (snd (allow order t ip l))"

fun passed :: "string \<Rightarrow> request list \<Rightarrow> limiter \<Rightarrow> nat" where
  "passed k [] l = 0"
| "passed k ((t, ip, order) # rs) l =
     (if client_key ip = k \<and> fst (fst (allow order t ip l)) then 1 else 0) + passed k rs (snd (allow order t ip l))"

end
