(* ===== verification/Limiter_Properties.thy ===== *)
theory Limiter_Properties
  imports Client_Limiter
begin

text \<open>
  What the token bucket promises: nobody gets more than the burst plus the rate while there is room for
  every client, a refused client is told a wait that suffices, and making room forgets refusals.
\<close>

section \<open>The bound\<close>

definition elapsed_between :: "go_time \<Rightarrow> go_time \<Rightarrow> rat" where
  "elapsed_between s t = of_int (t - s) / 1000000000"

lemma seconds_le_elapsed: "s \<le> t \<Longrightarrow> seconds_between t s \<le> elapsed_between s t"
proof -
  assume "s \<le> t"
  then have "time_sub t s \<le> t - s" by (simp add: time_sub_def min_duration_def)
  then have "rat_of_int (time_sub t s) \<le> rat_of_int (t - s)" by (simp only: of_int_le_iff)
  then show ?thesis unfolding seconds_between_def elapsed_between_def by (intro divide_right_mono) simp_all
qed

lemma seconds_nonneg: "s \<le> t \<Longrightarrow> 0 \<le> seconds_between t s"
  by (simp add: seconds_between_def time_sub_def max_duration_def)

definition limiter_ok :: "string set \<Rightarrow> limiter \<Rightarrow> bool" where
  "limiter_ok K l \<longleftrightarrow>
     lm_rate l > 0 \<and> lm_burst l \<ge> 1 \<and> finite K \<and> card K \<le> lm_max l \<and> distinct (map fst (lm_buckets l)) \<and>
     fst ` set (lm_buckets l) \<subseteq> K"

lemma room_left:
  assumes "limiter_ok K l" "k \<in> K" "map_of (lm_buckets l) k = None"
  shows "length (lm_buckets l) < lm_max l"
proof -
  have "k \<notin> fst ` set (lm_buckets l)" using assms(3) by (simp add: map_of_eq_None_iff)
  then have "fst ` set (lm_buckets l) \<subset> K" using assms(1,2) by (auto simp: limiter_ok_def)
  then have "card (fst ` set (lm_buckets l)) < card K" using assms(1) by (simp add: limiter_ok_def psubset_card_mono)
  moreover have "card (fst ` set (lm_buckets l)) = length (lm_buckets l)"
    using assms(1) distinct_card[of "map fst (lm_buckets l)"] by (simp add: limiter_ok_def)
  ultimately show ?thesis using assms(1) by (simp add: limiter_ok_def)
qed

text \<open>While there is room, a request touches the bucket of its own client only.\<close>

lemma allow_with_room:
  assumes "limiter_ok K l" "client_key ip \<in> K"
  shows "allow order t ip l =
    (case map_of (lm_buckets l) (client_key ip) of
       None \<Rightarrow> ((True, 0), l\<lparr>lm_buckets := AList.update (client_key ip) \<lparr>bk_tokens = lm_burst l - 1, bk_seen = t\<rparr> (lm_buckets l)\<rparr>)
     | Some b \<Rightarrow>
         let b1 = refill l t b; put = (\<lambda>x. l\<lparr>lm_buckets := AList.update (client_key ip) x (lm_buckets l)\<rparr>)
         in if bk_tokens b1 \<ge> 1 then ((True, 0), put (b1\<lparr>bk_tokens := bk_tokens b1 - 1\<rparr>))
            else ((False, retry_wait l b1), put b1))"
  using assms room_left[OF assms]
  by (auto simp: allow_def limiter_ok_def Let_def split: option.split)

lemma allow_updates:
  assumes "limiter_ok K l" "client_key ip \<in> K"
  shows "\<exists>b. snd (allow order t ip l) = l\<lparr>lm_buckets := AList.update (client_key ip) b (lm_buckets l)\<rparr>"
  unfolding allow_with_room[OF assms] by (auto simp: Let_def split: option.split)

lemma allow_ok:
  assumes "limiter_ok K l" "client_key ip \<in> K"
  shows "limiter_ok K (snd (allow order t ip l))" "lm_rate (snd (allow order t ip l)) = lm_rate l"
    "lm_burst (snd (allow order t ip l)) = lm_burst l"
    "k \<noteq> client_key ip \<Longrightarrow> map_of (lm_buckets (snd (allow order t ip l))) k = map_of (lm_buckets l) k"
proof -
  obtain b where b: "snd (allow order t ip l) = l\<lparr>lm_buckets := AList.update (client_key ip) b (lm_buckets l)\<rparr>"
    using allow_updates[OF assms] by blast
  show "limiter_ok K (snd (allow order t ip l))"
    using assms dom_update[of "client_key ip" b "lm_buckets l"]
    by (auto simp: b limiter_ok_def distinct_update)
  show "lm_rate (snd (allow order t ip l)) = lm_rate l" "lm_burst (snd (allow order t ip l)) = lm_burst l"
    "k \<noteq> client_key ip \<Longrightarrow> map_of (lm_buckets (snd (allow order t ip l))) k = map_of (lm_buckets l) k"
    by (simp_all add: b update_conv')
qed

lemma refill_tokens:
  assumes "bk_seen b \<le> t" "0 < lm_rate l"
  shows "bk_tokens (refill l t b) \<le> bk_tokens b + lm_rate l * elapsed_between (bk_seen b) t" "bk_seen b \<le> bk_seen (refill l t b)"
    "bk_seen (refill l t b) \<le> t" "0 \<le> bk_tokens b \<Longrightarrow> 1 \<le> lm_burst l \<Longrightarrow> 0 \<le> bk_tokens (refill l t b)"
proof -
  have "seconds_between t (bk_seen b) * lm_rate l \<le> lm_rate l * elapsed_between (bk_seen b) t"
    using seconds_le_elapsed[OF assms(1)] assms(2) by (simp add: mult.commute mult_left_mono)
  moreover have "0 \<le> lm_rate l * elapsed_between (bk_seen b) t" using assms by (simp add: elapsed_between_def)
  ultimately show "bk_tokens (refill l t b) \<le> bk_tokens b + lm_rate l * elapsed_between (bk_seen b) t"
    by (auto simp: refill_def Let_def intro: order_trans[OF min.cobounded2])
  show "bk_seen b \<le> bk_seen (refill l t b)" "bk_seen (refill l t b) \<le> t"
    "0 \<le> bk_tokens b \<Longrightarrow> 1 \<le> lm_burst l \<Longrightarrow> 0 \<le> bk_tokens (refill l t b)"
    using assms by (simp_all add: refill_def Let_def)
qed

fun timed :: "go_time \<Rightarrow> request list \<Rightarrow> go_time \<Rightarrow> bool" where
  "timed s [] e \<longleftrightarrow> s \<le> e"
| "timed s ((t, ip, order) # rs) e \<longleftrightarrow> s \<le> t \<and> timed t rs e"

lemma timed_le: "timed s rs e \<Longrightarrow> s \<le> e"
  by (induction s rs e rule: timed.induct) auto

lemma timed_earlier: "timed t rs e \<Longrightarrow> s \<le> t \<Longrightarrow> timed s rs e"
  by (cases rs) auto

lemma elapsed_split: "elapsed_between s t + elapsed_between t e = elapsed_between s e"
  by (simp add: elapsed_between_def add_divide_distrib[symmetric])

lemma elapsed_mono: "s \<le> t \<Longrightarrow> elapsed_between t e \<le> elapsed_between s e"
  by (simp add: elapsed_between_def divide_right_mono)

lemma passed_with_bucket:
  assumes "limiter_ok K l" "\<forall>r \<in> set rs. client_key (fst (snd r)) \<in> K" "timed s rs e"
    and "map_of (lm_buckets l) k = Some b" "bk_seen b \<le> s" "0 \<le> bk_tokens b"
  shows "rat_of_nat (passed k rs l) \<le> bk_tokens b + lm_rate l * elapsed_between (bk_seen b) e"
  using assms
proof (induction rs arbitrary: l s b)
  case Nil
  then show ?case by (simp add: limiter_ok_def elapsed_between_def)
next
  case (Cons r rs)
  obtain t ip order where r: "r = (t, ip, order)" by (cases r)
  have key: "client_key ip \<in> K" and st: "s \<le> t" "timed t rs e" using Cons.prems by (simp_all add: r)
  let ?l = "snd (allow order t ip l)"
  note ok = allow_ok[OF Cons.prems(1) key, where order = order and t = t]
  have rate: "0 < lm_rate l" and burst: "1 \<le> lm_burst l" using Cons.prems(1) by (simp_all add: limiter_ok_def)
  show ?case
  proof (cases "client_key ip = k")
    case False
    then have "map_of (lm_buckets ?l) k = Some b" using ok(4)[where k = k] Cons.prems(4) by simp
    then have "rat_of_nat (passed k rs ?l) \<le> bk_tokens b + lm_rate ?l * elapsed_between (bk_seen b) e"
      using Cons.IH[OF ok(1) _ st(2)] Cons.prems st by auto
    then show ?thesis using False by (simp add: r ok(2))
  next
    case True
    define b1 where "b1 = refill l t b"
    have "bk_seen b \<le> t" using Cons.prems(5) st by simp
    note fill = refill_tokens[OF this rate]
    define n :: rat where "n = (if 1 \<le> bk_tokens b1 then 1 else 0)"
    define b2 where "b2 = b1\<lparr>bk_tokens := bk_tokens b1 - n\<rparr>"
    have put: "map_of (lm_buckets ?l) k = Some b2"
      and fired: "fst (fst (allow order t ip l)) \<longleftrightarrow> n = 1"
      unfolding allow_with_room[OF Cons.prems(1) key] True Cons.prems(4)
      by (auto simp: Let_def b1_def[symmetric] b2_def n_def update_conv')
    have "0 \<le> bk_tokens b1" unfolding b1_def by (rule fill(4)[OF Cons.prems(6) burst])
    then have "0 \<le> bk_tokens b2" "bk_seen b2 \<le> t" using fill(3) by (simp_all add: b2_def n_def b1_def)
    then have rest: "rat_of_nat (passed k rs ?l) \<le> bk_tokens b2 + lm_rate l * elapsed_between (bk_seen b2) e"
      using Cons.IH[OF ok(1) _ st(2) put] Cons.prems(2) by (simp add: ok(2))
    have "bk_tokens b1 + lm_rate l * elapsed_between (bk_seen b1) e \<le> bk_tokens b + lm_rate l * elapsed_between (bk_seen b) e"
    proof (cases "bk_seen b1 = bk_seen b")
      case same: True
      have "bk_tokens b1 \<le> bk_tokens b"
      proof (cases "seconds_between t (bk_seen b) > 0")
        case pos: True
        then have "t = bk_seen b" using same by (simp add: b1_def refill_def Let_def)
        with pos show ?thesis by (simp add: seconds_between_def time_sub_def min_duration_def max_duration_def)
      next
        case False
        then show ?thesis by (simp add: b1_def refill_def Let_def)
      qed
      with same show ?thesis by simp
    next
      case other: False
      then have "bk_seen b1 = t" by (auto simp: b1_def refill_def Let_def split: if_splits)
      moreover have "lm_rate l * elapsed_between (bk_seen b) e =
          lm_rate l * elapsed_between (bk_seen b) t + lm_rate l * elapsed_between t e"
        unfolding elapsed_split[of "bk_seen b" t e, symmetric] by (rule distrib_left)
      ultimately show ?thesis using fill(1) by (simp add: b1_def[symmetric])
    qed
    then show ?thesis using rest fired True by (simp add: r b2_def n_def split: if_splits)
  qed
qed


text \<open>Between two windows the buckets hold at most the burst.\<close>

definition buckets_ok :: "go_time \<Rightarrow> limiter \<Rightarrow> bool" where
  "buckets_ok s l \<longleftrightarrow>
     (\<forall>k b. map_of (lm_buckets l) k = Some b \<longrightarrow> 0 \<le> bk_tokens b \<and> bk_tokens b \<le> lm_burst l \<and> bk_seen b \<le> s)"

lemma refill_capped:
  assumes "bk_seen b \<le> t" "bk_tokens b \<le> lm_burst l"
  shows "bk_tokens (refill l t b) \<le> lm_burst l" "bk_seen (refill l t b) = t"
proof -
  have "0 < seconds_between t (bk_seen b)" if "bk_seen b \<noteq> t"
    using assms(1) that by (simp add: seconds_between_def time_sub_def max_duration_def)
  then show "bk_seen (refill l t b) = t" by (auto simp: refill_def Let_def)
  show "bk_tokens (refill l t b) \<le> lm_burst l" using assms(2) by (simp add: refill_def Let_def)
qed

lemma allow_buckets_ok:
  assumes "limiter_ok K l" "client_key ip \<in> K" "buckets_ok s l" "s \<le> t"
  shows "buckets_ok t (snd (allow order t ip l))"
proof -
  have rate: "0 < lm_rate l" "1 \<le> lm_burst l" using assms(1) by (simp_all add: limiter_ok_def)
  have old: "0 \<le> bk_tokens b \<and> bk_tokens b \<le> lm_burst l \<and> bk_seen b \<le> t"
    if "map_of (lm_buckets l) k = Some b" for k b
    using assms(3,4) that by (fastforce simp: buckets_ok_def)
  have filled: "0 \<le> bk_tokens (refill l t b) \<and> bk_tokens (refill l t b) \<le> lm_burst l \<and> bk_seen (refill l t b) = t"
    if "map_of (lm_buckets l) k = Some b" for k b
    using old[OF that] refill_tokens(4)[OF _ rate(1), of b t] refill_capped[of b t l] rate(2) by blast
  show ?thesis
  proof (cases "map_of (lm_buckets l) (client_key ip)")
    case None
    then show ?thesis
      unfolding allow_with_room[OF assms(1,2)] buckets_ok_def using rate old by (auto simp: update_conv')
  next
    case (Some b)
    then show ?thesis
      unfolding allow_with_room[OF assms(1,2)] buckets_ok_def using old filled[OF Some]
      by (auto simp: update_conv' Let_def)
  qed
qed

lemma serve_ok:
  "limiter_ok K l \<Longrightarrow> \<forall>r \<in> set rs. client_key (fst (snd r)) \<in> K \<Longrightarrow> timed s rs e \<Longrightarrow> buckets_ok s l \<Longrightarrow>
     limiter_ok K (serve rs l) \<and> buckets_ok e (serve rs l) \<and> lm_rate (serve rs l) = lm_rate l \<and>
     lm_burst (serve rs l) = lm_burst l"
proof (induction rs arbitrary: l s)
  case Nil
  then show ?case by (fastforce simp: buckets_ok_def)
next
  case (Cons r rs)
  obtain t ip order where r: "r = (t, ip, order)" by (cases r)
  have key: "client_key ip \<in> K" using Cons.prems(2) by (simp add: r)
  note ok = allow_ok[OF Cons.prems(1) key, where order = order and t = t]
  have "buckets_ok t (snd (allow order t ip l))"
    using allow_buckets_ok[OF Cons.prems(1) key Cons.prems(4)] Cons.prems(3) by (simp add: r)
  then show ?case using Cons.IH[OF ok(1), of t] Cons.prems(2,3) ok(2,3) by (simp add: r)
qed

lemma passed_window:
  assumes "limiter_ok K l" "\<forall>r \<in> set rs. client_key (fst (snd r)) \<in> K" "timed s rs e" "buckets_ok s l"
  shows "rat_of_nat (passed k rs l) \<le> lm_burst l + lm_rate l * elapsed_between s e"
  using assms
proof (induction rs arbitrary: l s)
  case Nil
  then show ?case by (simp add: limiter_ok_def elapsed_between_def)
next
  case (Cons r rs)
  obtain t ip order where r: "r = (t, ip, order)" by (cases r)
  have key: "client_key ip \<in> K" and st: "s \<le> t" "timed t rs e" using Cons.prems by (simp_all add: r)
  let ?l = "snd (allow order t ip l)"
  note ok = allow_ok[OF Cons.prems(1) key, where order = order and t = t]
  note bok = allow_buckets_ok[OF Cons.prems(1) key Cons.prems(4) st(1), where order = order]
  have rate: "0 < lm_rate l" and burst: "1 \<le> lm_burst l" using Cons.prems(1) by (simp_all add: limiter_ok_def)
  have later: "lm_rate l * elapsed_between t e \<le> lm_rate l * elapsed_between s e"
    using elapsed_mono[OF st(1), of e] rate by (simp add: mult_left_mono)
  show ?case
  proof (cases "client_key ip = k")
    case False
    have "rat_of_nat (passed k rs ?l) \<le> lm_burst l + lm_rate l * elapsed_between t e"
      using Cons.IH[OF ok(1) _ st(2) bok] Cons.prems(2) by (simp add: ok(2,3))
    then show ?thesis using False later by (simp add: r)
  next
    case True
    have "map_of (lm_buckets ?l) k \<noteq> None"
      unfolding allow_with_room[OF Cons.prems(1) key] True[symmetric]
      by (auto simp: Let_def update_conv' split: option.split)
    then obtain b where b: "map_of (lm_buckets ?l) k = Some b" by blast
    have tokens: "bk_seen b = t \<and> bk_tokens b + (if fst (fst (allow order t ip l)) then 1 else 0) \<le> lm_burst l"
    proof (cases "map_of (lm_buckets l) k")
      case None
      then show ?thesis
        using b unfolding allow_with_room[OF Cons.prems(1) key] True by (auto simp: update_conv')
    next
      case (Some x)
      have "bk_seen x \<le> t" "bk_tokens x \<le> lm_burst l" using Cons.prems(4) st(1) Some by (fastforce simp: buckets_ok_def)+
      note capped = refill_capped[OF this]
      show ?thesis
        using b capped unfolding allow_with_room[OF Cons.prems(1) key] True Some
        by (auto simp: update_conv' Let_def split: if_splits)
    qed
    have "rat_of_nat (passed k rs ?l) \<le> bk_tokens b + lm_rate ?l * elapsed_between (bk_seen b) e"
      by (rule passed_with_bucket[OF ok(1) _ st(2) b]) (use Cons.prems(2) bok b tokens in \<open>auto simp: buckets_ok_def\<close>)
    then show ?thesis using True tokens later by (simp add: r ok(2) split: if_splits)
  qed
qed

text \<open>C25: While no more clients show up than the limiter tracks, in every window of time, whatever came before it
  and whatever the others do, no client is let through more often than its burst plus the rate times the
  length of the window.\<close>

theorem clients_stay_within_rate:
  assumes "0 < rate" "timed s0 earlier s" "timed s rs e"
    and "card (client_key ` fst ` snd ` set (earlier @ rs)) \<le> lm_max (new_limiter rate burst entries)"
  shows "rat_of_nat (passed k rs (serve earlier (new_limiter rate burst entries))) \<le>
    burst_of rate burst + rate * elapsed_between s e"
proof -
  let ?l = "new_limiter rate burst entries" and ?K = "client_key ` fst ` snd ` set (earlier @ rs)"
  have "limiter_ok ?K ?l" "buckets_ok s0 ?l"
    using assms(1,4) by (auto simp: limiter_ok_def buckets_ok_def new_limiter_def burst_of_def)
  then have "limiter_ok ?K (serve earlier ?l)" "buckets_ok s (serve earlier ?l)"
      "lm_rate (serve earlier ?l) = rate" "lm_burst (serve earlier ?l) = burst_of rate burst"
    using serve_ok[of ?K ?l earlier s0 s] assms(1,2) by (auto simp: new_limiter_def)
  then show ?thesis
    using passed_window[of ?K "serve earlier ?l" rs s e k] assms(3) by simp
qed

lemma clients_stay_within_rate_witness:
  "rat_of_nat (passed ''a'' [(1, ''b'', id), (2, ''a:2'', id)] (serve [(0, ''a:1'', id)] (new_limiter 1 1 0))) \<le>
     burst_of 1 1 + 1 * elapsed_between 1 2"
  by (rule clients_stay_within_rate[where ?s0.0 = 0]) (simp_all add: new_limiter_def card_insert_if)

lemma refill_same: "lm_rate l' = lm_rate l \<Longrightarrow> lm_burst l' = lm_burst l \<Longrightarrow> refill l' t b = refill l t b"
  by (simp add: refill_def Let_def)

lemma refill_full:
  assumes "bk_tokens b < 1" "1 \<le> lm_burst l" "0 < lm_rate l" "(1 - bk_tokens b) / lm_rate l \<le> seconds_between t (bk_seen b)"
  shows "1 \<le> bk_tokens (refill l t b)"
proof -
  have "1 - bk_tokens b \<le> seconds_between t (bk_seen b) * lm_rate l"
    using assms(3,4) by (simp add: pos_divide_le_eq)
  moreover have "0 < (1 - bk_tokens b) / lm_rate l" using assms by simp
  ultimately show ?thesis using assms(2,4) by (simp add: refill_def Let_def)
qed

lemma whole_seconds:
  "1 \<le> c \<Longrightarrow> c \<le> 9000000000 \<Longrightarrow> wrap64 (float_to_int64 (of_int c) * second) = c * second"
  unfolding float_to_int64_def
  by (subst wrap64_id) (simp_all add: truncate_rat_def int64_range_def min_duration_def max_duration_def)

lemma retry_wait_enough:
  assumes "0 \<le> bk_tokens b" "bk_tokens b < 1" "1 / 9000000000 \<le> lm_rate l"
  shows "retry_wait l b = \<lceil>max 1 ((1 - bk_tokens b) / lm_rate l)\<rceil> * second" "second \<le> retry_wait l b"
    "(1 - bk_tokens b) / lm_rate l \<le> of_int (retry_wait l b) / 1000000000" "retry_wait l b \<le> max_duration"
proof -
  let ?c = "\<lceil>max 1 ((1 - bk_tokens b) / lm_rate l)\<rceil>"
  have rate: "0 < lm_rate l" using assms(3) by (meson less_le_trans zero_less_divide_1_iff zero_less_numeral)
  have "(1 - bk_tokens b) / lm_rate l \<le> 1 / lm_rate l" using assms(1) rate by (simp add: divide_right_mono)
  also have "\<dots> \<le> 9000000000" using assms(3) rate by (simp add: field_simps)
  finally have high: "?c \<le> 9000000000" by (simp add: ceiling_le_iff)
  have low: "1 \<le> ?c" by (simp add: le_ceiling_iff less_max_iff_disj)
  show eq: "retry_wait l b = ?c * second"
    unfolding retry_wait_def by (rule whole_seconds[OF low high])
  show "second \<le> retry_wait l b" "retry_wait l b \<le> max_duration"
    using low high unfolding eq max_duration_def by linarith+
  have "(1 - bk_tokens b) / lm_rate l \<le> of_int ?c" by (meson ceiling_correct le_max_iff_disj order_trans order_refl)
  then show "(1 - bk_tokens b) / lm_rate l \<le> of_int (retry_wait l b) / 1000000000" by (simp add: eq)
qed

text \<open>A rejected client is told to wait at least a second and never in vain: asking again after the wait, with
  nothing in between, is let through.\<close>

lemma retry_is_honest:
  assumes "1 / 9000000000 \<le> lm_rate l" "1 \<le> lm_burst l" "map_of (lm_buckets l) (client_key ip) = Some b"
    and "bk_seen b \<le> now" "0 \<le> bk_tokens b" "allow order now ip l = ((False, wait), l')"
    and "now + wait \<le> later" "client_key ip' = client_key ip"
  shows "second \<le> wait \<and> fst (fst (allow order' later ip' l'))"
proof -
  define b1 where "b1 = refill l now b"
  have rate: "0 < lm_rate l" using assms(1) by (meson less_le_trans zero_less_divide_1_iff zero_less_numeral)
  have low: "bk_tokens b1 < 1" and wait: "wait = retry_wait l b1"
    and l': "l' = l\<lparr>lm_buckets := AList.update (client_key ip) b1 (lm_buckets l)\<rparr>"
    using assms(3,6) rate by (auto simp: allow_def Let_def b1_def split: if_splits)
  have nonneg: "0 \<le> bk_tokens b1" unfolding b1_def by (rule refill_tokens(4)[OF assms(4) rate assms(5,2)])
  note enough = retry_wait_enough[OF nonneg low assms(1)]
  have seen: "bk_seen b1 \<le> now" unfolding b1_def by (rule refill_tokens(3)[OF assms(4) rate])
  have "retry_wait l b1 \<le> time_sub later (bk_seen b1)"
    using seen assms(7) enough(4) by (simp add: wait time_sub_def)
  then have "of_int (retry_wait l b1) / 1000000000 \<le> seconds_between later (bk_seen b1)"
    by (simp add: seconds_between_def divide_right_mono)
  then have "1 \<le> bk_tokens (refill l later b1)"
    by (intro refill_full[OF low assms(2) rate] order_trans[OF enough(3)])
  then have "1 \<le> bk_tokens (refill l' later b1)" using refill_same[of l' l] by (simp add: l')
  then show ?thesis
    using rate enough(2) assms(8) by (simp add: l' allow_def Let_def update_conv' wait)
qed

lemma retry_is_honest_witness:
  "let l = snd (allow id 0 ''a'' (new_limiter 1 1 0)) in
   second \<le> second \<and> fst (fst (allow id second ''a'' (snd (allow id 0 ''a'' l))))"
proof -
  let ?l = "snd (allow id 0 ''a'' (new_limiter 1 1 0))"
  have state: "lm_rate ?l = 1" "lm_burst ?l = 1" "map_of (lm_buckets ?l) (client_key ''a'') = Some \<lparr>bk_tokens = 0, bk_seen = 0\<rparr>"
    by (simp_all add: allow_def new_limiter_def burst_of_def client_key_def split_host_def last_index_of_def Let_def)
  have "allow id 0 ''a'' ?l = ((False, second), snd (allow id 0 ''a'' ?l))"
    using state
    by (simp add: allow_def[of id 0 "''a''" ?l] Let_def refill_def seconds_between_def time_sub_def min_duration_def
        max_duration_def retry_wait_def float_to_int64_def truncate_rat_def int64_range_def wrap64_def)
  then show ?thesis
    using retry_is_honest[where l = ?l and ip = "''a''" and ip' = "''a''" and now = 0 and later = second and wait = second
        and order = id and order' = id] state by simp
qed

text \<open>Room for a new client is made by dropping buckets in the order the map yields, not the oldest: there is
  a full limiter in which a client that has just been refused loses its empty bucket to a newcomer, while
  an older bucket stays, and is let through at the same instant.\<close>

lemma eviction_forgets_the_limited:
  "let l0 = new_limiter 1 1 2;
       l1 = snd (allow id 0 ''old'' l0);
       l2 = snd (allow id (60 * second) ''greedy'' l1);
       l3 = snd (allow (\<lambda>ks. ''greedy'' # remove1 ''greedy'' ks) (60 * second) ''new'' l2)
   in \<not> fst (fst (allow id (60 * second) ''greedy'' l2)) \<and>
      map fst (lm_buckets l3) = [''old'', ''new''] \<and>
      fst (fst (allow (\<lambda>ks. ''old'' # remove1 ''old'' ks) (60 * second) ''greedy'' l3))"
  by code_simp

end
