(* ===== verification/Reasoning_Cache.thy ===== *)
theory Reasoning_Cache
  imports Classify
begin

text \<open>
  The cache of reasoning between turns, \<^verbatim>\<open>backend/internal/reasoningcache/cache.go\<close>. An entry and its
  node are one record with a number; a pointer to an entry is that number. The list is the LRU list,
  front first. SHA-256 in hex (\<open>sha\<close>) and \<^verbatim>\<open>json.Marshal\<close> of a decoded value (\<open>marshal\<close>) are
  arguments. The two lock phases of a lookup that finds an expired entry are one step.
\<close>

record cache_node =
  cn_id :: nat
  cn_reasoning :: string
  cn_signature :: string
  cn_model :: string
  cn_created :: go_time
  cn_tool_ids :: "string list"
  cn_hash :: string
  cn_bind :: string

record reasoning_cache =
  rc_by_tool :: "string \<rightharpoonup> nat"
  rc_by_hash :: "string \<rightharpoonup> nat"
  rc_list :: "cache_node list"
  rc_max :: nat
  rc_ttl :: duration
  rc_next :: nat

definition new_cache :: "int \<Rightarrow> duration \<Rightarrow> reasoning_cache" where
  "new_cache entries ttl =
     \<lparr>rc_by_tool = Map.empty, rc_by_hash = Map.empty, rc_list = [],
      rc_max = (if entries \<le> 0 then 10000 else nat entries), rc_ttl = (if ttl \<le> 0 then 2 * hour else ttl), rc_next = 0\<rparr>"

section \<open>Keys\<close>

definition hash_key :: "(string \<Rightarrow> string) \<Rightarrow> string \<Rightarrow> string \<Rightarrow> string" where
  "hash_key sha content calls = (if content = '''' \<and> calls = '''' then '''' else sha (content @ calls))"

definition canonical_args :: "(json \<Rightarrow> string) \<Rightarrow> string \<Rightarrow> string" where
  "canonical_args marshal s =
     (if trim_space s = '''' then ''''
      else case json_decode (trim_space s) of None \<Rightarrow> s | Some v \<Rightarrow> marshal v)"

definition args_text :: "(json \<Rightarrow> string) \<Rightarrow> json option \<Rightarrow> string" where
  "args_text marshal v =
     (case v of
        None \<Rightarrow> ''''
      | Some J_Null \<Rightarrow> ''''
      | Some (J_Str s) \<Rightarrow> canonical_args marshal s
      | Some x \<Rightarrow> marshal x)"

text \<open>The separators are the record and the unit separator, bytes 30 and 31.\<close>

definition join_with :: "string \<Rightarrow> string list \<Rightarrow> string" where
  "join_with sep xs = (case xs of [] \<Rightarrow> '''' | y # ys \<Rightarrow> y @ concat (map (\<lambda>z. sep @ z) ys))"

definition canonical_tool_key :: "(json \<Rightarrow> string) \<Rightarrow> (string \<times> string \<times> string) list \<Rightarrow> string" where
  "canonical_tool_key marshal calls =
     join_with [byte 30]
       (map (\<lambda>(i, n, a). trim_space i @ [byte 31] @ n @ [byte 31] @ canonical_args marshal a)
         (filter (\<lambda>(i, n, a). trim_space i \<noteq> '''') calls))"

definition text_field :: "(string \<times> json) list \<Rightarrow> string \<Rightarrow> string" where
  "text_field ms k = (case obj_get ms k of Some (J_Str s) \<Rightarrow> s | _ \<Rightarrow> '''')"

definition call_triple :: "(json \<Rightarrow> string) \<Rightarrow> (string \<times> json) list \<Rightarrow> string \<times> string \<times> string" where
  "call_triple marshal ms =
     (let name = text_field ms ''name'';
          args = args_text marshal (obj_get ms ''arguments'');
          (name1, args1) =
            (case obj_get ms ''function'' of
               Some (J_Obj fs) \<Rightarrow>
                 (if name = '''' then text_field fs ''name'' else name,
                  if args = '''' then args_text marshal (obj_get fs ''arguments'') else args)
             | _ \<Rightarrow> (name, args))
      in (trim_space (text_field ms ''id''), name1,
          if args1 = '''' then args_text marshal (obj_get ms ''input'') else args1))"

text \<open>The elements of \<^verbatim>\<open>[]map[string]any\<close>; a null element is a nil map.\<close>

definition call_members :: "json \<Rightarrow> (string \<times> json) list option" where
  "call_members v = (case v of J_Obj ms \<Rightarrow> Some ms | J_Null \<Rightarrow> Some [] | _ \<Rightarrow> None)"

definition canonical_calls :: "(json \<Rightarrow> string) \<Rightarrow> string \<Rightarrow> string" where
  "canonical_calls marshal raw =
     (case json_decode raw of
        Some (J_Arr vs) \<Rightarrow>
          if list_all (\<lambda>v. call_members v \<noteq> None) vs
          then canonical_tool_key marshal
                 (filter (\<lambda>(i, n, a). i \<noteq> '''') (map (\<lambda>v. call_triple marshal (the (call_members v))) vs))
          else ''''
      | _ \<Rightarrow> '''')"

definition bind_key :: "(string \<Rightarrow> string) \<Rightarrow> string \<Rightarrow> string \<Rightarrow> string" where
  "bind_key sha content canonical =
     (if content = '''' \<and> canonical = '''' then '''' else sha (content @ [byte 0] @ canonical))"

section \<open>Eviction\<close>

definition drop_index :: "string list \<Rightarrow> nat \<Rightarrow> (string \<rightharpoonup> nat) \<Rightarrow> (string \<rightharpoonup> nat)" where
  "drop_index ks i m = (\<lambda>k. if k \<in> set ks \<and> m k = Some i then None else m k)"

definition evict_node :: "cache_node \<Rightarrow> reasoning_cache \<Rightarrow> reasoning_cache" where
  "evict_node n c =
     c\<lparr>rc_list := filter (\<lambda>x. cn_id x \<noteq> cn_id n) (rc_list c),
       rc_by_tool := drop_index (cn_tool_ids n) (cn_id n) (rc_by_tool c),
       rc_by_hash := (if cn_hash n = '''' then rc_by_hash c else drop_index [cn_hash n] (cn_id n) (rc_by_hash c))\<rparr>"

definition expired :: "duration \<Rightarrow> go_time \<Rightarrow> cache_node \<Rightarrow> bool" where
  "expired ttl now n \<longleftrightarrow> time_sub now (cn_created n) > ttl"

text \<open>From the back while the entries are expired.\<close>

fun prune_back :: "go_time \<Rightarrow> cache_node list \<Rightarrow> reasoning_cache \<Rightarrow> reasoning_cache" where
  "prune_back now [] c = c"
| "prune_back now (n # ns) c = (if expired (rc_ttl c) now n then prune_back now ns (evict_node n c) else c)"

definition prune_cache :: "go_time \<Rightarrow> reasoning_cache \<Rightarrow> reasoning_cache" where
  "prune_cache now c = (if rc_ttl c > 0 then prune_back now (rev (rc_list c)) c else c)"

text \<open>The oldest are evicted until there is room for one more.\<close>

fun make_room :: "cache_node list \<Rightarrow> reasoning_cache \<Rightarrow> reasoning_cache" where
  "make_room [] c = c"
| "make_room (n # ns) c = (if length (rc_list c) \<ge> rc_max c then make_room ns (evict_node n c) else c)"

section \<open>Storing and looking up\<close>

fun dedup :: "string list \<Rightarrow> string list \<Rightarrow> string list" where
  "dedup seen [] = []"
| "dedup seen (x # xs) =
     (let i = trim_space x in if i \<noteq> '''' \<and> i \<notin> set seen then i # dedup (i # seen) xs else dedup seen xs)"

definition put_entry ::
  "go_time \<Rightarrow> string list \<Rightarrow> string \<Rightarrow> string \<Rightarrow> string \<Rightarrow> string \<Rightarrow> string \<Rightarrow> reasoning_cache \<Rightarrow> reasoning_cache" where
  "put_entry now ids hk bk reasoning signature model c =
     (if reasoning = '''' \<and> signature = '''' then c
      else
        let c1 = prune_cache now c;
            c2 = make_room (rev (rc_list c1)) c1;
            valid = dedup [] ids;
            n = \<lparr>cn_id = rc_next c2, cn_reasoning = reasoning, cn_signature = signature, cn_model = model,
                 cn_created = now, cn_tool_ids = valid, cn_hash = hk, cn_bind = bk\<rparr>
        in c2\<lparr>rc_list := n # rc_list c2, rc_next := rc_next c2 + 1,
              rc_by_tool := (\<lambda>k. if k \<in> set valid then Some (cn_id n) else rc_by_tool c2 k),
              rc_by_hash := (if hk = '''' then rc_by_hash c2 else (rc_by_hash c2)(hk \<mapsto> cn_id n))\<rparr>)"

text \<open>\<^verbatim>\<open>Put\<close> and \<^verbatim>\<open>PutCanonical\<close>.\<close>

definition put_raw where
  "put_raw sha marshal now ids content calls reasoning signature model =
     put_entry now ids (hash_key sha content calls) (bind_key sha content (canonical_calls marshal calls)) reasoning signature model"

definition put_canonical where
  "put_canonical sha now ids content canonical reasoning signature model =
     put_entry now ids (hash_key sha content '''') (bind_key sha content canonical) reasoning signature model"

definition find_node :: "nat \<Rightarrow> reasoning_cache \<Rightarrow> cache_node option" where
  "find_node i c = find (\<lambda>n. cn_id n = i) (rc_list c)"

text \<open>A live entry, or the cache with the expired one evicted.\<close>

definition live_entry :: "go_time \<Rightarrow> nat option \<Rightarrow> reasoning_cache \<Rightarrow> cache_node option \<times> reasoning_cache" where
  "live_entry now i c =
     (case Option.bind i (\<lambda>k. find_node k c) of
        None \<Rightarrow> (None, c)
      | Some n \<Rightarrow> if rc_ttl c > 0 \<and> expired (rc_ttl c) now n then (None, evict_node n c) else (Some n, c))"

definition lookup_by_tool :: "go_time \<Rightarrow> string \<Rightarrow> reasoning_cache \<Rightarrow> cache_node option \<times> reasoning_cache" where
  "lookup_by_tool now tool c =
     (if trim_space tool = '''' then (None, c) else live_entry now (rc_by_tool c (trim_space tool)) c)"

definition get_by_hash :: "(string \<Rightarrow> string) \<Rightarrow> go_time \<Rightarrow> string \<Rightarrow> string \<Rightarrow> reasoning_cache \<Rightarrow> cache_node option \<times> reasoning_cache" where
  "get_by_hash sha now content calls c =
     (if hash_key sha content calls = '''' then (None, c) else live_entry now (rc_by_hash c (hash_key sha content calls)) c)"

definition get_bound where
  "get_bound sha marshal now tool content calls c =
     (case lookup_by_tool now tool c of
        (None, c1) \<Rightarrow> (None, c1)
      | (Some n, c1) \<Rightarrow>
          let want = bind_key sha content (canonical_calls marshal calls)
          in (if want \<noteq> '''' \<and> cn_bind n \<noteq> '''' \<and> cn_bind n \<noteq> want then None else Some n, c1))"

text \<open>\<^verbatim>\<open>Get\<close>.\<close>

definition get_entry where
  "get_entry sha marshal now tool content calls c =
     (case (if trim_space tool \<noteq> '''' then get_bound sha marshal now tool content calls c else (None, c)) of
        (Some n, c1) \<Rightarrow> (Some n, c1)
      | (None, c1) \<Rightarrow>
          if content \<noteq> '''' \<or> calls \<noteq> '''' then get_by_hash sha now content calls c1 else (None, c1))"

end
