(* ===== verification/Cache_Properties.thy ===== *)
theory Cache_Properties
  imports Reasoning_Cache
begin

text \<open>
  The reasoning cache: its indexes always point at live entries and it never overfills; what is put is
  found again, and by a tool id only in the conversation it came from; where it does not keep what its
  comments promise.
\<close>

section \<open>The indexes and the list\<close>

definition listed :: "reasoning_cache \<Rightarrow> bool" where
  "listed c \<longleftrightarrow> distinct (map cn_id (rc_list c)) \<and> (\<forall>n \<in> set (rc_list c). cn_id n < rc_next c)"

definition indexed :: "reasoning_cache \<Rightarrow> bool" where
  "indexed c \<longleftrightarrow>
     (\<forall>k i. rc_by_tool c k = Some i \<longrightarrow> (\<exists>n \<in> set (rc_list c). cn_id n = i \<and> k \<in> set (cn_tool_ids n))) \<and>
     (\<forall>k i. rc_by_hash c k = Some i \<longrightarrow> (\<exists>n \<in> set (rc_list c). cn_id n = i \<and> cn_hash n = k \<and> k \<noteq> ''''))"

definition cache_ok :: "reasoning_cache \<Rightarrow> bool" where
  "cache_ok c \<longleftrightarrow> listed c \<and> indexed c \<and> 0 < rc_max c \<and> length (rc_list c) \<le> rc_max c"

lemma evict_fields [simp]:
  "rc_max (evict_node n c) = rc_max c" "rc_ttl (evict_node n c) = rc_ttl c" "rc_next (evict_node n c) = rc_next c"
  "rc_list (evict_node n c) = filter (\<lambda>x. cn_id x \<noteq> cn_id n) (rc_list c)"
  by (simp_all add: evict_node_def)

lemma evict_listed: "listed c \<Longrightarrow> listed (evict_node n c)"
  by (auto simp: listed_def distinct_map_filter)

lemma same_node: "listed c \<Longrightarrow> n \<in> set (rc_list c) \<Longrightarrow> x \<in> set (rc_list c) \<Longrightarrow> cn_id x = cn_id n \<Longrightarrow> x = n"
  unfolding listed_def distinct_map by (blast dest: inj_onD)

lemma evict_indexed:
  assumes "listed c" "indexed c" "n \<in> set (rc_list c)"
  shows "indexed (evict_node n c)"
proof -
  have tool: "\<exists>x \<in> set (rc_list (evict_node n c)). cn_id x = i \<and> k \<in> set (cn_tool_ids x)"
    if "rc_by_tool (evict_node n c) k = Some i" for k i
  proof -
    have was: "rc_by_tool c k = Some i" "\<not> (k \<in> set (cn_tool_ids n) \<and> i = cn_id n)"
      using that by (auto simp: evict_node_def drop_index_def split: if_splits)
    then obtain x where x: "x \<in> set (rc_list c)" "cn_id x = i" "k \<in> set (cn_tool_ids x)"
      using assms(2) by (auto simp: indexed_def)
    then have "cn_id x \<noteq> cn_id n" using was(2) same_node[OF assms(1,3)] by auto
    with x show ?thesis by auto
  qed
  have hash: "\<exists>x \<in> set (rc_list (evict_node n c)). cn_id x = i \<and> cn_hash x = k \<and> k \<noteq> ''''"
    if "rc_by_hash (evict_node n c) k = Some i" for k i
  proof -
    have was: "rc_by_hash c k = Some i" "\<not> (cn_hash n \<noteq> '''' \<and> k = cn_hash n \<and> i = cn_id n)"
      using that by (auto simp: evict_node_def drop_index_def split: if_splits)
    then obtain x where x: "x \<in> set (rc_list c)" "cn_id x = i" "cn_hash x = k" "k \<noteq> ''''"
      using assms(2) unfolding indexed_def by blast
    then have "cn_id x \<noteq> cn_id n" using was(2) same_node[OF assms(1,3)] by auto
    with x show ?thesis by auto
  qed
  show ?thesis using tool hash unfolding indexed_def by blast
qed

lemma evict_ok: "cache_ok c \<Longrightarrow> n \<in> set (rc_list c) \<Longrightarrow> cache_ok (evict_node n c)"
  unfolding cache_ok_def
  by (simp add: evict_listed evict_indexed order_trans[OF length_filter_le])

lemma evict_members:
  "listed c \<Longrightarrow> n \<in> set (rc_list c) \<Longrightarrow> set (rc_list (evict_node n c)) = set (rc_list c) - {n}"
  using same_node[of c n] by auto

text \<open>Evictions from the back, in order, of the entries still listed.\<close>

lemma still_listed:
  assumes "listed c" "distinct (map cn_id (n # ns))" "set ns \<subseteq> set (rc_list c)"
  shows "set ns \<subseteq> set (rc_list (evict_node n c))"
  using assms by (auto simp: image_iff)

lemma prune_back_ok:
  "cache_ok c \<Longrightarrow> distinct (map cn_id ns) \<Longrightarrow> set ns \<subseteq> set (rc_list c) \<Longrightarrow>
     cache_ok (prune_back now ns c) \<and> rc_max (prune_back now ns c) = rc_max c \<and> rc_ttl (prune_back now ns c) = rc_ttl c \<and>
     rc_next (prune_back now ns c) = rc_next c"
proof (induction now ns c rule: prune_back.induct)
  case (2 now n ns c)
  show ?case
  proof (cases "expired (rc_ttl c) now n")
    case True
    have "cache_ok (evict_node n c)" using 2 by (simp add: evict_ok)
    moreover have "set ns \<subseteq> set (rc_list (evict_node n c))"
      using 2 still_listed[of c n ns] by (simp add: cache_ok_def)
    ultimately show ?thesis using 2 True by simp
  next
    case False
    then show ?thesis using 2 by simp
  qed
qed simp

lemma cache_prune_ok:
  "cache_ok c \<Longrightarrow> cache_ok (prune_cache now c) \<and> rc_max (prune_cache now c) = rc_max c \<and>
     rc_ttl (prune_cache now c) = rc_ttl c \<and> rc_next (prune_cache now c) = rc_next c"
  using prune_back_ok[of c "rev (rc_list c)" now]
  by (auto simp: prune_cache_def cache_ok_def listed_def rev_map[symmetric])

lemma make_room_ok:
  "cache_ok c \<Longrightarrow> distinct (map cn_id ns) \<Longrightarrow> set ns = set (rc_list c) \<Longrightarrow>
     cache_ok (make_room ns c) \<and> rc_max (make_room ns c) = rc_max c \<and> rc_ttl (make_room ns c) = rc_ttl c \<and>
     rc_next (make_room ns c) = rc_next c \<and> length (rc_list (make_room ns c)) < rc_max c"
proof (induction ns c rule: make_room.induct)
  case (1 c)
  then show ?case by (simp add: cache_ok_def)
next
  case (2 n ns c)
  show ?case
  proof (cases "length (rc_list c) \<ge> rc_max c")
    case True
    have "cache_ok (evict_node n c)" using 2 by (auto intro: evict_ok)
    moreover have "set ns = set (rc_list (evict_node n c))"
      using 2(2-4) evict_members[of c n] by (auto simp: cache_ok_def simp del: evict_fields)
    ultimately show ?thesis using 2 True by simp
  next
    case False
    then show ?thesis using 2 by simp
  qed
qed

lemma found_node: "find_node i c = Some n \<Longrightarrow> n \<in> set (rc_list c) \<and> cn_id n = i"
  by (auto simp: find_node_def find_Some_iff)

lemma live_entry_ok: "cache_ok c \<Longrightarrow> cache_ok (snd (live_entry now i c))"
  by (auto simp: live_entry_def bind_eq_Some_conv dest: found_node split: option.split intro!: evict_ok)

lemma dedup_members: "set (dedup seen ids) = {t. t \<noteq> '''' \<and> t \<notin> set seen \<and> t \<in> trim_space ` set ids}"
  by (induction seen ids rule: dedup.induct) (auto simp: Let_def)

lemma put_entry_ok:
  assumes "cache_ok c"
  shows "cache_ok (put_entry now ids hk bk r g m c)"
proof (cases "r = '''' \<and> g = ''''")
  case False
  define c1 where "c1 = prune_cache now c"
  define c2 where "c2 = make_room (rev (rc_list c1)) c1"
  have 1: "cache_ok c1" unfolding c1_def using cache_prune_ok[OF assms] by blast
  have 2: "cache_ok c2 \<and> length (rc_list c2) < rc_max c2"
    unfolding c2_def using make_room_ok[OF 1, of "rev (rc_list c1)"] 1
    by (auto simp: cache_ok_def listed_def rev_map[symmetric])
  have new: "\<forall>x \<in> set (rc_list c2). cn_id x < rc_next c2" using 2 by (auto simp: cache_ok_def listed_def)
  have fresh: "rc_next c2 \<notin> cn_id ` set (rc_list c2)" using new by auto
  have idx: "indexed c2" using 2 by (simp add: cache_ok_def)
  show ?thesis
    using 2 new fresh idx False unfolding put_entry_def Let_def c1_def[symmetric] c2_def[symmetric]
    by (auto simp: cache_ok_def listed_def indexed_def less_SucI)
qed (use assms in \<open>simp add: put_entry_def\<close>)

section \<open>Operations of the cache\<close>

text \<open>A put carries the key of the tool calls it was given: those of the raw JSON for \<^verbatim>\<open>Put\<close>, the caller's own
  for \<^verbatim>\<open>PutCanonical\<close>, which gives no raw JSON.\<close>

datatype cache_op =
    Put_Op go_time "string list" string string string string string string
  | Get_Op go_time string string string
  | Tool_Op go_time string
  | Hash_Op go_time string string
  | Prune_Op go_time

fun apply_op :: "(string \<Rightarrow> string) \<Rightarrow> (json \<Rightarrow> string) \<Rightarrow> cache_op \<Rightarrow> reasoning_cache \<Rightarrow> reasoning_cache" where
  "apply_op sha marshal (Put_Op now ids content calls canonical r g m) c =
     put_entry now ids (hash_key sha content calls) (bind_key sha content canonical) r g m c"
| "apply_op sha marshal (Get_Op now tool content calls) c = snd (get_entry sha marshal now tool content calls c)"
| "apply_op sha marshal (Tool_Op now tool) c = snd (lookup_by_tool now tool c)"
| "apply_op sha marshal (Hash_Op now content calls) c = snd (get_by_hash sha now content calls c)"
| "apply_op sha marshal (Prune_Op now) c = prune_cache now c"

lemma lookup_ok:
  assumes "cache_ok c"
  shows "cache_ok (snd (lookup_by_tool now tool c))" "cache_ok (snd (get_by_hash sha now content calls c))"
    and "cache_ok (snd (get_bound sha marshal now tool content calls c))"
proof -
  show tool: "cache_ok (snd (lookup_by_tool now tool c))" using assms live_entry_ok by (simp add: lookup_by_tool_def)
  show "cache_ok (snd (get_by_hash sha now content calls c))" using assms live_entry_ok by (simp add: get_by_hash_def)
  show "cache_ok (snd (get_bound sha marshal now tool content calls c))"
    using tool by (auto simp: get_bound_def Let_def split: prod.splits option.splits)
qed

lemma get_entry_ok: "cache_ok c \<Longrightarrow> cache_ok (snd (get_entry sha marshal now tool content calls c))"
  using lookup_ok(3)[of c sha marshal now tool content calls]
  by (auto simp: get_entry_def lookup_ok(2) split: prod.splits option.splits)

lemma apply_op_ok [step_intros]: "cache_ok c \<Longrightarrow> cache_ok (apply_op sha marshal op c)"
  by (cases op) (auto simp: put_entry_ok get_entry_ok lookup_ok cache_prune_ok)

inductive cache_step :: "(string \<Rightarrow> string) \<Rightarrow> (json \<Rightarrow> string) \<Rightarrow> reasoning_cache \<Rightarrow> reasoning_cache \<Rightarrow> bool"
  for sha marshal where
  "cache_step sha marshal c (apply_op sha marshal op c)"

inductive_cases cache_stepE [elim!]: "cache_step sha marshal c c'"

lemma new_cache_ok: "cache_ok (new_cache entries ttl)"
  by (simp add: new_cache_def cache_ok_def listed_def indexed_def)

interpretation cache_run: invariant_system "\<lambda>c. c = new_cache entries ttl" "cache_step sha marshal" cache_ok
  for entries ttl sha marshal
  by unfold_locales (auto simp: new_cache_ok intro: step_intros)

text \<open>C21: In every cache that any sequence of operations leads to, the entries are distinct and at most the limit,
  and both indexes point only at entries that are listed and carry the key, so no lookup meets a dangling
  pointer and every eviction clears the indexes of what it drops.\<close>

theorem cache_consistent:
  assumes "reach (\<lambda>c. c = new_cache entries ttl) (cache_step sha marshal) c"
  shows "distinct (map cn_id (rc_list c)) \<and> length (rc_list c) \<le> rc_max c \<and>
    (\<forall>k i. rc_by_tool c k = Some i \<longrightarrow> (\<exists>n. find_node i c = Some n \<and> k \<in> set (cn_tool_ids n))) \<and>
    (\<forall>k i. rc_by_hash c k = Some i \<longrightarrow> (\<exists>n. find_node i c = Some n \<and> cn_hash n = k))"
proof -
  have ok: "cache_ok c" by (rule cache_run.reach_inv[OF assms])
  have found: "find_node (cn_id n) c = Some n" if "n \<in> set (rc_list c)" for n
  proof -
    have "find_node (cn_id n) c \<noteq> None" using that by (auto simp: find_node_def find_None_iff)
    then obtain x where "find_node (cn_id n) c = Some x" by blast
    then show ?thesis using found_node[of "cn_id n" c x] same_node[of c n x] ok that by (auto simp: cache_ok_def)
  qed
  show ?thesis using ok found unfolding cache_ok_def listed_def indexed_def by blast
qed

lemma cache_consistent_witness:
  "let c = apply_op id (\<lambda>v. ''{}'') (Put_Op 0 [''t''] ''x'' '''' '''' ''r'' '''' ''m'') (new_cache 1 0)
   in length (rc_list c) \<le> rc_max c \<and> rc_list c \<noteq> []"
proof -
  let ?op = "Put_Op 0 [''t''] ''x'' '''' '''' ''r'' '''' ''m''"
  have "reach (\<lambda>c. c = new_cache 1 0) (cache_step id (\<lambda>v. ''{}'')) (apply_op id (\<lambda>v. ''{}'') ?op (new_cache 1 0))"
    by (rule reach_step[of _ _ "new_cache 1 0"]) (intro reach_start refl, rule cache_step.intros)
  from cache_consistent[OF this] show ?thesis
    by (simp add: Let_def put_entry_def)
qed

section \<open>What is put is found again\<close>

lemma put_entry_top:
  assumes "r \<noteq> '''' \<or> g \<noteq> ''''"
  shows "\<exists>n. find_node (cn_id n) (put_entry now ids hk bk r g m c) = Some n \<and> cn_reasoning n = r \<and> cn_signature n = g \<and>
    cn_created n = now \<and> cn_bind n = bk \<and> cn_hash n = hk \<and>
    (\<forall>t \<in> set (dedup [] ids). rc_by_tool (put_entry now ids hk bk r g m c) t = Some (cn_id n)) \<and>
    (hk \<noteq> '''' \<longrightarrow> rc_by_hash (put_entry now ids hk bk r g m c) hk = Some (cn_id n))"
proof -
  define c2 where "c2 = make_room (rev (rc_list (prune_cache now c))) (prune_cache now c)"
  define n where "n = \<lparr>cn_id = rc_next c2, cn_reasoning = r, cn_signature = g, cn_model = m,
    cn_created = now, cn_tool_ids = dedup [] ids, cn_hash = hk, cn_bind = bk\<rparr>"
  have "put_entry now ids hk bk r g m c =
      c2\<lparr>rc_list := n # rc_list c2, rc_next := rc_next c2 + 1,
        rc_by_tool := (\<lambda>k. if k \<in> set (dedup [] ids) then Some (cn_id n) else rc_by_tool c2 k),
        rc_by_hash := (if hk = '''' then rc_by_hash c2 else (rc_by_hash c2)(hk \<mapsto> cn_id n))\<rparr>"
    using assms unfolding put_entry_def Let_def c2_def[symmetric] n_def by auto
  then show ?thesis by (intro exI[of _ n]) (simp add: find_node_def n_def)
qed

lemma put_entry_ttl: "cache_ok c \<Longrightarrow> rc_ttl (put_entry now ids hk bk r g m c) = rc_ttl c"
proof -
  assume ok: "cache_ok c"
  have 1: "cache_ok (prune_cache now c) \<and> rc_ttl (prune_cache now c) = rc_ttl c" using cache_prune_ok[OF ok] by blast
  have "rc_ttl (make_room (rev (rc_list (prune_cache now c))) (prune_cache now c)) = rc_ttl c"
    using make_room_ok[of "prune_cache now c" "rev (rc_list (prune_cache now c))"] 1
    by (auto simp: cache_ok_def listed_def rev_map[symmetric])
  then show ?thesis by (simp add: put_entry_def Let_def 1)
qed

lemma live_hit:
  "i = Some k \<Longrightarrow> find_node k c = Some n \<Longrightarrow> \<not> (rc_ttl c > 0 \<and> expired (rc_ttl c) now n) \<Longrightarrow> live_entry now i c = (Some n, c)"
  by (simp add: live_entry_def)

text \<open>A lookup that leaves the cache alone and returns this reasoning and signature.\<close>

definition restores where
  "restores sha marshal later tool content calls c r g \<longleftrightarrow>
     (\<exists>n. get_entry sha marshal later tool content calls c = (Some n, c) \<and> cn_reasoning n = r \<and> cn_signature n = g)"

lemma get_after_put:
  fixes sha marshal hk content calls m
  assumes "cache_ok c" "r \<noteq> '''' \<or> g \<noteq> ''''" "time_sub later now \<le> rc_ttl c" "t \<in> set ids" "trim_space t \<noteq> ''''"
  defines "c' \<equiv> put_entry now ids hk (bind_key sha content (canonical_calls marshal calls)) r g m c"
  shows "restores sha marshal later t content calls c' r g"
    and "hk = hash_key sha content calls \<Longrightarrow> hk \<noteq> '''' \<Longrightarrow>
      restores sha marshal later '''' content calls c' r g"
proof -
  obtain n where n: "find_node (cn_id n) c' = Some n" "cn_reasoning n = r" "cn_signature n = g" "cn_created n = now"
      "cn_bind n = bind_key sha content (canonical_calls marshal calls)"
      "\<forall>t \<in> set (dedup [] ids). rc_by_tool c' t = Some (cn_id n)" "hk \<noteq> '''' \<longrightarrow> rc_by_hash c' hk = Some (cn_id n)"
    using put_entry_top[OF assms(2)] unfolding c'_def by blast
  have live: "\<not> (rc_ttl c' > 0 \<and> expired (rc_ttl c') later n)"
    using assms(1,3) n(4) put_entry_ttl[OF assms(1)] by (simp add: c'_def expired_def)
  have "rc_by_tool c' (trim_space t) = Some (cn_id n)" using n(6) assms(4,5) by (auto simp: dedup_members)
  from live_hit[OF this n(1) live] show "restores sha marshal later t content calls c' r g"
    using assms(5) n(2,3,5) by (simp add: restores_def get_entry_def get_bound_def lookup_by_tool_def)
  assume hk: "hk = hash_key sha content calls" "hk \<noteq> ''''"
  then have "rc_by_hash c' hk = Some (cn_id n)" using n(7) by blast
  from live_hit[OF this n(1) live] show "restores sha marshal later '''' content calls c' r g"
    using hk n(2,3) by (auto simp: restores_def get_entry_def get_by_hash_def hash_key_def trim_space_def)
qed

text \<open>C29: The reasoning of a turn is restored while its entry is young enough: after a put, a lookup by any of its
  tool ids in the same turn returns it, whether the turn was stored from raw JSON or field by field, and so
  does a lookup by its content and raw tool calls.\<close>

theorem put_then_get:
  assumes "reach (\<lambda>c. c = new_cache entries ttl) (cache_step sha marshal) c"
    and "r \<noteq> '''' \<or> g \<noteq> ''''" "time_sub later now \<le> rc_ttl c" "t \<in> set ids" "trim_space t \<noteq> ''''"
    and "hash_key sha content calls \<noteq> ''''"
  shows "restores sha marshal later t content calls (put_raw sha marshal now ids content calls r g m c) r g \<and>
    restores sha marshal later t content calls (put_canonical sha now ids content (canonical_calls marshal calls) r g m c) r g \<and>
    restores sha marshal later '''' content calls (put_raw sha marshal now ids content calls r g m c) r g"
proof -
  have ok: "cache_ok c" by (rule cache_run.reach_inv[OF assms(1)])
  show ?thesis
    unfolding put_raw_def put_canonical_def
    using get_after_put[OF ok assms(2-5)] assms(6) by blast
qed

lemma put_then_get_witness:
  "restores (\<lambda>s. s) (\<lambda>v. ''{}'') hour ''t'' ''x'' ''[]''
     (put_raw (\<lambda>s. s) (\<lambda>v. ''{}'') 0 [''t''] ''x'' ''[]'' ''because'' '''' ''m'' (new_cache 10 0)) ''because'' ''''"
proof -
  have "reach (\<lambda>c. c = new_cache 10 0) (cache_step (\<lambda>s. s) (\<lambda>v. ''{}'')) (new_cache 10 0)" by (auto intro: reach.intros)
  from put_then_get[where r = "''because''" and g = "''''" and later = hour and now = 0 and t = "''t''" and ids = "[''t'']"
      and content = "''x''" and calls = "''[]''" and m = "''m''", OF this] show ?thesis
    by (auto simp: new_cache_def time_sub_def min_duration_def max_duration_def trim_space_def hash_key_def is_space_def)
qed

section \<open>Where a restored reasoning comes from\<close>

fun came_from :: "(string \<Rightarrow> string) \<Rightarrow> cache_op \<Rightarrow> cache_node \<Rightarrow> bool" where
  "came_from sha (Put_Op now ids content calls canonical r g m) n \<longleftrightarrow>
     cn_reasoning n = r \<and> cn_signature n = g \<and> cn_created n = now \<and> cn_tool_ids n = dedup [] ids \<and>
     cn_hash n = hash_key sha content calls \<and> cn_bind n = bind_key sha content canonical"
| "came_from sha _ n \<longleftrightarrow> False"

lemma prune_back_shrinks: "set (rc_list (prune_back now ns c)) \<subseteq> set (rc_list c)"
  by (induction now ns c rule: prune_back.induct) auto

lemma make_room_shrinks: "set (rc_list (make_room ns c)) \<subseteq> set (rc_list c)"
  by (induction ns c rule: make_room.induct) auto

lemma prune_shrinks: "set (rc_list (prune_cache now c)) \<subseteq> set (rc_list c)"
  using prune_back_shrinks by (auto simp: prune_cache_def)

lemma live_shrinks: "set (rc_list (snd (live_entry now i c))) \<subseteq> set (rc_list c)"
  by (auto simp: live_entry_def split: option.split)

lemma put_shrinks:
  "n \<in> set (rc_list (put_entry now ids (hash_key sha content calls) (bind_key sha content canonical) r g m c)) \<Longrightarrow>
     n \<in> set (rc_list c) \<or> came_from sha (Put_Op now ids content calls canonical r g m) n"
  using make_room_shrinks[of "rev (rc_list (prune_cache now c))" "prune_cache now c"] prune_shrinks[of now c]
  by (auto simp: put_entry_def Let_def split: if_splits)

lemma tool_shrinks: "set (rc_list (snd (lookup_by_tool now tool c))) \<subseteq> set (rc_list c)"
  using live_shrinks by (simp add: lookup_by_tool_def)

lemma hash_shrinks: "set (rc_list (snd (get_by_hash sha now content calls c))) \<subseteq> set (rc_list c)"
  using live_shrinks by (simp add: get_by_hash_def)

lemma bound_shrinks: "set (rc_list (snd (get_bound sha marshal now tool content calls c))) \<subseteq> set (rc_list c)"
  using tool_shrinks[of now tool c] by (auto simp: get_bound_def Let_def split: prod.splits option.splits)

lemma get_shrinks: "set (rc_list (snd (get_entry sha marshal now tool content calls c))) \<subseteq> set (rc_list c)"
  using bound_shrinks[of sha marshal now tool content calls c]
  by (auto simp: get_entry_def split: prod.splits option.splits dest!: subsetD[OF hash_shrinks])

lemma op_keeps_origin:
  assumes "\<forall>n \<in> set (rc_list c). \<exists>op \<in> ops. came_from sha op n"
  shows "\<forall>n \<in> set (rc_list (apply_op sha marshal op c)). \<exists>op \<in> insert op ops. came_from sha op n"
proof (cases op)
  case (Put_Op now ids content calls canonical r g m)
  then show ?thesis using assms put_shrinks by (simp, blast)
next
  case (Get_Op now tool content calls)
  then show ?thesis using assms get_shrinks by (simp, blast)
next
  case (Tool_Op now tool)
  then show ?thesis using assms tool_shrinks by (simp, blast)
next
  case (Hash_Op now content calls)
  then show ?thesis using assms hash_shrinks by (simp, blast)
next
  case (Prune_Op now)
  then show ?thesis using assms prune_shrinks by (simp, blast)
qed

lemma origin:
  "\<forall>n \<in> set (rc_list (fold (apply_op sha marshal) ops (new_cache entries ttl))). \<exists>op \<in> set ops. came_from sha op n"
proof (induction ops rule: rev_induct)
  case (snoc op ops)
  then show ?case using op_keeps_origin[of "fold (apply_op sha marshal) ops (new_cache entries ttl)" "set ops" sha marshal op]
    by simp
qed (simp add: new_cache_def)

lemma fold_cache_ok: "cache_ok (fold (apply_op sha marshal) ops (new_cache entries ttl))"
  by (induction ops rule: rev_induct) (simp_all add: new_cache_ok apply_op_ok)

text \<open>A lookup that succeeds found its entry by the tool id and its binding, or by the hash.\<close>

lemma get_found:
  assumes "cache_ok c" "get_entry sha marshal now tool content calls c = (Some n, c')"
  shows "n \<in> set (rc_list c) \<and>
    (trim_space tool \<in> set (cn_tool_ids n) \<and>
       (bind_key sha content (canonical_calls marshal calls) = '''' \<or> cn_bind n = '''' \<or>
        cn_bind n = bind_key sha content (canonical_calls marshal calls)) \<or>
     cn_hash n = hash_key sha content calls \<and> cn_hash n \<noteq> '''')"
proof -
  have live: "n \<in> set (rc_list d)" "i = Some (cn_id n)" if "live_entry now i d = (Some n, d')" for i d d'
    using that by (auto simp: live_entry_def bind_eq_Some_conv dest: found_node split: option.splits if_splits)
  have hash: "cn_hash n = hash_key sha content calls \<and> cn_hash n \<noteq> '''' \<and> n \<in> set (rc_list d)"
    if "get_by_hash sha now content calls d = (Some n, d')" and ok: "cache_ok d" for d d'
  proof -
    have "live_entry now (rc_by_hash d (hash_key sha content calls)) d = (Some n, d')"
      using that(1) by (auto simp: get_by_hash_def split: if_splits)
    note l = live[OF this]
    then obtain x where "x \<in> set (rc_list d)" "cn_id x = cn_id n" "cn_hash x = hash_key sha content calls" "cn_hash x \<noteq> ''''"
      using ok unfolding cache_ok_def indexed_def by metis
    then show ?thesis using same_node[of d n x] l(1) ok by (auto simp: cache_ok_def)
  qed
  have tool: "trim_space tool \<in> set (cn_tool_ids n) \<and> n \<in> set (rc_list c)"
    if "lookup_by_tool now tool c = (Some n, d')" for d'
  proof -
    have "live_entry now (rc_by_tool c (trim_space tool)) c = (Some n, d')"
      using that(1) by (auto simp: lookup_by_tool_def split: if_splits)
    note l = live[OF this]
    then obtain x where "x \<in> set (rc_list c)" "cn_id x = cn_id n" "trim_space tool \<in> set (cn_tool_ids x)"
      using assms(1) unfolding cache_ok_def indexed_def by metis
    then show ?thesis using same_node[of c n x] l(1) assms(1) by (auto simp: cache_ok_def)
  qed
  show ?thesis
  proof (cases "trim_space tool \<noteq> '''' \<and> fst (get_bound sha marshal now tool content calls c) = Some n")
    case True
    then show ?thesis using tool by (auto simp: get_bound_def Let_def split: prod.splits option.splits if_splits)
  next
    case False
    then obtain d where d: "get_by_hash sha now content calls d = (Some n, c')"
        "d = c \<or> d = snd (get_bound sha marshal now tool content calls c)"
      using assms(2) by (auto simp: get_entry_def split: prod.splits option.splits if_splits)
    have "cache_ok d" using d(2) assms(1) lookup_ok(3) by blast
    moreover have "set (rc_list d) \<subseteq> set (rc_list c)" using d(2) bound_shrinks by blast
    ultimately show ?thesis using hash[OF d(1)] by auto
  qed
qed

lemma nul_splits:
  "byte 0 \<notin> set xs \<Longrightarrow> byte 0 \<notin> set xs' \<Longrightarrow> xs @ [byte 0] @ ys = xs' @ [byte 0] @ ys' \<Longrightarrow> xs = xs' \<and> ys = ys'"
proof (induction xs arbitrary: xs')
  case Nil
  then show ?case by (cases xs') auto
next
  case (Cons x xs)
  then show ?case by (cases xs') auto
qed

lemma bind_key_same:
  assumes "inj sha" "byte 0 \<notin> set x" "byte 0 \<notin> set y" "bind_key sha x a = bind_key sha y b" "bind_key sha y b \<noteq> ''''"
  shows "x = y \<and> a = b"
  using assms nul_splits[of x y a b] by (auto simp: bind_key_def dest: injD split: if_splits)

lemma hash_key_same:
  "inj sha \<Longrightarrow> hash_key sha x a = hash_key sha y b \<Longrightarrow> hash_key sha y b \<noteq> '''' \<Longrightarrow> x @ a = y @ b"
  by (auto simp: hash_key_def dest: injD split: if_splits)

text \<open>C13: With a hash that does not collide and turns whose text has no zero byte, a reasoning restored for a turn
  that has content or tool calls was stored for a turn with that tool id and the same content and tool calls,
  or for one stored with neither, or for one whose content and raw tool calls read the same when joined.\<close>

theorem no_foreign_reasoning:
  assumes "inj sha" "\<forall>s. sha s \<noteq> ''''" "byte 0 \<notin> set content" "content \<noteq> '''' \<or> canonical_calls marshal calls \<noteq> ''''"
    and "\<forall>op \<in> set ops. case op of Put_Op now ids content0 calls0 canonical r g m \<Rightarrow> byte 0 \<notin> set content0 | _ \<Rightarrow> True"
    and "get_entry sha marshal now tool content calls (fold (apply_op sha marshal) ops (new_cache entries ttl)) = (Some n, c')"
  shows "\<exists>stored ids content0 calls0 canonical m.
    Put_Op stored ids content0 calls0 canonical (cn_reasoning n) (cn_signature n) m \<in> set ops \<and>
    (trim_space tool \<in> trim_space ` set ids \<and>
       (content0 = content \<and> canonical = canonical_calls marshal calls \<or> content0 = '''' \<and> canonical = '''') \<or>
     content0 @ calls0 = content @ calls)"
proof -
  note found = get_found[OF fold_cache_ok assms(6)]
  then obtain op where op: "op \<in> set ops" "came_from sha op n" using origin by blast
  then obtain stored ids content0 calls0 canonical m
    where put: "op = Put_Op stored ids content0 calls0 canonical (cn_reasoning n) (cn_signature n) m"
      and n: "cn_tool_ids n = dedup [] ids" "cn_hash n = hash_key sha content0 calls0" "cn_bind n = bind_key sha content0 canonical"
    by (cases op rule: cache_op.exhaust) auto
  have nul: "byte 0 \<notin> set content0" using assms(5) op(1) put by fastforce
  have want: "bind_key sha content (canonical_calls marshal calls) \<noteq> ''''" using assms(2,4) by (auto simp: bind_key_def)
  have unbound: "content0 = '''' \<and> canonical = ''''" if "cn_bind n = ''''"
    using that assms(2) by (auto simp: n bind_key_def split: if_splits)
  have bound: "content0 = content \<and> canonical = canonical_calls marshal calls"
    if "cn_bind n = bind_key sha content (canonical_calls marshal calls)"
    using bind_key_same[OF assms(1) nul assms(3)] that want by (simp add: n)
  have hash: "content0 @ calls0 = content @ calls" if "cn_hash n = hash_key sha content calls" "cn_hash n \<noteq> ''''"
    using hash_key_same[OF assms(1), of content0 calls0 content calls] that n(2) by simp
  have ids: "trim_space tool \<in> trim_space ` set ids" if "trim_space tool \<in> set (cn_tool_ids n)"
    using that by (simp add: n dedup_members)
  have "trim_space tool \<in> trim_space ` set ids \<and>
       (content0 = content \<and> canonical = canonical_calls marshal calls \<or> content0 = '''' \<and> canonical = '''') \<or>
     content0 @ calls0 = content @ calls"
    using conjunct2[OF found] want unbound bound hash ids by argo
  then show ?thesis using op(1) unfolding put by (intro exI conjI)
qed

lemma no_foreign_reasoning_witness:
  "\<exists>ids content0 calls0. (trim_space ''t'' \<in> trim_space ` set ids \<or> content0 @ calls0 = ''x[]'') \<and>
     (\<exists>stored canonical m. Put_Op stored ids content0 calls0 canonical ''because'' '''' m \<in>
        set [Put_Op 0 [''t''] ''x'' '''' '''' ''because'' '''' ''m''])"
proof -
  let ?sha = "\<lambda>s. CHR ''h'' # s" and ?m = "\<lambda>v. ''{}''"
  let ?ops = "[Put_Op 0 [''t''] ''x'' '''' '''' ''because'' '''' ''m'']"
  let ?c = "fold (apply_op ?sha ?m) ?ops (new_cache 1 0)"
  have "map_option (\<lambda>n. (cn_reasoning n, cn_signature n)) (fst (get_entry ?sha ?m 0 ''t'' ''x'' ''[]'' ?c)) = Some (''because'', '''')"
    by code_simp
  then obtain n c' where "get_entry ?sha ?m 0 ''t'' ''x'' ''[]'' ?c = (Some n, c')" "cn_reasoning n = ''because''" "cn_signature n = ''''"
    by (cases "get_entry ?sha ?m 0 ''t'' ''x'' ''[]'' ?c") auto
  then show ?thesis
    using no_foreign_reasoning[where sha = ?sha and marshal = ?m and now = 0 and ops = ?ops and content = "''x''"
        and calls = "''[]''" and tool = "''t''" and entries = 1 and ttl = 0 and n = n and c' = c']
    by (fastforce simp: inj_def)
qed

text \<open>C38: The hash index joins content and tool calls without a separator and is never checked against the binding,
  so for every hash it returns the reasoning of another turn: one that splits the same text elsewhere, and,
  for a turn with no tool calls, the very entry that the binding check has just refused.\<close>

theorem hash_index_crosses_turns:
  assumes "inj sha" "\<forall>s. sha s \<noteq> ''''" "r \<noteq> ''''" "canonical \<noteq> ''''" "content \<noteq> ''''"
  shows "restores sha marshal now '''' (x @ content) y (put_raw sha marshal now [] x (content @ y) r '''' m (new_cache entries ttl)) r '''' \<and>
    fst (get_bound sha marshal now ''t'' content '''' (put_canonical sha now [''t''] content canonical r '''' m (new_cache entries ttl))) = None \<and>
    restores sha marshal now ''t'' content '''' (put_canonical sha now [''t''] content canonical r '''' m (new_cache entries ttl)) r ''''"
proof -
  have still: "time_sub now now = 0" by (simp add: time_sub_def min_duration_def max_duration_def)
  have t: "trim_space ''t'' = ''t''" "trim_space '''' = ''''" by code_simp+
  have none: "canonical_calls marshal '''' = ''''" by (simp add: canonical_calls_def) code_simp
  have ids: "dedup [] [''t''] = [''t'']" by (simp add: Let_def t)
  let ?c = "put_raw sha marshal now [] x (content @ y) r '''' m (new_cache entries ttl)"
  obtain n where n: "find_node (cn_id n) ?c = Some n" "cn_reasoning n = r" "cn_signature n = ''''" "cn_created n = now"
      "rc_by_hash ?c (sha (x @ content @ y)) = Some (cn_id n)"
    using put_entry_top[of r "''''" now "[]" "hash_key sha x (content @ y)" "bind_key sha x (canonical_calls marshal (content @ y))"
        m "new_cache entries ttl"] assms(2,3,5)
    by (auto simp: put_raw_def hash_key_def)
  have "live_entry now (Some (cn_id n)) ?c = (Some n, ?c)"
    using n(1,4) by (intro live_hit) (auto simp: expired_def still)
  then have first: "restores sha marshal now '''' (x @ content) y ?c r ''''"
    using n(2,3,5) assms(2,5) by (simp add: restores_def get_entry_def get_by_hash_def hash_key_def t)
  let ?d = "put_canonical sha now [''t''] content canonical r '''' m (new_cache entries ttl)"
  obtain k where k: "find_node (cn_id k) ?d = Some k" "cn_reasoning k = r" "cn_signature k = ''''" "cn_created k = now"
      "cn_bind k = bind_key sha content canonical" "rc_by_tool ?d ''t'' = Some (cn_id k)" "rc_by_hash ?d (sha content) = Some (cn_id k)"
    using put_entry_top[of r "''''" now "[''t'']" "hash_key sha content ''''" "bind_key sha content canonical"
        m "new_cache entries ttl"] assms(2,3,5)
    by (auto simp: put_canonical_def hash_key_def t Let_def)
  have live: "live_entry now (Some (cn_id k)) ?d = (Some k, ?d)"
    using k(1,4) by (intro live_hit) (auto simp: expired_def still)
  have refused: "get_bound sha marshal now ''t'' content '''' ?d = (None, ?d)"
  proof -
    have "sha (content @ [byte 0] @ canonical) \<noteq> sha (content @ [byte 0])" using assms(1,4) by (auto dest: injD)
    moreover have "lookup_by_tool now ''t'' ?d = (Some k, ?d)" using live by (simp add: lookup_by_tool_def t k(6))
    ultimately show ?thesis by (simp add: get_bound_def none bind_key_def k(5) assms(2,5) Let_def)
  qed
  then have "restores sha marshal now ''t'' content '''' ?d r ''''"
    using k(2,3,7) assms(2,5) live by (simp add: restores_def get_entry_def get_by_hash_def hash_key_def t)
  then show ?thesis using first refused by simp
qed

lemma hash_index_crosses_turns_witness:
  "restores (\<lambda>s. CHR ''h'' # s) (\<lambda>v. ''{}'') 0 ''t'' ''OK'' ''''
     (put_canonical (\<lambda>s. CHR ''h'' # s) 0 [''t''] ''OK'' ''t'' ''because'' '''' ''m'' (new_cache 1 0)) ''because'' ''''"
  using hash_index_crosses_turns[where sha = "\<lambda>s. CHR ''h'' # s" and marshal = "\<lambda>v. ''{}''" and now = 0 and r = "''because''"
      and canonical = "''t''" and content = "''OK''" and m = "''m''" and entries = 1 and ttl = 0]
  by (simp add: inj_def)

end
