(* ===== verification/Bridge_Cache.thy ===== *)
theory Bridge_Cache
  imports Spend_Ledger Wire_Errors
begin

text \<open>
  The cache of client-supplied tokens, \<^verbatim>\<open>backend/internal/pool/bridge_cache.go\<close>: lookup, insertion with
  eviction of the least recently used, eviction of a dead token and the idle sweep. One definition is one
  critical section of \<^verbatim>\<open>bridgeMu\<close>. An entry is a record with a number; the entry's run manager is asked
  through \<open>busy\<close> (\<^verbatim>\<open>InflightCount() > 0\<close>) and \<open>until\<close> (\<^verbatim>\<open>CooldownUntil\<close>). The key of a token, a
  truncated SHA-256, is an argument.
\<close>

record bridge_entry =
  be_id :: nat
  be_token :: string
  be_last_used :: go_time
  be_ledger :: account_ledger

record bridge_cache =
  bc_map :: "string \<rightharpoonup> bridge_entry"
  bc_order :: "string list"
  bc_next :: nat

definition max_bridge_entries :: nat where
  "max_bridge_entries = 32"

definition default_bridge_idle_evict :: duration where
  "default_bridge_idle_evict = 72 * hour"

definition new_bridge_cache :: bridge_cache where
  "new_bridge_cache = \<lparr>bc_map = Map.empty, bc_order = [], bc_next = 0\<rparr>"

section \<open>Lookup\<close>

definition remove_bridge_order :: "string list \<Rightarrow> string \<Rightarrow> string list" where
  "remove_bridge_order ks k = remove1 k ks"

text \<open>The first occurrence moves to the newest end; a key that is not listed is appended.\<close>

definition bridge_touch :: "string \<Rightarrow> bridge_cache \<Rightarrow> bridge_cache" where
  "bridge_touch k c = c\<lparr>bc_order := remove1 k (bc_order c) @ [k]\<rparr>"

definition bridge_hit :: "go_time \<Rightarrow> string \<Rightarrow> bridge_cache \<Rightarrow> bridge_entry option \<times> bridge_cache" where
  "bridge_hit now k c =
     (case bc_map c k of
        None \<Rightarrow> (None, c)
      | Some e \<Rightarrow>
          let e' = e\<lparr>be_last_used := now\<rparr>
          in (Some e', bridge_touch k (c\<lparr>bc_map := (bc_map c)(k \<mapsto> e')\<rparr>)))"

section \<open>Eviction of the least recently used\<close>

definition drop_bridge_key :: "string \<Rightarrow> bridge_cache \<Rightarrow> bridge_cache" where
  "drop_bridge_key k c =
     c\<lparr>bc_map := (bc_map c)(k := None), bc_order := remove_bridge_order (bc_order c) k\<rparr>"

text \<open>The scan for one victim, from the oldest: a key without an entry is removed, the kept and the busy
  entries are passed over.\<close>

function evict_scan :: "(nat \<Rightarrow> bool) \<Rightarrow> nat \<Rightarrow> nat \<Rightarrow> bridge_cache \<Rightarrow> bridge_entry option \<times> bridge_cache" where
  "evict_scan busy keep i c =
     (if \<not> i < length (bc_order c) then (None, c)
      else
        let k = bc_order c ! i
        in case bc_map c k of
             None \<Rightarrow> evict_scan busy keep i (c\<lparr>bc_order := remove_bridge_order (bc_order c) k\<rparr>)
           | Some e \<Rightarrow>
               if be_id e = keep \<or> busy (be_id e) then evict_scan busy keep (i + 1) c
               else (Some e, drop_bridge_key k c))"
  by pat_completeness auto

lemma remove_order_less: "i < length ks \<Longrightarrow> length (remove_bridge_order ks (ks ! i)) < length ks"
proof -
  assume "i < length ks"
  then have "ks ! i \<in> set ks" "ks \<noteq> []" by auto
  then show ?thesis by (simp add: remove_bridge_order_def length_remove1)
qed

termination evict_scan
proof (relation "measure (\<lambda>(b, k, i, c). length (bc_order c) - i)"; clarsimp simp: Let_def)
  fix i c
  assume "i < length (bc_order c)"
  then show "length (remove_bridge_order (bc_order c) (bc_order c ! i)) - i < length (bc_order c) - i"
    using remove_order_less[of i "bc_order c"] by linarith
qed linarith

declare evict_scan.simps [simp del]

lemma evict_scan_shortens:
  "evict_scan busy keep i c = (Some e, c') \<Longrightarrow> length (bc_order c') < length (bc_order c)"
proof (induction busy keep i c arbitrary: c' rule: evict_scan.induct)
  case (1 busy keep i c)
  let ?k = "bc_order c ! i"
  have at: "i < length (bc_order c)" using "1.prems" by (simp add: evict_scan.simps[of _ _ i] split: if_splits)
  show ?case
  proof (cases "bc_map c ?k")
    case None
    then have "evict_scan busy keep i (c\<lparr>bc_order := remove_bridge_order (bc_order c) ?k\<rparr>) = (Some e, c')"
      using "1.prems" at by (simp add: evict_scan.simps[of _ _ i c])
    from "1.IH"(1)[OF _ refl None this] at show ?thesis using remove_order_less[OF at] by simp
  next
    case (Some x)
    show ?thesis
    proof (cases "be_id x = keep \<or> busy (be_id x)")
      case True
      then have "evict_scan busy keep (i + 1) c = (Some e, c')"
        using "1.prems" at Some by (simp add: evict_scan.simps[of _ _ i c])
      then show ?thesis using "1.IH"(2)[OF _ refl Some True] at by simp
    next
      case False
      then show ?thesis
        using "1.prems" at Some remove_order_less[OF at] by (auto simp: evict_scan.simps[of _ _ i c] drop_bridge_key_def Let_def)
    qed
  qed
qed

function bridge_evict :: "(nat \<Rightarrow> bool) \<Rightarrow> nat \<Rightarrow> bridge_cache \<Rightarrow> bridge_entry list \<times> bridge_cache" where
  "bridge_evict busy keep c =
     (if \<not> length (bc_order c) > max_bridge_entries then ([], c)
      else
        case evict_scan busy keep 0 c of
          (None, c') \<Rightarrow> ([], c')
        | (Some e, c') \<Rightarrow> (case bridge_evict busy keep c' of (vs, c'') \<Rightarrow> (e # vs, c'')))"
  by pat_completeness auto

termination bridge_evict
  by (relation "measure (\<lambda>(b, k, c). length (bc_order c))") (auto dest: evict_scan_shortens[OF sym])

declare bridge_evict.simps [simp del]

section \<open>Insertion\<close>

text \<open>The re-check after the probe and the insertion; the victims are returned for the drain that follows.\<close>

definition bridge_insert ::
  "(nat \<Rightarrow> bool) \<Rightarrow> go_time \<Rightarrow> string \<Rightarrow> string \<Rightarrow> bridge_cache \<Rightarrow> bridge_entry \<times> bridge_entry list \<times> bridge_cache" where
  "bridge_insert busy now k token c =
     (case bc_map c k of
        Some e \<Rightarrow> (e, [], c)
      | None \<Rightarrow>
          let e = \<lparr>be_id = bc_next c, be_token = token, be_last_used = now, be_ledger = new_account_ledger\<rparr>;
              c1 = \<lparr>bc_map = (bc_map c)(k \<mapsto> e), bc_order = bc_order c @ [k], bc_next = bc_next c + 1\<rparr>
          in (case bridge_evict busy (be_id e) c1 of (vs, c2) \<Rightarrow> (e, vs, c2)))"

text \<open>\<^verbatim>\<open>bridgeEntryFor\<close>: the lookups around the creation gate, the client build and the probe. What others do
  to the cache between two critical sections is an argument, and so are the gate, the build and the probe.\<close>

datatype entry_error = Creation_Rate | Client_Error string | Probe_Error go_error

record entry_env =
  ee_gate :: bool
  ee_client :: "string option"
  ee_probe :: "go_error option"
  ee_between :: "nat \<Rightarrow> bridge_cache \<Rightarrow> bridge_cache"
  ee_now :: "nat \<Rightarrow> go_time"

definition bridge_entry_for ::
  "(string \<Rightarrow> string) \<Rightarrow> (nat \<Rightarrow> bool) \<Rightarrow> entry_env \<Rightarrow> string \<Rightarrow> bridge_cache \<Rightarrow>
     (entry_error + bridge_entry) \<times> bridge_entry list \<times> bridge_cache" where
  "bridge_entry_for key busy en token c =
     (case bridge_hit (ee_now en 0) (key token) c of
        (Some e, c1) \<Rightarrow> (Inr e, [], c1)
      | (None, c1) \<Rightarrow>
          if \<not> ee_gate en then (Inl Creation_Rate, [], ee_between en 0 c1)
          else
            (case bridge_hit (ee_now en 1) (key token) (ee_between en 0 c1) of
               (Some e, c2) \<Rightarrow> (Inr e, [], c2)
             | (None, c2) \<Rightarrow>
                 (case ee_client en of
                    Some msg \<Rightarrow> (Inl (Client_Error msg), [], c2)
                  | None \<Rightarrow>
                      (case ee_probe en of
                         Some err \<Rightarrow> (Inl (Probe_Error err), [], ee_between en 1 c2)
                       | None \<Rightarrow>
                           (case bridge_insert busy (ee_now en 2) (key token) token (ee_between en 1 c2) of
                              (e, vs, c3) \<Rightarrow> (Inr e, vs, c3))))))"

section \<open>Removal\<close>

text \<open>\<^verbatim>\<open>bridgeEvictToken\<close>: a token upstream has rejected.\<close>

definition bridge_evict_token :: "(nat \<Rightarrow> bool) \<Rightarrow> string \<Rightarrow> bridge_cache \<Rightarrow> bridge_entry option \<times> bridge_cache" where
  "bridge_evict_token busy k c =
     (case bc_map c k of
        None \<Rightarrow> (None, c)
      | Some e \<Rightarrow> if busy (be_id e) then (None, c) else (Some e, drop_bridge_key k c))"

text \<open>The sweep of \<^verbatim>\<open>bridgeMaintain\<close> visits the keys in the order the map yields. It returns the evicted
  entries with their keys, and the entries to maintain.\<close>

definition sweep_key ::
  "(nat \<Rightarrow> bool) \<Rightarrow> (nat \<Rightarrow> go_time) \<Rightarrow> duration \<Rightarrow> go_time \<Rightarrow> string \<Rightarrow>
     (string \<times> bridge_entry) list \<times> bridge_entry list \<times> bridge_cache \<Rightarrow>
     (string \<times> bridge_entry) list \<times> bridge_entry list \<times> bridge_cache" where
  "sweep_key busy until idle now k s =
     (case s of (out, stay, c) \<Rightarrow>
        (case bc_map c k of
           None \<Rightarrow> (out, stay, c)
         | Some e \<Rightarrow>
             if busy (be_id e) then (out, stay @ [e], c)
             else if before now (until (be_id e)) then (out, stay @ [e], c)
             else if time_sub now (be_last_used e) > idle then (out @ [(k, e)], stay, drop_bridge_key k c)
             else (out, stay @ [e], c)))"

definition bridge_sweep ::
  "(nat \<Rightarrow> bool) \<Rightarrow> (nat \<Rightarrow> go_time) \<Rightarrow> duration \<Rightarrow> go_time \<Rightarrow> string list \<Rightarrow> bridge_cache \<Rightarrow>
     (string \<times> bridge_entry) list \<times> bridge_entry list \<times> bridge_cache" where
  "bridge_sweep busy until configured now ks c =
     fold (sweep_key busy until (if configured > 0 then configured else default_bridge_idle_evict) now) ks ([], [], c)"

text \<open>The usage of swept entries survives in the list \<^verbatim>\<open>bridgeSurvivors\<close>.\<close>

definition sweep_survivors ::
  "zone option \<Rightarrow> go_time \<Rightarrow> (string \<times> bridge_entry) list \<Rightarrow> bridge_survivor list \<Rightarrow> bridge_survivor list" where
  "sweep_survivors tz now out rs = fold (\<lambda>(k, e). capture_bridge_survivor tz (k, be_ledger e, now)) out rs"

end
