(* ===== verification/Bridge_Admission.thy ===== *)
theory Bridge_Admission
  imports Lane_Gates
begin

text \<open>
  The single flight of session admission in \<^verbatim>\<open>AcquireBridge\<close> (\<^verbatim>\<open>backend/internal/pool/bridge.go\<close>): the
  requests for one client token share \<^verbatim>\<open>admissionGate\<close>, \<^verbatim>\<open>admissionOnce\<close> and \<^verbatim>\<open>admissionErr\<close> of its
  entry. \<^verbatim>\<open>sync.Once\<close> is a flag and a mutex; the mutex is its word, a locked bit and a count of waiters,
  and the runtime's queue of parked goroutines at its address, which an assignment to the \<^verbatim>\<open>Once\<close> does not
  touch. Unlocking an unlocked mutex is the runtime's fatal error, closing a closed channel a panic. One
  event is one critical section or one step of the \<^verbatim>\<open>Once\<close>; processes are numbers.
\<close>

text \<open>What a snapshot of the entry's session shows.\<close>

record bridge_view =
  bv_usable :: bool
  bv_refreshing :: bool
  bv_model :: string
  bv_instance :: string

datatype admit_outcome =
    Rides bridge_view
  | Refused_With lane_error
  | Retries_Exhausted
  | Panicked

datatype admit_phase =
    Outside
  | At_Gate nat
  | At_Once nat
  | Locking nat
  | Asleep nat
  | Holding nat
  | Leading nat
  | Closing nat
  | Storing nat
  | Unlocking nat
  | At_Result nat
  | Comparing nat
  | Resetting nat
  | Session_Ready
  | Gone admit_outcome

record admission =
  ad_gate_closed :: bool
  ad_done :: bool
  ad_locked :: bool
  ad_waiters :: nat
  ad_queue :: "nat list"
  ad_err :: "lane_error option"
  ad_mu_lost :: bool
  ad_view :: bridge_view
  ad_phase :: "nat \<Rightarrow> admit_phase"
  ad_fatal :: bool
  ad_ensures :: nat

definition no_view :: bridge_view where
  "no_view = \<lparr>bv_usable = False, bv_refreshing = False, bv_model = '''', bv_instance = ''''\<rparr>"

definition fresh_admission :: admission where
  "fresh_admission =
     \<lparr>ad_gate_closed = False, ad_done = False, ad_locked = False, ad_waiters = 0, ad_queue = [], ad_err = None,
      ad_mu_lost = False, ad_view = no_view, ad_phase = (\<lambda>_. Outside), ad_fatal = False, ad_ensures = 0\<rparr>"

definition max_admission_model_retries :: nat where
  "max_admission_model_retries = 3"

definition goes :: "nat \<Rightarrow> admit_phase \<Rightarrow> admission \<Rightarrow> admission" where
  "goes p ph a = a\<lparr>ad_phase := (ad_phase a)(p := ph)\<rparr>"

text \<open>The three assignments of every reset. The queue of parked goroutines stays.\<close>

definition reset_gate :: "admission \<Rightarrow> admission" where
  "reset_gate a =
     a\<lparr>ad_gate_closed := False, ad_done := False, ad_locked := False, ad_waiters := 0, ad_err := None\<rparr>"

section \<open>The steps\<close>

definition serves :: "string \<Rightarrow> bridge_view \<Rightarrow> bool" where
  "serves model v \<longleftrightarrow> (bv_usable v \<or> bv_refreshing v) \<and> (bv_model v = '''' \<or> bv_model v = model)"

definition at_gate :: "string \<Rightarrow> nat \<Rightarrow> nat \<Rightarrow> admission \<Rightarrow> admission" where
  "at_gate model p n a =
     (if ad_gate_closed a then
        (if serves model (ad_view a) then goes p Session_Ready a else goes p (At_Once n) (reset_gate a))
      else goes p (At_Once n) a)"

definition lock_once :: "nat \<Rightarrow> nat \<Rightarrow> admission \<Rightarrow> admission" where
  "lock_once p n a =
     (if ad_locked a then goes p (Asleep n) (a\<lparr>ad_waiters := ad_waiters a + 1, ad_queue := ad_queue a @ [p]\<rparr>)
      else goes p (Holding n) (a\<lparr>ad_locked := True\<rparr>))"

definition awake :: "admit_phase \<Rightarrow> admit_phase" where
  "awake ph = (case ph of Asleep n \<Rightarrow> Locking n | x \<Rightarrow> x)"

definition unlock_once :: "admission \<Rightarrow> admission" where
  "unlock_once a =
     (if \<not> ad_locked a then a\<lparr>ad_fatal := True\<rparr>
      else
        let a1 = a\<lparr>ad_locked := False\<rparr>
        in case ad_queue a of
             [] \<Rightarrow> a1
           | q # qs \<Rightarrow>
               if ad_waiters a > 0
               then goes q (awake (ad_phase a q)) (a1\<lparr>ad_waiters := ad_waiters a - 1, ad_queue := qs\<rparr>)
               else a1)"

text \<open>The deferred close; a panic there leaves \<^verbatim>\<open>entry.mu\<close> locked and unwinds through the \<^verbatim>\<open>Once\<close>.\<close>

definition close_gate :: "nat \<Rightarrow> nat \<Rightarrow> admission \<Rightarrow> admission" where
  "close_gate p n a =
     (if ad_gate_closed a then unlock_once (goes p (Gone Panicked) (a\<lparr>ad_mu_lost := True, ad_done := True\<rparr>))
      else goes p (Storing n) (a\<lparr>ad_gate_closed := True\<rparr>))"

definition at_result :: "nat \<Rightarrow> nat \<Rightarrow> admission \<Rightarrow> admission" where
  "at_result p n a =
     (case ad_err a of
        Some e \<Rightarrow> goes p (Gone (Refused_With e)) (reset_gate a)
      | None \<Rightarrow> goes p (Comparing n) a)"

definition comparing :: "string \<Rightarrow> nat \<Rightarrow> nat \<Rightarrow> admission \<Rightarrow> admission" where
  "comparing model p n a =
     (let v = ad_view a
      in if bv_usable v \<and> bv_model v \<noteq> '''' \<and> bv_model v \<noteq> model then goes p (Resetting (n + 1)) a
         else goes p Session_Ready a)"

definition resetting :: "nat \<Rightarrow> nat \<Rightarrow> admission \<Rightarrow> admission" where
  "resetting p n a =
     goes p (if n \<ge> max_admission_model_retries then Gone Retries_Exhausted else At_Gate n) (reset_gate a)"

text \<open>The next step of a process, \<open>None\<close> where it has to wait. \<^verbatim>\<open>entry.mu\<close> is held for one step only, unless
  a panic lost it.\<close>

definition admit_move :: "string \<Rightarrow> nat \<Rightarrow> admission \<Rightarrow> admission option" where
  "admit_move model p a =
     (case ad_phase a p of
        At_Gate n \<Rightarrow> if ad_mu_lost a then None else Some (at_gate model p n a)
      | At_Once n \<Rightarrow> Some (goes p (if ad_done a then At_Result n else Locking n) a)
      | Locking n \<Rightarrow> Some (lock_once p n a)
      | Holding n \<Rightarrow> Some (goes p (if ad_done a then Unlocking n else Leading n) a)
      | Closing n \<Rightarrow> if ad_mu_lost a then None else Some (close_gate p n a)
      | Storing n \<Rightarrow> Some (goes p (Unlocking n) (a\<lparr>ad_done := True\<rparr>))
      | Unlocking n \<Rightarrow> Some (unlock_once (goes p (At_Result n) a))
      | At_Result n \<Rightarrow> if ad_mu_lost a then None else Some (at_result p n a)
      | Comparing n \<Rightarrow> Some (comparing model p n a)
      | Resetting n \<Rightarrow> if ad_mu_lost a then None else Some (resetting p n a)
      | Session_Ready \<Rightarrow> Some (goes p (Gone (Rides (ad_view a))) a)
      | _ \<Rightarrow> None)"

text \<open>\<^verbatim>\<open>EnsureSessionForModel\<close> of a leader returns with what the session is then; \<open>Drifts\<close> is every other
  change of the session (polls, invalidations, expiry).\<close>

datatype admit_event =
    Arrives nat
  | Moves nat
  | Ensured nat bridge_view "lane_error option"
  | Drifts bridge_view

definition admit_event :: "(nat \<Rightarrow> string) \<Rightarrow> admit_event \<Rightarrow> admission \<Rightarrow> admission option" where
  "admit_event models ev a =
     (if ad_fatal a then None
      else case ev of
        Arrives p \<Rightarrow> if ad_phase a p = Outside then Some (goes p (At_Gate 0) a) else None
      | Moves p \<Rightarrow> admit_move (models p) p a
      | Ensured p v e \<Rightarrow>
          (case ad_phase a p of
             Leading n \<Rightarrow>
               if ad_mu_lost a then None
               else Some (goes p (Closing n) (a\<lparr>ad_view := v, ad_err := e, ad_ensures := ad_ensures a + 1\<rparr>))
           | _ \<Rightarrow> None)
      | Drifts v \<Rightarrow> Some (a\<lparr>ad_view := v\<rparr>))"

inductive turn_step :: "(nat \<Rightarrow> string) \<Rightarrow> admission \<Rightarrow> admission \<Rightarrow> bool"
  for models where
  turn_step: "admit_event models ev a = Some b \<Longrightarrow> turn_step models a b"

inductive_cases turn_stepE: "turn_step models a b"

fun admit_run :: "(nat \<Rightarrow> string) \<Rightarrow> admit_event list \<Rightarrow> admission \<Rightarrow> admission option" where
  "admit_run models [] a = Some a"
| "admit_run models (ev # evs) a =
     (case admit_event models ev a of None \<Rightarrow> None | Some b \<Rightarrow> admit_run models evs b)"

end
