(* ===== verification/Bridge_Acquire.thy ===== *)
theory Bridge_Acquire
  imports Bridge_Cache Bridge_Admission
begin

text \<open>
  \<^verbatim>\<open>AcquireBridge\<close> (\<^verbatim>\<open>backend/internal/pool/bridge.go\<close>) from its guards to the lease, as a function of what
  its calls answer; the admission answers with an outcome of \<open>Bridge_Admission\<close>. Effects are the calls
  that change state, in order, the deferred ones included. The texts of errors are left out.
\<close>

datatype slot_grant =
    No_Slots
  | Slot_Free nat
  | Slot_Full slot_queue_exhausted int
  | Slot_Context

record bridge_turn =
  bt_now :: go_time
  bt_draining :: bool
  bt_pooled :: bool
  bt_agent :: "string option"
  bt_agent_again :: "string option"
  bt_entry :: "entry_error + nat"
  bt_locked :: bool
  bt_cool :: cooldown_state
  bt_slot_cap :: int
  bt_slot :: slot_grant
  bt_admit :: admit_outcome
  bt_cached :: bool
  bt_run :: "lane_error + nat"
  bt_cached_again :: bool

datatype bridge_failure =
    Empty_Token
  | Draining_Pool
  | Pooled_Credential
  | No_Such_Model
  | No_Entry entry_error
  | Admin_Locked
  | Cooling_With go_error
  | Cooling_Until go_time
  | Queue_Limited rate_limit_error
  | Turn_Context
  | Turn_Refused lane_error
  | Foreign_Session
  | Entry_Evicted
  | Turn_Panic

datatype bridge_effect =
    Seat_Taken
  | Seat_Returned
  | Slot_Held nat
  | Slot_Returned nat
  | Remember_Ban ban_error
  | Evict_Entry
  | Count_Spend_Limited
  | Notify_Ban
  | Clear_Cooldown
  | Precreate_Run string
  | Run_Leased nat
  | Run_Returned nat
  | Mark_Active

record bridge_lease =
  bl_model :: string
  bl_agent :: string
  bl_run :: nat
  bl_instance :: string
  bl_permit :: "nat option"

text \<open>The entry's window: \<open>None\<close> lets the request through. A refusal that was for another model only does too.\<close>

definition bridge_cooling :: "string \<Rightarrow> bridge_turn \<Rightarrow> bridge_failure option" where
  "bridge_cooling model bt =
     (let now = bt_now bt; s = bt_cool bt
      in if before now (cooldown_until s) \<or> ban_live now s \<noteq> None then
           (if can_serve_other_model (rate_limit_live now s) model then None
            else case ban_live now s of
              Some b \<Rightarrow> Some (Cooling_With (Ban b))
            | None \<Rightarrow>
                (case country_blocked_live now s of
                   Some c \<Rightarrow> Some (Cooling_With (Country_Blocked c))
                 | None \<Rightarrow>
                     (case rate_limit_live now s of
                        Some r \<Rightarrow> Some (Cooling_With (Rate_Limit r))
                      | None \<Rightarrow> Some (Cooling_Until (cooldown_until s)))))
         else None)"

definition slot_queue_rate_limit :: "string \<Rightarrow> int \<Rightarrow> int \<Rightarrow> string \<Rightarrow> rate_limit_error" where
  "slot_queue_rate_limit model cap occupied body =
     \<lparr>rl_status = ''rate_limited'', rl_model = model, rl_retry_after = second, rl_limit = of_int cap,
      rl_recent_count = of_int occupied, rl_reset_at = zero_time, rl_period = '''', rl_window = '''',
      rl_window_hours = 0, rl_freebucks_shortfall = False, rl_body = body\<rparr>"

text \<open>What a refused admission or run start writes, and the error the caller gets.\<close>

definition bridge_refusal :: "string \<Rightarrow> bridge_turn \<Rightarrow> lane_error \<Rightarrow> bridge_effect list \<times> lane_error" where
  "bridge_refusal model bt le =
     (let c = fst (classify_and_cooldown (bt_now bt) le (bt_cool bt))
      in ((case ce_banned c of Some b \<Rightarrow> [Remember_Ban b] | None \<Rightarrow> []) @
          (if auth_rejected c then [Evict_Entry] else []) @
          (if ce_rate_limited c \<noteq> None \<and> spend_limited c then [Count_Spend_Limited] else []) @
          (if ce_banned c \<noteq> None then [Notify_Ban] else []),
          case ce_limited_ip c of Some l \<Rightarrow> Refusal (Limited_Ip (tag_limited_ip_model l model)) | None \<Rightarrow> le))"

text \<open>The deferred releases, the slot's first.\<close>

definition turn_unwinds :: "nat option \<Rightarrow> bridge_effect list" where
  "turn_unwinds slot = (case slot of Some s \<Rightarrow> [Slot_Returned s] | None \<Rightarrow> []) @ [Seat_Returned]"

definition bridge_session_ready ::
  "string \<Rightarrow> string \<Rightarrow> bridge_turn \<Rightarrow> nat option \<Rightarrow> bridge_view \<Rightarrow> (bridge_failure + bridge_lease) \<times> bridge_effect list" where
  "bridge_session_ready model agent bt slot v =
     (if \<not> bt_cached bt then (Inl Entry_Evicted, turn_unwinds slot)
      else
        let agent' = (case bt_agent_again bt of Some a \<Rightarrow> a | None \<Rightarrow> agent);
            start = [Clear_Cooldown, Precreate_Run agent']
        in case bt_run bt of
             Inl le \<Rightarrow>
               (case bridge_refusal model bt le of
                  (es, le') \<Rightarrow> (Inl (Turn_Refused le'), start @ es @ turn_unwinds slot))
           | Inr r \<Rightarrow>
               if \<not> bt_cached_again bt
               then (Inl Entry_Evicted, start @ [Run_Leased r, Run_Returned r] @ turn_unwinds slot)
               else (Inr \<lparr>bl_model = model, bl_agent = agent', bl_run = r, bl_instance = bv_instance v, bl_permit = slot\<rparr>,
                     start @ [Run_Leased r, Mark_Active]))"

definition bridge_admitted ::
  "string \<Rightarrow> string \<Rightarrow> bridge_turn \<Rightarrow> nat option \<Rightarrow> (bridge_failure + bridge_lease) \<times> bridge_effect list" where
  "bridge_admitted model agent bt slot =
     (case bt_admit bt of
        Rides v \<Rightarrow> bridge_session_ready model agent bt slot v
      | Refused_With le \<Rightarrow>
          (case bridge_refusal model bt le of (es, le') \<Rightarrow> (Inl (Turn_Refused le'), es @ turn_unwinds slot))
      | Retries_Exhausted \<Rightarrow> (Inl Foreign_Session, turn_unwinds slot)
      | Panicked \<Rightarrow> (Inl Turn_Panic, turn_unwinds slot))"

definition bridge_seated ::
  "(slot_queue_exhausted \<Rightarrow> string) \<Rightarrow> string \<Rightarrow> string \<Rightarrow> bridge_turn \<Rightarrow> (bridge_failure + bridge_lease) \<times> bridge_effect list" where
  "bridge_seated text model agent bt =
     (case bt_slot bt of
        No_Slots \<Rightarrow> bridge_admitted model agent bt None
      | Slot_Free s \<Rightarrow> (case bridge_admitted model agent bt (Some s) of (out, es) \<Rightarrow> (out, Slot_Held s # es))
      | Slot_Full q occupied \<Rightarrow>
          (Inl (Queue_Limited (slot_queue_rate_limit model (bt_slot_cap bt) occupied (text q))), turn_unwinds None)
      | Slot_Context \<Rightarrow> (Inl Turn_Context, turn_unwinds None))"

definition acquire_bridge ::
  "(slot_queue_exhausted \<Rightarrow> string) \<Rightarrow> string \<Rightarrow> string \<Rightarrow> bridge_turn \<Rightarrow> (bridge_failure + bridge_lease) \<times> bridge_effect list" where
  "acquire_bridge text token model bt =
     (if trim_space token = '''' then (Inl Empty_Token, [])
      else if bt_draining bt then (Inl Draining_Pool, [])
      else if bt_pooled bt then (Inl Pooled_Credential, [])
      else
        case bt_agent bt of
          None \<Rightarrow> (Inl No_Such_Model, [])
        | Some agent \<Rightarrow>
            (case bt_entry bt of
               Inl e \<Rightarrow> (Inl (No_Entry e), [])
             | Inr i \<Rightarrow>
                 if bt_locked bt then (Inl Admin_Locked, [])
                 else case bridge_cooling model bt of
                   Some f \<Rightarrow> (Inl f, [])
                 | None \<Rightarrow> (case bridge_seated text model agent bt of (out, es) \<Rightarrow> (out, Seat_Taken # es))))"

end
