(* ===== verification/Bridge_Properties.thy ===== *)
theory Bridge_Properties
  imports Bridge_Acquire
begin

text \<open>
  Bridge lanes: the cache and its order agree, eviction takes the oldest idle entries and no more than it
  has to, and a turn keeps its seat, slot and run exactly when it ends in a lease.
\<close>

section \<open>The order of use\<close>

definition used_at :: "bridge_cache \<Rightarrow> string \<Rightarrow> go_time" where
  "used_at c k = (case bc_map c k of Some e \<Rightarrow> be_last_used e | None \<Rightarrow> 0)"

definition lru_ok :: "go_time \<Rightarrow> bridge_cache \<Rightarrow> bool" where
  "lru_ok t c \<longleftrightarrow>
     distinct (bc_order c) \<and> set (bc_order c) = dom (bc_map c) \<and> sorted (map (used_at c) (bc_order c)) \<and>
     (\<forall>k e. bc_map c k = Some e \<longrightarrow> be_last_used e \<le> t \<and> be_id e < bc_next c)"

lemma lru_fields:
  assumes "lru_ok t c"
  shows "distinct (bc_order c)" "set (bc_order c) = dom (bc_map c)" "sorted (map (used_at c) (bc_order c))"
    and "bc_map c k = Some e \<Longrightarrow> be_last_used e \<le> t" "bc_map c k = Some e \<Longrightarrow> be_id e < bc_next c"
  using assms by (auto simp: lru_ok_def)

lemma used_le: "lru_ok t c \<Longrightarrow> k \<in> dom (bc_map c) \<Longrightarrow> used_at c k \<le> t"
  by (auto simp: used_at_def lru_ok_def)

lemma lru_later: "lru_ok t c \<Longrightarrow> t \<le> t' \<Longrightarrow> lru_ok t' c"
  by (fastforce simp: lru_ok_def)

lemma remove_order_filter: "distinct ks \<Longrightarrow> remove_bridge_order ks k = filter (\<lambda>x. x \<noteq> k) ks"
  by (auto simp: remove_bridge_order_def distinct_remove1_removeAll removeAll_filter_not_eq intro: filter_cong)

lemma sorted_used_filter:
  assumes "sorted (map (used_at c) ks)" "\<And>k. k \<in> set ks \<Longrightarrow> P k \<Longrightarrow> bc_map d k = bc_map c k"
  shows "sorted (map (used_at d) (filter P ks))"
proof -
  have "map (used_at d) (filter P ks) = map (used_at c) (filter P ks)" using assms(2) by (simp add: used_at_def)
  then show ?thesis using sorted_filter[OF assms(1)] by metis
qed

lemma drop_key_fields:
  assumes "lru_ok t c"
  shows "bc_map (drop_bridge_key k c) = (bc_map c)(k := None)"
    and "bc_order (drop_bridge_key k c) = filter (\<lambda>x. x \<noteq> k) (bc_order c)" "bc_next (drop_bridge_key k c) = bc_next c"
  using lru_fields(1)[OF assms] by (simp_all add: drop_bridge_key_def remove_order_filter)

lemma drop_key_ok:
  assumes "lru_ok t c"
  shows "lru_ok t (drop_bridge_key k c)"
proof -
  have "sorted (map (used_at (drop_bridge_key k c)) (bc_order (drop_bridge_key k c)))"
    unfolding drop_key_fields(2)[OF assms]
    by (rule sorted_used_filter[OF lru_fields(3)[OF assms]]) (simp add: drop_key_fields[OF assms])
  then show ?thesis
    using lru_fields[OF assms] by (auto simp: lru_ok_def drop_key_fields[OF assms])
qed

lemma hit_ok: "lru_ok t c \<Longrightarrow> t \<le> now \<Longrightarrow> lru_ok now (snd (bridge_hit now k c))"
proof (cases "bc_map c k")
  case (Some e)
  assume ok: "lru_ok t c" and le: "t \<le> now"
  let ?c = "snd (bridge_hit now k c)"
  have map: "bc_map ?c = (bc_map c)(k \<mapsto> e\<lparr>be_last_used := now\<rparr>)"
    and order: "bc_order ?c = filter (\<lambda>x. x \<noteq> k) (bc_order c) @ [k]" and nxt: "bc_next ?c = bc_next c"
    using Some lru_fields(1)[OF ok] remove_order_filter[of "bc_order c" k]
    by (simp_all add: bridge_hit_def bridge_touch_def Let_def remove_bridge_order_def)
  have "sorted (map (used_at ?c) (filter (\<lambda>x. x \<noteq> k) (bc_order c)))"
    by (rule sorted_used_filter[OF lru_fields(3)[OF ok]]) (simp add: map)
  moreover have "\<forall>x \<in> set (bc_order c) - {k}. used_at ?c x \<le> now"
  proof
    fix x
    assume "x \<in> set (bc_order c) - {k}"
    then have "used_at c x \<le> t" "x \<noteq> k" using used_le[OF ok] lru_fields(2)[OF ok] by auto
    then show "used_at ?c x \<le> now" using le by (simp add: used_at_def map)
  qed
  moreover have "used_at ?c k = now" by (simp add: used_at_def map)
  ultimately have "sorted (map (used_at ?c) (bc_order ?c))"
    by (simp add: order sorted_append)
  moreover have "distinct (bc_order ?c)" "set (bc_order ?c) = dom (bc_map ?c)"
    using lru_fields(1,2)[OF ok] Some by (auto simp: order map)
  moreover have "\<forall>x e. bc_map ?c x = Some e \<longrightarrow> be_last_used e \<le> now \<and> be_id e < bc_next ?c"
    using lru_fields(4,5)[OF ok] Some le by (auto simp: map nxt split: if_splits intro: order_trans)
  ultimately show ?thesis by (simp add: lru_ok_def)
qed (simp add: bridge_hit_def lru_later)

section \<open>Who is evicted\<close>

definition idle_key :: "(nat \<Rightarrow> bool) \<Rightarrow> nat \<Rightarrow> bridge_cache \<Rightarrow> string \<Rightarrow> bool" where
  "idle_key busy keep c k \<longleftrightarrow> (\<exists>e. bc_map c k = Some e \<and> be_id e \<noteq> keep \<and> \<not> busy (be_id e))"

lemma scan_finds:
  "set (bc_order c) \<subseteq> dom (bc_map c) \<Longrightarrow>
     evict_scan busy keep i c =
       (case find (idle_key busy keep c) (drop i (bc_order c)) of
          None \<Rightarrow> (None, c) | Some k \<Rightarrow> (bc_map c k, drop_bridge_key k c))"
proof (induction busy keep i c rule: evict_scan.induct)
  case (1 busy keep i c)
  show ?case
  proof (cases "i < length (bc_order c)")
    case at: True
    then have drop: "drop i (bc_order c) = bc_order c ! i # drop (i + 1) (bc_order c)" by (simp add: Cons_nth_drop_Suc)
    obtain e where e: "bc_map c (bc_order c ! i) = Some e" using "1.prems" at nth_mem by blast
    show ?thesis
    proof (cases "be_id e = keep \<or> busy (be_id e)")
      case True
      then have "\<not> idle_key busy keep c (bc_order c ! i)" using e by (auto simp: idle_key_def)
      then show ?thesis
        using "1.IH"(2)[OF _ refl e True "1.prems"] at e True
        by (simp add: drop evict_scan.simps[of _ _ i c] Let_def)
    next
      case False
      then have "idle_key busy keep c (bc_order c ! i)" using e by (auto simp: idle_key_def)
      then show ?thesis using at e False by (simp add: drop evict_scan.simps[of _ _ i c] Let_def)
    qed
  qed (simp add: evict_scan.simps[of _ _ i])
qed

lemma find_filter: "find P xs = (case filter P xs of [] \<Rightarrow> None | x # _ \<Rightarrow> Some x)"
  by (induction xs) auto

lemma idle_after_drop:
  "k' \<noteq> k \<Longrightarrow> lru_ok t c \<Longrightarrow> idle_key busy keep (drop_bridge_key k c) k' = idle_key busy keep c k'"
  by (simp add: idle_key_def drop_key_fields)

lemma filter_after_drop:
  assumes ok: "lru_ok t c" and first: "filter (idle_key busy keep c) (bc_order c) = k # ks"
  shows "filter (idle_key busy keep (drop_bridge_key k c)) (bc_order (drop_bridge_key k c)) = ks"
proof -
  have d: "distinct (k # ks)" unfolding first[symmetric] using lru_fields(1)[OF ok] by simp
  have "filter (idle_key busy keep (drop_bridge_key k c)) (bc_order (drop_bridge_key k c)) =
      filter (idle_key busy keep c) (filter (\<lambda>x. x \<noteq> k) (bc_order c))"
    unfolding drop_key_fields(2)[OF ok] by (rule filter_cong) (auto simp: idle_after_drop[OF _ ok])
  also have "\<dots> = filter (\<lambda>x. x \<noteq> k) (k # ks)" unfolding first[symmetric] by (simp add: conj_commute)
  finally show ?thesis using d by (auto intro: filter_True)
qed

text \<open>The loop takes the oldest idle keys, as many as the cache has too many.\<close>

lemma evict_takes:
  fixes busy keep
  assumes "lru_ok t c"
  defines "ks \<equiv> take (length (bc_order c) - max_bridge_entries) (filter (idle_key busy keep c) (bc_order c))"
  shows "bridge_evict busy keep c = (map (\<lambda>k. the (bc_map c k)) ks, fold drop_bridge_key ks c)"
  using assms(1) unfolding ks_def
proof (induction "length (bc_order c)" arbitrary: c rule: less_induct)
  case less
  have dom: "set (bc_order c) \<subseteq> dom (bc_map c)" using lru_fields(2)[OF less.prems] by simp
  show ?case
  proof (cases "length (bc_order c) > max_bridge_entries")
    case over: True
    show ?thesis
    proof (cases "filter (idle_key busy keep c) (bc_order c)")
      case Nil
      then show ?thesis using over by (simp add: bridge_evict.simps[of _ _ c] scan_finds[OF dom] find_filter)
    next
      case (Cons k ks)
      let ?c = "drop_bridge_key k c"
      have k: "k \<in> set (bc_order c)" "idle_key busy keep c k"
        using arg_cong[OF Cons, of set] by auto
      then obtain e where e: "bc_map c k = Some e" by (auto simp: idle_key_def)
      have len: "length (bc_order ?c) = length (bc_order c) - 1"
        using k(1) by (simp add: drop_bridge_key_def remove_bridge_order_def length_remove1)
      then have "length (bc_order ?c) < length (bc_order c)" using over by simp
      note IH = less.hyps[OF this drop_key_ok[OF less.prems]]
      have same: "map (\<lambda>x. the (bc_map ?c x)) (take n ks) = map (\<lambda>x. the (bc_map c x)) (take n ks)" for n
      proof -
        have "distinct (k # ks)" unfolding Cons[symmetric] using lru_fields(1)[OF less.prems] by simp
        then show ?thesis by (auto simp: drop_key_fields[OF less.prems] dest: in_set_takeD)
      qed
      have more: "length (bc_order c) - max_bridge_entries = Suc (length (bc_order ?c) - max_bridge_entries)"
        using over len by linarith
      show ?thesis
        using over IH unfolding filter_after_drop[OF less.prems Cons] same
        by (simp add: bridge_evict.simps[of _ _ c] scan_finds[OF dom] find_filter Cons e more)
    qed
  next
    case False
    then show ?thesis by (simp add: bridge_evict.simps[of _ _ c])
  qed
qed

lemma drop_keys_ok: "lru_ok t c \<Longrightarrow> lru_ok t (fold drop_bridge_key ks c)"
  by (induction ks arbitrary: c) (auto simp: drop_key_ok)

lemma drop_keys_fields:
  assumes "lru_ok t c"
  shows "bc_map (fold drop_bridge_key ks c) = (\<lambda>x. if x \<in> set ks then None else bc_map c x)"
    and "bc_order (fold drop_bridge_key ks c) = filter (\<lambda>x. x \<notin> set ks) (bc_order c)"
  using assms
proof (induction ks arbitrary: c)
  case (Cons k ks)
  {
    case 1
    then show ?case using Cons.IH(1)[OF drop_key_ok[OF 1]] by (auto simp: drop_key_fields[OF 1])
  next
    case 2
    then show ?case using Cons.IH(2)[OF drop_key_ok[OF 2]] by (auto simp: drop_key_fields[OF 2] intro: filter_cong)
  }
qed simp_all

section \<open>The cache in use\<close>

inductive bridge_cache_step :: "go_time \<times> bridge_cache \<Rightarrow> go_time \<times> bridge_cache \<Rightarrow> bool" where
  Hit: "t \<le> now \<Longrightarrow> bridge_cache_step (t, c) (now, snd (bridge_hit now k c))"
| Insert: "t \<le> now \<Longrightarrow> bridge_cache_step (t, c) (now, snd (snd (bridge_insert busy now k token c)))"
| Evict_Dead: "bridge_cache_step (t, c) (t, snd (bridge_evict_token busy k c))"
| Sweep: "bridge_cache_step (t, c) (t, snd (snd (bridge_sweep busy until configured now ks c)))"

inductive_cases bridge_cache_stepE: "bridge_cache_step s s'"

text \<open>The cache with the new entry, before the eviction.\<close>

definition with_entry :: "go_time \<Rightarrow> string \<Rightarrow> string \<Rightarrow> bridge_cache \<Rightarrow> bridge_cache" where
  "with_entry now k token c =
     \<lparr>bc_map = (bc_map c)(k \<mapsto> \<lparr>be_id = bc_next c, be_token = token, be_last_used = now, be_ledger = new_account_ledger\<rparr>),
      bc_order = bc_order c @ [k], bc_next = bc_next c + 1\<rparr>"

lemma with_entry_ok:
  assumes ok: "lru_ok t c" and le: "t \<le> now" and new: "bc_map c k = None"
  shows "lru_ok now (with_entry now k token c)"
proof -
  let ?c = "with_entry now k token c"
  have k: "k \<notin> set (bc_order c)" using lru_fields(2)[OF ok] new by auto
  have "sorted (map (used_at ?c) (filter (\<lambda>_. True) (bc_order c)))"
    by (rule sorted_used_filter[OF lru_fields(3)[OF ok]]) (use k in \<open>auto simp: with_entry_def\<close>)
  moreover have "used_at ?c x \<le> now" if "x \<in> set (bc_order c)" for x
  proof -
    have "used_at c x \<le> t" "x \<noteq> k" using used_le[OF ok] lru_fields(2)[OF ok] k that by auto
    then show ?thesis using le by (simp add: used_at_def with_entry_def)
  qed
  moreover have "used_at ?c k = now" by (simp add: used_at_def with_entry_def)
  ultimately have "sorted (map (used_at ?c) (bc_order ?c))" by (simp add: with_entry_def sorted_append)
  then show ?thesis
    using lru_fields[OF ok] k le unfolding lru_ok_def
    by (fastforce simp: with_entry_def less_SucI split: if_splits)
qed

lemma insert_evicts:
  assumes "bc_map c k = None"
  shows "bridge_insert busy now k token c =
    (the (bc_map (with_entry now k token c) k), bridge_evict busy (bc_next c) (with_entry now k token c))"
  using assms by (simp add: bridge_insert_def with_entry_def Let_def split: prod.split)

lemma insert_ok: "lru_ok t c \<Longrightarrow> t \<le> now \<Longrightarrow> lru_ok now (snd (snd (bridge_insert busy now k token c)))"
proof (cases "bc_map c k")
  case None
  assume "lru_ok t c" "t \<le> now"
  note ok = with_entry_ok[OF this None, of token]
  show ?thesis unfolding insert_evicts[OF None] evict_takes[OF ok] by (simp add: drop_keys_ok[OF ok])
qed (auto simp: bridge_insert_def lru_later)

lemma sweep_ok: "lru_ok t c \<Longrightarrow> lru_ok t (snd (snd (fold (sweep_key busy until idle now) ks (out, stay, c))))"
proof (induction ks arbitrary: out stay c)
  case (Cons k ks)
  then show ?case by (auto simp: sweep_key_def drop_key_ok split: option.split)
qed simp

lemma cache_step_ok [step_intros]:
  "lru_ok (fst s) (snd s) \<Longrightarrow> bridge_cache_step s s' \<Longrightarrow> lru_ok (fst s') (snd s')"
  by (erule bridge_cache_stepE)
    (auto simp: hit_ok insert_ok bridge_sweep_def sweep_ok bridge_evict_token_def drop_key_ok split: option.split)

interpretation bridge_run: invariant_system "\<lambda>s. s = (t0, new_bridge_cache)" bridge_cache_step "\<lambda>s. lru_ok (fst s) (snd s)"
  for t0
proof unfold_locales
  show "lru_ok (fst s) (snd s)" if "s = (t0, new_bridge_cache)" for s
    using that by (simp add: lru_ok_def new_bridge_cache_def)
qed (rule cache_step_ok)

text \<open>C12: In every reachable cache the order lists each cached key once, oldest use first, and a new client evicts
  exactly the oldest idle entries, as many as the cache has too many: never the new entry, never one with a
  lease, none used after an idle one that stays, and if the cache is still too large all others are busy.\<close>

theorem eviction_is_lru:
  assumes "reach (\<lambda>s. s = (t0, new_bridge_cache)) bridge_cache_step (t, c)" "t \<le> now" "bc_map c k = None"
    and "bridge_insert busy now k token c = (e, vs, c')"
  shows "distinct (bc_order c) \<and> set (bc_order c) = dom (bc_map c) \<and> sorted (map (used_at c) (bc_order c)) \<and>
    (let ks = take (length (bc_order c) + 1 - max_bridge_entries)
                (filter (\<lambda>x. \<not> busy (be_id (the (bc_map c x)))) (bc_order c))
     in vs = map (\<lambda>x. the (bc_map c x)) ks \<and>
        bc_order c' = filter (\<lambda>x. x \<notin> set ks) (bc_order c) @ [k] \<and>
        bc_map c' = (\<lambda>x. if x \<in> set ks then None else if x = k then Some e else bc_map c x) \<and>
        (length (bc_order c') \<le> max_bridge_entries \<or> (\<forall>x \<in> set (bc_order c') - {k}. busy (be_id (the (bc_map c x))))))"
proof -
  have ok: "lru_ok t c" using bridge_run.reach_inv[OF assms(1)] by simp
  let ?d = "with_entry now k token c" and ?idle = "\<lambda>x. \<not> busy (be_id (the (bc_map c x)))"
  have wok: "lru_ok now ?d" by (rule with_entry_ok[OF ok assms(2,3)])
  have k: "k \<notin> set (bc_order c)" using lru_fields(2)[OF ok] assms(3) by auto
  have "idle_key busy (bc_next c) ?d x = ?idle x" if listed: "x \<in> set (bc_order c)" for x
  proof -
    obtain y where y: "bc_map c x = Some y" using listed lru_fields(2)[OF ok] by auto
    then have "be_id y < bc_next c" by (rule lru_fields(5)[OF ok])
    then show ?thesis using listed k y by (auto simp: idle_key_def with_entry_def)
  qed
  moreover have "\<not> idle_key busy (bc_next c) ?d k" by (simp add: idle_key_def with_entry_def)
  ultimately have idle: "filter (idle_key busy (bc_next c) ?d) (bc_order ?d) = filter ?idle (bc_order c)"
    by (simp add: with_entry_def cong: filter_cong)
  define ks where "ks = take (length (bc_order c) + 1 - max_bridge_entries) (filter ?idle (bc_order c))"
  have len: "length (bc_order ?d) = length (bc_order c) + 1" by (simp add: with_entry_def)
  have sub: "set ks \<subseteq> set (bc_order c)" unfolding ks_def by (auto dest: in_set_takeD)
  have out: "e = the (bc_map ?d k)" "vs = map (\<lambda>x. the (bc_map ?d x)) ks" "c' = fold drop_bridge_key ks ?d"
    using assms(4) unfolding insert_evicts[OF assms(3)] evict_takes[OF wok] idle len ks_def[symmetric] by simp_all
  have fields: "bc_order c' = filter (\<lambda>x. x \<notin> set ks) (bc_order c) @ [k]"
      "bc_map c' = (\<lambda>x. if x \<in> set ks then None else if x = k then Some e else bc_map c x)"
    unfolding out(3) drop_keys_fields[OF wok] using sub k by (auto simp: with_entry_def out(1))
  have same: "vs = map (\<lambda>x. the (bc_map c x)) ks" unfolding out(2) using sub k by (auto simp: with_entry_def)
  have "length (bc_order c') \<le> max_bridge_entries \<or> (\<forall>x \<in> set (bc_order c') - {k}. \<not> ?idle x)"
  proof (cases "length (filter ?idle (bc_order c)) \<le> length (bc_order c) + 1 - max_bridge_entries")
    case True
    then have "ks = filter ?idle (bc_order c)" by (simp add: ks_def)
    then show ?thesis by (auto simp: fields)
  next
    case False
    have "distinct ks" unfolding ks_def using lru_fields(1)[OF ok] by simp
    then have "card (set ks) = length (bc_order c) + 1 - max_bridge_entries"
      using False by (simp add: distinct_card ks_def)
    moreover have "length (filter (\<lambda>x. x \<notin> set ks) (bc_order c)) = card (set (bc_order c) - set ks)"
      using lru_fields(1)[OF ok] distinct_card[of "filter (\<lambda>x. x \<notin> set ks) (bc_order c)"] by (simp add: set_diff_eq)
    moreover have "card (set (bc_order c) - set ks) = length (bc_order c) - card (set ks)"
      using sub lru_fields(1)[OF ok] by (simp add: card_Diff_subset distinct_card)
    ultimately have "length (bc_order c') = length (bc_order c) - (length (bc_order c) + 1 - max_bridge_entries) + 1"
      by (simp add: fields)
    then have "length (bc_order c') \<le> max_bridge_entries" by (simp add: max_bridge_entries_def)
    then show ?thesis ..
  qed
  then show ?thesis using lru_fields(1-3)[OF ok] same fields by (simp add: Let_def ks_def)
qed

lemma eviction_is_lru_witness:
  "let c = snd (snd (bridge_insert (\<lambda>_. False) 1 ''k'' ''token'' new_bridge_cache))
   in bc_order (snd (snd (bridge_insert (\<lambda>_. False) 2 ''l'' ''other'' c))) = [''k'', ''l'']"
proof -
  let ?c = "snd (snd (bridge_insert (\<lambda>_. False) 1 ''k'' ''token'' new_bridge_cache))"
  have one: "?c = with_entry 1 ''k'' ''token'' new_bridge_cache"
    by (simp add: bridge_insert_def new_bridge_cache_def Let_def with_entry_def bridge_evict.simps max_bridge_entries_def)
  have "bridge_cache_step (0, new_bridge_cache) (1, ?c)" by (rule bridge_cache_step.Insert) simp
  then have "reach (\<lambda>s. s = (0, new_bridge_cache)) bridge_cache_step (1, ?c)" by (blast intro: reach.intros)
  note lru = eviction_is_lru[OF this, of 2 "''l''" "\<lambda>_. False" "''other''"]
  obtain e vs d where d: "bridge_insert (\<lambda>_. False) 2 ''l'' ''other'' ?c = (e, vs, d)" by (metis prod.collapse)
  have "bc_order ?c = [''k'']" "bc_map ?c ''l'' = None" by (simp_all only: one) (simp_all add: with_entry_def new_bridge_cache_def)
  then have "bc_order d = [''k'', ''l'']" using lru[OF _ _ d] by (simp add: Let_def max_bridge_entries_def)
  then show ?thesis by (simp only: Let_def d snd_conv)
qed

section \<open>A bridge turn\<close>

text \<open>What the effects leave held: seats, slots and runs.\<close>

fun turn_holds :: "bridge_effect list \<Rightarrow> int \<times> nat list \<times> nat list \<Rightarrow> int \<times> nat list \<times> nat list" where
  "turn_holds [] h = h"
| "turn_holds (Seat_Taken # es) (n, ss, rs) = turn_holds es (n + 1, ss, rs)"
| "turn_holds (Seat_Returned # es) (n, ss, rs) = turn_holds es (n - 1, ss, rs)"
| "turn_holds (Slot_Held s # es) (n, ss, rs) = turn_holds es (n, s # ss, rs)"
| "turn_holds (Slot_Returned s # es) (n, ss, rs) = turn_holds es (n, remove1 s ss, rs)"
| "turn_holds (Run_Leased r # es) (n, ss, rs) = turn_holds es (n, ss, r # rs)"
| "turn_holds (Run_Returned r # es) (n, ss, rs) = turn_holds es (n, ss, remove1 r rs)"
| "turn_holds (_ # es) h = turn_holds es h"

lemma holds_append [simp]: "turn_holds (xs @ ys) h = turn_holds ys (turn_holds xs h)"
  by (induction xs h rule: turn_holds.induct) auto

lemma refusal_holds: "bridge_refusal model bt le = (es, le') \<Longrightarrow> turn_holds es h = h"
  by (auto simp: bridge_refusal_def Let_def split: option.splits if_splits)

lemma unwind_holds [simp]:
  "turn_holds (turn_unwinds slot) (n, ss, rs) = (n - 1, case slot of Some s \<Rightarrow> remove1 s ss | None \<Rightarrow> ss, rs)"
  by (simp add: turn_unwinds_def split: option.split)

lemma ready_holds:
  "bridge_session_ready model agent bt slot v = (out, es) \<Longrightarrow>
     turn_holds es (1, case slot of Some s \<Rightarrow> [s] | None \<Rightarrow> [], []) =
       (case out of Inl f \<Rightarrow> (0, [], []) | Inr l \<Rightarrow> (1, case bl_permit l of Some s \<Rightarrow> [s] | None \<Rightarrow> [], [bl_run l])) \<and>
     (\<forall>l. out = Inr l \<longrightarrow> bl_model l = model \<and> bl_permit l = slot \<and> bl_instance l = bv_instance v \<and> bt_cached bt \<and> bt_cached_again bt)"
  by (auto simp: bridge_session_ready_def Let_def refusal_holds split: if_splits sum.splits option.splits prod.splits)


text \<open>C26: A bridge turn that fails, wherever it does, has returned its seat, its slot and its run, each once; one
  that succeeds holds exactly one seat, its slot and its run, rides the session its admission ended with, and
  belongs to an entry that is cached, unlocked and not cooling, with a token that is not a pooled one.\<close>

theorem bridge_turn_balanced:
  "case acquire_bridge text token model bt of
     (Inl f, es) \<Rightarrow> turn_holds es (0, [], []) = (0, [], [])
   | (Inr l, es) \<Rightarrow>
       turn_holds es (0, [], []) = (1, case bl_permit l of Some s \<Rightarrow> [s] | None \<Rightarrow> [], [bl_run l]) \<and>
       bl_model l = model \<and> \<not> bt_draining bt \<and> \<not> bt_pooled bt \<and> \<not> bt_locked bt \<and>
       bridge_cooling model bt = None \<and> bt_cached bt \<and> bt_cached_again bt \<and>
       (\<exists>v. bt_admit bt = Rides v \<and> bl_instance l = bv_instance v)"
proof -
  have admitted: "turn_holds es (1, case slot of Some s \<Rightarrow> [s] | None \<Rightarrow> [], []) =
       (case out of Inl f \<Rightarrow> (0, [], []) | Inr l \<Rightarrow> (1, case bl_permit l of Some s \<Rightarrow> [s] | None \<Rightarrow> [], [bl_run l])) \<and>
     (\<forall>l. out = Inr l \<longrightarrow> bl_model l = model \<and> bl_permit l = slot \<and> bt_cached bt \<and> bt_cached_again bt \<and>
        (\<exists>v. bt_admit bt = Rides v \<and> bl_instance l = bv_instance v))"
    if "bridge_admitted model agent bt slot = (out, es)" for agent slot out es
  proof (cases "bt_admit bt")
    case (Rides v)
    then show ?thesis using that ready_holds[of model agent bt slot v out es] by (auto simp: bridge_admitted_def)
  qed (use that in \<open>auto simp: bridge_admitted_def refusal_holds split: prod.splits option.splits\<close>)
  have seated: "(\<forall>f. out = Inl f \<longrightarrow> turn_holds es (1, [], []) = (0, [], [])) \<and>
     (\<forall>l. out = Inr l \<longrightarrow> turn_holds es (1, [], []) = (1, case bl_permit l of Some s \<Rightarrow> [s] | None \<Rightarrow> [], [bl_run l]) \<and>
        bl_model l = model \<and> bt_cached bt \<and> bt_cached_again bt \<and> (\<exists>v. bt_admit bt = Rides v \<and> bl_instance l = bv_instance v))"
    if "bridge_seated text model agent bt = (out, es)" for agent out es
    using that admitted[of agent None] admitted[of agent "Some _"]
    by (auto simp: bridge_seated_def split: slot_grant.splits prod.splits sum.splits)
  show ?thesis
    by (auto simp: acquire_bridge_def dest!: seated split: option.splits sum.splits prod.splits if_splits)
qed

end
