(* ===== verification/Bridge_Flight.thy ===== *)
theory Bridge_Flight
  imports Bridge_Admission
begin

text \<open>
  The single flight of \<open>Bridge_Admission\<close>: it works while every request asks for one model and no admission
  fails, and its resets, which overwrite a \<^verbatim>\<open>sync.Once\<close> that is in use, break it in every other case.
\<close>

section \<open>Calm admissions\<close>

text \<open>No admission has failed and an admitted session stays usable for the model.\<close>

definition calm :: "string \<Rightarrow> admission \<Rightarrow> bool" where
  "calm m a \<longleftrightarrow>
     ad_err a = None \<and>
     (ad_ensures a > 0 \<longrightarrow> bv_usable (ad_view a) \<and> (bv_model (ad_view a) = '''' \<or> bv_model (ad_view a) = m))"

definition calm_step :: "string \<Rightarrow> admission \<Rightarrow> admission \<Rightarrow> bool" where
  "calm_step m a b \<longleftrightarrow> turn_step (\<lambda>_. m) a b \<and> calm m b"

fun inside_once :: "admit_phase \<Rightarrow> bool" where
  "inside_once (Holding n) = True"
| "inside_once (Leading n) = True"
| "inside_once (Closing n) = True"
| "inside_once (Storing n) = True"
| "inside_once (Unlocking n) = True"
| "inside_once _ = False"

fun sleeping :: "admit_phase \<Rightarrow> bool" where
  "sleeping (Asleep n) = True" | "sleeping _ = False"

fun trying :: "admit_phase \<Rightarrow> bool" where
  "trying (Locking n) = True" | "trying _ = False"

fun creating :: "admit_phase \<Rightarrow> bool" where
  "creating (Closing n) = True" | "creating (Storing n) = True" | "creating _ = False"

text \<open>What a phase says of the gate, the flag and the number of admissions made.\<close>

fun phase_fits :: "admission \<Rightarrow> admit_phase \<Rightarrow> bool" where
  "phase_fits a (Leading n) \<longleftrightarrow> ad_ensures a = 0"
| "phase_fits a (Closing n) \<longleftrightarrow> ad_ensures a = 1 \<and> \<not> ad_gate_closed a \<and> \<not> ad_done a"
| "phase_fits a (Storing n) \<longleftrightarrow> ad_ensures a = 1 \<and> ad_gate_closed a \<and> \<not> ad_done a"
| "phase_fits a (Unlocking n) \<longleftrightarrow> ad_done a"
| "phase_fits a (At_Result n) \<longleftrightarrow> ad_done a"
| "phase_fits a (Comparing n) \<longleftrightarrow> ad_done a"
| "phase_fits a Session_Ready \<longleftrightarrow> ad_ensures a = 1"
| "phase_fits a (Resetting n) \<longleftrightarrow> False"
| "phase_fits a (Gone x) \<longleftrightarrow> (\<exists>v. x = Rides v \<and> bv_usable v)"
| "phase_fits a _ \<longleftrightarrow> True"

definition mutex_ok :: "admission \<Rightarrow> bool" where
  "mutex_ok a \<longleftrightarrow>
     \<not> ad_fatal a \<and> \<not> ad_mu_lost a \<and>
     (\<forall>p q. inside_once (ad_phase a p) \<and> inside_once (ad_phase a q) \<longrightarrow> p = q) \<and>
     (ad_locked a \<longleftrightarrow> (\<exists>p. inside_once (ad_phase a p))) \<and>
     distinct (ad_queue a) \<and> (\<forall>p. p \<in> set (ad_queue a) \<longleftrightarrow> sleeping (ad_phase a p)) \<and>
     ad_waiters a = length (ad_queue a) \<and>
     (ad_queue a \<noteq> [] \<longrightarrow> ad_locked a \<or> (\<exists>p. trying (ad_phase a p)))"

definition flight_fits :: "admission \<Rightarrow> bool" where
  "flight_fits a \<longleftrightarrow>
     ad_ensures a \<le> 1 \<and> (\<forall>p. phase_fits a (ad_phase a p)) \<and>
     (ad_gate_closed a \<longrightarrow> ad_ensures a = 1) \<and> (ad_done a \<longrightarrow> ad_gate_closed a) \<and>
     (ad_ensures a = 1 \<and> \<not> ad_done a \<longrightarrow> (\<exists>p. creating (ad_phase a p)))"

definition calm_inv :: "string \<Rightarrow> admission \<Rightarrow> bool" where
  "calm_inv m a \<longleftrightarrow> calm m a \<and> mutex_ok a \<and> flight_fits a"

lemma creating_inside: "creating ph \<Longrightarrow> inside_once ph"
  by (cases ph) auto

lemma goes_fields [simp]:
  "ad_phase (goes p ph a) q = (if q = p then ph else ad_phase a q)"
  "ad_gate_closed (goes p ph a) = ad_gate_closed a" "ad_done (goes p ph a) = ad_done a"
  "ad_locked (goes p ph a) = ad_locked a" "ad_waiters (goes p ph a) = ad_waiters a"
  "ad_queue (goes p ph a) = ad_queue a" "ad_err (goes p ph a) = ad_err a" "ad_mu_lost (goes p ph a) = ad_mu_lost a"
  "ad_view (goes p ph a) = ad_view a" "ad_fatal (goes p ph a) = ad_fatal a" "ad_ensures (goes p ph a) = ad_ensures a"
  by (simp_all add: goes_def)

lemma phase_fits_cong:
  "ad_ensures a = ad_ensures b \<Longrightarrow> ad_gate_closed a = ad_gate_closed b \<Longrightarrow> ad_done a = ad_done b \<Longrightarrow>
     phase_fits a ph = phase_fits b ph"
  by (cases ph) auto

text \<open>A move between phases outside the mutex.\<close>

lemma mutex_outside:
  assumes "mutex_ok a" "\<not> inside_once (ad_phase a p)" "\<not> sleeping (ad_phase a p)" "\<not> inside_once ph" "\<not> sleeping ph"
    and "\<not> trying (ad_phase a p) \<or> trying ph"
  shows "mutex_ok (goes p ph a)"
  using assms unfolding mutex_ok_def by (auto split: if_splits)

text \<open>A move of the holder.\<close>

lemma mutex_holder:
  assumes "mutex_ok a" "inside_once (ad_phase a p)" "inside_once ph"
  shows "mutex_ok (goes p ph a)"
proof -
  have "\<not> sleeping (ad_phase a p)" "\<not> sleeping ph" "\<not> trying (ad_phase a p)"
    using assms(2,3) by (cases "ad_phase a p"; cases ph; simp)+
  then show ?thesis using assms unfolding mutex_ok_def by (auto split: if_splits)
qed

lemma mutex_same:
  assumes "mutex_ok a" "ad_fatal b = ad_fatal a" "ad_mu_lost b = ad_mu_lost a" "ad_phase b = ad_phase a"
    "ad_locked b = ad_locked a" "ad_queue b = ad_queue a" "ad_waiters b = ad_waiters a"
  shows "mutex_ok b"
  using assms(1) unfolding mutex_ok_def assms(2-) .

lemma mutex_lock:
  assumes "mutex_ok a" "ad_phase a p = Locking n"
  shows "mutex_ok (lock_once p n a)"
proof (cases "ad_locked a")
  case True
  have out: "p \<notin> set (ad_queue a)" using assms unfolding mutex_ok_def by simp
  have "\<exists>r. inside_once (ad_phase a r)" using True assms(1) unfolding mutex_ok_def by simp
  then obtain r where r: "inside_once (ad_phase a r)" by blast
  then have "r \<noteq> p" using assms(2) by auto
  then have ex: "\<exists>r. inside_once (if r = p then Asleep n else ad_phase a r)" using r by (intro exI [of _ r]) simp
  show ?thesis
    using True assms out ex unfolding mutex_ok_def lock_once_def by (auto split: if_splits)
next
  case False
  have none: "\<not> inside_once (ad_phase a r)" for r using False assms(1) unfolding mutex_ok_def by blast
  have "mutex_ok (goes p (Holding n) (a\<lparr>ad_locked := True\<rparr>))"
    using assms none unfolding mutex_ok_def by (auto split: if_splits)
  then show ?thesis using False by (simp add: lock_once_def)
qed

lemma mutex_unlock:
  assumes "mutex_ok a" "ad_phase a p = Unlocking n"
  shows "mutex_ok (unlock_once (goes p (At_Result n) a))"
proof -
  have in_p: "inside_once (ad_phase a p)" using assms(2) by simp
  then have locked: "ad_locked a" using assms(1) unfolding mutex_ok_def by blast
  have only: "inside_once (ad_phase a r) \<Longrightarrow> r = p" for r using assms(1) in_p unfolding mutex_ok_def by blast
  show ?thesis
  proof (cases "ad_queue a")
    case Nil
    have eq: "unlock_once (goes p (At_Result n) a) = (goes p (At_Result n) a)\<lparr>ad_locked := False\<rparr>"
      using Nil locked by (simp add: unlock_once_def)
    show ?thesis
      unfolding eq using assms Nil only unfolding mutex_ok_def by (auto split: if_splits)
  next
    case (Cons q qs)
    then obtain k where k: "ad_phase a q = Asleep k"
      using assms(1) unfolding mutex_ok_def by (metis list.set_intros(1) sleeping.elims(2))
    then have qp: "q \<noteq> p" using assms(2) by auto
    have fresh: "q \<notin> set qs" "distinct qs" using assms(1) Cons unfolding mutex_ok_def by auto
    have inq: "r \<in> set qs \<longleftrightarrow> sleeping (ad_phase a r) \<and> r \<noteq> q" for r
      using assms(1) Cons fresh unfolding mutex_ok_def by (metis set_ConsD list.set_intros)
    have w: "ad_waiters a = length qs + 1" "\<not> ad_fatal a" "\<not> ad_mu_lost a"
      using assms(1) Cons unfolding mutex_ok_def by auto
    have eq: "unlock_once (goes p (At_Result n) a)
        = goes q (Locking k) (goes p (At_Result n) (a\<lparr>ad_locked := False, ad_waiters := length qs, ad_queue := qs\<rparr>))"
      using Cons locked k qp w by (simp add: unlock_once_def awake_def goes_def)
    show ?thesis
      unfolding eq mutex_ok_def using w fresh inq qp k assms(2) only
      by (auto split: if_splits intro!: exI [of _ q])
  qed
qed

lemma flight_goes:
  assumes "flight_fits a" "phase_fits a ph"
    and "creating (ad_phase a p) \<Longrightarrow> creating ph \<or> ad_ensures a = 0 \<or> ad_done a"
  shows "flight_fits (goes p ph a)"
proof -
  have "\<exists>r. creating (ad_phase (goes p ph a) r)" if e: "ad_ensures a = 1" "\<not> ad_done a"
  proof -
    obtain r where r: "creating (ad_phase a r)" using e assms(1) unfolding flight_fits_def by blast
    show ?thesis
    proof (cases "r = p")
      case True
      then have "creating ph" using assms(3) r e by simp
      then show ?thesis by (intro exI [of _ p]) simp
    next
      case False
      then show ?thesis using r by (intro exI [of _ r]) simp
    qed
  qed
  moreover have "phase_fits (goes p ph a) x = phase_fits a x" for x by (rule phase_fits_cong) simp_all
  ultimately show ?thesis using assms(1,2) unfolding flight_fits_def by simp
qed

lemma flight_same:
  assumes "flight_fits a" "ad_phase b = ad_phase a" "ad_ensures b = ad_ensures a"
    "ad_gate_closed b = ad_gate_closed a" "ad_done b = ad_done a"
  shows "flight_fits b"
proof -
  have "phase_fits b x = phase_fits a x" for x by (rule phase_fits_cong) (simp_all add: assms)
  then show ?thesis using assms(1) unfolding flight_fits_def assms(2-) by simp
qed

section \<open>Every calm step keeps the invariant\<close>

text \<open>One step preserves it, taken apart by the phase of the process that moves.\<close>

lemma flight_facts:
  assumes "calm_inv m a"
  shows "ad_ensures a \<le> 1" "ad_gate_closed a \<Longrightarrow> ad_ensures a = 1" "ad_done a \<Longrightarrow> ad_gate_closed a"
    "ad_ensures a = 1 \<Longrightarrow> bv_usable (ad_view a)" "ad_ensures a = 1 \<Longrightarrow> serves m (ad_view a)"
    "ad_err a = None" "\<not> ad_mu_lost a" "\<not> ad_fatal a" "phase_fits a (ad_phase a p)"
  using assms unfolding calm_inv_def calm_def mutex_ok_def flight_fits_def serves_def by auto

lemma holder_is_creator:
  assumes "calm_inv m a" "inside_once (ad_phase a p)" "\<not> creating (ad_phase a p)" "\<not> ad_done a"
  shows "ad_ensures a = 0"
proof (rule ccontr)
  assume "ad_ensures a \<noteq> 0"
  then have "ad_ensures a = 1" using flight_facts(1) [OF assms(1)] by linarith
  then obtain r where r: "creating (ad_phase a r)" using assms(1,4) unfolding calm_inv_def flight_fits_def by blast
  then have "r = p" using assms(1,2) creating_inside unfolding calm_inv_def mutex_ok_def by blast
  then show False using r assms(3) by simp
qed

text \<open>A move that leaves everything but the phase alone.\<close>

lemma calm_inv_goes:
  assumes "calm_inv m a" "mutex_ok (goes p ph a)" "phase_fits a ph" "creating (ad_phase a p) \<Longrightarrow> creating ph \<or> ad_done a"
  shows "calm_inv m (goes p ph a)"
  using assms flight_goes unfolding calm_inv_def calm_def by auto

lemma calm_outside:
  assumes "calm_inv m a" "\<not> inside_once (ad_phase a p)" "\<not> sleeping (ad_phase a p)" "\<not> inside_once ph" "\<not> sleeping ph"
    and "\<not> trying (ad_phase a p) \<or> trying ph" "phase_fits a ph"
  shows "calm_inv m (goes p ph a)"
  by (rule calm_inv_goes) (use assms creating_inside mutex_outside calm_inv_def in auto)

lemma calm_holder:
  assumes "calm_inv m a" "inside_once (ad_phase a p)" "inside_once ph" "phase_fits a ph"
    and "creating (ad_phase a p) \<Longrightarrow> creating ph \<or> ad_done a"
  shows "calm_inv m (goes p ph a)"
  by (rule calm_inv_goes) (use assms mutex_holder calm_inv_def in auto)

lemma calm_lock:
  assumes "calm_inv m a" "ad_phase a p = Locking n"
  shows "calm_inv m (lock_once p n a)"
proof -
  define ph where "ph = (if ad_locked a then Asleep n else Holding n)"
  have "flight_fits (goes p ph a)" by (rule flight_goes) (use assms in \<open>auto simp: calm_inv_def ph_def\<close>)
  then have "flight_fits (lock_once p n a)"
    by (rule flight_same) (simp_all add: lock_once_def goes_def ph_def)
  moreover have "calm m (lock_once p n a)" using assms(1) by (simp add: calm_inv_def calm_def lock_once_def)
  ultimately show ?thesis using assms mutex_lock unfolding calm_inv_def by blast
qed

lemma unlock_fields:
  "ad_gate_closed (unlock_once a) = ad_gate_closed a" "ad_done (unlock_once a) = ad_done a"
  "ad_err (unlock_once a) = ad_err a" "ad_view (unlock_once a) = ad_view a"
  "ad_ensures (unlock_once a) = ad_ensures a" "ad_mu_lost (unlock_once a) = ad_mu_lost a"
  by (simp_all add: unlock_once_def Let_def split: list.splits)

lemma unlock_phase:
  "ad_phase (unlock_once a) r = ad_phase a r \<or>
     (\<exists>k. ad_phase a r = Asleep k \<and> ad_phase (unlock_once a) r = Locking k)"
  by (auto simp: unlock_once_def Let_def awake_def split: list.splits admit_phase.splits)

lemma flight_unlock:
  assumes "flight_fits a"
  shows "flight_fits (unlock_once a)"
proof -
  have fits: "phase_fits (unlock_once a) x = phase_fits a x" for x by (rule phase_fits_cong) (simp_all add: unlock_fields)
  have "phase_fits a (ad_phase (unlock_once a) r)" for r
    using assms unlock_phase [of a r] unfolding flight_fits_def by auto
  moreover have "creating (ad_phase (unlock_once a) r)" if "creating (ad_phase a r)" for r
    using that unlock_phase [of a r] by auto
  ultimately show ?thesis using assms unfolding flight_fits_def by (auto simp: fits unlock_fields)
qed

lemma calm_unlock:
  assumes "calm_inv m a" "ad_phase a p = Unlocking n"
  shows "calm_inv m (unlock_once (goes p (At_Result n) a))"
proof -
  have "ad_done a" using flight_facts(9) [OF assms(1), of p] assms(2) by simp
  then have "flight_fits (goes p (At_Result n) a)" using assms(1) by (intro flight_goes) (auto simp: calm_inv_def)
  then show ?thesis
    using flight_unlock mutex_unlock assms unfolding calm_inv_def calm_def by (simp add: unlock_fields)
qed

text \<open>The three steps that write the gate, the flag or the session.\<close>

lemma calm_ensured:
  assumes "calm_inv m a" "ad_phase a p = Leading n"
    and "b = goes p (Closing n) (a\<lparr>ad_view := v, ad_err := e, ad_ensures := ad_ensures a + 1\<rparr>)" "calm m b"
  shows "calm_inv m b"
proof -
  have zero: "ad_ensures a = 0" using flight_facts(9) [OF assms(1), of p] assms(2) by simp
  have opened: "\<not> ad_gate_closed a" "\<not> ad_done a" using flight_facts(2,3) [OF assms(1)] zero by auto
  have fit: "phase_fits a (ad_phase a r)" for r by (rule flight_facts(9) [OF assms(1)])
  have "mutex_ok (goes p (Closing n) a)" using assms(1,2) by (intro mutex_holder) (auto simp: calm_inv_def)
  then have mtx: "mutex_ok b" by (rule mutex_same) (simp_all add: assms(3) goes_def)
  have "phase_fits b (ad_phase b r)" for r
  proof (cases "r = p")
    case False
    have "\<not> inside_once (ad_phase a r)"
      using False assms(1,2) unfolding calm_inv_def mutex_ok_def by (metis inside_once.simps(2))
    then show ?thesis using False fit [of r] zero opened unfolding assms(3) by (cases "ad_phase a r") auto
  qed (use zero opened in \<open>simp add: assms(3)\<close>)
  then have "flight_fits b" using zero opened unfolding flight_fits_def assms(3) by (auto intro!: exI [of _ p])
  then show ?thesis using mtx assms(4) unfolding calm_inv_def by simp
qed

lemma calm_closing:
  assumes "calm_inv m a" "ad_phase a p = Closing n"
  shows "calm_inv m (close_gate p n a)"
proof -
  have now: "ad_ensures a = 1" "\<not> ad_gate_closed a" "\<not> ad_done a" using flight_facts(9) [OF assms(1), of p] assms(2) by auto
  define b where "b = goes p (Storing n) (a\<lparr>ad_gate_closed := True\<rparr>)"
  have fit: "phase_fits a (ad_phase a r)" for r by (rule flight_facts(9) [OF assms(1)])
  have "mutex_ok (goes p (Storing n) a)" using assms by (intro mutex_holder) (auto simp: calm_inv_def)
  then have mtx: "mutex_ok b" by (rule mutex_same) (simp_all add: b_def goes_def)
  have "phase_fits b (ad_phase b r)" for r
  proof (cases "r = p")
    case False
    have "\<not> inside_once (ad_phase a r)"
      using False assms unfolding calm_inv_def mutex_ok_def by (metis inside_once.simps(3))
    then show ?thesis using False fit [of r] now unfolding b_def by (cases "ad_phase a r") auto
  qed (use now in \<open>simp add: b_def\<close>)
  then have "flight_fits b" using now unfolding flight_fits_def b_def by (auto intro!: exI [of _ p])
  moreover have "calm m b" using assms(1) by (simp add: calm_inv_def calm_def b_def)
  ultimately show ?thesis using mtx now(2) unfolding calm_inv_def by (simp add: close_gate_def b_def)
qed

lemma calm_storing:
  assumes "calm_inv m a" "ad_phase a p = Storing n"
  shows "calm_inv m (goes p (Unlocking n) (a\<lparr>ad_done := True\<rparr>))" (is "calm_inv m ?b")
proof -
  have now: "ad_ensures a = 1" "ad_gate_closed a" "\<not> ad_done a" using flight_facts(9) [OF assms(1), of p] assms(2) by auto
  have fit: "phase_fits a (ad_phase a r)" for r by (rule flight_facts(9) [OF assms(1)])
  have "mutex_ok (goes p (Unlocking n) a)" using assms by (intro mutex_holder) (auto simp: calm_inv_def)
  then have mtx: "mutex_ok ?b" by (rule mutex_same) (simp_all add: goes_def)
  have "phase_fits ?b (ad_phase ?b r)" for r
  proof (cases "r = p")
    case False
    have "\<not> inside_once (ad_phase a r)"
      using False assms unfolding calm_inv_def mutex_ok_def by (metis inside_once.simps(4))
    then show ?thesis using False fit [of r] now by (cases "ad_phase a r") auto
  qed (use now in simp)
  then have "flight_fits ?b" using now unfolding flight_fits_def by auto
  moreover have "calm m ?b" using assms(1) by (simp add: calm_inv_def calm_def)
  ultimately show ?thesis using mtx unfolding calm_inv_def by simp
qed

lemma calm_drift:
  assumes "calm_inv m a" "calm m (a\<lparr>ad_view := v\<rparr>)"
  shows "calm_inv m (a\<lparr>ad_view := v\<rparr>)"
proof -
  have "mutex_ok (a\<lparr>ad_view := v\<rparr>)" by (rule mutex_same [of a]) (use assms(1) in \<open>simp_all add: calm_inv_def\<close>)
  moreover have "flight_fits (a\<lparr>ad_view := v\<rparr>)" by (rule flight_same [of a]) (use assms(1) in \<open>simp_all add: calm_inv_def\<close>)
  ultimately show ?thesis using assms(2) unfolding calm_inv_def by simp
qed

lemma calm_move:
  assumes inv: "calm_inv m a" and move: "admit_move m p a = Some b"
  shows "calm_inv m b"
proof (cases "ad_phase a p")
  case (At_Gate n)
  have b: "b = goes p (if ad_gate_closed a then Session_Ready else At_Once n) a"
    using move At_Gate flight_facts(2,5) [OF inv] by (auto simp: admit_move_def at_gate_def split: if_splits)
  show ?thesis unfolding b by (rule calm_outside [OF inv]) (use At_Gate flight_facts(2) [OF inv] in auto)
next
  case (At_Once n)
  have b: "b = goes p (if ad_done a then At_Result n else Locking n) a" using move At_Once by (simp add: admit_move_def)
  show ?thesis unfolding b by (rule calm_outside [OF inv]) (use At_Once in auto)
next
  case (Locking n)
  then show ?thesis using move calm_lock [OF inv Locking] by (simp add: admit_move_def)
next
  case (Holding n)
  have b: "b = goes p (if ad_done a then Unlocking n else Leading n) a" using move Holding by (simp add: admit_move_def)
  show ?thesis unfolding b by (rule calm_holder [OF inv]) (use Holding holder_is_creator [OF inv, of p] in auto)
next
  case (Closing n)
  then show ?thesis using move calm_closing [OF inv Closing] by (simp add: admit_move_def split: if_splits)
next
  case (Storing n)
  then show ?thesis using move calm_storing [OF inv Storing] by (simp add: admit_move_def)
next
  case (Unlocking n)
  then show ?thesis using move calm_unlock [OF inv Unlocking] by (simp add: admit_move_def)
next
  case (At_Result n)
  have b: "b = goes p (Comparing n) a"
    using move At_Result flight_facts(6) [OF inv] by (simp add: admit_move_def at_result_def split: if_splits)
  have "ad_done a" using flight_facts(9) [OF inv, of p] At_Result by simp
  then show ?thesis unfolding b by (intro calm_outside [OF inv]) (use At_Result in auto)
next
  case (Comparing n)
  have d: "ad_done a" using flight_facts(9) [OF inv, of p] Comparing by simp
  have e: "ad_ensures a = 1" using d flight_facts(2,3) [OF inv] by blast
  have b: "b = goes p Session_Ready a"
    using move Comparing flight_facts(5) [OF inv e]
    by (auto simp: admit_move_def comparing_def Let_def serves_def split: if_splits)
  show ?thesis unfolding b by (rule calm_outside [OF inv]) (use Comparing e in auto)
next
  case (Resetting n)
  then show ?thesis using flight_facts(9) [OF inv, of p] by simp
next
  case Session_Ready
  have e: "ad_ensures a = 1" using flight_facts(9) [OF inv, of p] Session_Ready by simp
  have b: "b = goes p (Gone (Rides (ad_view a))) a" using move Session_Ready by (simp add: admit_move_def)
  show ?thesis unfolding b by (rule calm_outside [OF inv]) (use Session_Ready flight_facts(4) [OF inv e] in auto)
qed (use move in \<open>simp_all add: admit_move_def\<close>)

lemma calm_step_inv:
  assumes "calm_inv m a" "calm_step m a b"
  shows "calm_inv m b"
proof -
  have cb: "calm m b" using assms(2) by (simp add: calm_step_def)
  obtain ev where ev: "admit_event (\<lambda>_. m) ev a = Some b"
    using assms(2) unfolding calm_step_def by (auto elim: turn_stepE)
  have live: "\<not> ad_fatal a" "\<not> ad_mu_lost a" by (rule flight_facts [OF assms(1)])+
  show ?thesis
  proof (cases ev)
    case (Arrives p)
    then have "ad_phase a p = Outside" "b = goes p (At_Gate 0) a" using ev live by (auto simp: admit_event_def split: if_splits)
    then show ?thesis using calm_outside [OF assms(1), of p "At_Gate 0"] by simp
  next
    case (Moves p)
    then show ?thesis using ev live calm_move [OF assms(1)] by (simp add: admit_event_def)
  next
    case (Ensured p v e)
    then obtain n where n: "ad_phase a p = Leading n"
        "b = goes p (Closing n) (a\<lparr>ad_view := v, ad_err := e, ad_ensures := ad_ensures a + 1\<rparr>)"
      using ev live by (auto simp: admit_event_def split: admit_phase.splits)
    show ?thesis by (rule calm_ensured [OF assms(1) n cb])
  next
    case (Drifts v)
    then have "b = a\<lparr>ad_view := v\<rparr>" using ev live by (simp add: admit_event_def)
    then show ?thesis using calm_drift assms(1) cb by simp
  qed
qed

lemma calm_start: "calm_inv m fresh_admission"
  by (simp add: calm_inv_def calm_def mutex_ok_def flight_fits_def fresh_admission_def)

interpretation calm_run: invariant_system "\<lambda>a. a = fresh_admission" "calm_step m" "calm_inv m" for m
  by unfold_locales (auto intro: calm_step_inv calm_start)

text \<open>A request that waits for others never waits alone.\<close>

fun unserved :: "admit_phase \<Rightarrow> bool" where
  "unserved Outside = False"
| "unserved (Gone x) = False"
| "unserved _ = True"

definition busy_in_flight :: "string \<Rightarrow> nat \<Rightarrow> admission \<Rightarrow> bool" where
  "busy_in_flight m q a \<longleftrightarrow> admit_move m q a \<noteq> None \<or> (\<exists>n. ad_phase a q = Leading n)"

lemma busy_unless_asleep:
  assumes "calm_inv m a" "unserved (ad_phase a q)" "\<not> sleeping (ad_phase a q)"
  shows "busy_in_flight m q a"
  using assms flight_facts(7) [OF assms(1)] unfolding busy_in_flight_def by (cases "ad_phase a q") (simp_all add: admit_move_def)

lemma calm_progress:
  assumes inv: "calm_inv m a" and p: "unserved (ad_phase a p)"
  shows "\<exists>q. busy_in_flight m q a"
proof (cases "sleeping (ad_phase a p)")
  case True
  then have "ad_queue a \<noteq> []" using inv unfolding calm_inv_def mutex_ok_def by force
  then obtain q where "inside_once (ad_phase a q) \<or> trying (ad_phase a q)"
    using inv unfolding calm_inv_def mutex_ok_def by blast
  then have "unserved (ad_phase a q)" "\<not> sleeping (ad_phase a q)" by (cases "ad_phase a q"; simp)+
  then show ?thesis using busy_unless_asleep [OF inv] by blast
qed (use busy_unless_asleep [OF inv p] in blast)

text \<open>A trace of events whose states are all calm.\<close>

fun calm_trace :: "string \<Rightarrow> admit_event list \<Rightarrow> admission \<Rightarrow> admission option" where
  "calm_trace m [] a = Some a"
| "calm_trace m (ev # evs) a =
     (case admit_event (\<lambda>_. m) ev a of
        None \<Rightarrow> None
      | Some b \<Rightarrow> if calm m b then calm_trace m evs b else None)"

lemma calm_trace_steps: "calm_trace m evs a = Some b \<Longrightarrow> (calm_step m)\<^sup>*\<^sup>* a b"
proof (induction evs arbitrary: a)
  case (Cons ev evs)
  then obtain c where c: "admit_event (\<lambda>_. m) ev a = Some c" "calm m c" "calm_trace m evs c = Some b"
    by (auto split: option.splits if_splits)
  have "calm_step m a c" using c(2) turn_step [OF c(1)] by (simp add: calm_step_def)
  then show ?case using Cons.IH [OF c(3)] by (rule converse_rtranclp_into_rtranclp)
qed simp

lemma admit_run_steps: "admit_run models evs a = Some b \<Longrightarrow> (turn_step models)\<^sup>*\<^sup>* a b"
proof (induction evs arbitrary: a)
  case (Cons ev evs)
  then obtain c where c: "admit_event models ev a = Some c" "admit_run models evs c = Some b"
    by (auto split: option.splits)
  show ?case using turn_step [OF c(1)] Cons.IH [OF c(2)] by (rule converse_rtranclp_into_rtranclp)
qed simp

lemmas trace_simps =
  admit_event_def admit_move_def at_gate_def lock_once_def unlock_once_def awake_def close_gate_def at_result_def
  comparing_def resetting_def reset_gate_def goes_def serves_def fresh_admission_def no_view_def
  max_admission_model_retries_def Let_def

text \<open>C11: the single flight of session admission (\<^verbatim>\<open>admissionOnce\<close>, \<^verbatim>\<open>AcquireBridge\<close>) keeps its promise as long
  as every request of the token asks for one model, no admission fails and the admitted session stays usable:
  in whatever order the requests interleave, the session is ensured at most once, every request that leaves rides
  a usable session, nothing panics or loses \<^verbatim>\<open>entry.mu\<close>, and while a request is unserved some request can move
  or is the one ensuring the session, so no parked follower is forgotten.\<close>

theorem one_admission_while_calm:
  assumes "(calm_step m)\<^sup>*\<^sup>* fresh_admission a"
  shows "ad_ensures a \<le> 1 \<and> \<not> ad_fatal a \<and> \<not> ad_mu_lost a \<and>
    (\<forall>p x. ad_phase a p \<noteq> Gone x \<or> (\<exists>v. x = Rides v \<and> bv_usable v)) \<and>
    (\<forall>p. \<not> unserved (ad_phase a p) \<or> (\<exists>q. busy_in_flight m q a))"
proof -
  have inv: "calm_inv m a" by (rule calm_run.run_inv [OF calm_start assms])
  have "\<exists>v. x = Rides v \<and> bv_usable v" if "ad_phase a p = Gone x" for p x
    using flight_facts(9) [OF inv, of p] that by simp
  then show ?thesis using flight_facts [OF inv] calm_progress [OF inv] by blast
qed

text \<open>Two requests race: the second parks on the mutex of the \<^verbatim>\<open>Once\<close>, and rides what the first ensured.\<close>

definition usable_view :: "string \<Rightarrow> bridge_view" where
  "usable_view m = \<lparr>bv_usable = True, bv_refreshing = False, bv_model = m, bv_instance = ''i1''\<rparr>"

definition calm_race :: "string \<Rightarrow> admit_event list" where
  "calm_race m =
     [Arrives 0, Moves 0, Moves 0, Moves 0, Moves 0, Arrives 1, Moves 1, Moves 1, Moves 1,
      Ensured 0 (usable_view m) None, Moves 0, Moves 0, Moves 0, Moves 1, Moves 1, Moves 1,
      Moves 0, Moves 0, Moves 0, Moves 1, Moves 1, Moves 1]"

theorem one_admission_while_calm_witness:
  "\<exists>a. (calm_step ''m'')\<^sup>*\<^sup>* fresh_admission a \<and> ad_ensures a = 1 \<and> \<not> ad_fatal a \<and>
     (\<exists>v. ad_phase a 0 = Gone (Rides v) \<and> bv_usable v) \<and> (\<exists>v. ad_phase a 1 = Gone (Rides v) \<and> bv_usable v)"
proof -
  have "\<exists>a x y. calm_trace ''m'' (calm_race ''m'') fresh_admission = Some a \<and> ad_ensures a = 1 \<and>
      ad_phase a 0 = Gone x \<and> ad_phase a 1 = Gone y"
    by (simp add: calm_race_def usable_view_def trace_simps calm_def)
  then obtain a x y where a: "calm_trace ''m'' (calm_race ''m'') fresh_admission = Some a" "ad_ensures a = 1"
      "ad_phase a 0 = Gone x" "ad_phase a 1 = Gone y"
    by blast
  have run: "(calm_step ''m'')\<^sup>*\<^sup>* fresh_admission a" by (rule calm_trace_steps [OF a(1)])
  show ?thesis using run one_admission_while_calm [OF run] a(2-4) by blast
qed

section \<open>Resets of an \<^verbatim>\<open>Once\<close> in use\<close>

text \<open>A failed leader, and a follower that found \<open>done\<close> set and reads the error after its reset.\<close>

definition misled_run :: "lane_error \<Rightarrow> admit_event list" where
  "misled_run e =
     [Arrives 0, Moves 0, Moves 0, Moves 0, Moves 0, Arrives 1, Moves 1,
      Ensured 0 no_view (Some e), Moves 0, Moves 0, Moves 1, Moves 0, Moves 0, Moves 1, Moves 1, Moves 1]"

text \<open>\<^verbatim>\<open>AcquireBridge\<close> hands out a session that was refused: when the leader's admission fails with any
  error, on any model, a follower can find \<^verbatim>\<open>done\<close> set, read the admission error after the leader's reset cleared
  it, and continue to its lease on a session that is unusable and has no instance, although the only admission made
  was refused.\<close>

lemma failed_admission_misleads:
  "\<exists>a v. (turn_step (\<lambda>_. m))\<^sup>*\<^sup>* fresh_admission a \<and> ad_ensures a = 1 \<and>
     ad_phase a 0 = Gone (Refused_With e) \<and> ad_phase a 1 = Gone (Rides v) \<and> \<not> bv_usable v \<and> bv_instance v = ''''"
proof -
  have "\<exists>a. admit_run (\<lambda>_. m) (misled_run e) fresh_admission = Some a \<and> ad_ensures a = 1 \<and>
      ad_phase a 0 = Gone (Refused_With e) \<and> ad_phase a 1 = Gone (Rides no_view)"
    by (simp add: misled_run_def trace_simps)
  then show ?thesis using admit_run_steps by (fastforce simp: no_view_def)
qed




text \<open>Requests 0 and 2 want one model, request 1 another: 0 admits, 1 resets and admits its own model, and 2, still
  comparing, sees the wrong model and resets the flight under 1.\<close>

definition two_models :: "string \<Rightarrow> string \<Rightarrow> nat \<Rightarrow> string" where
  "two_models m1 m2 p = (if p = 1 then m2 else m1)"

definition panic_run :: "string \<Rightarrow> string \<Rightarrow> admit_event list" where
  "panic_run m1 m2 =
     [Arrives 0, Moves 0, Moves 0, Moves 0, Moves 0, Arrives 2, Moves 2,
      Ensured 0 (usable_view m1) None, Moves 0, Moves 0, Moves 0, Moves 2, Moves 2,
      Arrives 1, Moves 1, Moves 1, Moves 1, Moves 1, Ensured 1 (usable_view m2) None,
      Moves 2, Moves 2, Moves 2, Moves 2, Moves 2, Moves 2, Ensured 2 (usable_view m1) None,
      Moves 1, Moves 2]"

text \<open>C35: requests of one token for two models break the flight although every admission succeeds: a follower
  whose model was replaced resets the gate while the other model's leader is inside the \<^verbatim>\<open>Once\<close>, both leaders then
  close the same gate, and the second close panics with \<^verbatim>\<open>entry.mu\<close> held, after which no request that reaches
  the lock ever passes it.\<close>

theorem two_models_panic:
  assumes "m1 \<noteq> m2" "m1 \<noteq> ''''" "m2 \<noteq> ''''"
  shows "\<exists>a. (turn_step (two_models m1 m2))\<^sup>*\<^sup>* fresh_admission a \<and> ad_err a = None \<and> serves m1 (ad_view a) \<and>
    ad_phase a 2 = Gone Panicked \<and> ad_mu_lost a \<and>
    (\<forall>p n. admit_move (two_models m1 m2 p) p (goes p (At_Gate n) a) = None)"
proof -
  have "\<exists>a. admit_run (two_models m1 m2) (panic_run m1 m2) fresh_admission = Some a \<and> ad_err a = None \<and>
      serves m1 (ad_view a) \<and> ad_phase a 2 = Gone Panicked \<and> ad_mu_lost a"
    using assms by (simp add: panic_run_def two_models_def usable_view_def trace_simps)
  then obtain a where a: "admit_run (two_models m1 m2) (panic_run m1 m2) fresh_admission = Some a" "ad_err a = None"
      "serves m1 (ad_view a)" "ad_phase a 2 = Gone Panicked" "ad_mu_lost a"
    by blast
  have "admit_move (two_models m1 m2 p) p (goes p (At_Gate n) a) = None" for p n
    using a(5) by (simp add: admit_move_def)
  then show ?thesis using admit_run_steps [OF a(1)] a by blast
qed

theorem two_models_panic_witness:
  "\<exists>a. (turn_step (two_models ''x'' ''y''))\<^sup>*\<^sup>* fresh_admission a \<and> ad_mu_lost a"
  using two_models_panic [of "''x''" "''y''"] by auto

end
