(* ===== verification/Tool_Text.thy ===== *)
theory Tool_Text
  imports Go_Text
begin

text \<open>
  Tool calls a model writes into its text, \<^verbatim>\<open>backend/internal/convert/accumulator_xml_shapes.go\<close>: the
  block forms, the payloads and the scrubbing of dangling tags. The regular expressions are values of a
  small type with the leftmost-first semantics of Go's \<^verbatim>\<open>regexp\<close>: a match is a list of results, the
  preferred one first. The id of a call is drawn at random and left out; \<^verbatim>\<open>json.Marshal\<close> is an argument.
\<close>

section \<open>Regular expressions\<close>

datatype rx =
    Lit string
  | Fold string
  | One "char \<Rightarrow> bool"
  | Many "char \<Rightarrow> bool"
  | Few "char \<Rightarrow> bool"
  | Maybe rx
  | Cat rx rx
  | Alt rx rx
  | Group nat rx

type_synonym rx_result = "string \<times> (nat \<times> string) list \<times> string"

text \<open>The splits of a text by a run of a class, the longest first; a lazy run takes them in reverse.\<close>

fun runs_of :: "(char \<Rightarrow> bool) \<Rightarrow> string \<Rightarrow> (string \<times> string) list" where
  "runs_of p [] = [([], [])]"
| "runs_of p (c # cs) = (if p c then map (\<lambda>(a, r). (c # a, r)) (runs_of p cs) else []) @ [([], c # cs)]"

text \<open>A literal without regard to case. The long s and the Kelvin sign fold to letters.\<close>

fun eat_fold :: "string \<Rightarrow> string \<Rightarrow> string option" where
  "eat_fold [] s = Some s"
| "eat_fold (p # ps) [] = None"
| "eat_fold (p # ps) (c # cs) =
     (if lower_ascii c = lower_ascii p then eat_fold ps cs
      else if lower_ascii p = CHR ''s'' \<and> take 2 (c # cs) = [byte 197, byte 191] then eat_fold ps (drop 1 cs)
      else if lower_ascii p = CHR ''k'' \<and> take 3 (c # cs) = [byte 226, byte 132, byte 170] then eat_fold ps (drop 2 cs)
      else None)"

fun rx_try :: "rx \<Rightarrow> string \<Rightarrow> rx_result list" where
  "rx_try (Lit l) s = (case eat l s of None \<Rightarrow> [] | Some r \<Rightarrow> [(l, [], r)])"
| "rx_try (Fold l) s = (case eat_fold l s of None \<Rightarrow> [] | Some r \<Rightarrow> [(take (length s - length r) s, [], r)])"
| "rx_try (One p) s = (case s of c # cs \<Rightarrow> if p c then [([c], [], cs)] else [] | [] \<Rightarrow> [])"
| "rx_try (Many p) s = map (\<lambda>(a, r). (a, [], r)) (runs_of p s)"
| "rx_try (Few p) s = map (\<lambda>(a, r). (a, [], r)) (rev (runs_of p s))"
| "rx_try (Maybe x) s = rx_try x s @ [([], [], s)]"
| "rx_try (Cat x y) s =
     concat (map (\<lambda>(a, g, r). map (\<lambda>(b, h, t). (a @ b, g @ h, t)) (rx_try y r)) (rx_try x s))"
| "rx_try (Alt x y) s = rx_try x s @ rx_try y s"
| "rx_try (Group n x) s = map (\<lambda>(a, g, r). (a, (n, a) # g, r)) (rx_try x s)"

text \<open>The text of a group, empty where it took no part.\<close>

definition group_of :: "nat \<Rightarrow> (nat \<times> string) list \<Rightarrow> string" where
  "group_of n g = (case map_of g n of Some t \<Rightarrow> t | None \<Rightarrow> '''')"

fun rx_find :: "rx \<Rightarrow> string \<Rightarrow> (nat \<times> string \<times> (nat \<times> string) list) option" where
  "rx_find x [] = (case rx_try x [] of [] \<Rightarrow> None | (a, g, r) # _ \<Rightarrow> Some (0, a, g))"
| "rx_find x (c # cs) =
     (case rx_try x (c # cs) of
        (a, g, r) # _ \<Rightarrow> Some (0, a, g)
      | [] \<Rightarrow> map_option (\<lambda>(i, m). (i + 1, m)) (rx_find x cs))"

text \<open>All matches and their removal. None of the expressions matches the empty text.\<close>

function rx_find_all :: "rx \<Rightarrow> string \<Rightarrow> (nat \<times> string) list list" where
  "rx_find_all x [] = []"
| "rx_find_all x (c # cs) =
     (case rx_try x (c # cs) of
        [] \<Rightarrow> rx_find_all x cs
      | (a, g, r) # _ \<Rightarrow> g # (if length r \<le> length cs then rx_find_all x r else []))"
  by pat_completeness auto
termination by (relation "measure (\<lambda>(x, s). length s)") auto

function rx_remove_all :: "rx \<Rightarrow> string \<Rightarrow> string" where
  "rx_remove_all x [] = []"
| "rx_remove_all x (c # cs) =
     (case rx_try x (c # cs) of
        [] \<Rightarrow> c # rx_remove_all x cs
      | (a, g, r) # _ \<Rightarrow> if length r \<le> length cs then rx_remove_all x r else c # cs)"
  by pat_completeness auto
termination by (relation "measure (\<lambda>(x, s). length s)") auto

fun rx_seq :: "rx list \<Rightarrow> rx" where
  "rx_seq [] = Lit ''''"
| "rx_seq [x] = x"
| "rx_seq (x # xs) = Cat x (rx_seq xs)"

fun rx_any :: "rx list \<Rightarrow> rx" where
  "rx_any [] = One (\<lambda>_. False)"
| "rx_any [x] = x"
| "rx_any (x # xs) = Alt x (rx_any xs)"

definition anything :: "char \<Rightarrow> bool" where
  "anything c \<longleftrightarrow> True"

lemma eat_append: "eat l s = Some r \<Longrightarrow> l @ r = s"
  by (metis append_take_drop_id eat_def option.distinct(1) option.sel)

lemma eat_fold_suffix: "eat_fold l s = Some r \<Longrightarrow> suffix r s"
  by (induction l s rule: eat_fold.induct) (auto split: if_splits intro: suffix_ConsI suffix_order.trans [OF _ suffix_drop])

lemma runs_of_append: "(a, r) \<in> set (runs_of p s) \<Longrightarrow> a @ r = s"
  by (induction s arbitrary: a) (auto split: if_splits)

lemma rx_try_append: "(a, g, r) \<in> set (rx_try x s) \<Longrightarrow> a @ r = s"
proof (induction x arbitrary: a g r s)
  case (Fold l)
  then have "eat_fold l s = Some r" "a = take (length s - length r) s" by (auto split: option.splits)
  then show ?case using eat_fold_suffix [of l s r] by (auto simp: suffix_def)
next
  case (Cat x y)
  then show ?case by (auto; metis append.assoc)
qed (auto split: option.splits list.splits if_splits dest: eat_append [OF sym] eat_append runs_of_append)

lemma rx_find_some:
  "rx_find x s = Some (i, a, g) \<Longrightarrow> \<exists>r. (a, g, r) \<in> set (rx_try x (drop i s)) \<and> i \<le> length s"
proof (induction s arbitrary: i)
  case Nil
  then show ?case by (auto split: list.splits)
next
  case (Cons c cs)
  show ?case
  proof (cases "rx_try x (c # cs)")
    case Nil
    then obtain j where "rx_find x cs = Some (j, a, g)" "i = j + 1" using Cons.prems by auto
    then show ?thesis using Cons.IH by auto
  next
    case (Cons m ms)
    then show ?thesis using Cons.prems by (cases m) auto
  qed
qed

section \<open>The expressions\<close>

definition tool_xml_name :: string where
  "tool_xml_name = ''codebuff_tool_call''"

definition tool_name_param :: string where
  "tool_name_param = ''cb_tool_name''"

definition ends_agent_step_param :: string where
  "ends_agent_step_param = ''cb_easp''"

definition rx_tag :: "nat \<Rightarrow> string \<Rightarrow> rx" where
  "rx_tag n t = rx_seq [Lit (''<'' @ t @ ''>''), Group n (Few anything), Lit (''</'' @ t @ ''>'')]"

definition rx_joint :: rx where
  "rx_joint = Maybe (One (\<lambda>c. c = CHR ''_'' \<or> c = CHR ''-''))"

definition rx_bar :: rx where
  "rx_bar = Maybe (Lit ''|'')"

definition rx_pipe :: "string \<Rightarrow> rx" where
  "rx_pipe word = rx_seq [Lit ''<'', rx_bar, Lit ''tool'', rx_joint, Lit ''call'', rx_joint, Lit word, rx_bar, Lit ''>'']"

definition tool_block_rx :: rx where
  "tool_block_rx =
     rx_any [rx_tag 1 ''tool_call'', rx_tag 2 tool_xml_name, rx_tag 3 ''function_call'',
             rx_seq [rx_pipe ''start'', Group 4 (Few anything), rx_pipe ''end''], rx_tag 5 ''tool_calls'']"

definition rx_spaces :: rx where
  "rx_spaces = Many is_rx_space"

definition rx_line :: rx where
  "rx_line = Maybe (One (\<lambda>c. code c = 10))"

definition rx_quote :: rx where
  "rx_quote = One (\<lambda>c. code c = 34)"

definition fence :: string where
  "fence = replicate 3 (byte 96)"

definition fenced_call_rx :: rx where
  "fenced_call_rx =
     rx_seq [Lit fence, Maybe (rx_any [Lit ''json'', rx_seq [Lit ''tool'', Maybe (Lit ''_''), Lit ''call'']]),
             rx_spaces, rx_line,
             Group 1 (rx_seq [Lit ''{'', rx_spaces, rx_quote,
                              rx_any [Lit ''name'', Lit ''function'', Lit tool_name_param], rx_quote, rx_spaces, Lit '':'',
                              rx_spaces, Few anything, Lit ''}'']),
             rx_spaces, rx_line, Lit fence]"

definition quote_mark :: "char \<Rightarrow> bool" where
  "quote_mark c \<longleftrightarrow> code c = 34 \<or> code c = 39"

definition name_char :: "char \<Rightarrow> bool" where
  "name_char c \<longleftrightarrow> c \<noteq> CHR ''>'' \<and> code c \<noteq> 34 \<and> \<not> is_rx_space c"

text \<open>\<^verbatim>\<open>[=\s]+["']?([^>"\s]+)["']?>\<close>\<close>

definition rx_named :: "nat \<Rightarrow> rx" where
  "rx_named n =
     (let eq = (\<lambda>c. c = CHR ''='' \<or> is_rx_space c)
      in rx_seq [One eq, Many eq, Maybe (One quote_mark), Group n (Cat (One name_char) (Many name_char)),
                 Maybe (One quote_mark), Lit ''>''])"

definition function_head_rx :: rx where
  "function_head_rx = Cat (Fold ''<function'') (rx_named 1)"

definition param_rx :: rx where
  "param_rx =
     rx_any [rx_seq [Lit ''<parameter'', rx_named 1, Group 2 (Few anything), Lit ''</parameter>''],
             rx_seq [Lit ''<param'', rx_named 3, Group 4 (Few anything), Lit ''</param>'']]"

text \<open>The third alternative is what the source's quoting makes of the tag's name.\<close>

definition dangling_tags_rx :: rx where
  "dangling_tags_rx =
     (let blank = (\<lambda>c. code c = 32); blanks = Cat (One blank) (Many blank)
      in rx_seq [Lit ''<'', Maybe (Lit ''/''),
           rx_any [Fold ''tool_call'', Fold ''tool_calls'',
                   rx_seq [Lit [byte 96], blanks, Lit '' '', Fold ''ToolXMLName'', blanks, Lit '' '', Lit [byte 96]],
                   Fold ''function_call'', Fold ''function'', Fold ''parameter'', Fold ''param'',
                   rx_seq [rx_bar, Fold ''tool'', rx_joint, Fold ''call'', rx_joint, Alt (Fold ''start'') (Fold ''end''), rx_bar]],
           Maybe (Cat (One (\<lambda>c. c = CHR ''='' \<or> is_rx_space c)) (Many (\<lambda>c. c \<noteq> CHR ''>''))),
           Lit ''>''])"

definition scrub_tags :: "string \<Rightarrow> string" where
  "scrub_tags s = rx_remove_all dangling_tags_rx s"

section \<open>Payloads\<close>

record tool_call =
  tc_name :: string
  tc_args :: string

definition str_value :: "json option \<Rightarrow> string" where
  "str_value v = (case v of Some (J_Str t) \<Rightarrow> t | _ \<Rightarrow> '''')"

definition json_call_name :: "(string \<times> json) list \<Rightarrow> string" where
  "json_call_name ms =
     (let n1 = str_value (obj_get ms ''name'');
          n2 = (if n1 = '''' then str_value (obj_get ms tool_name_param) else n1)
      in if n2 = '''' then
           (case obj_get ms ''function'' of Some (J_Obj fs) \<Rightarrow> str_value (obj_get fs ''name'') | v \<Rightarrow> str_value v)
         else n2)"

definition json_call_args :: "(json \<Rightarrow> string) \<Rightarrow> (string \<times> json) list \<Rightarrow> string" where
  "json_call_args marshal ms =
     (let a = (case obj_get ms ''arguments'' of
                 Some (J_Obj fs) \<Rightarrow> marshal (J_Obj fs)
               | Some (J_Str t) \<Rightarrow> t
               | _ \<Rightarrow> marshal (J_Obj (filter (\<lambda>m. fst m \<noteq> tool_name_param \<and> fst m \<noteq> ends_agent_step_param) ms)))
      in if a = '''' then ''{}'' else a)"

definition json_call :: "(json \<Rightarrow> string) \<Rightarrow> string \<Rightarrow> tool_call option" where
  "json_call marshal raw =
     (if take 1 raw = ''{'' \<and> take 1 (rev raw) = ''}'' then
        (case json_decode raw of
           Some (J_Obj ms) \<Rightarrow>
             if json_call_name ms \<noteq> ''''
             then Some \<lparr>tc_name = json_call_name ms, tc_args = json_call_args marshal ms\<rparr> else None
         | _ \<Rightarrow> None)
      else None)"

definition param_of :: "(nat \<times> string) list \<Rightarrow> string \<times> json" where
  "param_of g =
     (if group_of 1 g = '''' then (trim_space (group_of 3 g), J_Str (trim_space (group_of 4 g)))
      else (trim_space (group_of 1 g), J_Str (trim_space (group_of 2 g))))"

definition xml_call :: "(json \<Rightarrow> string) \<Rightarrow> string \<Rightarrow> tool_call option" where
  "xml_call marshal raw =
     (case rx_find function_head_rx raw of
        None \<Rightarrow> None
      | Some (i, a, g) \<Rightarrow>
          Some \<lparr>tc_name = trim_space (group_of 1 g),
                tc_args = marshal (J_Obj (map param_of (rx_find_all param_rx raw)))\<rparr>)"

definition parse_tool_call :: "(json \<Rightarrow> string) \<Rightarrow> string \<Rightarrow> tool_call option" where
  "parse_tool_call marshal raw =
     (case json_call marshal raw of Some c \<Rightarrow> Some c | None \<Rightarrow> xml_call marshal raw)"

section \<open>Extraction\<close>

definition block_payload :: "(nat \<times> string) list \<Rightarrow> string" where
  "block_payload g =
     (case filter (\<lambda>t. t \<noteq> '''') (map (\<lambda>n. group_of n g) [1, 2, 3, 4, 5]) of [] \<Rightarrow> '''' | t # _ \<Rightarrow> trim_space t)"

definition extract_tool_calls :: "(json \<Rightarrow> string) \<Rightarrow> string \<Rightarrow> string \<times> tool_call list" where
  "extract_tool_calls marshal content =
     (let blocks = rx_find_all tool_block_rx content;
          fenced = rx_find_all fenced_call_rx content;
          from_blocks = List.map_filter (parse_tool_call marshal) (filter (\<lambda>t. t \<noteq> '''') (map block_payload blocks));
          from_fences = List.map_filter (\<lambda>g. if group_of 1 g = '''' then None
                                             else parse_tool_call marshal (trim_space (group_of 1 g))) fenced;
          calls = (if from_blocks = [] then from_fences else from_blocks)
      in if calls = [] then (content, [])
         else (trim_space (rx_remove_all fenced_call_rx (rx_remove_all tool_block_rx content)), calls))"

end
