(* ===== verification/Tool_Stream.thy ===== *)
theory Tool_Stream
  imports Tool_Text
begin

text \<open>
  The streaming extractor of \<^verbatim>\<open>backend/internal/convert/accumulator_xml_stream.go\<close>: text before a candidate
  block is relayed, the block is withheld until it closes. The pool of buffers is left out: a buffer is
  the text it holds. Iterating the map of literal openers finds the earliest in any order, since no two
  start at one place.
\<close>

datatype xml_shape =
    Shape_None | Shape_Tool_Call | Shape_Tool_Calls | Shape_Codebuff | Shape_Function_Call | Shape_Pipe | Shape_Fence
  | Shape_Pending

text \<open>\<open>fence_brace\<close> is the position after the brace, \<open>None\<close> for the \<^verbatim>\<open>-1\<close> of a fence that awaits it.\<close>

record extractor =
  xt_buf :: string
  xt_shape :: xml_shape
  xt_fence_brace :: "nat option"

definition new_extractor :: extractor where
  "new_extractor = \<lparr>xt_buf = '''', xt_shape = Shape_None, xt_fence_brace = Some 0\<rparr>"

definition max_stream_xml_buffer :: nat where
  "max_stream_xml_buffer = 64 * 1024"

section \<open>Openers\<close>

fun str_index :: "string \<Rightarrow> string \<Rightarrow> nat option" where
  "str_index [] n = (if n = [] then Some 0 else None)"
| "str_index (c # cs) n =
     (if take (length n) (c # cs) = n then Some 0 else map_option Suc (str_index cs n))"

definition opener_tag :: "xml_shape \<Rightarrow> string" where
  "opener_tag sh =
     (case sh of Shape_Tool_Call \<Rightarrow> ''<tool_call>'' | Shape_Tool_Calls \<Rightarrow> ''<tool_calls>''
      | Shape_Codebuff \<Rightarrow> ''<'' @ tool_xml_name @ ''>'' | Shape_Function_Call \<Rightarrow> ''<function_call>'' | _ \<Rightarrow> '''')"

definition xml_stream_closer :: "xml_shape \<Rightarrow> string" where
  "xml_stream_closer sh =
     (case sh of Shape_Tool_Call \<Rightarrow> ''</tool_call>'' | Shape_Tool_Calls \<Rightarrow> ''</tool_calls>''
      | Shape_Codebuff \<Rightarrow> ''</'' @ tool_xml_name @ ''>'' | Shape_Function_Call \<Rightarrow> ''</function_call>'' | _ \<Rightarrow> '''')"

definition literal_shapes :: "xml_shape list" where
  "literal_shapes = [Shape_Tool_Call, Shape_Tool_Calls, Shape_Codebuff, Shape_Function_Call]"

definition xml_stream_literal_openers :: "string list" where
  "xml_stream_literal_openers = map opener_tag literal_shapes @ [''<|tool_call_start|>'', ''<tool_call_start>'']"

definition tag_char :: "char \<Rightarrow> bool" where
  "tag_char c \<longleftrightarrow> c = CHR ''-'' \<or> c = CHR ''_'' \<or> is_letter c"

definition blank_char :: "char \<Rightarrow> bool" where
  "blank_char c \<longleftrightarrow> code c \<in> {32, 9, 13, 10}"

definition fence_rest :: "string \<Rightarrow> nat \<Rightarrow> nat" where
  "fence_rest s from =
     (let t = length (takeWhile tag_char (drop from s))
      in from + t + length (takeWhile blank_char (drop (from + t) s)))"

definition xml_stream_fence_brace :: "string \<Rightarrow> nat \<Rightarrow> nat option" where
  "xml_stream_fence_brace s from =
     (if from \<ge> length s then None
      else let pos = fence_rest s from in if pos < length s \<and> s ! pos = CHR ''{'' then Some pos else None)"

definition is_stream_fence_tag :: "string \<Rightarrow> bool" where
  "is_stream_fence_tag tag \<longleftrightarrow>
     to_lower tag \<in> {''json'', ''tool_call'', ''toolcall'', ''tool-call'', tool_xml_name, ''codebuff-tool-call''}"

definition xml_stream_fence_pending :: "string \<Rightarrow> nat \<Rightarrow> bool" where
  "xml_stream_fence_pending s from \<longleftrightarrow>
     is_stream_fence_tag (takeWhile tag_char (drop from s)) \<and> fence_rest s from = length s"

text \<open>The earliest fence that qualifies, with the place of its brace.\<close>

function fence_opener :: "string \<Rightarrow> nat \<Rightarrow> (nat \<times> nat option) option" where
  "fence_opener s from =
     (if \<not> from < length s then None
      else case str_index (drop from s) fence of
        None \<Rightarrow> None
      | Some j \<Rightarrow>
          let i = from + j
          in case xml_stream_fence_brace s (i + 3) of
               Some b \<Rightarrow> Some (i, Some b)
             | None \<Rightarrow> if xml_stream_fence_pending s (i + 3) then Some (i, None) else fence_opener s (i + 3))"
  by pat_completeness auto
termination by (relation "measure (\<lambda>(s, from). length s - from)") auto

declare fence_opener.simps [simp del]

definition earlier :: "nat \<Rightarrow> (nat \<times> xml_shape) option \<Rightarrow> bool" where
  "earlier i best \<longleftrightarrow> (case best of None \<Rightarrow> True | Some (j, _) \<Rightarrow> i < j)"

definition try_literal :: "string \<Rightarrow> xml_shape \<Rightarrow> (nat \<times> xml_shape) option \<Rightarrow> (nat \<times> xml_shape) option" where
  "try_literal s sh best =
     (case str_index s (opener_tag sh) of None \<Rightarrow> best | Some i \<Rightarrow> if earlier i best then Some (i, sh) else best)"

definition try_pipe :: "string \<Rightarrow> (nat \<times> xml_shape) option \<Rightarrow> (nat \<times> xml_shape) option" where
  "try_pipe s best =
     (case rx_find (rx_pipe ''start'') s of
        None \<Rightarrow> best
      | Some (i, _) \<Rightarrow> if earlier i best then Some (i, Shape_Pipe) else best)"

definition find_opener :: "string \<Rightarrow> extractor \<Rightarrow> nat option \<times> extractor" where
  "find_opener s x =
     (let best = try_pipe s (fold (try_literal s) literal_shapes None);
          x1 = (case best of None \<Rightarrow> x | Some (i, sh) \<Rightarrow> x\<lparr>xt_shape := sh\<rparr>)
      in case fence_opener s 0 of
           Some (i, b) \<Rightarrow>
             if earlier i best
             then (Some i, x\<lparr>xt_shape := Shape_Fence, xt_fence_brace := map_option (\<lambda>p. p - i + 1) b\<rparr>)
             else (map_option fst best, x1)
         | None \<Rightarrow> (map_option fst best, x1))"

text \<open>The longest proper prefix of an opener the text ends with.\<close>

definition partial_of :: "string \<Rightarrow> string \<Rightarrow> nat list" where
  "partial_of s open' =
     (let m = (if length s \<ge> length open' then length open' - 1 else length s)
      in filter (\<lambda>l. drop (length s - l) s = take l open') (rev [1..<Suc m]))"

definition partial_opener_len :: "string \<Rightarrow> nat" where
  "partial_opener_len s =
     fold (\<lambda>open' best. case filter (\<lambda>l. l > best) (partial_of s open') of [] \<Rightarrow> best | l # _ \<Rightarrow> l)
       xml_stream_literal_openers 0"

section \<open>Closers\<close>

text \<open>The first closing fence outside a JSON string.\<close>

fun fence_close :: "bool \<Rightarrow> string \<Rightarrow> nat option" where
  "fence_close in_str [] = None"
| "fence_close True (c # cs) =
     (if code c = 92 then map_option (\<lambda>n. n + 2) (fence_close True (drop 1 cs))
      else map_option Suc (fence_close (code c \<noteq> 34) cs))"
| "fence_close False (c # cs) =
     (if code c = 34 then map_option Suc (fence_close True cs)
      else if take 3 (c # cs) = fence then Some 3 else map_option Suc (fence_close False cs))"

definition xml_fence_close_end :: "string \<Rightarrow> nat \<Rightarrow> nat option" where
  "xml_fence_close_end s from = map_option (\<lambda>n. from + n) (fence_close False (drop from s))"

definition closer_end :: "extractor \<Rightarrow> nat option \<times> extractor" where
  "closer_end x =
     (if xt_shape x \<in> set literal_shapes then
        (map_option (\<lambda>i. i + length (xml_stream_closer (xt_shape x))) (str_index (xt_buf x) (xml_stream_closer (xt_shape x))), x)
      else if xt_shape x = Shape_Pipe then
        (map_option (\<lambda>(i, a, g). i + length a) (rx_find (rx_pipe ''end'') (xt_buf x)), x)
      else if xt_shape x = Shape_Fence then
        (case xt_fence_brace x of
           Some b \<Rightarrow> (xml_fence_close_end (xt_buf x) b, x)
         | None \<Rightarrow>
             (case xml_stream_fence_brace (xt_buf x) 3 of
                None \<Rightarrow> (None, x)
              | Some b \<Rightarrow> (xml_fence_close_end (xt_buf x) (b + 1), x\<lparr>xt_fence_brace := Some (b + 1)\<rparr>)))
      else (None, x))"

definition release_buf :: "extractor \<Rightarrow> extractor" where
  "release_buf x = x\<lparr>xt_buf := '''', xt_shape := Shape_None\<rparr>"

section \<open>Where a closer ends\<close>

lemma str_index_bound: "str_index s n = Some i \<Longrightarrow> i + length n \<le> length s"
proof (induction s arbitrary: i)
  case (Cons c cs)
  show ?case
  proof (cases "take (length n) (c # cs) = n")
    case True
    then have "length n \<le> length (c # cs)" by (metis length_take min.absorb_iff2 min.commute)
    then show ?thesis using Cons.prems True by simp
  next
    case False
    then show ?thesis using Cons by auto
  qed
qed (simp split: if_splits)

lemma fence_length [simp]: "length fence = 3"
  by (simp add: fence_def)

lemma fence_close_bound: "fence_close b s = Some n \<Longrightarrow> 0 < n \<and> n \<le> length s"
proof (induction b s arbitrary: n rule: fence_close.induct)
  case (2 c cs)
  then show ?case by (fastforce split: if_splits)
next
  case (3 c cs)
  show ?case
  proof (cases "code c = 34")
    case False
    show ?thesis
    proof (cases "take 3 (c # cs) = fence")
      case True
      then have "length (take 3 (c # cs)) = 3" by simp
      then show ?thesis using "3.prems" True False by simp
    qed (use 3 False in auto)
  qed (use 3 in auto)
qed simp

lemma xml_fence_close_end_bound: "xml_fence_close_end s from = Some n \<Longrightarrow> 0 < n \<and> n \<le> length s"
  unfolding xml_fence_close_end_def using fence_close_bound by fastforce

lemma rx_cat_nonempty: "(a, g, r) \<in> set (rx_try (Cat (Lit (c # l)) y) s) \<Longrightarrow> a \<noteq> []"
  by (auto split: option.splits)

lemma rx_pipe_nonempty: "(a, g, r) \<in> set (rx_try (rx_pipe w) s) \<Longrightarrow> a \<noteq> []"
  unfolding rx_pipe_def rx_seq.simps by (rule rx_cat_nonempty)

lemma closer_end_bound: "closer_end x = (Some e, x2) \<Longrightarrow> 0 < e \<and> e \<le> length (xt_buf x)"
proof -
  assume closed: "closer_end x = (Some e, x2)"
  consider (lit) "xt_shape x \<in> set literal_shapes" | (pipe) "xt_shape x = Shape_Pipe" | (fen) "xt_shape x = Shape_Fence"
    using closed by (auto simp: closer_end_def split: if_splits)
  then show ?thesis
  proof cases
    case lit
    then have "xml_stream_closer (xt_shape x) \<noteq> ''''" by (auto simp: literal_shapes_def xml_stream_closer_def)
    then have "0 < length (xml_stream_closer (xt_shape x))" by simp
    then show ?thesis using closed lit by (auto simp: closer_end_def dest: str_index_bound)
  next
    case pipe
    then obtain i a g where found: "rx_find (rx_pipe ''end'') (xt_buf x) = Some (i, a, g)" "e = i + length a"
      using closed by (auto simp: closer_end_def literal_shapes_def)
    obtain r where r: "(a, g, r) \<in> set (rx_try (rx_pipe ''end'') (drop i (xt_buf x)))" "i \<le> length (xt_buf x)"
      using rx_find_some [OF found(1)] by blast
    have "length a + length r = length (xt_buf x) - i"
      using arg_cong [OF rx_try_append [OF r(1)], of length] by simp
    moreover have "length a > 0" using rx_pipe_nonempty [OF r(1)] by simp
    ultimately show ?thesis using found(2) r(2) by linarith
  next
    case fen
    then show ?thesis
      using closed xml_fence_close_end_bound
      by (auto simp: closer_end_def literal_shapes_def split: option.splits)
  qed
qed

lemma closer_end_buf: "closer_end x = (e, x2) \<Longrightarrow> xt_buf x2 = xt_buf x"
  by (auto simp: closer_end_def split: if_splits option.splits)

lemma find_opener_fields: "find_opener s x = (i, x1) \<Longrightarrow> xt_buf x1 = xt_buf x"
  by (auto simp: find_opener_def Let_def split: option.splits if_splits)

lemma find_opener_none: "find_opener s x = (None, x1) \<Longrightarrow> x1 = x"
  by (auto simp: find_opener_def Let_def split: option.splits if_splits)

section \<open>Feeding\<close>

text \<open>The candidate that absorbs the rest, open already or opened by it; \<open>None\<close> where no opener is left.\<close>

definition open_candidate :: "string \<Rightarrow> extractor \<Rightarrow> (string \<times> extractor) option" where
  "open_candidate rest x =
     (if xt_buf x \<noteq> '''' then Some ('''', x\<lparr>xt_buf := xt_buf x @ rest\<rparr>)
      else case find_opener rest x of
        (None, _) \<Rightarrow> None
      | (Some i, x1) \<Rightarrow> Some (take i rest, x1\<lparr>xt_buf := drop i rest\<rparr>))"

lemma open_candidate_text:
  "open_candidate rest x = Some (t, x1) \<Longrightarrow> xt_buf x @ rest = t @ xt_buf x1"
  by (auto simp: open_candidate_def split: if_splits prod.splits option.splits)

function feed_loop ::
  "(json \<Rightarrow> string) \<Rightarrow> string \<Rightarrow> tool_call list \<Rightarrow> string \<Rightarrow> extractor \<Rightarrow> string \<times> tool_call list \<times> extractor" where
  "feed_loop marshal text calls rest x =
     (case open_candidate rest x of
        None \<Rightarrow> (text @ rest, calls, x)
      | Some (t, x1) \<Rightarrow>
          (case closer_end x1 of
             (Some e, x2) \<Rightarrow>
               let block = take e (xt_buf x2); parsed = snd (extract_tool_calls marshal block)
               in feed_loop marshal (text @ t @ (if parsed = [] then block else '''')) (calls @ parsed)
                    (drop e (xt_buf x2)) (release_buf x2)
           | (None, x2) \<Rightarrow>
               if length (xt_buf x2) > max_stream_xml_buffer then (text @ t @ xt_buf x2, calls, release_buf x2)
               else (text @ t, calls, x2)))"
  by pat_completeness auto

lemma feed_loop_shrinks:
  assumes "open_candidate rest x = Some (t, x1)" "closer_end x1 = (Some e, x2)"
  shows "length (xt_buf (release_buf x2)) + length (drop e (xt_buf x2)) < length (xt_buf x) + length rest"
proof -
  have "length (xt_buf x) + length rest = length t + length (xt_buf x1)"
    using arg_cong [OF open_candidate_text [OF assms(1)], of length] by simp
  moreover have "0 < e" "e \<le> length (xt_buf x1)" "xt_buf x2 = xt_buf x1"
    using closer_end_bound [OF assms(2)] closer_end_buf [OF assms(2)] by auto
  ultimately show ?thesis by (simp add: release_buf_def)
qed

termination feed_loop
  by (relation "measure (\<lambda>(m, t, c, rest, x). length (xt_buf x) + length rest)")
    (use feed_loop_shrinks in \<open>force simp del: length_drop\<close>)+

declare feed_loop.simps [simp del]

definition hold_partial :: "string \<Rightarrow> extractor \<Rightarrow> string \<times> tool_call list \<times> extractor" where
  "hold_partial s x =
     (let n = partial_opener_len s
      in (take (length s - n) s, [], x\<lparr>xt_buf := drop (length s - n) s, xt_shape := Shape_Pending\<rparr>))"

definition feed_open :: "(json \<Rightarrow> string) \<Rightarrow> string \<Rightarrow> extractor \<Rightarrow> string \<times> tool_call list \<times> extractor" where
  "feed_open marshal fragment x =
     (if xt_buf x = '''' \<and> fst (find_opener fragment x) = None then
        (if partial_opener_len fragment > 0 then hold_partial fragment x else (fragment, [], x))
      else feed_loop marshal '''' [] fragment (snd (if xt_buf x = '''' then find_opener fragment x else (None, x))))"

text \<open>A fragment after a partial opener is merged with it first.\<close>

definition feed :: "(json \<Rightarrow> string) \<Rightarrow> string \<Rightarrow> extractor \<Rightarrow> string \<times> tool_call list \<times> extractor" where
  "feed marshal fragment x =
     (if xt_shape x = Shape_Pending then
        (let s = xt_buf x @ fragment; x1 = release_buf x
         in case find_opener s x1 of
              (Some i, x2) \<Rightarrow> feed_open marshal (drop i s) x2
            | (None, _) \<Rightarrow> if partial_opener_len s > 0 then hold_partial s x1 else (s, [], x1))
      else feed_open marshal fragment x)"

definition flush :: "(json \<Rightarrow> string) \<Rightarrow> extractor \<Rightarrow> string \<times> tool_call list \<times> extractor" where
  "flush marshal x =
     (if xt_buf x = '''' then ('''', [], x)
      else case extract_tool_calls marshal (xt_buf x) of
        (cleaned, calls) \<Rightarrow> (if calls \<noteq> [] then cleaned else scrub_tags cleaned, calls, release_buf x))"

text \<open>A stream: its fragments in order. The texts and calls are those of the fragments, in order.\<close>

fun feed_all :: "(json \<Rightarrow> string) \<Rightarrow> string list \<Rightarrow> extractor \<Rightarrow> string \<times> tool_call list \<times> extractor" where
  "feed_all marshal [] x = ('''', [], x)"
| "feed_all marshal (f # fs) x =
     (case feed marshal f x of
        (t, cs, x1) \<Rightarrow> (case feed_all marshal fs x1 of (ts, ds, x2) \<Rightarrow> (t @ ts, cs @ ds, x2)))"

end
