(* ===== verification/Stream_Properties.thy ===== *)
theory Stream_Properties
  imports Tool_Stream
begin

text \<open>
  What the streaming extractor keeps of a stream: every character is relayed, part of an extracted block,
  withheld, or lost in one named way; the buffer is bounded; a block arrives whatever its fragments are.
\<close>

section \<open>Accounting for the text\<close>

datatype stream_piece = Relayed string | Called string | Lost string

fun piece_text :: "stream_piece \<Rightarrow> string" where
  "piece_text (Relayed s) = s" | "piece_text (Called s) = s" | "piece_text (Lost s) = s"

definition relayed :: "stream_piece list \<Rightarrow> string" where
  "relayed ps = concat (map (\<lambda>p. case p of Relayed s \<Rightarrow> s | _ \<Rightarrow> '''') ps)"

definition lost :: "stream_piece list \<Rightarrow> string" where
  "lost ps = concat (map (\<lambda>p. case p of Lost s \<Rightarrow> s | _ \<Rightarrow> '''') ps)"

definition calls_of :: "(json \<Rightarrow> string) \<Rightarrow> stream_piece list \<Rightarrow> tool_call list" where
  "calls_of marshal ps =
     concat (map (\<lambda>p. case p of Called s \<Rightarrow> snd (extract_tool_calls marshal s) | _ \<Rightarrow> []) ps)"

definition real_blocks :: "(json \<Rightarrow> string) \<Rightarrow> stream_piece list \<Rightarrow> bool" where
  "real_blocks marshal ps \<longleftrightarrow>
     list_all (\<lambda>p. case p of Called s \<Rightarrow> snd (extract_tool_calls marshal s) \<noteq> [] | _ \<Rightarrow> True) ps"

text \<open>What one fragment loses: the text before an opener found in a merge with a partial opener.\<close>

definition lost_by :: "string \<Rightarrow> extractor \<Rightarrow> string" where
  "lost_by f x =
     (if xt_shape x = Shape_Pending then
        (case fst (find_opener (xt_buf x @ f) (release_buf x)) of Some i \<Rightarrow> take i (xt_buf x @ f) | None \<Rightarrow> '''')
      else '''')"

fun losses :: "(json \<Rightarrow> string) \<Rightarrow> string list \<Rightarrow> extractor \<Rightarrow> string" where
  "losses marshal [] x = ''''"
| "losses marshal (f # fs) x = lost_by f x @ losses marshal fs (snd (snd (feed marshal f x)))"

text \<open>The pieces \<open>ps\<close> of an input explain what came out and what was lost.\<close>

definition accounts ::
  "(json \<Rightarrow> string) \<Rightarrow> string \<Rightarrow> string \<Rightarrow> string \<times> tool_call list \<times> extractor \<Rightarrow> stream_piece list \<Rightarrow> bool" where
  "accounts marshal input gone out ps \<longleftrightarrow>
     (case out of (t, cs, x) \<Rightarrow>
        input = concat (map piece_text ps) @ xt_buf x \<and> t = relayed ps \<and> cs = calls_of marshal ps \<and> lost ps = gone \<and>
        real_blocks marshal ps)"

lemmas piece_defs = relayed_def lost_def calls_of_def real_blocks_def

lemma piece_simps [simp]:
  "relayed [] = ''''" "relayed (Relayed s # ps) = s @ relayed ps" "relayed (Called s # ps) = relayed ps"
  "relayed (Lost s # ps) = relayed ps" "lost [] = ''''" "lost (Relayed s # ps) = lost ps"
  "lost (Called s # ps) = lost ps" "lost (Lost s # ps) = s @ lost ps" "calls_of m [] = []"
  "calls_of m (Relayed s # ps) = calls_of m ps" "calls_of m (Lost s # ps) = calls_of m ps"
  "calls_of m (Called s # ps) = snd (extract_tool_calls m s) @ calls_of m ps" "real_blocks m []"
  "real_blocks m (Relayed s # ps) = real_blocks m ps" "real_blocks m (Lost s # ps) = real_blocks m ps"
  "real_blocks m (Called s # ps) = (snd (extract_tool_calls m s) \<noteq> [] \<and> real_blocks m ps)"
  "relayed (ps @ qs) = relayed ps @ relayed qs" "lost (ps @ qs) = lost ps @ lost qs"
  "calls_of m (ps @ qs) = calls_of m ps @ calls_of m qs" "real_blocks m (ps @ qs) = (real_blocks m ps \<and> real_blocks m qs)"
  by (simp_all add: piece_defs)

lemma feed_loop_accounts:
  "\<exists>ps. case feed_loop marshal out cs rest x of (t, ds, x') \<Rightarrow>
     xt_buf x @ rest = concat (map piece_text ps) @ xt_buf x' \<and> t = out @ relayed ps \<and> ds = cs @ calls_of marshal ps \<and>
     lost ps = '''' \<and> real_blocks marshal ps"
proof (induction marshal out cs rest x rule: feed_loop.induct)
  case (1 marshal out cs rest x)
  show ?case
  proof (cases "open_candidate rest x")
    case None
    then have "xt_buf x = ''''" by (simp add: open_candidate_def split: if_splits)
    then show ?thesis using None by (auto simp: feed_loop.simps [of _ _ _ rest] intro!: exI [of _ "[Relayed rest]"])
  next
    case (Some a)
    obtain t x1 where a: "a = (t, x1)" by (cases a)
    obtain e x2 where c: "closer_end x1 = (e, x2)" by (cases "closer_end x1")
    have input: "xt_buf x @ rest = t @ xt_buf x2"
      using open_candidate_text [OF Some [unfolded a]] closer_end_buf [OF c] by simp
    show ?thesis
    proof (cases e)
      case None
      let ?ps = "if length (xt_buf x2) > max_stream_xml_buffer then [Relayed t, Relayed (xt_buf x2)] else [Relayed t]"
      show ?thesis
        using Some a c None input by (intro exI [of _ ?ps]) (simp add: feed_loop.simps [of _ _ _ rest] release_buf_def)
    next
      case closed: (Some k)
      let ?b = "take k (xt_buf x2)"
      let ?p = "snd (extract_tool_calls marshal ?b)"
      obtain ps where ps: "case feed_loop marshal (out @ t @ (if ?p = [] then ?b else '''')) (cs @ ?p) (drop k (xt_buf x2)) (release_buf x2)
          of (u, ds, x') \<Rightarrow> xt_buf (release_buf x2) @ drop k (xt_buf x2) = concat (map piece_text ps) @ xt_buf x' \<and>
            u = (out @ t @ (if ?p = [] then ?b else '''')) @ relayed ps \<and> ds = (cs @ ?p) @ calls_of marshal ps \<and>
            lost ps = '''' \<and> real_blocks marshal ps"
        using "1" [OF Some a [symmetric] c [symmetric] closed refl refl] by (rule exE)
      have one: "feed_loop marshal out cs rest x =
          feed_loop marshal (out @ t @ (if ?p = [] then ?b else '''')) (cs @ ?p) (drop k (xt_buf x2)) (release_buf x2)"
        using Some a c closed by (simp add: feed_loop.simps [of _ _ _ rest] Let_def)
      let ?qs = "Relayed t # (if ?p = [] then Relayed ?b else Called ?b) # ps"
      obtain u ds x' where res: "feed_loop marshal (out @ t @ (if ?p = [] then ?b else [])) (cs @ ?p) (drop k (xt_buf x2))
          (release_buf x2) = (u, ds, x')"
        by (metis prod.collapse)
      have "drop k (xt_buf x2) = concat (map piece_text ps) @ xt_buf x'" using ps unfolding res by (simp add: release_buf_def)
      then have "xt_buf x2 = ?b @ concat (map piece_text ps) @ xt_buf x'" by (metis append_take_drop_id)
      then have "xt_buf x @ rest = concat (map piece_text ?qs) @ xt_buf x'" using input by simp
      then show ?thesis using ps unfolding one res by (intro exI [of _ ?qs]) simp
    qed
  qed
qed

lemma hold_accounts: "accounts marshal s '''' (hold_partial s x) [Relayed (take (length s - partial_opener_len s) s)]"
  by (simp add: accounts_def hold_partial_def Let_def)

lemma feed_open_accounts: "\<exists>ps. accounts marshal (xt_buf x @ f) '''' (feed_open marshal f x) ps"
proof (cases "xt_buf x = '''' \<and> fst (find_opener f x) = None")
  case True
  show ?thesis
  proof (cases "partial_opener_len f > 0")
    case partial: True
    then show ?thesis using hold_accounts [of marshal f x] True by (auto simp: feed_open_def)
  next
    case False
    then show ?thesis using True by (intro exI [of _ "[Relayed f]"]) (simp add: feed_open_def accounts_def)
  qed
next
  case False
  let ?y = "snd (if xt_buf x = '''' then find_opener f x else (None, x))"
  have "xt_buf ?y = xt_buf x" using find_opener_fields [of f x] by (cases "find_opener f x") simp
  then show ?thesis using feed_loop_accounts [where marshal = marshal and out = "''''" and cs = "[]" and rest = f and x = ?y] False
    by (auto simp: feed_open_def accounts_def split: prod.splits)
qed

lemma feed_accounts: "\<exists>ps. accounts marshal (xt_buf x @ f) (lost_by f x) (feed marshal f x) ps"
proof (cases "xt_shape x = Shape_Pending")
  case True
  define s x1 where "s = xt_buf x @ f" and "x1 = release_buf x"
  have feed_s: "feed marshal f x =
      (case find_opener s x1 of (Some i, x2) \<Rightarrow> feed_open marshal (drop i s) x2
       | (None, _) \<Rightarrow> if partial_opener_len s > 0 then hold_partial s x1 else (s, [], x1))"
    unfolding feed_def s_def x1_def Let_def using True by simp
  obtain i x2 where found: "find_opener s x1 = (i, x2)" by (cases "find_opener s x1")
  show ?thesis
  proof (cases i)
    case None
    have gone: "lost_by f x = []" using True found None by (simp add: lost_by_def s_def x1_def)
    have plain: "accounts marshal s [] (s, [], x1) [Relayed s]" by (simp add: accounts_def x1_def release_buf_def)
    show ?thesis
      unfolding feed_s found None gone s_def [symmetric] using plain hold_accounts [of marshal s x1] by auto
  next
    case (Some k)
    have "xt_buf x2 = ''''" using find_opener_fields [OF found] by (simp add: x1_def release_buf_def)
    then obtain ps where ps: "accounts marshal (drop k s) '''' (feed_open marshal (drop k s) x2) ps"
      using feed_open_accounts [where x = x2 and f = "drop k s"] by auto
    have out: "feed marshal f x = feed_open marshal (drop k s) x2" "lost_by f x = take k s"
      using True found Some feed_s by (simp_all add: lost_by_def s_def x1_def)
    have "take k s @ drop k s = s" by (rule append_take_drop_id)
    then have "accounts marshal s (take k s) (feed_open marshal (drop k s) x2) (Lost (take k s) # ps)"
      using ps unfolding accounts_def by (auto split: prod.splits simp del: append_take_drop_id)
    then show ?thesis unfolding s_def [symmetric] out by blast
  qed
next
  case False
  then show ?thesis using feed_open_accounts by (simp add: feed_def lost_by_def)
qed

text \<open>C19: What the streaming extractor does with a stream (\<^verbatim>\<open>XMLToolCallExtractor.Feed\<close>): the fragments, in order,
  split into pieces such that the text relayed so far is exactly the relayed pieces, the calls emitted are exactly
  those parsed from the extracted blocks, each of which holds at least one, the rest of the input is what the
  extractor still withholds, and nothing is lost but the text before an opener that a fragment completes together
  with a partial opener withheld before it.\<close>

theorem stream_accounts_for_text:
  "\<exists>ps. accounts marshal (xt_buf x @ concat fs) (losses marshal fs x) (feed_all marshal fs x) ps"
proof (induction fs arbitrary: x)
  case Nil
  then show ?case by (intro exI [of _ "[]"]) (simp add: accounts_def)
next
  case (Cons f fs)
  obtain t cs x1 where one: "feed marshal f x = (t, cs, x1)" by (cases "feed marshal f x")
  obtain u ds x2 where more: "feed_all marshal fs x1 = (u, ds, x2)" by (cases "feed_all marshal fs x1")
  obtain ps where "accounts marshal (xt_buf x @ f) (lost_by f x) (t, cs, x1) ps"
    using feed_accounts [where x = x and f = f and marshal = marshal] one by auto
  moreover obtain qs where "accounts marshal (xt_buf x1 @ concat fs) (losses marshal fs x1) (u, ds, x2) qs"
    using Cons.IH [of x1] more by auto
  ultimately have "accounts marshal (xt_buf x @ concat (f # fs)) (losses marshal (f # fs) x) (t @ u, cs @ ds, x2) (ps @ qs)"
    using one by (auto simp: accounts_def) (metis append.assoc)
  then show ?case using one more by (auto simp del: concat.simps)
qed

section \<open>The bound of the buffer\<close>

lemma partial_of_less: "l \<in> set (partial_of s op) \<Longrightarrow> l < length op \<and> l \<le> length s \<or> op = ''''"
  by (auto simp: partial_of_def Let_def split: if_splits)

lemma partial_opener_len_bound: "partial_opener_len s \<le> 20 \<and> partial_opener_len s \<le> length s"
proof -
  have step: "(case filter (\<lambda>l. l > best) (partial_of s op) of [] \<Rightarrow> best | l # _ \<Rightarrow> l) \<le> 20 \<and>
      (case filter (\<lambda>l. l > best) (partial_of s op) of [] \<Rightarrow> best | l # _ \<Rightarrow> l) \<le> length s"
    if "op \<in> set xml_stream_literal_openers" "best \<le> 20 \<and> best \<le> length s" for op best
  proof (cases "filter (\<lambda>l. l > best) (partial_of s op)")
    case (Cons l ls)
    have "l \<in> set (filter (\<lambda>l. l > best) (partial_of s op))" unfolding Cons by simp
    then have "l \<in> set (partial_of s op)" by simp
    moreover have "length op \<le> 20" "op \<noteq> ''''"
      using that(1) by (auto simp: xml_stream_literal_openers_def literal_shapes_def opener_tag_def tool_xml_name_def)
    ultimately show ?thesis using Cons partial_of_less by fastforce
  qed (use that in simp)
  have "fold (\<lambda>op best. case filter (\<lambda>l. l > best) (partial_of s op) of [] \<Rightarrow> best | l # _ \<Rightarrow> l) ops best \<le> 20 \<and>
      fold (\<lambda>op best. case filter (\<lambda>l. l > best) (partial_of s op) of [] \<Rightarrow> best | l # _ \<Rightarrow> l) ops best \<le> length s"
    if "set ops \<subseteq> set xml_stream_literal_openers" "best \<le> 20 \<and> best \<le> length s" for ops best
    using that step by (induction ops arbitrary: best) auto
  then show ?thesis unfolding partial_opener_len_def by blast
qed

definition within_bound :: "extractor \<Rightarrow> bool" where
  "within_bound x \<longleftrightarrow> length (xt_buf x) \<le> max_stream_xml_buffer"

lemma release_bound: "within_bound (release_buf x)"
  by (simp add: within_bound_def release_buf_def)

lemma feed_loop_bound: "within_bound x \<Longrightarrow> within_bound (snd (snd (feed_loop marshal out cs rest x)))"
proof (induction marshal out cs rest x rule: feed_loop.induct)
  case (1 marshal out cs rest x)
  show ?case
  proof (cases "open_candidate rest x")
    case None
    then show ?thesis using "1.prems" by (simp add: feed_loop.simps [of _ _ _ rest])
  next
    case (Some a)
    obtain t x1 where a: "a = (t, x1)" by (cases a)
    obtain e x2 where c: "closer_end x1 = (e, x2)" by (cases "closer_end x1")
    show ?thesis
    proof (cases e)
      case None
      then show ?thesis using Some a c release_bound by (simp add: feed_loop.simps [of _ _ _ rest] within_bound_def)
    next
      case closed: (Some k)
      show ?thesis
        using "1.IH" [OF Some a [symmetric] c [symmetric] closed refl refl release_bound] Some a c closed
        by (simp add: feed_loop.simps [of _ _ _ rest] Let_def)
    qed
  qed
qed

lemma hold_bound: "within_bound (snd (snd (hold_partial s x)))"
proof -
  have "partial_opener_len s \<le> 20" "partial_opener_len s \<le> length s" using partial_opener_len_bound by auto
  then show ?thesis by (simp add: within_bound_def hold_partial_def Let_def max_stream_xml_buffer_def)
qed

lemma feed_open_bound: "within_bound x \<Longrightarrow> within_bound (snd (snd (feed_open marshal f x)))"
proof -
  assume ok: "within_bound x"
  let ?y = "snd (if xt_buf x = '''' then find_opener f x else (None, x))"
  obtain i y where y: "find_opener f x = (i, y)" by (cases "find_opener f x")
  have "within_bound y" using ok find_opener_fields [OF y] unfolding within_bound_def by (simp only:)
  then have "within_bound ?y" using ok y by simp
  then have loop: "within_bound (snd (snd (feed_loop marshal [] [] f ?y)))" by (rule feed_loop_bound)
  show ?thesis
  proof (cases "xt_buf x = [] \<and> fst (find_opener f x) = None")
    case True
    then show ?thesis using ok hold_bound by (simp add: feed_open_def)
  next
    case False
    then have "feed_open marshal f x = feed_loop marshal [] [] f ?y" unfolding feed_open_def by (rule if_not_P)
    then show ?thesis using loop by simp
  qed
qed

lemma feed_bound: "within_bound x \<Longrightarrow> within_bound (snd (snd (feed marshal f x)))"
proof -
  assume ok: "within_bound x"
  let ?s = "xt_buf x @ f"
  obtain i x2 where found: "find_opener ?s (release_buf x) = (i, x2)" by (cases "find_opener ?s (release_buf x)")
  have "within_bound x2" using find_opener_fields [OF found] release_bound by (simp add: within_bound_def)
  then show ?thesis
    using ok found hold_bound release_bound feed_open_bound by (cases i) (simp_all add: feed_def Let_def)
qed

text \<open>After any stream the extractor withholds at most \<^verbatim>\<open>maxStreamXMLBuffer\<close> bytes, 64 KiB,
  whatever the fragments hold.\<close>

lemma withheld_is_bounded:
  "case feed_all marshal fs new_extractor of (t, cs, x) \<Rightarrow> length (xt_buf x) \<le> 65536"
proof -
  have "within_bound (snd (snd (feed_all marshal fs x)))" if "within_bound x" for x
    using that
  proof (induction fs arbitrary: x)
    case (Cons f fs)
    have "within_bound (snd (snd (feed marshal f x)))" by (rule feed_bound [OF Cons.prems])
    from Cons.IH [OF this] show ?case by (simp split: prod.splits) (metis snd_conv)
  qed simp
  moreover have "within_bound new_extractor" by (simp add: within_bound_def new_extractor_def)
  ultimately have "within_bound (snd (snd (feed_all marshal fs new_extractor)))" by blast
  then show ?thesis by (cases "feed_all marshal fs new_extractor") (simp add: within_bound_def max_stream_xml_buffer_def)
qed

section \<open>A block in fragments\<close>

lemma str_index_here: "prefix n s \<Longrightarrow> str_index s n = Some 0"
  by (cases s) (auto simp: take_eq_prefix)

lemma str_index_zero: "str_index s n = Some 0 \<longleftrightarrow> prefix n s"
  by (cases s) (auto simp: take_eq_prefix)

lemma str_index_prefix: "str_index s n = Some i \<Longrightarrow> prefix s t \<Longrightarrow> str_index t n = Some i"
proof (induction s arbitrary: i t)
  case Nil
  then show ?case by (auto simp: str_index_here split: if_splits)
next
  case (Cons c cs)
  obtain d where d: "t = c # d" "prefix cs d" using Cons.prems(2) by (metis Cons_prefix_Cons list.exhaust prefix_Nil list.distinct(1))
  show ?case
  proof (cases "prefix n (c # cs)")
    case True
    then have "prefix n t" using Cons.prems(2) prefix_order.trans by blast
    moreover have "i = 0" using Cons.prems(1) str_index_here [OF True] by (simp del: str_index.simps)
    ultimately show ?thesis by (simp add: str_index_here)
  next
    case False
    then obtain j where j: "str_index cs n = Some j" "i = Suc j" using Cons.prems by (auto simp: take_eq_prefix)
    have "length n \<le> length (c # cs)" using str_index_bound [OF j(1)] by simp
    then have "\<not> prefix n t" using False Cons.prems(2) prefix_length_prefix by blast
    then show ?thesis using d Cons.IH [OF j(1) d(2)] j by (simp add: take_eq_prefix)
  qed
qed

definition opener_prefixes_ok :: bool where
  "opener_prefixes_ok =
     list_all (\<lambda>sh. list_all (\<lambda>n. fst (find_opener (take n (opener_tag sh)) new_extractor) = None \<and>
                                partial_opener_len (take n (opener_tag sh)) = n)
       [0..<length (opener_tag sh)]) literal_shapes"

lemma opener_prefixes: "opener_prefixes_ok"
  by code_simp

lemma find_opener_fst: "fst (find_opener s x) = fst (find_opener s y)"
  by (auto simp: find_opener_def Let_def split: option.splits)

lemma opener_prefix:
  assumes "sh \<in> set literal_shapes" "prefix s (opener_tag sh)" "s \<noteq> opener_tag sh"
  shows "find_opener s x = (None, x)" "partial_opener_len s = length s"
proof -
  have "length s < length (opener_tag sh)" using assms(2,3) prefix_length_less strict_prefix_def by metis
  moreover have "s = take (length s) (opener_tag sh)" using assms(2) by (metis append_eq_conv_conj prefixE)
  ultimately have ok: "fst (find_opener s new_extractor) = None" "partial_opener_len s = length s"
    using assms(1) opener_prefixes unfolding opener_prefixes_ok_def list_all_iff by (metis atLeastLessThan_upt atLeastLessThan_iff le0)+
  have "fst (find_opener s x) = None" using ok(1) find_opener_fst [of s x new_extractor] by simp
  then show "find_opener s x = (None, x)" using find_opener_none by (metis prod.collapse)
  show "partial_opener_len s = length s" by (rule ok(2))
qed

lemma tag_prefixes:
  assumes "sh \<in> set literal_shapes" "sh' \<in> set literal_shapes" "sh' \<noteq> sh"
  shows "\<not> prefix (opener_tag sh') (opener_tag sh @ w)"
  using assms by (auto simp: literal_shapes_def opener_tag_def tool_xml_name_def)

lemma find_opener_block:
  assumes "sh \<in> set literal_shapes"
  shows "find_opener (opener_tag sh @ w) x = (Some 0, x\<lparr>xt_shape := sh\<rparr>)"
proof -
  let ?s = "opener_tag sh @ w"
  have here: "str_index ?s (opener_tag sh) = Some 0" by (rule str_index_here) simp
  have later: "str_index ?s (opener_tag sh') \<noteq> Some 0" if "sh' \<in> set literal_shapes" "sh' \<noteq> sh" for sh'
    using tag_prefixes [OF assms that] by (simp add: str_index_zero)
  have stays: "fold (try_literal ?s) shs (Some (0, sh)) = Some (0, sh)" for shs
    by (induction shs) (auto simp: try_literal_def earlier_def split: option.splits)
  have "fold (try_literal ?s) shs best = Some (0, sh)"
    if "sh \<in> set shs" "set shs \<subseteq> set literal_shapes" "earlier 0 best" for shs best
    using that
  proof (induction shs arbitrary: best)
    case (Cons a shs)
    show ?case
    proof (cases "a = sh")
      case True
      then have "try_literal ?s a best = Some (0, sh)" using Cons.prems here by (simp add: try_literal_def)
      then show ?thesis using stays by simp
    next
      case False
      then have "earlier 0 (try_literal ?s a best)"
        using Cons.prems later [of a] by (auto simp: try_literal_def earlier_def split: option.splits)
      then show ?thesis using Cons False by simp
    qed
  qed simp
  from this [of literal_shapes None] assms
  have "fold (try_literal ?s) literal_shapes None = Some (0, sh)" by (simp add: earlier_def)
  then have "try_pipe ?s (fold (try_literal ?s) literal_shapes None) = Some (0, sh)"
    by (auto simp: try_pipe_def earlier_def split: option.splits)
  then show ?thesis by (auto simp: find_opener_def Let_def earlier_def split: option.splits)
qed

text \<open>A block of a literal form that closes at its end, fits the buffer and holds a call.\<close>

definition clean_block :: "(json \<Rightarrow> string) \<Rightarrow> xml_shape \<Rightarrow> string \<Rightarrow> bool" where
  "clean_block marshal sh blk \<longleftrightarrow>
     sh \<in> set literal_shapes \<and> prefix (opener_tag sh) blk \<and>
     map_option (\<lambda>i. i + length (xml_stream_closer sh)) (str_index blk (xml_stream_closer sh)) = Some (length blk) \<and>
     length blk \<le> max_stream_xml_buffer \<and> snd (extract_tool_calls marshal blk) \<noteq> []"

text \<open>The state after a proper prefix of the block, or after all of it.\<close>

definition at_stage :: "xml_shape \<Rightarrow> string \<Rightarrow> string \<Rightarrow> extractor \<Rightarrow> bool" where
  "at_stage sh blk u x \<longleftrightarrow>
     (if u = blk \<or> u = '''' then xt_buf x = '''' \<and> xt_shape x = Shape_None
      else xt_buf x = u \<and> xt_shape x = (if length u < length (opener_tag sh) then Shape_Pending else sh))"

lemma no_opener_in_nothing: "find_opener '''' x = (None, x)"
  by (simp add: find_opener_def Let_def try_pipe_def try_literal_def literal_shapes_def opener_tag_def rx_pipe_def
      fence_opener.simps eat_def)

lemma feed_loop_nothing: "xt_buf x = '''' \<Longrightarrow> feed_loop marshal out cs '''' x = (out, cs, x)"
  by (simp add: feed_loop.simps [of _ _ _ "''''"] open_candidate_def no_opener_in_nothing)

lemma closer_of_prefix:
  assumes "clean_block marshal sh blk" "prefix v blk" "xt_buf x = v" "xt_shape x = sh"
  shows "closer_end x = (if v = blk then Some (length blk) else None, x)"
proof -
  have lit: "xt_shape x \<in> set literal_shapes" using assms by (simp add: clean_block_def)
  have "str_index v (xml_stream_closer sh) = None" if "v \<noteq> blk"
  proof (rule ccontr)
    assume "str_index v (xml_stream_closer sh) \<noteq> None"
    then obtain i where i: "str_index v (xml_stream_closer sh) = Some i" by blast
    then have "i + length (xml_stream_closer sh) = length blk"
      using str_index_prefix [OF i assms(2)] assms(1) by (simp add: clean_block_def)
    moreover have "length v < length blk" using assms(2) that prefix_length_less strict_prefix_def by metis
    ultimately show False using str_index_bound [OF i] by simp
  qed
  then show ?thesis using lit assms by (auto simp: closer_end_def clean_block_def)
qed

lemma loop_on_block:
  assumes "clean_block marshal sh blk" "prefix v blk" "open_candidate rest x = Some ('''', x1)" "xt_buf x1 = v" "xt_shape x1 = sh"
  shows "feed_loop marshal '''' [] rest x =
    (if v = blk then ('''', snd (extract_tool_calls marshal blk), release_buf x1) else ('''', [], x1))"
proof -
  have size: "\<not> length v > max_stream_xml_buffer"
    using assms(1,2) prefix_length_le [of v blk] by (simp add: clean_block_def)
  show ?thesis
    using assms(1,3,4) size closer_of_prefix [OF assms(1,2,4,5)]
    by (auto simp: feed_loop.simps [of _ _ _ rest] Let_def clean_block_def release_buf_def feed_loop_nothing)
qed

lemma opener_or_prefix:
  assumes "clean_block marshal sh blk" "prefix s blk"
  obtains (opened) w where "s = opener_tag sh @ w" "\<not> length s < length (opener_tag sh)"
    | (part) "prefix s (opener_tag sh)" "s \<noteq> opener_tag sh" "length s < length (opener_tag sh)"
proof -
  have p: "prefix (opener_tag sh) blk" using assms(1) by (simp add: clean_block_def)
  show ?thesis
  proof (cases "length s < length (opener_tag sh)")
    case True
    then have "prefix s (opener_tag sh)" using p assms(2) prefix_length_prefix by (metis less_imp_le)
    then show ?thesis using part True by blast
  next
    case False
    then have "prefix (opener_tag sh) s" using p assms(2) prefix_length_prefix by (metis not_less)
    then show ?thesis using opened False by (auto simp: prefix_def)
  qed
qed

text \<open>A fragment that starts the block, alone or merged with what was withheld.\<close>

lemma feed_start:
  assumes blk: "clean_block marshal sh blk" "prefix s blk" and x: "xt_buf x = ''''" and s: "s = opener_tag sh @ w"
  shows "\<exists>x'. feed_open marshal s x = ('''', if s = blk then snd (extract_tool_calls marshal blk) else [], x') \<and>
    at_stage sh blk s x'"
proof -
  have sh: "sh \<in> set literal_shapes" using blk by (simp add: clean_block_def)
  let ?y = "x\<lparr>xt_shape := sh\<rparr>"
  have "s \<noteq> ''''" using s sh by (auto simp: literal_shapes_def opener_tag_def)
  have opens: "open_candidate s ?y = Some ('''', ?y\<lparr>xt_buf := s\<rparr>)"
    using x find_opener_block [OF sh, of w ?y] by (simp add: open_candidate_def s)
  have "feed_open marshal s x = feed_loop marshal '''' [] s ?y"
    using x find_opener_block [OF sh, of w x] by (simp add: feed_open_def s)
  also have "\<dots> = (if s = blk then ('''', snd (extract_tool_calls marshal blk), release_buf (?y\<lparr>xt_buf := s\<rparr>))
      else ('''', [], ?y\<lparr>xt_buf := s\<rparr>))"
    by (rule loop_on_block [OF blk opens]) simp_all
  finally show ?thesis using s \<open>s \<noteq> ''''\<close> by (auto simp: at_stage_def release_buf_def)
qed

lemma blk_nonempty: "clean_block marshal sh blk \<Longrightarrow> blk \<noteq> '''' \<and> opener_tag sh \<noteq> blk"
proof -
  assume blk: "clean_block marshal sh blk"
  then have sh: "sh \<in> set literal_shapes" and "prefix (opener_tag sh) blk" by (auto simp: clean_block_def)
  moreover have "str_index (opener_tag sh) (xml_stream_closer sh) = None"
    using sh by (auto simp: literal_shapes_def opener_tag_def xml_stream_closer_def tool_xml_name_def)
  ultimately show ?thesis using blk by (auto simp: clean_block_def literal_shapes_def opener_tag_def)
qed

text \<open>A fragment before the opener is complete.\<close>

lemma feed_partial:
  assumes blk: "clean_block marshal sh blk" "prefix s (opener_tag sh)" "s \<noteq> opener_tag sh" "length s < length (opener_tag sh)"
    and x: "xt_buf x = ''''" "xt_shape x = Shape_None"
  shows "\<exists>x'. (if partial_opener_len s > 0 then hold_partial s x else (s, [], x)) = ('''', [], x') \<and> at_stage sh blk s x'"
proof -
  have sh: "sh \<in> set literal_shapes" using blk by (simp add: clean_block_def)
  have "prefix (opener_tag sh) blk" using blk(1) by (simp add: clean_block_def)
  then have "s \<noteq> blk" using blk(2,3) prefix_order.antisym by blast
  then show ?thesis using opener_prefix [OF sh blk(2,3)] blk(4) x by (auto simp: hold_partial_def at_stage_def)
qed

lemma feed_step:
  assumes blk: "clean_block marshal sh blk" "prefix (u @ f) blk" and x: "at_stage sh blk u x"
  shows "\<exists>x'. feed marshal f x = ('''', if u \<noteq> blk \<and> u @ f = blk then snd (extract_tool_calls marshal blk) else [], x') \<and>
    at_stage sh blk (u @ f) x'"
proof -
  have sh: "sh \<in> set literal_shapes" using blk by (simp add: clean_block_def)
  note none = opener_prefix [OF sh]
  consider (fin) "u = blk" | (fresh) "u = ''''" "u \<noteq> blk" | (part) "u \<noteq> ''''" "u \<noteq> blk" "length u < length (opener_tag sh)"
    | (inside) "u \<noteq> ''''" "u \<noteq> blk" "\<not> length u < length (opener_tag sh)"
    by blast
  then show ?thesis
  proof cases
    case fin
    then have "f = ''''" using blk(2) by simp
    then show ?thesis
      using x fin no_opener_in_nothing [of x] opener_prefix(2) [OF sh, of "''''"] blk_nonempty [OF blk(1)] sh
      by (auto simp: at_stage_def feed_def feed_open_def literal_shapes_def opener_tag_def)
  next
    case fresh
    then have x0: "xt_buf x = ''''" "xt_shape x = Shape_None" using x by (auto simp: at_stage_def)
    then have out: "feed marshal f x = feed_open marshal f x" by (simp add: feed_def)
    from blk(1) blk(2)[unfolded fresh append_Nil] show ?thesis
    proof (cases rule: opener_or_prefix)
      case (opened w)
      then show ?thesis using feed_start [OF blk(1) _ x0(1) opened(1)] blk(2) fresh out by auto
    next
      case part
      have "f \<noteq> blk" using part blk(1) prefix_order.antisym by (auto simp: clean_block_def)
      then show ?thesis
        using feed_partial [OF blk(1) part x0] none(1) [OF part(1,2), of x] fresh out x0(1) by (simp add: feed_open_def)
    qed
  next
    case part
    then have xp: "xt_buf x = u" "xt_shape x = Shape_Pending" using x by (auto simp: at_stage_def)
    let ?s = "u @ f" and ?x1 = "release_buf x"
    have x1: "xt_buf ?x1 = ''''" "xt_shape ?x1 = Shape_None" by (simp_all add: release_buf_def)
    from blk show ?thesis
    proof (cases rule: opener_or_prefix)
      case (opened w)
      have "feed marshal f x = feed_open marshal ?s (?x1\<lparr>xt_shape := sh\<rparr>)"
        using xp find_opener_block [OF sh, of w ?x1] opened(1) by (simp add: feed_def)
      then show ?thesis using feed_start [OF blk, of "?x1\<lparr>xt_shape := sh\<rparr>" w] x1 opened(1) part by auto
    next
      case p: part
      have "feed marshal f x = (if partial_opener_len ?s > 0 then hold_partial ?s ?x1 else (?s, [], ?x1))"
        using xp none(1) [OF p(1,2), of ?x1] by (simp add: feed_def Let_def)
      moreover have "?s \<noteq> blk" using p blk(1) prefix_order.antisym by (auto simp: clean_block_def)
      ultimately show ?thesis using feed_partial [OF blk(1) p x1] by simp
    qed
  next
    case inside
    then have xi: "xt_buf x = u" "xt_shape x = sh" using x by (auto simp: at_stage_def)
    have "sh \<noteq> Shape_Pending" using sh by (auto simp: literal_shapes_def)
    then have out: "feed marshal f x = feed_loop marshal '''' [] f x" using xi inside by (simp add: feed_def feed_open_def)
    have opens: "open_candidate f x = Some ('''', x\<lparr>xt_buf := u @ f\<rparr>)" using xi inside by (simp add: open_candidate_def)
    have "feed_loop marshal '''' [] f x =
        (if u @ f = blk then ('''', snd (extract_tool_calls marshal blk), release_buf (x\<lparr>xt_buf := u @ f\<rparr>))
         else ('''', [], x\<lparr>xt_buf := u @ f\<rparr>))"
      by (rule loop_on_block [OF blk opens]) (simp_all add: xi)
    then show ?thesis using out inside xi by (auto simp: at_stage_def release_buf_def)
  qed
qed

text \<open>C20: A tool call reaches the client whatever its fragments are: if a stream is one block in one of the
  literal forms, closed at its end, within the buffer bound and holding at least one call, then however it is cut
  into fragments, in the middle of a tag or one byte at a time, no text is relayed, the calls are exactly those of
  the whole block, and the extractor ends empty.\<close>

theorem split_block_extracted:
  assumes "clean_block marshal sh (concat fs)"
  shows "\<exists>x. feed_all marshal fs new_extractor = ('''', snd (extract_tool_calls marshal (concat fs)), x) \<and>
    xt_buf x = '''' \<and> xt_shape x = Shape_None"
proof -
  let ?calls = "snd (extract_tool_calls marshal (concat fs))"
  have "\<exists>x'. feed_all marshal gs x = ('''', if u \<noteq> concat fs then ?calls else [], x') \<and> at_stage sh (concat fs) (concat fs) x'"
    if "concat fs = u @ concat gs" "at_stage sh (concat fs) u x" for gs u x
    using that
  proof (induction gs arbitrary: u x)
    case (Cons g gs)
    have "prefix (u @ g) (concat fs)" using Cons.prems(1) by simp
    from feed_step [OF assms this Cons.prems(2)] obtain x1 where x1:
        "feed marshal g x = ('''', if u \<noteq> concat fs \<and> u @ g = concat fs then ?calls else [], x1)" "at_stage sh (concat fs) (u @ g) x1"
      by blast
    obtain x2 where x2: "feed_all marshal gs x1 = ('''', if u @ g \<noteq> concat fs then ?calls else [], x2)" "at_stage sh (concat fs) (concat fs) x2"
      using Cons.IH [of "u @ g" x1] Cons.prems(1) x1(2) by auto
    have "u = concat fs \<Longrightarrow> u @ g = concat fs" using Cons.prems(1) by simp
    then show ?case using x1(1) x2 by (auto simp del: concat.simps)
  qed simp
  from this [of "''''" fs new_extractor] obtain x' where
    "feed_all marshal fs new_extractor = ('''', if '''' \<noteq> concat fs then ?calls else [], x')" "at_stage sh (concat fs) (concat fs) x'"
    by (auto simp: at_stage_def new_extractor_def simp del: concat.simps)
  then show ?thesis using blk_nonempty [OF assms] by (auto simp: at_stage_def simp del: concat.simps)
qed

theorem split_block_extracted_witness:
  "\<exists>x. feed_all (\<lambda>_. ''{}'') [''<to'', ''ol_call><function=f></fun'', ''ction></tool_call>''] new_extractor =
      ('''', [\<lparr>tc_name = ''f'', tc_args = ''{}''\<rparr>], x)"
proof -
  have clean: "clean_block (\<lambda>_. ''{}'') Shape_Tool_Call (concat [''<to'', ''ol_call><function=f></fun'', ''ction></tool_call>''])"
    by code_simp
  have "snd (extract_tool_calls (\<lambda>_. ''{}'') (concat [''<to'', ''ol_call><function=f></fun'', ''ction></tool_call>'']))
      = [\<lparr>tc_name = ''f'', tc_args = ''{}''\<rparr>]"
    by code_simp
  then show ?thesis using split_block_extracted [OF clean] by (auto simp del: concat.simps)
qed

section \<open>What the extractor gets wrong\<close>

definition plain_prose :: "string \<Rightarrow> bool" where
  "plain_prose w = list_all (\<lambda>c. c \<noteq> CHR ''<'' \<and> c \<noteq> byte 96) w"

lemma str_index_skip:
  "CHR ''<'' \<notin> set v \<Longrightarrow> str_index (v @ s) (CHR ''<'' # t) = map_option (\<lambda>i. length v + i) (str_index s (CHR ''<'' # t))"
proof (induction v)
  case Nil
  then show ?case by (cases "str_index s (CHR ''<'' # t)") auto
next
  case (Cons c v)
  then show ?case by (cases "str_index s (CHR ''<'' # t)") auto
qed

lemma rx_pipe_starts: "c \<noteq> CHR ''<'' \<Longrightarrow> rx_try (rx_pipe u) (c # s) = []"
  by (simp add: rx_pipe_def eat_def)

lemma rx_pipe_skip: "CHR ''<'' \<notin> set v \<Longrightarrow> rx_find (rx_pipe u) s = None \<Longrightarrow> rx_find (rx_pipe u) (v @ s) = None"
proof (induction v)
  case (Cons c v)
  then have "c \<noteq> CHR ''<''" by auto
  then show ?case using Cons by (simp add: rx_pipe_starts)
qed simp

lemma no_fence: "byte 96 \<notin> set s \<Longrightarrow> str_index s fence = None"
  by (induction s) (auto simp: fence_def numeral_3_eq_3)

lemma prose_before_block:
  assumes "plain_prose w"
  shows "find_opener (''< '' @ w @ ''<tool_call>'') x = (Some (length w + 2), x\<lparr>xt_shape := Shape_Tool_Call\<rparr>)"
proof -
  let ?v = "CHR '' '' # w" and ?e = "''<tool_call>''"
  let ?s = "CHR ''<'' # (?v @ ?e)"
  have v: "CHR ''<'' \<notin> set ?v" "byte 96 \<notin> set w" using assms by (auto simp: plain_prose_def list_all_iff)
  have lit: "str_index ?s (CHR ''<'' # a # t) = map_option (\<lambda>i. Suc (length ?v + i)) (str_index ?e (CHR ''<'' # a # t))"
    if "a \<noteq> CHR '' ''" for a t
  proof -
    have "str_index ?s (CHR ''<'' # a # t) = map_option Suc (str_index (?v @ ?e) (CHR ''<'' # a # t))" using that by simp
    then show ?thesis unfolding str_index_skip [OF v(1)] by (simp add: option.map_comp comp_def)
  qed
  have "str_index ?s ''<tool_call>'' = Some (length w + 2)" "str_index ?s ''<tool_calls>'' = None"
    "str_index ?s (''<'' @ tool_xml_name @ ''>'') = None" "str_index ?s ''<function_call>'' = None"
    using lit [of "CHR ''t''" "''ool_call>''"] lit [of "CHR ''t''" "''ool_calls>''"]
      lit [of "CHR ''c''" "''odebuff_tool_call>''"] lit [of "CHR ''f''" "''unction_call>''"]
    unfolding tool_xml_name_def by simp_all
  then have "fold (try_literal ?s) literal_shapes None = Some (length w + 2, Shape_Tool_Call)"
    by (simp add: literal_shapes_def try_literal_def opener_tag_def earlier_def del: str_index.simps)
  moreover have "rx_find (rx_pipe ''start'') ?s = None"
  proof -
    have "rx_find (rx_pipe ''start'') ?e = None" by code_simp
    then have "rx_find (rx_pipe ''start'') (?v @ ?e) = None" by (rule rx_pipe_skip [OF v(1)])
    moreover have "rx_try (rx_pipe ''start'') ?s = []" by (simp add: rx_pipe_def rx_bar_def eat_def)
    ultimately show ?thesis by simp
  qed
  moreover have "fence_opener ?s 0 = None"
  proof -
    have "byte 96 \<notin> set ?e" "byte 96 \<notin> set ''< ''" by code_simp+
    then have "byte 96 \<notin> set ?s" using v(2) by simp
    then have "str_index (drop 0 ?s) fence = None" unfolding drop_0 by (rule no_fence)
    then show ?thesis by (subst fence_opener.simps) (simp only: option.case if_cancel)
  qed
  ultimately show ?thesis by (simp add: find_opener_def Let_def try_pipe_def)
qed

definition empty_args :: "json \<Rightarrow> string" where
  "empty_args _ = ''{}''"

definition name_only_args :: "json \<Rightarrow> string" where
  "name_only_args v = (case v of J_Obj ((k, J_Str t) # _) \<Rightarrow> k @ ''='' @ t | _ \<Rightarrow> ''{}'')"

text \<open>C39: Four streams the extractor serves worse than its comments say. Prose between a withheld partial opener
  and a real opener in the next fragment is dropped (here everything from the \<^verbatim>\<open><\<close> of \<^verbatim>\<open>a < ...\<close> to the block, for
  any prose without tags); an opener split across fragments after a block in the same fragment is not recognised,
  so the second call is relayed as text; a dangling \<^verbatim>\<open>codebuff_tool_call\<close> tag survives the scrubbing that removes
  the other tags; and a JSON call without arguments gets its own name as an argument.\<close>

theorem extractor_shortfalls:
  assumes "plain_prose w"
  shows "(\<exists>x. feed_all marshal [''a <'', '' '' @ w @ ''<tool_call>''] new_extractor = (''a '', [], x) \<and>
            xt_buf x = ''<tool_call>'' \<and>
            losses marshal [''a <'', '' '' @ w @ ''<tool_call>''] new_extractor = ''< '' @ w) \<and>
    fst (feed_all empty_args [''<tool_call><function=f></function></tool_call><tool_'',
           ''call><function=g></function></tool_call>''] new_extractor) = ''<tool_call><function=g></function></tool_call>'' \<and>
    scrub_tags ''ok</codebuff_tool_call>'' = ''ok</codebuff_tool_call>'' \<and> scrub_tags ''ok</tool_call>'' = ''ok'' \<and>
    parse_tool_call name_only_args (''{'' @ [byte 34] @ ''name'' @ [byte 34] @ '':'' @ [byte 34] @ ''ls'' @ [byte 34] @ ''}'') =
      Some \<lparr>tc_name = ''ls'', tc_args = ''name=ls''\<rparr>"
proof (intro conjI)
  let ?x1 = "\<lparr>xt_buf = ''<'', xt_shape = Shape_Pending, xt_fence_brace = Some 0\<rparr>"
  let ?s = "''< '' @ w @ ''<tool_call>''"
  have "fst (find_opener ''a <'' new_extractor) = None \<and> partial_opener_len ''a <'' = 1" by code_simp
  then have one: "feed marshal ''a <'' new_extractor = (''a '', [], ?x1)"
    by (simp add: feed_def feed_open_def hold_partial_def new_extractor_def)
  have rest: "drop (length w + 2) ?s = ''<tool_call>''" "take (length w + 2) ?s = ''< '' @ w" by simp_all
  let ?x2 = "release_buf ?x1\<lparr>xt_shape := Shape_Tool_Call\<rparr>"
  have opener: "find_opener ''<tool_call>'' x = (Some 0, x\<lparr>xt_shape := Shape_Tool_Call\<rparr>)" for x
    using find_opener_block [of Shape_Tool_Call "''''" x] by (simp add: literal_shapes_def opener_tag_def)
  have two: "feed marshal ('' '' @ w @ ''<tool_call>'') ?x1 = ('''', [], ?x2\<lparr>xt_buf := ''<tool_call>''\<rparr>)"
  proof -
    have "feed marshal ('' '' @ w @ ''<tool_call>'') ?x1 = feed_open marshal ''<tool_call>'' ?x2"
      using prose_before_block [OF assms, of "release_buf ?x1"] rest(1) by (simp add: feed_def Let_def)
    also have "\<dots> = feed_loop marshal '''' [] ''<tool_call>'' ?x2"
      using opener [of ?x2] by (simp add: feed_open_def release_buf_def)
    also have "\<dots> = ('''', [], ?x2\<lparr>xt_buf := ''<tool_call>''\<rparr>)"
      using opener [of ?x2]
      by (simp add: feed_loop.simps [of _ _ _ "''<tool_call>''"] open_candidate_def release_buf_def closer_end_def
          literal_shapes_def xml_stream_closer_def max_stream_xml_buffer_def)
    finally show ?thesis .
  qed
  have "losses marshal [''a <'', '' '' @ w @ ''<tool_call>''] new_extractor = ''< '' @ w"
    using one prose_before_block [OF assms, of "release_buf ?x1"] rest(2)
    by (simp add: lost_by_def new_extractor_def)
  then show "\<exists>x. feed_all marshal [''a <'', '' '' @ w @ ''<tool_call>''] new_extractor = (''a '', [], x) \<and>
      xt_buf x = ''<tool_call>'' \<and> losses marshal [''a <'', '' '' @ w @ ''<tool_call>''] new_extractor = ''< '' @ w"
    using one two by simp
  show "fst (feed_all empty_args [''<tool_call><function=f></function></tool_call><tool_'',
      ''call><function=g></function></tool_call>''] new_extractor) = ''<tool_call><function=g></function></tool_call>''"
    by code_simp
  show "scrub_tags ''ok</codebuff_tool_call>'' = ''ok</codebuff_tool_call>''" "scrub_tags ''ok</tool_call>'' = ''ok''"
    by code_simp+
  show "parse_tool_call name_only_args (''{'' @ [byte 34] @ ''name'' @ [byte 34] @ '':'' @ [byte 34] @ ''ls'' @ [byte 34] @ ''}'') =
      Some \<lparr>tc_name = ''ls'', tc_args = ''name=ls''\<rparr>"
    by code_simp
qed

theorem extractor_shortfalls_witness:
  "plain_prose ''b or '' \<and> fst (feed_all empty_args [''a <'', '' b or <tool_call>''] new_extractor) = ''a ''"
proof -
  have p: "plain_prose ''b or ''" by code_simp
  show ?thesis using extractor_shortfalls [OF p, of empty_args] p by auto
qed

end
