(* ===== verification/Anthropic_Stream.thy ===== *)
theory Anthropic_Stream
  imports Tool_Stream Reasoning_Cache
begin

text \<open>
  The relay that turns the upstream chat stream into Anthropic message events,
  \<^verbatim>\<open>backend/internal/server/anthropic_stream.go\<close> with \<^verbatim>\<open>feedXMLToolCalls\<close> of \<^verbatim>\<open>stream_shared.go\<close>. The input is
  the sequence of sanitized chunks, decoded, and how the stream ends; the output is the list of events. The map
  of tool blocks is a list in the order of its keys, which is the order its users sort it into; random ids are
  an argument, by the number of the draw.
\<close>

datatype block_kind = Thinking_Block | Text_Block | Tool_Block string string

datatype stream_event =
    Message_Start string
  | Block_Start nat block_kind
  | Thinking_Delta nat string
  | Signature_Delta nat
  | Text_Delta nat string
  | Input_Delta nat string
  | Block_Stop nat
  | Message_Delta string
  | Message_Stop
  | Error_Event string string

record tool_state =
  ts_index :: nat
  ts_id :: string
  ts_name :: string
  ts_started :: bool
  ts_closed :: bool
  ts_args :: string

record tool_mapper =
  tm_to_client :: "string \<rightharpoonup> string"
  tm_to_upstream :: "string \<rightharpoonup> string"

record anthropic_state =
  as_model :: string
  as_thinking_started :: bool
  as_thinking_index :: nat
  as_thinking_closed :: bool
  as_text_started :: bool
  as_text_index :: nat
  as_text_closed :: bool
  as_next :: nat
  as_tools :: "(int \<times> tool_state) list"
  as_end_turn :: "int list"
  as_finish :: string
  as_saw_tool :: bool
  as_thinking_parts :: "string list"
  as_text_parts :: "string list"
  as_tool_ids :: "string list"
  as_draw :: nat
  as_out :: "stream_event list"

definition new_anthropic_state :: "string \<Rightarrow> anthropic_state" where
  "new_anthropic_state model =
     \<lparr>as_model = model, as_thinking_started = False, as_thinking_index = 0, as_thinking_closed = False,
      as_text_started = False, as_text_index = 0, as_text_closed = False, as_next = 0, as_tools = [], as_end_turn = [],
      as_finish = ''end_turn'', as_saw_tool = False, as_thinking_parts = [], as_text_parts = [], as_tool_ids = [],
      as_draw = 0, as_out = []\<rparr>"

definition send :: "stream_event list \<Rightarrow> anthropic_state \<Rightarrow> anthropic_state" where
  "send evs st = st\<lparr>as_out := as_out st @ evs\<rparr>"

section \<open>Names and ids\<close>

definition restore_name :: "tool_mapper \<Rightarrow> string \<Rightarrow> string" where
  "restore_name tm n =
     (case tm_to_client tm n of
        Some c \<Rightarrow> c
      | None \<Rightarrow>
          let stripped = drop 5 n
          in if take 5 n = ''mcp__'' \<and> stripped \<noteq> '''' \<and> tm_to_upstream tm stripped = Some n then stripped else n)"

definition id_char :: "char \<Rightarrow> bool" where
  "id_char c \<longleftrightarrow> is_letter c \<or> is_digit c \<or> c = CHR ''_'' \<or> c = CHR ''-''"

text \<open>The flag says that a random id was drawn.\<close>

definition sanitize_tool_id :: "string \<Rightarrow> string \<Rightarrow> bool \<times> string" where
  "sanitize_tool_id rnd i =
     (let s = filter id_char (trim_space i) in if s = '''' then (True, ''toolu_'' @ rnd) else (False, s))"

section \<open>Blocks\<close>

text \<open>Stops for the open tool blocks whose upstream index is selected, in the order of the indexes.\<close>

fun close_tool_list :: "(int \<Rightarrow> bool) \<Rightarrow> (int \<times> tool_state) list \<Rightarrow> (int \<times> tool_state) list \<times> stream_event list" where
  "close_tool_list sel [] = ([], [])"
| "close_tool_list sel ((i, ts) # r) =
     (case close_tool_list sel r of (r', evs) \<Rightarrow>
        if sel i \<and> ts_started ts \<and> \<not> ts_closed ts
        then ((i, ts\<lparr>ts_closed := True\<rparr>) # r', Block_Stop (ts_index ts) # evs)
        else ((i, ts) # r', evs))"

definition close_tools :: "(int \<Rightarrow> bool) \<Rightarrow> anthropic_state \<Rightarrow> anthropic_state" where
  "close_tools sel st =
     (case close_tool_list sel (as_tools st) of (ts, evs) \<Rightarrow> send evs (st\<lparr>as_tools := ts\<rparr>))"

definition close_open_tool_calls :: "anthropic_state \<Rightarrow> anthropic_state" where
  "close_open_tool_calls st = close_tools (\<lambda>_. True) st"

definition close_other_open_tool_calls :: "int \<Rightarrow> anthropic_state \<Rightarrow> anthropic_state" where
  "close_other_open_tool_calls i st = close_tools (\<lambda>j. j \<noteq> i) st"

definition close_thinking :: "anthropic_state \<Rightarrow> anthropic_state" where
  "close_thinking st =
     (if \<not> as_thinking_started st \<or> as_thinking_closed st then st
      else send [Signature_Delta (as_thinking_index st), Block_Stop (as_thinking_index st)]
             (st\<lparr>as_thinking_closed := True\<rparr>))"

definition close_text :: "anthropic_state \<Rightarrow> anthropic_state" where
  "close_text st =
     (if \<not> as_text_started st \<or> as_text_closed st then st
      else send [Block_Stop (as_text_index st)] (st\<lparr>as_text_closed := True, as_text_started := False\<rparr>))"

definition ensure_thinking :: "anthropic_state \<Rightarrow> anthropic_state" where
  "ensure_thinking st =
     (if as_thinking_started st \<and> \<not> as_thinking_closed st then st
      else
        let s = close_open_tool_calls (close_text st)
        in send [Block_Start (as_next s) Thinking_Block]
             (s\<lparr>as_thinking_index := as_next s, as_next := as_next s + 1, as_thinking_started := True,
                as_thinking_closed := False\<rparr>))"

definition ensure_text :: "anthropic_state \<Rightarrow> anthropic_state" where
  "ensure_text st =
     (if as_text_started st then st
      else
        let s = close_open_tool_calls (close_thinking st)
        in send [Block_Start (as_next s) Text_Block]
             (s\<lparr>as_text_index := as_next s, as_next := as_next s + 1, as_text_started := True, as_text_closed := False\<rparr>))"

fun put_tool :: "int \<Rightarrow> tool_state \<Rightarrow> (int \<times> tool_state) list \<Rightarrow> (int \<times> tool_state) list" where
  "put_tool i t [] = [(i, t)]"
| "put_tool i t ((j, u) # r) =
     (if i = j then (i, t) # r else if i < j then (i, t) # (j, u) # r else (j, u) # put_tool i t r)"

text \<open>The block of an upstream index, made on first use with the next free index.\<close>

definition tool_state_for :: "int \<Rightarrow> anthropic_state \<Rightarrow> tool_state \<times> anthropic_state" where
  "tool_state_for i st =
     (case map_of (as_tools st) i of
        Some ts \<Rightarrow> (ts, st)
      | None \<Rightarrow>
          let ts = \<lparr>ts_index = as_next st, ts_id = '''', ts_name = '''', ts_started = False, ts_closed = False, ts_args = ''''\<rparr>
          in (ts, st\<lparr>as_next := as_next st + 1, as_tools := put_tool i ts (as_tools st)\<rparr>))"

definition ensure_started :: "(nat \<Rightarrow> string) \<Rightarrow> int \<Rightarrow> tool_state \<Rightarrow> anthropic_state \<Rightarrow> tool_state \<times> anthropic_state" where
  "ensure_started rnd i ts st =
     (if ts_started ts \<and> \<not> ts_closed ts then (ts, st)
      else
        let again = ts_started ts \<and> ts_closed ts;
            ts1 = (if again then ts\<lparr>ts_index := as_next st, ts_started := True, ts_closed := False\<rparr>
                   else ts\<lparr>ts_started := True\<rparr>);
            (drawn, out_id) = sanitize_tool_id (rnd (as_draw st)) (ts_id ts)
        in (ts1, send (Block_Start (ts_index ts1) (Tool_Block out_id (ts_name ts1)) #
                       (if ts_args ts1 \<noteq> '''' then [Input_Delta (ts_index ts1) (ts_args ts1)] else []))
                   (st\<lparr>as_next := as_next st + (if again then 1 else 0), as_draw := as_draw st + (if drawn then 1 else 0),
                       as_tools := put_tool i ts1 (as_tools st)\<rparr>)))"

section \<open>One chunk\<close>

record tool_fragment =
  tf_index :: int
  tf_id :: string
  tf_name :: string
  tf_args :: string

definition int_of :: "json option \<Rightarrow> int option" where
  "int_of v = (case v of Some (J_Num r) \<Rightarrow> Some (truncate_rat r) | _ \<Rightarrow> None)"

definition fragment_of :: "json \<Rightarrow> tool_fragment option" where
  "fragment_of v =
     (case v of
        J_Obj ms \<Rightarrow>
          let fn = (case obj_get ms ''function'' of Some (J_Obj fs) \<Rightarrow> fs | _ \<Rightarrow> [])
          in Some \<lparr>tf_index = (case int_of (obj_get ms ''index'') of Some i \<Rightarrow> i | None \<Rightarrow> 0),
                   tf_id = str_value (obj_get ms ''id''), tf_name = str_value (obj_get fn ''name''),
                   tf_args = str_value (obj_get fn ''arguments'')\<rparr>
      | _ \<Rightarrow> None)"

text \<open>The ids seen, for the reasoning cache: each id and what it is on the wire, once.\<close>

definition note_tool_id :: "(nat \<Rightarrow> string) \<Rightarrow> string \<Rightarrow> anthropic_state \<Rightarrow> anthropic_state" where
  "note_tool_id rnd i st =
     (if i = '''' \<or> i \<in> set (as_tool_ids st) then st
      else
        let (drawn, sid) = sanitize_tool_id (rnd (as_draw st)) i;
            ids = as_tool_ids st @ [i]
        in st\<lparr>as_tool_ids := (if sid \<noteq> i \<and> sid \<notin> set ids then ids @ [sid] else ids),
              as_draw := as_draw st + (if drawn then 1 else 0)\<rparr>)"

definition accumulate_fragment :: "(nat \<Rightarrow> string) \<Rightarrow> tool_mapper \<Rightarrow> tool_fragment \<Rightarrow> anthropic_state \<Rightarrow> anthropic_state" where
  "accumulate_fragment rnd tm f st =
     (let i = tf_index f;
          name = (if tf_name f \<noteq> '''' then restore_name tm (tf_name f) else '''')
      in if name = ''end_turn'' \<or> name = ''decide'' then st\<lparr>as_end_turn := i # as_end_turn st\<rparr>
         else if i \<in> set (as_end_turn st) then st
         else
           let (ts, s1) = tool_state_for i (close_other_open_tool_calls i (st\<lparr>as_saw_tool := True\<rparr>));
               ts1 = (if tf_id f \<noteq> '''' then ts\<lparr>ts_id := tf_id f\<rparr> else ts);
               s2 = note_tool_id rnd (tf_id f) (s1\<lparr>as_tools := put_tool i ts1 (as_tools s1)\<rparr>);
               (ts2, s3) = (if name \<noteq> '''' \<and> ts_name ts1 = '''' then ensure_started rnd i (ts1\<lparr>ts_name := name\<rparr>) s2
                            else (ts1, s2))
           in if tf_args f = '''' then s3
              else if ts_name ts2 \<noteq> '''' then
                let (ts3, s4) = ensure_started rnd i ts2 s3;
                    ts4 = ts3\<lparr>ts_args := ts_args ts3 @ tf_args f\<rparr>
                in send [Input_Delta (ts_index ts4) (tf_args f)] (s4\<lparr>as_tools := put_tool i ts4 (as_tools s4)\<rparr>)
              else s3\<lparr>as_tools := put_tool i (ts2\<lparr>ts_args := ts_args ts2 @ tf_args f\<rparr>) (as_tools s3)\<rparr>)"

definition stop_reason_of :: "string \<Rightarrow> string" where
  "stop_reason_of r =
     (if r = ''tool_calls'' \<or> r = ''function_call'' then ''tool_use''
      else if r = ''stop'' \<or> r = '''' then ''end_turn''
      else if r = ''length'' then ''max_tokens''
      else if r = ''content_filter'' then ''refusal'' else r)"

definition reasoning_keys :: "string list" where
  "reasoning_keys = [''reasoning_content'', ''reasoning'', ''reasoning_text'', ''thinking'']"

definition first_string_of :: "(string \<times> json) list \<Rightarrow> string list \<Rightarrow> string" where
  "first_string_of ms ks =
     (case filter (\<lambda>t. t \<noteq> '''') (map (\<lambda>k. str_value (obj_get ms k)) ks) of [] \<Rightarrow> '''' | t # _ \<Rightarrow> t)"

definition accumulate_reasoning :: "string \<Rightarrow> anthropic_state \<Rightarrow> anthropic_state" where
  "accumulate_reasoning r st =
     (if r = '''' then st
      else let s = ensure_thinking (st\<lparr>as_thinking_parts := as_thinking_parts st @ [r]\<rparr>)
           in send [Thinking_Delta (as_thinking_index s) r] s)"

definition accumulate_text :: "string \<Rightarrow> anthropic_state \<Rightarrow> anthropic_state" where
  "accumulate_text t st =
     (if t = '''' then st
      else let s = ensure_text (st\<lparr>as_text_parts := as_text_parts st @ [t]\<rparr>) in send [Text_Delta (as_text_index s) t] s)"

definition accumulate_tools :: "(nat \<Rightarrow> string) \<Rightarrow> tool_mapper \<Rightarrow> json list \<Rightarrow> anthropic_state \<Rightarrow> anthropic_state" where
  "accumulate_tools rnd tm tcs st =
     (if tcs = [] then st
      else fold (accumulate_fragment rnd tm) (List.map_filter fragment_of tcs) (close_text (close_thinking st)))"

definition json_list :: "json option \<Rightarrow> json list" where
  "json_list v = (case v of Some (J_Arr vs) \<Rightarrow> vs | _ \<Rightarrow> [])"

definition accumulate_delta ::
  "(nat \<Rightarrow> string) \<Rightarrow> tool_mapper \<Rightarrow> (string \<times> json) list \<Rightarrow> anthropic_state \<Rightarrow> anthropic_state" where
  "accumulate_delta rnd tm d st =
     accumulate_tools rnd tm (json_list (obj_get d ''tool_calls''))
       (accumulate_text (str_value (obj_get d ''content'')) (accumulate_reasoning (first_string_of d reasoning_keys) st))"

definition accumulate_chunk ::
  "(nat \<Rightarrow> string) \<Rightarrow> tool_mapper \<Rightarrow> (string \<times> json) list \<Rightarrow> anthropic_state \<Rightarrow> anthropic_state" where
  "accumulate_chunk rnd tm chunk st =
     (case json_list (obj_get chunk ''choices'') of
        J_Obj choice # _ \<Rightarrow>
          let fr = str_value (obj_get choice ''finish_reason'');
              s = (if fr \<noteq> '''' then st\<lparr>as_finish := stop_reason_of fr\<rparr> else st)
          in (case obj_get choice ''delta'' of Some (J_Obj d) \<Rightarrow> accumulate_delta rnd tm d s | _ \<Rightarrow> s)
      | _ \<Rightarrow> st)"

section \<open>The end\<close>

definition final_stop_reason :: "anthropic_state \<Rightarrow> string" where
  "final_stop_reason st =
     (if as_finish st = ''end_turn'' \<and> as_saw_tool st then ''tool_use''
      else if \<not> as_saw_tool st \<and> as_finish st = ''tool_use'' then ''end_turn'' else as_finish st)"

definition finalize_stream :: "anthropic_state \<Rightarrow> anthropic_state" where
  "finalize_stream st =
     (let s = close_open_tool_calls (close_text (close_thinking st))
      in send [Message_Delta (final_stop_reason s), Message_Stop] s)"

text \<open>The key under which the turn's reasoning is stored. The id of a call is what \<^verbatim>\<open>sanitizeToolID\<close> makes of it
  now, which is a new random one when none came.\<close>

fun canonical_triples :: "(nat \<Rightarrow> string) \<Rightarrow> nat \<Rightarrow> (int \<times> tool_state) list \<Rightarrow> (string \<times> string \<times> string) list" where
  "canonical_triples rnd n [] = []"
| "canonical_triples rnd n ((i, ts) # r) =
     (let (drawn, sid) = sanitize_tool_id (rnd n) (ts_id ts)
      in (if sid = '''' then [] else [(sid, ts_name ts, ts_args ts)]) @
         canonical_triples rnd (n + (if drawn then 1 else 0)) r)"

definition reasoning_put ::
  "(nat \<Rightarrow> string) \<Rightarrow> (json \<Rightarrow> string) \<Rightarrow> anthropic_state \<Rightarrow> (string list \<times> string \<times> string \<times> string \<times> string) option" where
  "reasoning_put rnd marshal st =
     (let thinking = concat (as_thinking_parts st)
      in if thinking = '''' then None
         else Some (as_tool_ids st, concat (as_text_parts st),
                    canonical_tool_key marshal (canonical_triples rnd (as_draw st) (as_tools st)), thinking, as_model st))"

section \<open>Tool calls in the text\<close>

definition obj_set :: "(string \<times> json) list \<Rightarrow> string \<Rightarrow> json \<Rightarrow> (string \<times> json) list" where
  "obj_set ms k v = filter (\<lambda>m. fst m \<noteq> k) ms @ [(k, v)]"

definition obj_del :: "(string \<times> json) list \<Rightarrow> string \<Rightarrow> (string \<times> json) list" where
  "obj_del ms k = filter (\<lambda>m. fst m \<noteq> k) ms"

definition bump_xml_call_index :: "json list \<Rightarrow> int \<Rightarrow> int" where
  "bump_xml_call_index tcs n =
     fold (\<lambda>v m. case v of
             J_Obj ms \<Rightarrow> (case int_of (obj_get ms ''index'') of Some i \<Rightarrow> if i \<ge> m then i + 1 else m | None \<Rightarrow> m)
           | _ \<Rightarrow> m) tcs n"

text \<open>The id of an extracted call, random in the code, is an argument by its synthetic index.\<close>

definition tool_call_delta_fragment :: "(int \<Rightarrow> string) \<Rightarrow> int \<Rightarrow> tool_call \<Rightarrow> json" where
  "tool_call_delta_fragment call_id n c =
     J_Obj [(''index'', J_Num (of_int n)), (''id'', J_Str (call_id n)), (''type'', J_Str ''function''),
            (''function'', J_Obj [(''name'', J_Str (tc_name c)), (''arguments'', J_Str (tc_args c))])]"

fun number_calls :: "(int \<Rightarrow> string) \<Rightarrow> tool_call list \<Rightarrow> int \<Rightarrow> json list \<times> int" where
  "number_calls call_id [] n = ([], n)"
| "number_calls call_id (c # cs) n =
     (if tc_name c = ''end_turn'' \<or> tc_name c = ''decide'' then number_calls call_id cs n
      else case number_calls call_id cs (n + 1) of (fs, m) \<Rightarrow> (tool_call_delta_fragment call_id n c # fs, m))"

definition feed_delta ::
  "(json \<Rightarrow> string) \<Rightarrow> (int \<Rightarrow> string) \<Rightarrow> (string \<times> json) list \<Rightarrow> extractor \<Rightarrow> int \<Rightarrow> (string \<times> json) list \<times> extractor \<times> int" where
  "feed_delta marshal call_id d x n =
     (let content = str_value (obj_get d ''content'')
      in if content = '''' then (d, x, n)
         else case feed marshal content x of
           (t, calls, x1) \<Rightarrow>
             let d1 = (if t = content then d else if t = '''' then obj_del d ''content'' else obj_set d ''content'' (J_Str t))
             in if calls = [] then (d1, x1, n)
                else
                  let tcs = json_list (obj_get d1 ''tool_calls'');
                      (frags, m) = number_calls call_id calls (bump_xml_call_index tcs n)
                  in (if frags = [] then d1 else obj_set d1 ''tool_calls'' (J_Arr (tcs @ frags)), x1, m))"

fun feed_choices ::
  "(json \<Rightarrow> string) \<Rightarrow> (int \<Rightarrow> string) \<Rightarrow> json list \<Rightarrow> extractor \<Rightarrow> int \<Rightarrow> json list \<times> extractor \<times> int" where
  "feed_choices marshal call_id [] x n = ([], x, n)"
| "feed_choices marshal call_id (v # vs) x n =
     (let (v', x1, n1) =
            (case v of
               J_Obj choice \<Rightarrow>
                 (case obj_get choice ''delta'' of
                    Some (J_Obj d) \<Rightarrow>
                      (case feed_delta marshal call_id d x n of
                         (d', x1, n1) \<Rightarrow> (J_Obj (obj_set choice ''delta'' (J_Obj d')), x1, n1))
                  | _ \<Rightarrow> (v, x, n))
             | _ \<Rightarrow> (v, x, n))
      in case feed_choices marshal call_id vs x1 n1 of (vs', x2, n2) \<Rightarrow> (v' # vs', x2, n2))"

definition feed_xml_tool_calls ::
  "(json \<Rightarrow> string) \<Rightarrow> (int \<Rightarrow> string) \<Rightarrow> (string \<times> json) list \<Rightarrow> extractor \<Rightarrow> int \<Rightarrow> (string \<times> json) list \<times> extractor \<times> int" where
  "feed_xml_tool_calls marshal call_id chunk x n =
     (case obj_get chunk ''choices'' of
        Some (J_Arr vs) \<Rightarrow>
          (case feed_choices marshal call_id vs x n of
             (vs', x1, n1) \<Rightarrow> (obj_set chunk ''choices'' (J_Arr vs'), x1, n1))
      | _ \<Rightarrow> (chunk, x, n))"

section \<open>The relay\<close>

datatype relay_input =
    Chunk "(string \<times> json) list"
  | Read_Error string
  | Stream_Ended
  | Client_Gone

record relay =
  ry_state :: anthropic_state
  ry_extractor :: extractor
  ry_xml_index :: int
  ry_over :: bool

record relay_env =
  re_rnd :: "nat \<Rightarrow> string"
  re_call_id :: "int \<Rightarrow> string"
  re_marshal :: "json \<Rightarrow> string"
  re_mapper :: tool_mapper
  re_served :: string

definition start_relay :: "relay_env \<Rightarrow> string \<Rightarrow> relay" where
  "start_relay en requested =
     (let model = (if re_served en = '''' then requested else re_served en)
      in \<lparr>ry_state = send [Message_Start model] (new_anthropic_state model), ry_extractor = new_extractor,
          ry_xml_index = 0, ry_over = False\<rparr>)"

text \<open>A block still open at the end goes through the same accumulation.\<close>

definition flush_xml_tool_calls :: "relay_env \<Rightarrow> relay \<Rightarrow> relay" where
  "flush_xml_tool_calls en ry =
     (case flush (re_marshal en) (ry_extractor ry) of
        (t, calls, x1) \<Rightarrow>
          (case number_calls (re_call_id en) calls (ry_xml_index ry) of
             (frags, n) \<Rightarrow>
               let d = (if t = '''' then [] else [(''content'', J_Str t)]) @
                       (if frags = [] then [] else [(''tool_calls'', J_Arr frags)])
               in ry\<lparr>ry_extractor := x1, ry_xml_index := n,
                     ry_state := (if d = [] then ry_state ry
                                  else accumulate_chunk (re_rnd en) (re_mapper en)
                                         [(''choices'', J_Arr [J_Obj [(''delta'', J_Obj d)]])] (ry_state ry))\<rparr>))"

definition error_fields :: "json \<Rightarrow> string \<times> string" where
  "error_fields v =
     (let (msg, typ) = (case v of
            J_Obj ms \<Rightarrow> (str_value (obj_get ms ''message''), str_value (obj_get ms ''type''))
          | J_Str t \<Rightarrow> (t, '''') | _ \<Rightarrow> ('''', ''''))
      in (if typ = '''' then ''upstream_error'' else typ, if msg = '''' then ''upstream error'' else msg))"

definition end_with_error :: "relay_env \<Rightarrow> string \<Rightarrow> string \<Rightarrow> relay \<Rightarrow> relay" where
  "end_with_error en typ msg ry =
     (let r = flush_xml_tool_calls en ry
      in r\<lparr>ry_state := send [Error_Event typ (''upstream stream error: '' @ msg)] (ry_state r), ry_over := True\<rparr>)"

definition relay_chunk :: "relay_env \<Rightarrow> (string \<times> json) list \<Rightarrow> relay \<Rightarrow> relay" where
  "relay_chunk en chunk ry =
     (let st = ry_state ry;
          m = str_value (obj_get chunk ''model'');
          st1 = (if re_served en = '''' \<and> m \<noteq> '''' then st\<lparr>as_model := m\<rparr> else st)
      in case feed_xml_tool_calls (re_marshal en) (re_call_id en) chunk (ry_extractor ry) (ry_xml_index ry) of
           (chunk1, x1, n1) \<Rightarrow>
             ry\<lparr>ry_state := accumulate_chunk (re_rnd en) (re_mapper en) chunk1 st1, ry_extractor := x1, ry_xml_index := n1\<rparr>)"

definition relay_step :: "relay_env \<Rightarrow> relay_input \<Rightarrow> relay \<Rightarrow> relay" where
  "relay_step en inp ry =
     (if ry_over ry then ry
      else case inp of
        Client_Gone \<Rightarrow> ry\<lparr>ry_over := True\<rparr>
      | Read_Error msg \<Rightarrow> end_with_error en ''api_error'' msg ry
      | Stream_Ended \<Rightarrow>
          (let r = flush_xml_tool_calls en ry in r\<lparr>ry_state := finalize_stream (ry_state r), ry_over := True\<rparr>)
      | Chunk chunk \<Rightarrow>
          (case obj_get chunk ''error'' of
             Some v \<Rightarrow>
               if v = J_Null then relay_chunk en chunk ry
               else (case error_fields v of (typ, msg) \<Rightarrow> end_with_error en typ msg ry)
           | None \<Rightarrow> relay_chunk en chunk ry))"

definition relay_anthropic :: "relay_env \<Rightarrow> string \<Rightarrow> relay_input list \<Rightarrow> stream_event list" where
  "relay_anthropic en requested inps = as_out (ry_state (fold (relay_step en) inps (start_relay en requested)))"

end
