(* ===== verification/Anthropic_Wire.thy ===== *)
theory Anthropic_Wire
  imports Anthropic_Stream
begin

text \<open>
  A client of the message protocol as an automaton over the events, and the invariant of the Anthropic relay: its
  flags name the one block that is open on the wire, indexes are never used twice, and what the events carry is what
  was gathered. Each operation on blocks keeps it.
\<close>

section \<open>The protocol\<close>

text \<open>What a client of the message protocol has seen: the block it is in, and the indexes used so far.\<close>

datatype wire_phase =
    Not_Begun
  | Streaming "(nat \<times> block_kind) option" "nat list"
  | Finishing
  | Completed
  | Failed_Message
  | Protocol_Error

text \<open>The index a delta is for, when it is one of a block of this kind.\<close>

definition delta_index :: "block_kind \<Rightarrow> stream_event \<Rightarrow> nat option" where
  "delta_index k e =
     (case e of
        Thinking_Delta i t \<Rightarrow> if k = Thinking_Block then Some i else None
      | Signature_Delta i \<Rightarrow> if k = Thinking_Block then Some i else None
      | Text_Delta i t \<Rightarrow> if k = Text_Block then Some i else None
      | Input_Delta i t \<Rightarrow> (case k of Tool_Block a b \<Rightarrow> Some i | _ \<Rightarrow> None)
      | _ \<Rightarrow> None)"

definition wire_step :: "wire_phase \<Rightarrow> stream_event \<Rightarrow> wire_phase" where
  "wire_step p e =
     (case p of
        Not_Begun \<Rightarrow> (case e of Message_Start m \<Rightarrow> Streaming None [] | _ \<Rightarrow> Protocol_Error)
      | Streaming b used \<Rightarrow>
          (case e of
             Error_Event t m \<Rightarrow> Failed_Message
           | Block_Start i k \<Rightarrow> if b = None \<and> i \<notin> set used then Streaming (Some (i, k)) (i # used) else Protocol_Error
           | Message_Delta r \<Rightarrow> if b = None then Finishing else Protocol_Error
           | Block_Stop i \<Rightarrow> if map_option fst b = Some i then Streaming None used else Protocol_Error
           | _ \<Rightarrow> (case b of
                    Some (i, k) \<Rightarrow> if delta_index k e = Some i then p else Protocol_Error
                  | None \<Rightarrow> Protocol_Error))
      | Finishing \<Rightarrow> (case e of Message_Stop \<Rightarrow> Completed | _ \<Rightarrow> Protocol_Error)
      | _ \<Rightarrow> Protocol_Error)"

lemma wire_step_simps [simp]:
  "wire_step Not_Begun (Message_Start m) = Streaming None []"
  "wire_step (Streaming None used) (Block_Start i k) =
     (if i \<in> set used then Protocol_Error else Streaming (Some (i, k)) (i # used))"
  "wire_step (Streaming (Some (i, Thinking_Block)) used) (Thinking_Delta i t) = Streaming (Some (i, Thinking_Block)) used"
  "wire_step (Streaming (Some (i, Thinking_Block)) used) (Signature_Delta i) = Streaming (Some (i, Thinking_Block)) used"
  "wire_step (Streaming (Some (i, Text_Block)) used) (Text_Delta i t) = Streaming (Some (i, Text_Block)) used"
  "wire_step (Streaming (Some (i, Tool_Block a b)) used) (Input_Delta i t) = Streaming (Some (i, Tool_Block a b)) used"
  "wire_step (Streaming (Some (i, k)) used) (Block_Stop i) = Streaming None used"
  "wire_step (Streaming None used) (Message_Delta r) = Finishing"
  "wire_step Finishing Message_Stop = Completed"
  "wire_step (Streaming c used) (Error_Event t m) = Failed_Message"
  by (simp_all add: wire_step_def delta_index_def)

definition wire :: "stream_event list \<Rightarrow> wire_phase" where
  "wire evs = foldl wire_step Not_Begun evs"

lemma wire_append: "wire (evs @ fs) = foldl wire_step (wire evs) fs"
  by (simp add: wire_def)

text \<open>What the client assembles.\<close>

definition seen_text :: "stream_event list \<Rightarrow> string" where
  "seen_text evs = concat (map (\<lambda>e. case e of Text_Delta i t \<Rightarrow> t | _ \<Rightarrow> '''') evs)"

definition seen_thinking :: "stream_event list \<Rightarrow> string" where
  "seen_thinking evs = concat (map (\<lambda>e. case e of Thinking_Delta i t \<Rightarrow> t | _ \<Rightarrow> '''') evs)"

definition seen_input :: "stream_event list \<Rightarrow> nat \<Rightarrow> string" where
  "seen_input evs i = concat (map (\<lambda>e. case e of Input_Delta j t \<Rightarrow> if i = j then t else '''' | _ \<Rightarrow> '''') evs)"

lemma seen_simps [simp]:
  "seen_text [] = ''''" "seen_thinking [] = ''''" "seen_input [] i = ''''"
  "seen_text (evs @ fs) = seen_text evs @ seen_text fs"
  "seen_thinking (evs @ fs) = seen_thinking evs @ seen_thinking fs"
  "seen_input (evs @ fs) i = seen_input evs i @ seen_input fs i"
  "seen_text (e # fs) = (case e of Text_Delta i t \<Rightarrow> t | _ \<Rightarrow> '''') @ seen_text fs"
  "seen_thinking (e # fs) = (case e of Thinking_Delta i t \<Rightarrow> t | _ \<Rightarrow> '''') @ seen_thinking fs"
  "seen_input (e # fs) i = (case e of Input_Delta j t \<Rightarrow> if i = j then t else '''' | _ \<Rightarrow> '''') @ seen_input fs i"
  by (simp_all add: seen_text_def seen_thinking_def seen_input_def)

section \<open>The invariant\<close>

datatype opener = Nobody | The_Thinking | The_Text | The_Tool int

definition tool_open :: "tool_state \<Rightarrow> bool" where
  "tool_open ts \<longleftrightarrow> ts_started ts \<and> \<not> ts_closed ts"

abbreviation tool :: "anthropic_state \<Rightarrow> int \<Rightarrow> tool_state option" where
  "tool st k \<equiv> map_of (as_tools st) k"

text \<open>The flags name one open block at most.\<close>

definition flags_ok :: "anthropic_state \<Rightarrow> opener \<Rightarrow> bool" where
  "flags_ok st w \<longleftrightarrow>
     (as_thinking_started st \<and> \<not> as_thinking_closed st \<longleftrightarrow> w = The_Thinking) \<and>
     (as_text_started st \<longleftrightarrow> w = The_Text) \<and> (as_text_started st \<longrightarrow> \<not> as_text_closed st) \<and>
     (\<forall>k ts. tool st k = Some ts \<longrightarrow> (tool_open ts \<longleftrightarrow> w = The_Tool k)) \<and>
     (\<forall>k ts. tool st k = Some ts \<and> ts_started ts \<longrightarrow> ts_name ts \<noteq> '''') \<and>
     (\<forall>k. w = The_Tool k \<longrightarrow> tool st k \<noteq> None) \<and> sorted_wrt (<) (map fst (as_tools st))"

lemma flags_okD:
  assumes "flags_ok st w"
  shows "as_thinking_started st \<and> \<not> as_thinking_closed st \<longleftrightarrow> w = The_Thinking"
    "as_text_started st \<longleftrightarrow> w = The_Text" "as_text_started st \<Longrightarrow> \<not> as_text_closed st"
    "tool st k = Some ts \<Longrightarrow> tool_open ts \<longleftrightarrow> w = The_Tool k" "w = The_Tool k \<Longrightarrow> tool st k \<noteq> None"
    "tool st k = Some ts \<Longrightarrow> ts_started ts \<Longrightarrow> ts_name ts \<noteq> ''''"
  using assms unfolding flags_ok_def by blast+

text \<open>The events agree with the flags.\<close>

definition on_wire :: "anthropic_state \<Rightarrow> opener \<Rightarrow> (nat \<times> block_kind) option \<Rightarrow> bool" where
  "on_wire st w b \<longleftrightarrow>
     (case w of
        Nobody \<Rightarrow> b = None
      | The_Thinking \<Rightarrow> b = Some (as_thinking_index st, Thinking_Block)
      | The_Text \<Rightarrow> b = Some (as_text_index st, Text_Block)
      | The_Tool k \<Rightarrow> (\<exists>ts i n. tool st k = Some ts \<and> b = Some (ts_index ts, Tool_Block i n)))"

definition indexes_ok :: "anthropic_state \<Rightarrow> nat list \<Rightarrow> bool" where
  "indexes_ok st used \<longleftrightarrow>
     (\<forall>i \<in> set used. i < as_next st) \<and>
     (\<forall>k ts. tool st k = Some ts \<longrightarrow> ts_index ts < as_next st) \<and>
     (\<forall>k ts. tool st k = Some ts \<and> \<not> ts_started ts \<longrightarrow> ts_index ts \<notin> set used \<and> \<not> ts_closed ts) \<and>
     (\<forall>k ts l us. tool st k = Some ts \<and> tool st l = Some us \<and> ts_index ts = ts_index us \<longrightarrow> k = l)"

definition contents_ok :: "anthropic_state \<Rightarrow> bool" where
  "contents_ok st \<longleftrightarrow>
     seen_text (as_out st) = concat (as_text_parts st) \<and> seen_thinking (as_out st) = concat (as_thinking_parts st) \<and>
     (\<forall>k ts. tool st k = Some ts \<longrightarrow> seen_input (as_out st) (ts_index ts) = (if ts_started ts then ts_args ts else '''')) \<and>
     (\<forall>i. i \<ge> as_next st \<longrightarrow> seen_input (as_out st) i = '''')"

lemma indexes_okD:
  assumes "indexes_ok st used" "tool st k = Some ts"
  shows "ts_index ts < as_next st" "\<not> ts_started ts \<Longrightarrow> ts_index ts \<notin> set used" "\<not> ts_started ts \<Longrightarrow> \<not> ts_closed ts"
    "tool st l = Some us \<Longrightarrow> ts_index ts = ts_index us \<Longrightarrow> k = l"
  using assms unfolding indexes_ok_def by blast+

lemma contents_okD:
  "contents_ok st \<Longrightarrow> tool st k = Some ts \<Longrightarrow> seen_input (as_out st) (ts_index ts) = (if ts_started ts then ts_args ts else '''')"
  unfolding contents_ok_def by blast

definition stream_ok :: "anthropic_state \<Rightarrow> opener \<Rightarrow> bool" where
  "stream_ok st w \<longleftrightarrow>
     flags_ok st w \<and> contents_ok st \<and>
     (\<exists>b used. wire (as_out st) = Streaming b used \<and> on_wire st w b \<and> indexes_ok st used)"

section \<open>The tool list\<close>

lemma put_tool_keys: "set (map fst (put_tool i t l)) = insert i (set (map fst l))"
proof (induction l)
  case (Cons p l)
  obtain j u where p: "p = (j, u)" by (cases p)
  show ?case
    by (cases "i = j"; cases "i < j") (use Cons p in \<open>simp_all add: insert_commute\<close>)
qed simp

lemma put_tool_sorted: "sorted_wrt (<) (map fst l) \<Longrightarrow> sorted_wrt (<) (map fst (put_tool i t l))"
proof (induction l)
  case (Cons p l)
  obtain j u where p: "p = (j, u)" by (cases p)
  show ?case
  proof (cases "i \<le> j")
    case True
    then show ?thesis using Cons.prems p by (auto simp: order_le_less)
  next
    case False
    have "\<forall>k \<in> set (map fst (put_tool i t l)). j < k"
      unfolding put_tool_keys using Cons.prems p False by auto
    then show ?thesis using Cons p False by auto
  qed
qed simp

lemma put_tool_map: "sorted_wrt (<) (map fst l) \<Longrightarrow> map_of (put_tool i t l) = (map_of l)(i \<mapsto> t)"
proof (induction l)
  case (Cons p l)
  obtain j u where p: "p = (j, u)" by (cases p)
  show ?case
  proof (cases "i < j")
    case True
    have "i \<notin> set (map fst l)" using Cons.prems p True by force
    then show ?thesis using p True by auto
  next
    case False
    then show ?thesis using Cons p by (auto simp: fun_upd_twist)
  qed
qed simp

lemma close_tool_list_map:
  "map_of (fst (close_tool_list sel l)) k =
     map_option (\<lambda>ts. if sel k \<and> tool_open ts then ts\<lparr>ts_closed := True\<rparr> else ts) (map_of l k)"
  by (induction l) (auto simp: tool_open_def split: prod.splits)

lemma close_tool_list_keys: "map fst (fst (close_tool_list sel l)) = map fst l"
  by (induction l) (auto split: prod.splits)

lemma close_tool_list_events:
  "snd (close_tool_list sel l) = map (\<lambda>p. Block_Stop (ts_index (snd p))) (filter (\<lambda>p. sel (fst p) \<and> tool_open (snd p)) l)"
proof (induction l)
  case (Cons p l)
  obtain j u where "p = (j, u)" by (cases p)
  then show ?case using Cons by (cases "close_tool_list sel l") (auto simp: tool_open_def)
qed simp

lemma strict_sorted_distinct: "sorted_wrt (<) (xs :: int list) \<Longrightarrow> distinct xs"
  by (induction xs) auto

lemma filter_key:
  "distinct (map fst l) \<Longrightarrow> map_of l k \<noteq> None \<Longrightarrow> filter (\<lambda>p. fst p = k) l = [(k, the (map_of l k))]"
proof (induction l)
  case (Cons p l)
  obtain j u where p: "p = (j, u)" by (cases p)
  show ?case
  proof (cases "j = k")
    case True
    then have "filter (\<lambda>p. fst p = k) l = []" using Cons.prems p by (force simp: filter_empty_conv)
    then show ?thesis using p True by simp
  qed (use Cons p in auto)
qed simp

lemma open_tools:
  assumes "flags_ok st w"
  shows "filter (\<lambda>p. sel (fst p) \<and> tool_open (snd p)) (as_tools st) =
    (case w of The_Tool k \<Rightarrow> if sel k then [(k, the (tool st k))] else [] | _ \<Rightarrow> [])"
proof -
  let ?l = "as_tools st"
  have sorted: "sorted_wrt (<) (map fst ?l)" using assms by (simp add: flags_ok_def)
  then have dist: "distinct (map fst ?l)" by (rule strict_sorted_distinct)
  have mem: "p \<in> set ?l \<Longrightarrow> tool st (fst p) = Some (snd p)" for p using dist by (cases p) simp
  have "filter (\<lambda>p. sel (fst p) \<and> tool_open (snd p)) ?l = filter (\<lambda>p. sel (fst p) \<and> w = The_Tool (fst p)) ?l"
    using assms mem by (intro filter_cong) (auto simp: flags_ok_def)
  also have "\<dots> = (case w of The_Tool k \<Rightarrow> if sel k then [(k, the (tool st k))] else [] | _ \<Rightarrow> [])"
  proof (cases w)
    case (The_Tool k)
    then have "filter (\<lambda>p. fst p = k) ?l = [(k, the (tool st k))]"
      using filter_key [OF dist] assms by (simp add: flags_ok_def)
    moreover have "filter (\<lambda>p. sel (fst p) \<and> k = fst p) ?l = (if sel k then filter (\<lambda>p. fst p = k) ?l else [])"
      by (auto intro!: filter_cong simp: filter_empty_conv)
    ultimately show ?thesis using The_Tool by simp
  qed auto
  finally show ?thesis .
qed

section \<open>Closing blocks\<close>

lemma send_fields [simp]:
  "as_out (send e st) = as_out st @ e" "as_tools (send e st) = as_tools st" "as_next (send e st) = as_next st"
  "as_thinking_started (send e st) = as_thinking_started st" "as_thinking_closed (send e st) = as_thinking_closed st"
  "as_thinking_index (send e st) = as_thinking_index st" "as_text_started (send e st) = as_text_started st"
  "as_text_closed (send e st) = as_text_closed st" "as_text_index (send e st) = as_text_index st"
  "as_text_parts (send e st) = as_text_parts st" "as_thinking_parts (send e st) = as_thinking_parts st"
  by (simp_all add: send_def)

lemma stream_okE:
  assumes "stream_ok st w"
  obtains b used where "flags_ok st w" "contents_ok st" "wire (as_out st) = Streaming b used" "on_wire st w b"
    "indexes_ok st used"
  using assms unfolding stream_ok_def by blast

lemma close_thinking_ok:
  assumes "stream_ok st w"
  shows "stream_ok (close_thinking st) (if w = The_Thinking then Nobody else w)"
proof (cases "w = The_Thinking")
  case True
  obtain b used where ok: "flags_ok st w" "contents_ok st" "wire (as_out st) = Streaming b used" "on_wire st w b" "indexes_ok st used"
    by (rule stream_okE [OF assms])
  have out: "close_thinking st = send [Signature_Delta (as_thinking_index st), Block_Stop (as_thinking_index st)]
      (st\<lparr>as_thinking_closed := True\<rparr>)"
    using ok(1) True by (simp add: flags_ok_def close_thinking_def)
  have "wire (as_out (close_thinking st)) = Streaming None used"
    using ok(3,4) True by (simp add: out wire_append on_wire_def)
  then show ?thesis
    using ok True by (auto simp: stream_ok_def out flags_ok_def contents_ok_def on_wire_def indexes_ok_def)
next
  case False
  then have "close_thinking st = st" using assms by (auto simp: stream_ok_def flags_ok_def close_thinking_def)
  then show ?thesis using assms False by simp
qed

lemma close_text_ok:
  assumes "stream_ok st w"
  shows "stream_ok (close_text st) (if w = The_Text then Nobody else w)"
proof (cases "w = The_Text")
  case True
  obtain b used where ok: "flags_ok st w" "contents_ok st" "wire (as_out st) = Streaming b used" "on_wire st w b" "indexes_ok st used"
    by (rule stream_okE [OF assms])
  have out: "close_text st = send [Block_Stop (as_text_index st)] (st\<lparr>as_text_closed := True, as_text_started := False\<rparr>)"
    using ok(1) True by (auto simp: flags_ok_def close_text_def)
  have "wire (as_out (close_text st)) = Streaming None used"
    using ok(3,4) True by (simp add: out wire_append on_wire_def)
  then show ?thesis
    using ok True by (auto simp: stream_ok_def out flags_ok_def contents_ok_def on_wire_def indexes_ok_def)
next
  case False
  then have "close_text st = st" using assms by (auto simp: stream_ok_def flags_ok_def close_text_def)
  then show ?thesis using assms False by simp
qed

definition shut :: "(int \<Rightarrow> bool) \<Rightarrow> opener \<Rightarrow> opener" where
  "shut sel w = (case w of The_Tool k \<Rightarrow> if sel k then Nobody else w | _ \<Rightarrow> w)"

lemma close_tools_fields:
  "tool (close_tools sel st) k = map_option (\<lambda>ts. if sel k \<and> tool_open ts then ts\<lparr>ts_closed := True\<rparr> else ts) (tool st k)"
  "map fst (as_tools (close_tools sel st)) = map fst (as_tools st)"
  "as_out (close_tools sel st) = as_out st @ snd (close_tool_list sel (as_tools st))"
  "as_next (close_tools sel st) = as_next st" "as_thinking_started (close_tools sel st) = as_thinking_started st"
  "as_thinking_closed (close_tools sel st) = as_thinking_closed st" "as_thinking_index (close_tools sel st) = as_thinking_index st"
  "as_text_started (close_tools sel st) = as_text_started st" "as_text_closed (close_tools sel st) = as_text_closed st"
  "as_text_index (close_tools sel st) = as_text_index st" "as_text_parts (close_tools sel st) = as_text_parts st"
  "as_thinking_parts (close_tools sel st) = as_thinking_parts st"
  using close_tool_list_map [of sel "as_tools st" k] close_tool_list_keys [of sel "as_tools st"]
  by (auto simp: close_tools_def split: prod.splits)

lemma close_tools_ok:
  assumes "stream_ok st w"
  shows "stream_ok (close_tools sel st) (shut sel w)"
proof -
  obtain b used where ok: "flags_ok st w" "contents_ok st" "wire (as_out st) = Streaming b used" "on_wire st w b" "indexes_ok st used"
    by (rule stream_okE [OF assms])
  let ?s = "close_tools sel st"
  note evs = close_tool_list_events [of sel "as_tools st", unfolded open_tools [OF ok(1)]]
  have keeps: "\<exists>us. tool st k = Some us \<and> ts_index ts = ts_index us \<and> ts_args ts = ts_args us \<and>
      ts_started ts = ts_started us \<and> ts_name ts = ts_name us \<and> tool_open ts = (tool_open us \<and> \<not> sel k) \<and>
      (ts_closed ts \<longleftrightarrow> ts_closed us \<or> sel k \<and> tool_open us)" if new: "tool ?s k = Some ts" for k ts
  proof -
    obtain us where us: "tool st k = Some us" "ts = (if sel k \<and> tool_open us then us\<lparr>ts_closed := True\<rparr> else us)"
      using new unfolding close_tools_fields(1) by auto
    show ?thesis unfolding us(2) using us(1) by (auto simp: tool_open_def)
  qed
  have flags: "flags_ok ?s (shut sel w)"
    unfolding flags_ok_def
  proof (intro conjI allI impI)
    show "tool_open ts \<longleftrightarrow> shut sel w = The_Tool k" if "tool ?s k = Some ts" for k ts
      using keeps [OF that] ok(1) by (auto simp: flags_ok_def shut_def split: opener.splits)
    show "ts_name ts \<noteq> ''''" if name: "tool ?s k = Some ts \<and> ts_started ts" for k ts
    proof -
      obtain us where "tool st k = Some us" "ts_started us" "ts_name ts = ts_name us" using keeps [of k ts] name by auto
      then show ?thesis using flags_okD(6) [OF ok(1)] by simp
    qed
    show "sorted_wrt (<) (map fst (as_tools ?s))" using ok(1) unfolding close_tools_fields flags_ok_def by blast
    show "tool ?s k \<noteq> None" if "shut sel w = The_Tool k" for k
      using that ok(1) unfolding close_tools_fields flags_ok_def by (simp add: shut_def split: opener.splits if_splits)
  qed (use flags_okD(1-3) [OF ok(1)] in \<open>auto simp: close_tools_fields shut_def split: opener.splits\<close>)
  have input: "seen_input (as_out ?s) i = seen_input (as_out st) i" for i
    unfolding close_tools_fields evs by (simp split: opener.splits)
  have contents: "contents_ok ?s"
    unfolding contents_ok_def input
  proof (intro conjI allI impI)
    show "seen_input (as_out st) (ts_index ts) = (if ts_started ts then ts_args ts else '''')" if "tool ?s k = Some ts" for k ts
      using keeps [OF that] ok(2) by (auto simp: contents_ok_def)
  qed (use ok(2) in \<open>auto simp: contents_ok_def close_tools_fields evs split: opener.splits\<close>)
  have index: "indexes_ok ?s used"
    unfolding indexes_ok_def
  proof (intro conjI allI impI)
    show "ts_index ts < as_next ?s" if "tool ?s k = Some ts" for k ts
      using keeps [OF that] ok(5) by (auto simp: indexes_ok_def close_tools_fields)
    show "ts_index ts \<notin> set used" "\<not> ts_closed ts" if "tool ?s k = Some ts \<and> \<not> ts_started ts" for k ts
      using keeps [of k ts] that ok(5) by (auto simp: indexes_ok_def tool_open_def)
    show "k = l" if "tool ?s k = Some ts \<and> tool ?s l = Some us \<and> ts_index ts = ts_index us" for k ts l us
      using keeps [of k ts] keeps [of l us] that ok(5) unfolding indexes_ok_def by metis
  qed (use ok(5) in \<open>auto simp: indexes_ok_def close_tools_fields\<close>)
  have "\<exists>b'. wire (as_out ?s) = Streaming b' used \<and> on_wire ?s (shut sel w) b'"
  proof (cases w)
    case (The_Tool k)
    then obtain ts i n where ts: "tool st k = Some ts" "b = Some (ts_index ts, Tool_Block i n)"
      using ok(4) by (auto simp: on_wire_def)
    show ?thesis
      using The_Tool ts ok(3)
      by (cases "sel k") (auto simp: close_tools_fields evs wire_append on_wire_def shut_def)
  qed (use ok(3,4) in \<open>auto simp: close_tools_fields evs on_wire_def shut_def\<close>)
  then show ?thesis using flags contents index unfolding stream_ok_def by blast
qed

section \<open>Opening blocks\<close>

lemma shut_all: "w \<noteq> The_Thinking \<Longrightarrow> w \<noteq> The_Text \<Longrightarrow> shut (\<lambda>_. True) w = Nobody"
  by (simp add: shut_def split: opener.splits)

lemma indexes_grow:
  assumes "indexes_ok s used" "as_tools t = as_tools s" "as_next t = as_next s + 1"
  shows "indexes_ok t (as_next s # used)"
  unfolding indexes_ok_def assms(2,3)
proof (intro conjI allI impI)
  show "ts_index ts \<notin> set (as_next s # used)" "\<not> ts_closed ts" if "tool s k = Some ts \<and> \<not> ts_started ts" for k ts
    using assms(1) that unfolding indexes_ok_def by (metis less_irrefl set_ConsD, blast)
  show "ts_index ts < as_next s + 1" if "tool s k = Some ts" for k ts
    using assms(1) that unfolding indexes_ok_def by (meson less_SucI Suc_eq_plus1 trans_less_add1)
qed (use assms(1) in \<open>auto simp: indexes_ok_def\<close>)

lemma ensure_thinking_ok:
  assumes "stream_ok st w"
  shows "stream_ok (ensure_thinking st) The_Thinking"
proof (cases "w = The_Thinking")
  case True
  then have "ensure_thinking st = st" using assms by (auto simp: stream_ok_def flags_ok_def ensure_thinking_def)
  then show ?thesis using assms True by simp
next
  case False
  let ?s = "close_open_tool_calls (close_text st)"
  have "stream_ok ?s Nobody"
    using close_tools_ok [OF close_text_ok [OF assms], of "\<lambda>_. True"] shut_all [of w] False
    by (simp add: close_open_tool_calls_def shut_def split: if_splits)
  then obtain b used where ok: "flags_ok ?s Nobody" "contents_ok ?s" "wire (as_out ?s) = Streaming b used" "on_wire ?s Nobody b"
      "indexes_ok ?s used"
    by (rule stream_okE)
  have b: "b = None" "as_next ?s \<notin> set used" using ok(4,5) by (auto simp: on_wire_def indexes_ok_def)
  have out: "ensure_thinking st = send [Block_Start (as_next ?s) Thinking_Block]
      (?s\<lparr>as_thinking_index := as_next ?s, as_next := as_next ?s + 1, as_thinking_started := True, as_thinking_closed := False\<rparr>)"
    using assms False by (auto simp: stream_ok_def flags_ok_def ensure_thinking_def Let_def)
  have "wire (as_out (ensure_thinking st)) = Streaming (Some (as_next ?s, Thinking_Block)) (as_next ?s # used)"
    using ok(3) b by (simp add: out wire_append)
  moreover have "indexes_ok (ensure_thinking st) (as_next ?s # used)"
    by (rule indexes_grow [OF ok(5)]) (simp_all add: out)
  ultimately show ?thesis
    using ok(1,2) by (auto simp: stream_ok_def out flags_ok_def contents_ok_def on_wire_def)
qed

lemma ensure_text_ok:
  assumes "stream_ok st w"
  shows "stream_ok (ensure_text st) The_Text"
proof (cases "w = The_Text")
  case True
  then have "ensure_text st = st" using assms by (auto simp: stream_ok_def flags_ok_def ensure_text_def)
  then show ?thesis using assms True by simp
next
  case False
  let ?s = "close_open_tool_calls (close_thinking st)"
  have "stream_ok ?s Nobody"
    using close_tools_ok [OF close_thinking_ok [OF assms], of "\<lambda>_. True"] shut_all [of w] False
    by (simp add: close_open_tool_calls_def shut_def split: if_splits)
  then obtain b used where ok: "flags_ok ?s Nobody" "contents_ok ?s" "wire (as_out ?s) = Streaming b used" "on_wire ?s Nobody b"
      "indexes_ok ?s used"
    by (rule stream_okE)
  have b: "b = None" "as_next ?s \<notin> set used" using ok(4,5) by (auto simp: on_wire_def indexes_ok_def)
  have out: "ensure_text st = send [Block_Start (as_next ?s) Text_Block]
      (?s\<lparr>as_text_index := as_next ?s, as_next := as_next ?s + 1, as_text_started := True, as_text_closed := False\<rparr>)"
    using assms False by (auto simp: stream_ok_def flags_ok_def ensure_text_def Let_def)
  have "wire (as_out (ensure_text st)) = Streaming (Some (as_next ?s, Text_Block)) (as_next ?s # used)"
    using ok(3) b by (simp add: out wire_append)
  moreover have "indexes_ok (ensure_text st) (as_next ?s # used)"
    by (rule indexes_grow [OF ok(5)]) (simp_all add: out)
  ultimately show ?thesis
    using ok(1,2) by (auto simp: stream_ok_def out flags_ok_def contents_ok_def on_wire_def)
qed

text \<open>The record of what was said is not read by the block machine.\<close>

lemma ensure_thinking_parts:
  "ensure_thinking (st\<lparr>as_thinking_parts := p\<rparr>) = (ensure_thinking st)\<lparr>as_thinking_parts := p\<rparr>"
  by (simp add: ensure_thinking_def close_open_tool_calls_def close_tools_def close_text_def send_def Let_def split: prod.splits)

lemma ensure_text_parts: "ensure_text (st\<lparr>as_text_parts := p\<rparr>) = (ensure_text st)\<lparr>as_text_parts := p\<rparr>"
  by (simp add: ensure_text_def close_open_tool_calls_def close_tools_def close_thinking_def send_def Let_def split: prod.splits)

lemma ensure_parts_same:
  "as_thinking_parts (ensure_thinking st) = as_thinking_parts st" "as_text_parts (ensure_text st) = as_text_parts st"
  by (simp_all add: ensure_thinking_def ensure_text_def close_open_tool_calls_def close_tools_fields close_text_def
      close_thinking_def Let_def)

lemma accumulate_reasoning_ok:
  assumes "stream_ok st w"
  shows "\<exists>w'. stream_ok (accumulate_reasoning r st) w'"
proof (cases "r = ''''")
  case False
  let ?s = "ensure_thinking st"
  obtain b used where ok: "flags_ok ?s The_Thinking" "contents_ok ?s" "wire (as_out ?s) = Streaming b used"
      "on_wire ?s The_Thinking b" "indexes_ok ?s used"
    by (rule stream_okE [OF ensure_thinking_ok [OF assms]])
  have "accumulate_reasoning r st = send [Thinking_Delta (as_thinking_index ?s) r] (?s\<lparr>as_thinking_parts := as_thinking_parts st @ [r]\<rparr>)"
    using False by (simp add: accumulate_reasoning_def Let_def ensure_thinking_parts)
  then have "stream_ok (accumulate_reasoning r st) The_Thinking"
    using ok by (auto simp: stream_ok_def flags_ok_def contents_ok_def on_wire_def indexes_ok_def wire_append ensure_parts_same)
  then show ?thesis by blast
qed (use assms in \<open>auto simp: accumulate_reasoning_def\<close>)

lemma accumulate_text_ok:
  assumes "stream_ok st w"
  shows "\<exists>w'. stream_ok (accumulate_text t st) w'"
proof (cases "t = ''''")
  case False
  let ?s = "ensure_text st"
  obtain b used where ok: "flags_ok ?s The_Text" "contents_ok ?s" "wire (as_out ?s) = Streaming b used"
      "on_wire ?s The_Text b" "indexes_ok ?s used"
    by (rule stream_okE [OF ensure_text_ok [OF assms]])
  have "accumulate_text t st = send [Text_Delta (as_text_index ?s) t] (?s\<lparr>as_text_parts := as_text_parts st @ [t]\<rparr>)"
    using False by (simp add: accumulate_text_def Let_def ensure_text_parts)
  then have "stream_ok (accumulate_text t st) The_Text"
    using ok by (auto simp: stream_ok_def flags_ok_def contents_ok_def on_wire_def indexes_ok_def wire_append ensure_parts_same)
  then show ?thesis by blast
qed (use assms in \<open>auto simp: accumulate_text_def\<close>)

section \<open>Tool blocks\<close>

lemma tools_sorted: "stream_ok st w \<Longrightarrow> sorted_wrt (<) (map fst (as_tools st))"
  by (auto simp: stream_ok_def flags_ok_def)

lemma tool_put: "sorted_wrt (<) (map fst (as_tools st)) \<Longrightarrow> tool (st\<lparr>as_tools := put_tool i t (as_tools st)\<rparr>) = (tool st)(i \<mapsto> t)"
  by (simp add: put_tool_map fun_eq_iff)

text \<open>The invariant does not read these.\<close>

lemma quiet_fields:
  "stream_ok (st\<lparr>as_saw_tool := b\<rparr>) w = stream_ok st w" "stream_ok (st\<lparr>as_end_turn := e\<rparr>) w = stream_ok st w"
  "stream_ok (st\<lparr>as_finish := r\<rparr>) w = stream_ok st w" "stream_ok (st\<lparr>as_model := m\<rparr>) w = stream_ok st w"
  "stream_ok (st\<lparr>as_tool_ids := x\<rparr>) w = stream_ok st w" "stream_ok (st\<lparr>as_draw := n\<rparr>) w = stream_ok st w"
  by (simp_all add: stream_ok_def flags_ok_def contents_ok_def on_wire_def indexes_ok_def cong: opener.case_cong)

text \<open>A block that keeps its index, its phase and, once started, its input, and then has a name.\<close>

definition same_block :: "tool_state \<Rightarrow> tool_state \<Rightarrow> bool" where
  "same_block ts us \<longleftrightarrow>
     ts_index ts = ts_index us \<and> ts_started ts = ts_started us \<and> ts_closed ts = ts_closed us \<and>
     (ts_started us \<longrightarrow> ts_args ts = ts_args us \<and> ts_name ts \<noteq> '''')"

lemma put_same_ok:
  assumes ok: "stream_ok st w" and old: "tool st i = Some us" and same: "same_block ts us"
  shows "stream_ok (st\<lparr>as_tools := put_tool i ts (as_tools st)\<rparr>) w"
proof -
  let ?t = "st\<lparr>as_tools := put_tool i ts (as_tools st)\<rparr>"
  have sorted: "sorted_wrt (<) (map fst (as_tools st))" by (rule tools_sorted [OF ok])
  note map = tool_put [OF sorted, of i ts]
  obtain b used where p: "flags_ok st w" "contents_ok st" "wire (as_out st) = Streaming b used" "on_wire st w b" "indexes_ok st used"
    by (rule stream_okE [OF ok])
  have blk: "tool_open ts = tool_open us" using same by (simp add: same_block_def tool_open_def)
  have "flags_ok ?t w"
    unfolding flags_ok_def map
  proof (intro conjI allI impI)
    show "tool_open vs \<longleftrightarrow> w = The_Tool k" if "((tool st)(i \<mapsto> ts)) k = Some vs" for k vs
      using that flags_okD(4) [OF p(1)] old blk by (auto split: if_splits)
    show "ts_name vs \<noteq> ''''" if "((tool st)(i \<mapsto> ts)) k = Some vs \<and> ts_started vs" for k vs
      using that flags_okD(6) [OF p(1)] old same by (auto simp: same_block_def split: if_splits)
    show "((tool st)(i \<mapsto> ts)) k \<noteq> None" if "w = The_Tool k" for k
      using that flags_okD(5) [OF p(1)] by simp
  qed (use flags_okD(1-3) [OF p(1)] put_tool_sorted [OF sorted, of i ts] in simp_all)
  moreover have "contents_ok ?t"
    using p(2) old same unfolding contents_ok_def map same_block_def by auto
  moreover have "on_wire ?t w b"
    using p(4) old same unfolding on_wire_def map same_block_def by (auto split: opener.splits)
  moreover have "indexes_ok ?t used"
    unfolding indexes_ok_def map
  proof (intro conjI allI impI)
    show "ts_index vs < as_next ?t" if "((tool st)(i \<mapsto> ts)) k = Some vs" for k vs
      using that p(5) old same by (auto simp: indexes_ok_def same_block_def split: if_splits)
    show "ts_index vs \<notin> set used" "\<not> ts_closed vs" if "((tool st)(i \<mapsto> ts)) k = Some vs \<and> \<not> ts_started vs" for k vs
      using that p(5) old same unfolding indexes_ok_def same_block_def by (auto split: if_splits)
    show "k = l" if eq: "((tool st)(i \<mapsto> ts)) k = Some vs \<and> ((tool st)(i \<mapsto> ts)) l = Some ws \<and> ts_index vs = ts_index ws" for k vs l ws
    proof -
      obtain vs' where "tool st k = Some vs'" "ts_index vs' = ts_index vs"
        using eq old same by (auto simp: same_block_def split: if_splits)
      moreover obtain ws' where "tool st l = Some ws'" "ts_index ws' = ts_index ws"
        using eq old same by (auto simp: same_block_def split: if_splits)
      ultimately show ?thesis using p(5) eq unfolding indexes_ok_def by metis
    qed
  qed (use p(5) in \<open>auto simp: indexes_ok_def\<close>)
  ultimately show ?thesis using p(3) by (auto simp: stream_ok_def)
qed

lemma tool_state_for_ok:
  assumes ok: "stream_ok st w" and new: "tool_state_for i st = (ts, s)"
  shows "stream_ok s w \<and> tool s i = Some ts"
proof (cases "tool st i")
  case None
  let ?ts = "\<lparr>ts_index = as_next st, ts_id = '''', ts_name = '''', ts_started = False, ts_closed = False, ts_args = ''''\<rparr>"
  have s: "ts = ?ts" "s = st\<lparr>as_next := as_next st + 1, as_tools := put_tool i ?ts (as_tools st)\<rparr>"
    using new None by (auto simp: tool_state_for_def Let_def)
  have sorted: "sorted_wrt (<) (map fst (as_tools st))" by (rule tools_sorted [OF ok])
  have map: "tool s = (tool st)(i \<mapsto> ?ts)" by (simp add: s(2) put_tool_map [OF sorted] fun_eq_iff)
  obtain b used where p: "flags_ok st w" "contents_ok st" "wire (as_out st) = Streaming b used" "on_wire st w b" "indexes_ok st used"
    by (rule stream_okE [OF ok])
  have "w \<noteq> The_Tool i" using p(1) None by (auto simp: flags_ok_def)
  then have "flags_ok s w"
    using p(1) put_tool_sorted [OF sorted, of i ?ts] unfolding flags_ok_def map by (auto simp: s(2) tool_open_def)
  moreover have "contents_ok s"
    using p(2) unfolding contents_ok_def map by (auto simp: s(2))
  moreover have "on_wire s w b"
    using p(4) \<open>w \<noteq> The_Tool i\<close> unfolding on_wire_def map by (auto simp: s(2) split: opener.splits)
  moreover have "indexes_ok s used"
    unfolding indexes_ok_def map
  proof (intro conjI allI impI)
    show "ts_index vs < as_next s" if "((tool st)(i \<mapsto> ?ts)) k = Some vs" for k vs
      using that p(5) by (auto simp: indexes_ok_def s(2) less_SucI split: if_splits)
    show "ts_index vs \<notin> set used" "\<not> ts_closed vs" if "((tool st)(i \<mapsto> ?ts)) k = Some vs \<and> \<not> ts_started vs" for k vs
      using that p(5) unfolding indexes_ok_def by (auto split: if_splits)
    show "k = l" if "((tool st)(i \<mapsto> ?ts)) k = Some vs \<and> ((tool st)(i \<mapsto> ?ts)) l = Some ws \<and> ts_index vs = ts_index ws" for k vs l ws
    proof -
      have less: "tool st j = Some us \<Longrightarrow> ts_index us \<noteq> as_next st" for j us
        using p(5) unfolding indexes_ok_def by (metis less_irrefl)
      show ?thesis using that p(5) less unfolding indexes_ok_def by (auto split: if_splits) metis
    qed
  qed (use p(5) in \<open>auto simp: indexes_ok_def s(2) less_SucI\<close>)
  ultimately show ?thesis using p(3) map s by (auto simp: stream_ok_def)
qed (use assms in \<open>simp add: tool_state_for_def\<close>)

text \<open>Opening the block of a tool: nothing else is open, and its index is not used yet.\<close>

lemma open_tool_ok:
  assumes ok: "stream_ok st Nobody" and old: "tool st i = Some us"
    and ts: "ts_started ts" "\<not> ts_closed ts" "ts_name ts \<noteq> ''''" "ts_index ts = (if ts_started us then as_next st else ts_index us)"
    and evs: "evs = Block_Start (ts_index ts) (Tool_Block a n) # (if ts_args ts \<noteq> '''' then [Input_Delta (ts_index ts) (ts_args ts)] else [])"
    and t: "as_tools t = put_tool i ts (as_tools st)" "as_out t = as_out st @ evs"
      "as_next t = as_next st + (if ts_started us then 1 else 0)"
    and same: "as_thinking_started t = as_thinking_started st" "as_thinking_closed t = as_thinking_closed st"
      "as_text_started t = as_text_started st" "as_text_parts t = as_text_parts st" "as_thinking_parts t = as_thinking_parts st"
  shows "stream_ok t (The_Tool i)"
proof -
  have sorted: "sorted_wrt (<) (map fst (as_tools st))" by (rule tools_sorted [OF ok])
  have map: "tool t = (tool st)(i \<mapsto> ts)" by (simp add: t(1) put_tool_map [OF sorted] fun_eq_iff)
  obtain b used where p: "flags_ok st Nobody" "contents_ok st" "wire (as_out st) = Streaming b used" "on_wire st Nobody b" "indexes_ok st used"
    by (rule stream_okE [OF ok])
  have keys: "sorted_wrt (<) (map fst (as_tools t))" unfolding t(1) by (rule put_tool_sorted [OF sorted])
  let ?j = "ts_index ts"
  have fresh: "?j \<notin> set used" and less: "?j < as_next t"
    using p(5) old ts(4) t(3) by (auto simp: indexes_ok_def)
  have other: "ts_index vs \<noteq> ?j" if "tool st k = Some vs" "k \<noteq> i" for k vs
  proof (cases "ts_started us")
    case True
    have "ts_index vs < as_next st" using p(5) that(1) by (simp add: indexes_ok_def)
    then show ?thesis using ts(4) True by simp
  next
    case False
    then show ?thesis using p(5) that old ts(4) unfolding indexes_ok_def by metis
  qed
  have silent: "seen_input (as_out st) ?j = ''''"
    using p(2) old ts(4) unfolding contents_ok_def by (cases "ts_started us") auto
  have input: "seen_input (as_out t) m = seen_input (as_out st) m @ (if m = ?j then ts_args ts else '''')" for m
    by (simp add: t(2) evs)
  have b: "b = None" using p(4) by (simp add: on_wire_def)
  have "wire (as_out t) = Streaming (Some (?j, Tool_Block a n)) (?j # used)"
    using p(3) b fresh by (simp add: t(2) evs wire_append)
  moreover have "on_wire t (The_Tool i) (Some (?j, Tool_Block a n))" by (simp add: on_wire_def map)
  moreover have "flags_ok t (The_Tool i)"
    using p(1) ts keys unfolding flags_ok_def map same by (auto simp: tool_open_def)
  moreover have "contents_ok t"
    unfolding contents_ok_def map same input
  proof (intro conjI allI impI)
    show "seen_input (as_out st) (ts_index vs) @ (if ts_index vs = ?j then ts_args ts else '''') =
        (if ts_started vs then ts_args vs else '''')" if "((tool st)(i \<mapsto> ts)) k = Some vs" for k vs
    proof (cases "k = i")
      case True
      then have "vs = ts" using that by simp
      then show ?thesis using ts(1) by (simp add: silent)
    next
      case False
      then show ?thesis using that other [of k vs] p(2) by (simp add: contents_ok_def)
    qed
    show "seen_input (as_out st) m @ (if m = ?j then ts_args ts else '''') = ''''" if "m \<ge> as_next t" for m
      using that less p(2) t(3) by (auto simp: contents_ok_def)
  qed (use p(2) in \<open>auto simp: contents_ok_def t(2) evs\<close>)
  moreover have "indexes_ok t (?j # used)"
    unfolding indexes_ok_def map
  proof (intro conjI allI impI)
    show "ts_index vs < as_next t" if "((tool st)(i \<mapsto> ts)) k = Some vs" for k vs
    proof (cases "k = i")
      case False
      then have "ts_index vs < as_next st" using that p(5) by (simp add: indexes_ok_def)
      then show ?thesis using t(3) by simp
    qed (use that less in auto)
    show "ts_index vs \<notin> set (?j # used)" "\<not> ts_closed vs" if "((tool st)(i \<mapsto> ts)) k = Some vs \<and> \<not> ts_started vs" for k vs
    proof -
      have "k \<noteq> i" using that ts(1) by auto
      then have "tool st k = Some vs" "\<not> ts_started vs" using that by simp_all
      then show "ts_index vs \<notin> set (?j # used)" "\<not> ts_closed vs"
        using other [of k vs] \<open>k \<noteq> i\<close> indexes_okD(2,3) [OF p(5), of k vs] by simp_all
    qed
    show "k = l" if "((tool st)(i \<mapsto> ts)) k = Some vs \<and> ((tool st)(i \<mapsto> ts)) l = Some ws \<and> ts_index vs = ts_index ws" for k vs l ws
    proof (cases "k = i \<or> l = i")
      case True
      then show ?thesis using that other [of k vs] other [of l ws] by (auto split: if_splits)
    next
      case False
      then show ?thesis using that p(5) unfolding indexes_ok_def by auto
    qed
  qed (use p(5) less t(3) in \<open>auto simp: indexes_ok_def\<close>)
  ultimately show ?thesis by (auto simp: stream_ok_def)
qed

lemma ensure_started_ok:
  assumes ok: "stream_ok st w" and w: "w = Nobody \<or> w = The_Tool i" and old: "tool st i = Some us" and same: "same_block ts us" "ts_name ts \<noteq> ''''"
    and out: "ensure_started rnd i ts st = (ts', s)"
  shows "stream_ok s (The_Tool i) \<and> (\<exists>vs. tool s i = Some vs \<and> same_block ts' vs) \<and> tool_open ts' \<and> ts_args ts' = ts_args ts \<and>
    ts_name ts' = ts_name ts"
proof (cases "tool_open ts")
  case True
  then have "tool_open us" using same by (simp add: same_block_def tool_open_def)
  then have "w = The_Tool i" using ok old by (auto simp: stream_ok_def flags_ok_def)
  then show ?thesis using True ok old same out by (auto simp: ensure_started_def tool_open_def)
next
  case False
  then have "\<not> tool_open us" using same by (simp add: same_block_def tool_open_def)
  then have none: "stream_ok st Nobody" using ok old w by (auto simp: stream_ok_def flags_ok_def)
  have again: "ts_started us \<longleftrightarrow> ts_started ts \<and> ts_closed ts" using False same by (auto simp: same_block_def tool_open_def)
  have unclosed: "\<not> ts_started us \<Longrightarrow> \<not> ts_closed ts"
    using ok old same unfolding stream_ok_def indexes_ok_def same_block_def by blast
  obtain d a where sid: "sanitize_tool_id (rnd (as_draw st)) (ts_id ts) = (d, a)"
    by (cases "sanitize_tool_id (rnd (as_draw st)) (ts_id ts)")
  let ?ts = "if ts_started us then ts\<lparr>ts_index := as_next st, ts_started := True, ts_closed := False\<rparr> else ts\<lparr>ts_started := True\<rparr>"
  have res: "ts' = ?ts" "s = send (Block_Start (ts_index ?ts) (Tool_Block a (ts_name ?ts)) #
      (if ts_args ?ts \<noteq> '''' then [Input_Delta (ts_index ?ts) (ts_args ?ts)] else []))
      (st\<lparr>as_next := as_next st + (if ts_started us then 1 else 0), as_draw := as_draw st + (if d then 1 else 0),
          as_tools := put_tool i ?ts (as_tools st)\<rparr>)"
    using out False sid again by (auto simp: ensure_started_def Let_def tool_open_def)
  have "stream_ok s (The_Tool i)"
    by (rule open_tool_ok [OF none old, of ts' _ a "ts_name ts'"])
      (use same unclosed in \<open>auto simp: res same_block_def\<close>)
  moreover have "tool s i = Some ts'"
    using put_tool_map [OF tools_sorted [OF none], of i ?ts] by (simp add: res)
  ultimately show ?thesis using unclosed same(2) by (auto simp: res same_block_def tool_open_def)
qed

lemma input_delta_ok:
  assumes ok: "stream_ok st (The_Tool i)" and old: "tool st i = Some us" and same: "same_block ts us" "tool_open ts"
  shows "stream_ok (send [Input_Delta (ts_index ts) a] (st\<lparr>as_tools := put_tool i (ts\<lparr>ts_args := ts_args ts @ a\<rparr>) (as_tools st)\<rparr>)) (The_Tool i)"
    (is "stream_ok ?t _")
proof -
  let ?ts = "ts\<lparr>ts_args := ts_args ts @ a\<rparr>"
  let ?m = "st\<lparr>as_tools := put_tool i ts (as_tools st)\<rparr>"
  have sorted: "sorted_wrt (<) (map fst (as_tools st))" by (rule tools_sorted [OF ok])
  have map: "tool ?t = (tool st)(i \<mapsto> ?ts)" by (simp add: put_tool_map [OF sorted] fun_eq_iff)
  have mid: "tool ?m = (tool st)(i \<mapsto> ts)" by (rule tool_put [OF sorted])
  obtain b used where p: "flags_ok ?m (The_Tool i)" "contents_ok ?m" "wire (as_out ?m) = Streaming b used" "on_wire ?m (The_Tool i) b"
      "indexes_ok ?m used"
    by (rule stream_okE [OF put_same_ok [OF ok old same(1)]])
  obtain x n where b: "b = Some (ts_index ts, Tool_Block x n)" using p(4) unfolding on_wire_def mid by auto
  have "tool ?m i = Some ts" by (rule trans [OF fun_cong [OF mid]]) simp
  with p(5) have "ts_index ts < as_next ?m" unfolding indexes_ok_def by blast
  then have less: "ts_index ts < as_next st" by simp
  have one: "k = i" if "((tool st)(i \<mapsto> ts)) k = Some vs" "ts_index vs = ts_index ts" for k vs
    using p(5) that unfolding indexes_ok_def mid by (metis fun_upd_same)
  have "wire (as_out ?t) = Streaming b used" using p(3) b by (simp add: wire_append)
  moreover have "on_wire ?t (The_Tool i) b" unfolding on_wire_def map b by auto
  moreover have "flags_ok ?t (The_Tool i)"
    using p(1) put_tool_sorted [OF sorted, of i ?ts] unfolding flags_ok_def map mid by (auto simp: tool_open_def split: if_splits)
  moreover have "contents_ok ?t"
    unfolding contents_ok_def map
  proof (intro conjI allI impI)
    show "seen_input (as_out ?t) (ts_index vs) = (if ts_started vs then ts_args vs else '''')"
      if "((tool st)(i \<mapsto> ?ts)) k = Some vs" for k vs
    proof (cases "k = i")
      case True
      have "seen_input (as_out ?m) (ts_index ts) = (if ts_started ts then ts_args ts else '''')"
        by (rule contents_okD [OF p(2) \<open>tool ?m i = Some ts\<close>])
      then show ?thesis using that True same(2) by (auto simp: tool_open_def)
    next
      case False
      then have "((tool st)(i \<mapsto> ts)) k = Some vs" using that by simp
      then have "ts_index vs \<noteq> ts_index ts" using one [of k vs] False by blast
      moreover have "tool ?m k = Some vs" using that False unfolding mid by simp
      then have "seen_input (as_out ?m) (ts_index vs) = (if ts_started vs then ts_args vs else '''')"
        by (rule contents_okD [OF p(2)])
      ultimately show ?thesis by simp
    qed
    show "seen_input (as_out ?t) m = ''''" if "m \<ge> as_next ?t" for m
      using that less p(2) by (auto simp: contents_ok_def)
  qed (use p(2) in \<open>auto simp: contents_ok_def\<close>)
  moreover have "indexes_ok ?t used"
    unfolding indexes_ok_def map
  proof (intro conjI allI impI)
    have kept: "\<exists>us. tool ?m k = Some us \<and> ts_index us = ts_index vs \<and> ts_started us = ts_started vs \<and> ts_closed us = ts_closed vs"
      if "((tool st)(i \<mapsto> ?ts)) k = Some vs" for k vs
      using that unfolding mid by (auto split: if_splits)
    show "ts_index vs < as_next ?t" if "((tool st)(i \<mapsto> ?ts)) k = Some vs" for k vs
      using kept [OF that] indexes_okD(1) [OF p(5), of k] by auto
    show "ts_index vs \<notin> set used" "\<not> ts_closed vs" if "((tool st)(i \<mapsto> ?ts)) k = Some vs \<and> \<not> ts_started vs" for k vs
      using kept [of k vs] that indexes_okD(2,3) [OF p(5), of k] by metis+
    show "k = l" if "((tool st)(i \<mapsto> ?ts)) k = Some vs \<and> ((tool st)(i \<mapsto> ?ts)) l = Some ws \<and> ts_index vs = ts_index ws" for k vs l ws
      using kept [of k vs] kept [of l ws] that indexes_okD(4) [OF p(5), of k _ l] by metis
    show "\<forall>m \<in> set used. m < as_next ?t" using p(5) unfolding indexes_ok_def by simp
  qed
  ultimately show ?thesis by (auto simp: stream_ok_def)
qed

end
