(* ===== verification/Anthropic_Properties.thy ===== *)
theory Anthropic_Properties
  imports Anthropic_Wire
begin

text \<open>
  What the Anthropic relay promises, over whole inputs, and where the bookkeeping of indexes, names and ids fails.
\<close>

section \<open>A fragment\<close>

lemma note_tool_id_ok: "stream_ok st w \<Longrightarrow> stream_ok (note_tool_id rnd i st) w \<and> as_tools (note_tool_id rnd i st) = as_tools st"
  by (auto simp: note_tool_id_def Let_def quiet_fields split: prod.splits)

lemma put_tool_at: "stream_ok st w \<Longrightarrow> tool (st\<lparr>as_tools := put_tool i ts (as_tools st)\<rparr>) i = Some ts"
  by (rule trans [OF fun_cong [OF tool_put [OF tools_sorted]]]) auto

text \<open>Arguments that can be sent: the block has a name.\<close>

definition send_args :: "(nat \<Rightarrow> string) \<Rightarrow> int \<Rightarrow> string \<Rightarrow> tool_state \<Rightarrow> anthropic_state \<Rightarrow> anthropic_state" where
  "send_args rnd i a ts st =
     (let (ts1, s) = ensure_started rnd i ts st; ts2 = ts1\<lparr>ts_args := ts_args ts1 @ a\<rparr>
      in send [Input_Delta (ts_index ts2) a] (s\<lparr>as_tools := put_tool i ts2 (as_tools s)\<rparr>))"

lemma send_args_ok:
  assumes "stream_ok st w" "w = Nobody \<or> w = The_Tool i" "tool st i = Some us" "same_block ts us" "ts_name ts \<noteq> ''''"
  shows "stream_ok (send_args rnd i a ts st) (The_Tool i)"
proof -
  obtain ts1 s where es: "ensure_started rnd i ts st = (ts1, s)" by (cases "ensure_started rnd i ts st")
  obtain vs where "stream_ok s (The_Tool i)" "tool s i = Some vs" "same_block ts1 vs" "tool_open ts1"
    using ensure_started_ok [OF assms es] by blast
  from input_delta_ok [OF this, of a] show ?thesis by (simp add: send_args_def es Let_def)
qed

lemma accumulate_fragment_ok:
  assumes ok: "stream_ok st w" and w: "w = Nobody \<or> (\<exists>j. w = The_Tool j)"
  shows "\<exists>w'. stream_ok (accumulate_fragment rnd tm f st) w' \<and> (w' = Nobody \<or> (\<exists>j. w' = The_Tool j))"
proof -
  let ?i = "tf_index f"
  let ?n = "if tf_name f \<noteq> '''' then restore_name tm (tf_name f) else ''''"
  consider (ended) "?n = ''end_turn'' \<or> ?n = ''decide''" | (skipped) "?n \<noteq> ''end_turn''" "?n \<noteq> ''decide''" "?i \<in> set (as_end_turn st)"
    | (live) "?n \<noteq> ''end_turn''" "?n \<noteq> ''decide''" "?i \<notin> set (as_end_turn st)"
    by blast
  then show ?thesis
  proof cases
    case ended
    then have "accumulate_fragment rnd tm f st = st\<lparr>as_end_turn := ?i # as_end_turn st\<rparr>" by (simp add: accumulate_fragment_def)
    then show ?thesis using ok w by (auto simp: quiet_fields)
  next
    case skipped
    then have "accumulate_fragment rnd tm f st = st" by (simp add: accumulate_fragment_def Let_def)
    then show ?thesis using ok w by auto
  next
    case live
    let ?c = "close_other_open_tool_calls ?i (st\<lparr>as_saw_tool := True\<rparr>)"
    obtain ts s1 where tsf: "tool_state_for ?i ?c = (ts, s1)" by (cases "tool_state_for ?i ?c")
    let ?ts1 = "if tf_id f \<noteq> '''' then ts\<lparr>ts_id := tf_id f\<rparr> else ts"
    let ?s2 = "note_tool_id rnd (tf_id f) (s1\<lparr>as_tools := put_tool ?i ?ts1 (as_tools s1)\<rparr>)"
    let ?named = "?n \<noteq> '''' \<and> ts_name ?ts1 = ''''"
    obtain ts2 s3 where step: "(ts2, s3) = (if ?named then ensure_started rnd ?i (?ts1\<lparr>ts_name := ?n\<rparr>) ?s2 else (?ts1, ?s2))"
      by (metis surj_pair)
    have out: "accumulate_fragment rnd tm f st =
        (if tf_args f = '''' then s3
         else if ts_name ts2 \<noteq> '''' then send_args rnd ?i (tf_args f) ts2 s3
         else s3\<lparr>as_tools := put_tool ?i (ts2\<lparr>ts_args := ts_args ts2 @ tf_args f\<rparr>) (as_tools s3)\<rparr>)"
      using live by (simp add: accumulate_fragment_def Let_def tsf step [symmetric] send_args_def)
    let ?w = "shut (\<lambda>j. j \<noteq> ?i) w"
    have w1: "?w = Nobody \<or> ?w = The_Tool ?i" using w by (auto simp: shut_def)
    have "stream_ok ?c ?w"
      unfolding close_other_open_tool_calls_def by (rule close_tools_ok) (simp add: quiet_fields ok)
    note s1 = tool_state_for_ok [OF this tsf]
    have same: "same_block ?ts1 ts"
      using s1 flags_okD(6) by (auto simp: same_block_def stream_ok_def)
    note s2 = note_tool_id_ok [OF put_same_ok [OF conjunct1 [OF s1] conjunct2 [OF s1] same]]
    have at: "tool ?s2 ?i = Some ?ts1" using put_tool_at [OF conjunct1 [OF s1], of ?i ?ts1] s2 by simp
    obtain w3 us where s3: "stream_ok s3 w3" "w3 = Nobody \<or> w3 = The_Tool ?i" "tool s3 ?i = Some us" "same_block ts2 us"
    proof (cases ?named)
      case True
      have block: "same_block (?ts1\<lparr>ts_name := ?n\<rparr>) ?ts1" and name: "ts_name (?ts1\<lparr>ts_name := ?n\<rparr>) \<noteq> ''''"
        using True by (simp_all add: same_block_def)
      have "ensure_started rnd ?i (?ts1\<lparr>ts_name := ?n\<rparr>) ?s2 = (ts2, s3)" by (simp only: step if_P [OF True])
      note res = ensure_started_ok [OF conjunct1 [OF s2] w1 at block name this]
      then obtain us where "tool s3 ?i = Some us" "same_block ts2 us" by blast
      then show ?thesis using that [of "The_Tool ?i" us] res by blast
    next
      case False
      have "flags_ok ?s2 ?w" using s2 by (simp add: stream_ok_def)
      then have "same_block ?ts1 ?ts1" using flags_okD(6) [OF _ at] unfolding same_block_def by blast
      moreover have "(ts2, s3) = (?ts1, ?s2)" by (simp only: step if_not_P [OF False])
      ultimately show ?thesis using that [of ?w ?ts1] conjunct1 [OF s2] at w1 by (simp only: prod.inject simp_thms)
    qed
    show ?thesis
    proof (cases "tf_args f = ''''")
      case True
      then show ?thesis using out s3 by auto
    next
      case False
      show ?thesis
      proof (cases "ts_name ts2 = ''''")
        case True
        then have "same_block (ts2\<lparr>ts_args := ts_args ts2 @ tf_args f\<rparr>) us" using s3(4) by (auto simp: same_block_def)
        from put_same_ok [OF s3(1,3) this] show ?thesis using out False True s3(2) by auto
      next
        case named: False
        show ?thesis using out False named send_args_ok [OF s3 named] by auto
      qed
    qed
  qed
qed


section \<open>A chunk\<close>

lemma fragments_ok:
  "stream_ok st w \<Longrightarrow> w = Nobody \<or> (\<exists>j. w = The_Tool j) \<Longrightarrow> \<exists>w'. stream_ok (fold (accumulate_fragment rnd tm) fs st) w'"
proof (induction fs arbitrary: st w)
  case (Cons f fs)
  obtain w' where "stream_ok (accumulate_fragment rnd tm f st) w'" "w' = Nobody \<or> (\<exists>j. w' = The_Tool j)"
    using accumulate_fragment_ok [OF Cons.prems] by blast
  then show ?case using Cons.IH by simp
qed auto

lemma accumulate_tools_ok:
  assumes "stream_ok st w"
  shows "\<exists>w'. stream_ok (accumulate_tools rnd tm tcs st) w'"
proof (cases "tcs = []")
  case False
  let ?w = "if w = The_Thinking then Nobody else w"
  have "stream_ok (close_text (close_thinking st)) (if ?w = The_Text then Nobody else ?w)"
    by (rule close_text_ok [OF close_thinking_ok [OF assms]])
  moreover have "(if ?w = The_Text then Nobody else ?w) = Nobody \<or> (\<exists>j. (if ?w = The_Text then Nobody else ?w) = The_Tool j)"
    by (cases w) auto
  ultimately show ?thesis using False fragments_ok by (simp add: accumulate_tools_def)
qed (use assms in \<open>auto simp: accumulate_tools_def\<close>)

lemma accumulate_chunk_ok: "stream_ok st w \<Longrightarrow> \<exists>w'. stream_ok (accumulate_chunk rnd tm c st) w'"
proof -
  have delta: "\<exists>w'. stream_ok (accumulate_delta rnd tm d s) w'" if "stream_ok s v" for d s v
    using accumulate_reasoning_ok [OF that] accumulate_text_ok accumulate_tools_ok unfolding accumulate_delta_def by meson
  assume ok: "stream_ok st w"
  show ?thesis
  proof (cases "json_list (obj_get c ''choices'')")
    case (Cons v vs)
    show ?thesis
    proof (cases v)
      case (J_Obj choice)
      let ?r = "str_value (obj_get choice ''finish_reason'')"
      let ?s = "if ?r \<noteq> '''' then st\<lparr>as_finish := stop_reason_of ?r\<rparr> else st"
      have s: "stream_ok ?s w" using ok by (simp add: quiet_fields)
      have "accumulate_chunk rnd tm c st = (case obj_get choice ''delta'' of Some (J_Obj d) \<Rightarrow> accumulate_delta rnd tm d ?s | _ \<Rightarrow> ?s)"
        using Cons J_Obj by (simp add: accumulate_chunk_def Let_def)
      then show ?thesis using s delta [OF s] by (auto split: option.splits json.splits)
    qed (use ok Cons in \<open>auto simp: accumulate_chunk_def\<close>)
  qed (use ok in \<open>auto simp: accumulate_chunk_def\<close>)
qed

lemma finalize_ok:
  assumes "stream_ok st w"
  shows "wire (as_out (finalize_stream st)) = Completed"
proof -
  let ?w = "if w = The_Thinking then Nobody else w"
  let ?s = "close_open_tool_calls (close_text (close_thinking st))"
  have "stream_ok ?s (shut (\<lambda>_. True) (if ?w = The_Text then Nobody else ?w))"
    unfolding close_open_tool_calls_def by (rule close_tools_ok [OF close_text_ok [OF close_thinking_ok [OF assms]]])
  moreover have "shut (\<lambda>_. True) (if ?w = The_Text then Nobody else ?w) = Nobody" by (cases w) (auto simp: shut_def)
  ultimately have "stream_ok ?s Nobody" by simp
  then obtain used where "wire (as_out ?s) = Streaming None used" by (auto simp: stream_ok_def on_wire_def)
  then show ?thesis by (simp add: finalize_stream_def Let_def wire_append)
qed

section \<open>The relay\<close>

lemma start_ok: "stream_ok (ry_state (start_relay en rq)) Nobody"
  by (simp add: start_relay_def Let_def new_anthropic_state_def send_def stream_ok_def flags_ok_def contents_ok_def
      on_wire_def indexes_ok_def wire_def)

lemma flush_calls_ok:
  assumes "stream_ok (ry_state ry) w"
  shows "\<exists>w'. stream_ok (ry_state (flush_xml_tool_calls en ry)) w'"
  using assms accumulate_chunk_ok [OF assms] by (auto simp: flush_xml_tool_calls_def Let_def split: prod.splits)

lemma relay_chunk_ok:
  assumes "stream_ok (ry_state ry) w"
  shows "\<exists>w'. stream_ok (ry_state (relay_chunk en c ry)) w'"
proof -
  let ?m = "str_value (obj_get c ''model'')"
  have "stream_ok (if re_served en = '''' \<and> ?m \<noteq> '''' then (ry_state ry)\<lparr>as_model := ?m\<rparr> else ry_state ry) w"
    using assms by (simp add: quiet_fields)
  from accumulate_chunk_ok [OF this] show ?thesis by (auto simp: relay_chunk_def Let_def split: prod.splits)
qed

lemma end_with_error_ok:
  assumes "stream_ok (ry_state ry) w"
  shows "wire (as_out (ry_state (end_with_error en typ msg ry))) = Failed_Message"
proof -
  obtain w' where "stream_ok (ry_state (flush_xml_tool_calls en ry)) w'" using flush_calls_ok [OF assms] ..
  then show ?thesis by (auto simp: end_with_error_def Let_def stream_ok_def wire_append)
qed

text \<open>The inputs that end the stream.\<close>

definition ends :: "relay_input \<Rightarrow> bool" where
  "ends inp =
     (case inp of
        Chunk c \<Rightarrow> (case obj_get c ''error'' of Some v \<Rightarrow> v \<noteq> J_Null | None \<Rightarrow> False)
      | _ \<Rightarrow> True)"

lemma relay_goes_on:
  "\<not> ends inp \<Longrightarrow> \<not> ry_over ry \<Longrightarrow> \<exists>c. inp = Chunk c \<and> relay_step en inp ry = relay_chunk en c ry"
  by (auto simp: ends_def relay_step_def split: relay_input.splits option.splits)

lemma relay_chunk_over: "ry_over (relay_chunk en c ry) = ry_over ry"
  by (simp add: relay_chunk_def Let_def split: prod.splits)

lemma relay_over: "ry_over ry \<Longrightarrow> fold (relay_step en) inps ry = ry"
  by (induction inps) (simp_all add: relay_step_def)

lemma relay_ends: "ends inp \<Longrightarrow> \<not> ry_over ry \<Longrightarrow> ry_over (relay_step en inp ry)"
  by (auto simp: ends_def relay_step_def end_with_error_def Let_def split: relay_input.splits option.splits prod.splits)

definition phase_after :: "relay_input option \<Rightarrow> wire_phase \<Rightarrow> bool" where
  "phase_after e p \<longleftrightarrow>
     (case e of
        None \<Rightarrow> (\<exists>b used. p = Streaming b used)
      | Some Client_Gone \<Rightarrow> (\<exists>b used. p = Streaming b used)
      | Some Stream_Ended \<Rightarrow> p = Completed
      | Some _ \<Rightarrow> p = Failed_Message)"

lemma relay_end_phase:
  assumes "stream_ok (ry_state ry) w" "\<not> ry_over ry" "ends inp"
  shows "phase_after (Some inp) (wire (as_out (ry_state (relay_step en inp ry))))"
proof (cases inp)
  case (Chunk c)
  then show ?thesis
    using assms end_with_error_ok [OF assms(1)]
    by (auto simp: relay_step_def phase_after_def ends_def split: option.splits prod.splits)
next
  case Client_Gone
  then show ?thesis using assms by (auto simp: relay_step_def phase_after_def stream_ok_def)
next
  case Stream_Ended
  obtain w' where "stream_ok (ry_state (flush_xml_tool_calls en ry)) w'" using flush_calls_ok [OF assms(1)] ..
  then show ?thesis using Stream_Ended assms(2) finalize_ok by (simp add: relay_step_def phase_after_def Let_def)
qed (use assms end_with_error_ok [OF assms(1)] in \<open>simp add: relay_step_def phase_after_def\<close>)

lemma relay_phase:
  "stream_ok (ry_state ry) w \<Longrightarrow> \<not> ry_over ry \<Longrightarrow>
   phase_after (List.find ends inps) (wire (as_out (ry_state (fold (relay_step en) inps ry))))"
proof (induction inps arbitrary: ry w)
  case Nil
  then show ?case by (auto simp: phase_after_def stream_ok_def)
next
  case (Cons inp inps)
  show ?case
  proof (cases "ends inp")
    case True
    then show ?thesis using relay_end_phase [OF Cons.prems True] relay_over [OF relay_ends [OF True Cons.prems(2)]] by simp
  next
    case False
    obtain c where c: "relay_step en inp ry = relay_chunk en c ry" using relay_goes_on [OF False Cons.prems(2)] by blast
    obtain w' where "stream_ok (ry_state (relay_chunk en c ry)) w'" using relay_chunk_ok [OF Cons.prems(1)] ..
    from Cons.IH [OF this] show ?thesis using False c Cons.prems(2) by (simp add: relay_chunk_over)
  qed
qed


section \<open>What the client assembles\<close>

lemma fragment_keeps_thinking: "as_thinking_parts (accumulate_fragment rnd tm f st) = as_thinking_parts st"
proof -
  have tsf: "as_thinking_parts (snd (tool_state_for i s)) = as_thinking_parts s" for i s
    by (simp add: tool_state_for_def Let_def split: option.splits)
  have es: "as_thinking_parts (snd (ensure_started rnd i ts s)) = as_thinking_parts s" for i ts s
    by (simp add: ensure_started_def Let_def split: prod.splits)
  have note_id: "as_thinking_parts (note_tool_id rnd i s) = as_thinking_parts s" for i s
    by (simp add: note_tool_id_def Let_def split: prod.splits)
  show ?thesis
    using tsf es note_id
    by (simp add: accumulate_fragment_def Let_def close_other_open_tool_calls_def close_tools_fields split_beta)
qed

lemma tools_keep_thinking: "as_thinking_parts (accumulate_tools rnd tm tcs st) = as_thinking_parts st"
proof -
  have "as_thinking_parts (fold (accumulate_fragment rnd tm) fs s) = as_thinking_parts s" for fs s
    by (induction fs arbitrary: s) (simp_all add: fragment_keeps_thinking)
  then show ?thesis by (simp add: accumulate_tools_def close_text_def close_thinking_def)
qed

lemma text_keeps_thinking: "as_thinking_parts (accumulate_text t st) = as_thinking_parts st"
  by (simp add: accumulate_text_def ensure_text_def close_open_tool_calls_def close_tools_fields close_thinking_def Let_def)

definition reasoning_in :: "(string \<times> json) list \<Rightarrow> string" where
  "reasoning_in c =
     (case json_list (obj_get c ''choices'') of
        J_Obj choice # _ \<Rightarrow> (case obj_get choice ''delta'' of Some (J_Obj d) \<Rightarrow> first_string_of d reasoning_keys | _ \<Rightarrow> '''')
      | _ \<Rightarrow> '''')"

lemma delta_thinks:
  "concat (as_thinking_parts (accumulate_delta rnd tm d st)) = concat (as_thinking_parts st) @ first_string_of d reasoning_keys"
  by (simp add: accumulate_delta_def tools_keep_thinking text_keeps_thinking accumulate_reasoning_def Let_def ensure_thinking_parts)

lemma chunk_thinks:
  "concat (as_thinking_parts (accumulate_chunk rnd tm c st)) = concat (as_thinking_parts st) @ reasoning_in c"
  by (simp add: accumulate_chunk_def reasoning_in_def Let_def delta_thinks split: list.split json.split option.split)

lemma get_set [simp]: "k \<noteq> l \<Longrightarrow> obj_get (obj_set ms k v) l = obj_get ms l" "obj_get (obj_set ms k v) k = Some v"
    "k \<noteq> l \<Longrightarrow> obj_get (obj_del ms k) l = obj_get ms l"
proof -
  have del: "k \<noteq> l \<Longrightarrow> map_of (filter (\<lambda>m. fst m \<noteq> k) ms) l = map_of ms l" for ms :: "(string \<times> json) list"
    by (induction ms) auto
  show "k \<noteq> l \<Longrightarrow> obj_get (obj_set ms k v) l = obj_get ms l" "obj_get (obj_set ms k v) k = Some v"
    "k \<noteq> l \<Longrightarrow> obj_get (obj_del ms k) l = obj_get ms l"
    by (simp_all add: obj_set_def obj_del_def obj_get_def rev_filter del)
qed

lemma feed_delta_get:
  assumes "k \<noteq> ''content''" "k \<noteq> ''tool_calls''"
  shows "obj_get (fst (feed_delta marshal call_id d x n)) k = obj_get d k"
proof -
  obtain t calls x1 where "feed marshal (str_value (obj_get d ''content'')) x = (t, calls, x1)"
    by (cases "feed marshal (str_value (obj_get d ''content'')) x") auto
  then show ?thesis using assms by (simp add: feed_delta_def Let_def split_beta)
qed

lemma feed_delta_thinks: "first_string_of (fst (feed_delta marshal call_id d x n)) reasoning_keys = first_string_of d reasoning_keys"
  unfolding first_string_of_def reasoning_keys_def by (simp add: feed_delta_get)

text \<open>What the first choice says of its reasoning.\<close>

definition choice_reasoning :: "json list \<Rightarrow> string" where
  "choice_reasoning vs =
     (case vs of
        J_Obj choice # _ \<Rightarrow> (case obj_get choice ''delta'' of Some (J_Obj d) \<Rightarrow> first_string_of d reasoning_keys | _ \<Rightarrow> '''')
      | _ \<Rightarrow> '''')"

lemma feed_choices_think: "choice_reasoning (fst (feed_choices marshal call_id vs x n)) = choice_reasoning vs"
proof (cases vs)
  case (Cons v vs')
  show ?thesis
  proof (cases "\<exists>choice d. v = J_Obj choice \<and> obj_get choice ''delta'' = Some (J_Obj d)")
    case True
    then obtain choice d where v: "v = J_Obj choice" "obj_get choice ''delta'' = Some (J_Obj d)" by blast
    obtain d' x1 n1 where fd: "feed_delta marshal call_id d x n = (d', x1, n1)" by (cases "feed_delta marshal call_id d x n") auto
    then have "first_string_of d' reasoning_keys = first_string_of d reasoning_keys"
      using feed_delta_thinks [of marshal call_id d x n] by simp
    then show ?thesis by (simp add: Cons v fd choice_reasoning_def split: prod.split)
  next
    case False
    then have "fst (feed_choices marshal call_id vs x n) = v # fst (feed_choices marshal call_id vs' x n)"
      by (auto simp: Cons Let_def split: prod.splits json.splits option.splits)
    then show ?thesis by (simp add: Cons choice_reasoning_def split: json.split option.split)
  qed
qed simp

lemma reasoning_choice: "reasoning_in c = choice_reasoning (json_list (obj_get c ''choices''))"
  by (simp add: reasoning_in_def choice_reasoning_def)

lemma feed_thinks: "reasoning_in (fst (feed_xml_tool_calls marshal call_id c x n)) = reasoning_in c"
proof (cases "\<exists>vs. obj_get c ''choices'' = Some (J_Arr vs)")
  case True
  then obtain vs where c: "obj_get c ''choices'' = Some (J_Arr vs)" ..
  show ?thesis
    by (simp add: reasoning_choice feed_xml_tool_calls_def c json_list_def split_beta feed_choices_think)
next
  case False
  then have "fst (feed_xml_tool_calls marshal call_id c x n) = c"
    by (auto simp: feed_xml_tool_calls_def split: option.splits json.splits)
  then show ?thesis by simp
qed

definition reasoning_of :: "relay_input \<Rightarrow> string" where
  "reasoning_of inp = (case inp of Chunk c \<Rightarrow> reasoning_in c | _ \<Rightarrow> '''')"

lemma relay_chunk_thinks:
  "concat (as_thinking_parts (ry_state (relay_chunk en c ry))) = concat (as_thinking_parts (ry_state ry)) @ reasoning_in c"
  using feed_thinks [of "re_marshal en" "re_call_id en" c "ry_extractor ry" "ry_xml_index ry"]
  by (auto simp: relay_chunk_def Let_def chunk_thinks split: prod.split)

lemma flush_thinks: "concat (as_thinking_parts (ry_state (flush_xml_tool_calls en ry))) = concat (as_thinking_parts (ry_state ry))"
proof -
  have "reasoning_in [(''choices'', J_Arr [J_Obj [(''delta'', J_Obj d)]])] = first_string_of d reasoning_keys" for d
    by (simp add: reasoning_in_def json_list_def obj_get_def)
  moreover have "first_string_of [] reasoning_keys = ''''" "first_string_of [(''content'', v)] reasoning_keys = ''''"
      "first_string_of [(''tool_calls'', v)] reasoning_keys = ''''"
      "first_string_of [(''content'', v), (''tool_calls'', u)] reasoning_keys = ''''" for v u
    by (simp_all add: first_string_of_def reasoning_keys_def obj_get_def str_value_def)
  ultimately show ?thesis by (simp add: flush_xml_tool_calls_def Let_def chunk_thinks split: prod.split)
qed


lemma contents_send: "contents_ok st \<Longrightarrow> seen_text e = '''' \<Longrightarrow> seen_thinking e = '''' \<Longrightarrow> (\<And>i. seen_input e i = '''') \<Longrightarrow> contents_ok (send e st)"
  by (simp add: contents_ok_def)

lemma finalize_contents:
  assumes "stream_ok st w"
  shows "contents_ok (finalize_stream st) \<and> sorted_wrt (<) (map fst (as_tools (finalize_stream st))) \<and> as_thinking_parts (finalize_stream st) = as_thinking_parts st"
proof -
  let ?s = "close_open_tool_calls (close_text (close_thinking st))"
  have "\<exists>w'. stream_ok ?s w'"
    using close_tools_ok [OF close_text_ok [OF close_thinking_ok [OF assms]]] unfolding close_open_tool_calls_def by blast
  then have "contents_ok ?s" "sorted_wrt (<) (map fst (as_tools ?s))" using tools_sorted unfolding stream_ok_def by blast+
  then show ?thesis
    by (simp add: finalize_stream_def Let_def contents_send close_open_tool_calls_def close_tools_fields close_text_def close_thinking_def)
qed

definition faithful :: "relay \<Rightarrow> string \<Rightarrow> bool" where
  "faithful ry thoughts \<longleftrightarrow>
     contents_ok (ry_state ry) \<and> sorted_wrt (<) (map fst (as_tools (ry_state ry))) \<and> concat (as_thinking_parts (ry_state ry)) = thoughts"

lemma relay_end_faithful:
  assumes "stream_ok (ry_state ry) w" "\<not> ry_over ry" "ends inp" "concat (as_thinking_parts (ry_state ry)) = thoughts"
  shows "faithful (relay_step en inp ry) thoughts"
proof -
  obtain w' where flushed: "stream_ok (ry_state (flush_xml_tool_calls en ry)) w'" using flush_calls_ok [OF assms(1)] ..
  then have "faithful (end_with_error en ty msg ry) thoughts" for ty msg
    using assms(4) tools_sorted [OF flushed] by (simp add: faithful_def end_with_error_def Let_def contents_send flush_thinks stream_ok_def)
  moreover have "faithful (ry\<lparr>ry_over := True\<rparr>) thoughts" using assms(1,4) tools_sorted [OF assms(1)] by (simp add: faithful_def stream_ok_def)
  moreover have "faithful (let r = flush_xml_tool_calls en ry in r\<lparr>ry_state := finalize_stream (ry_state r), ry_over := True\<rparr>) thoughts"
    using finalize_contents [OF flushed] assms(4) by (simp add: faithful_def Let_def flush_thinks)
  ultimately show ?thesis
    using assms(2,3) by (simp add: relay_step_def ends_def split: relay_input.splits option.splits prod.splits)
qed

lemma relay_faithful:
  "stream_ok (ry_state ry) w \<Longrightarrow> \<not> ry_over ry \<Longrightarrow> concat (as_thinking_parts (ry_state ry)) = thoughts \<Longrightarrow>
   faithful (fold (relay_step en) inps ry) (thoughts @ concat (map reasoning_of (takeWhile (\<lambda>i. \<not> ends i) inps)))"
proof (induction inps arbitrary: ry w thoughts)
  case Nil
  then show ?case using tools_sorted by (simp add: faithful_def stream_ok_def)
next
  case (Cons inp inps)
  show ?case
  proof (cases "ends inp")
    case True
    then show ?thesis using relay_end_faithful [OF Cons.prems(1,2) True Cons.prems(3)] relay_over [OF relay_ends [OF True Cons.prems(2)]] by simp
  next
    case False
    obtain c where c: "inp = Chunk c" "relay_step en inp ry = relay_chunk en c ry" using relay_goes_on [OF False Cons.prems(2)] by blast
    obtain w' where "stream_ok (ry_state (relay_chunk en c ry)) w'" using relay_chunk_ok [OF Cons.prems(1)] ..
    from Cons.IH [OF this _ refl] show ?thesis
      using False c Cons.prems(2,3) by (simp add: relay_chunk_over relay_chunk_thinks reasoning_of_def)
  qed
qed

section \<open>Properties\<close>

text \<open>C17: whatever the upstream sends and however it ends, the events are a word of the message protocol, as read by a
  client that follows it strictly: after the start, blocks open one at a time under an index not used before, every
  delta and every stop is for the open block and of its kind, the end of the message comes when no block is open and
  is followed by the stop alone. A stream that the upstream completes is a complete message, one that fails (a read
  error, or an error in a chunk) ends in the error event and nothing after it, and one whose client has gone stops
  where it was.\<close>

theorem relay_speaks_the_protocol: "phase_after (List.find ends inps) (wire (relay_anthropic en requested inps))"
  unfolding relay_anthropic_def by (rule relay_phase [OF start_ok]) (simp add: start_relay_def Let_def)

text \<open>C18: what a client assembles from the events is what was sent and what is remembered. The thinking is the reasoning
  of the chunks before the end, all of it and in order; the text and the reasoning stored for the next turn are the
  text and the thinking the client has; and the input of each tool block that was opened is the whole of the
  arguments gathered for it.\<close>

theorem relay_remembers_what_was_seen:
  "let st = ry_state (fold (relay_step en) inps (start_relay en requested));
       evs = relay_anthropic en requested inps;
       opened = filter (\<lambda>p. ts_started (snd p)) (as_tools st)
   in seen_thinking evs = concat (map reasoning_of (takeWhile (\<lambda>i. \<not> ends i) inps)) \<and>
      reasoning_put rnd marshal st =
        (if seen_thinking evs = '''' then None
         else Some (as_tool_ids st, seen_text evs, canonical_tool_key marshal (canonical_triples rnd (as_draw st) (as_tools st)),
                    seen_thinking evs, as_model st)) \<and>
      map (\<lambda>p. seen_input evs (ts_index (snd p))) opened = map (\<lambda>p. ts_args (snd p)) opened"
proof -
  let ?ry = "fold (relay_step en) inps (start_relay en requested)"
  let ?st = "ry_state ?ry"
  have "faithful ?ry ('''' @ concat (map reasoning_of (takeWhile (\<lambda>i. \<not> ends i) inps)))"
    by (rule relay_faithful [OF start_ok])
      (simp_all add: start_relay_def Let_def new_anthropic_state_def send_def)
  then have st: "contents_ok ?st" "distinct (map fst (as_tools ?st))"
      "concat (as_thinking_parts ?st) = concat (map reasoning_of (takeWhile (\<lambda>i. \<not> ends i) inps))"
    by (simp_all add: faithful_def strict_sorted_distinct)
  have "seen_input (as_out ?st) (ts_index (snd p)) = ts_args (snd p)" if "p \<in> set (as_tools ?st)" "ts_started (snd p)" for p
    using contents_okD [OF st(1), of "fst p" "snd p"] that st(2) by (cases p) simp
  then have "map (\<lambda>p. seen_input (as_out ?st) (ts_index (snd p))) (filter (\<lambda>p. ts_started (snd p)) (as_tools ?st)) =
      map (\<lambda>p. ts_args (snd p)) (filter (\<lambda>p. ts_started (snd p)) (as_tools ?st))"
    by simp
  moreover have "seen_text (as_out ?st) = concat (as_text_parts ?st)" "seen_thinking (as_out ?st) = concat (as_thinking_parts ?st)"
    using st(1) by (simp_all add: contents_ok_def)
  ultimately show ?thesis by (simp only: Let_def relay_anthropic_def reasoning_put_def st(3) simp_thms)
qed


section \<open>Where the bookkeeping fails\<close>








end
