(* ===== verification/Spec2Isabelle.thy ===== *)
theory Spec2Isabelle
  imports Pacific Cooldown Slot_Invariants Run_Properties Log_Ring Spend_Ledger Roster_Properties Classify_Properties Freebucks_Properties Acquire_Properties Session_Flight Gateway_Properties Limiter_Properties Cache_Properties Bridge_Properties Bridge_Flight Stream_Properties Anthropic_Properties
begin

text \<open>
  A model of the routing core of freebucks-proxy, a gateway that serves chat requests over a pool of
  upstream accounts. The code is Go, under \<^verbatim>\<open>src/backend/internal\<close>; file names below are
  relative to it.

  \<^bold>\<open>The program.\<close> A request names a model. The pool (\<^verbatim>\<open>pool\<close>) walks its accounts in index order
  and asks each lane for three things: a live-turn slot of the slot ledger
  (\<^verbatim>\<open>pool/slot_ledger.go\<close>, \<^verbatim>\<open>pool/model_queue.go\<close>), an upstream session
  (\<^verbatim>\<open>session\<close>), and an agent run of the account's run manager (\<^verbatim>\<open>runs\<close>). A lease holds the three
  until the turn ends. What the upstream answers when it refuses is classified
  (\<^verbatim>\<open>upstream/classify.go\<close>, \<^verbatim>\<open>upstream/ratelimit.go\<close>) and remembered as a cooldown
  (\<^verbatim>\<open>runs/cooldown.go\<close>), a quarantine or a hint; usage and spend are counted in an account's
  ledger (\<^verbatim>\<open>pool/spend.go\<close>, \<^verbatim>\<open>pool/pool_ledger.go\<close>) over Pacific days, and the account's
  Freebucks allowance says whether it can pay for a model (\<^verbatim>\<open>pool/quota.go\<close>).

  \<^bold>\<open>Theories.\<close>
  \<^item> \<open>Prelude\<close>: times and durations as integers of nanoseconds (the zero time is the marker of an
    unset one), 64-bit wrap-around, lists and maps, reachability (\<open>reach\<close>) and the
    contracts several parts share: \<open>invariant_system\<close> (a step relation and its invariant),
    \<open>keep_newest\<close> (a bounded log) and \<open>rolling_window\<close> (a pruned history).
  \<^item> \<open>Civil_Date\<close>, \<open>Pacific\<close>: the calendar and \<^verbatim>\<open>pool/spend.go\<close>, \<^verbatim>\<open>upstream/ratelimit.go\<close>
    period boundaries, on the tz-database path and on the rule-based one. The tz database is the
    zone argument; \<open>us_zone\<close> is the zone of the US rule. Lemmas: the two paths agree, rollover is
    exact, boundaries bracket the instant.
  \<^item> \<open>Wire_Errors\<close>: the error values of \<^verbatim>\<open>upstream/errors.go\<close> with their unwrap chains, as a
    datatype; \<open>errors.Is\<close> and \<open>errors.As\<close> by recursion over the chain.
  \<^item> \<open>Cooldown\<close>: \<^verbatim>\<open>runs/cooldown.go\<close>. Lemmas: one live refusal at a time, exact windows.
  \<^item> \<open>Go_Text\<close>, \<open>Classify\<close>, \<open>Classify_Properties\<close>: the text functions and decoded JSON the
    classifier uses, \<^verbatim>\<open>upstream/classify.go\<close>, \<^verbatim>\<open>wire_helpers.go\<close>, \<^verbatim>\<open>wirecodes_gen.go\<close>,
    \<^verbatim>\<open>ratelimit.go\<close>. Lemmas: when a refusal bans, which refusals keep the session, bounds of
    every delay, the ledger of codes.
  \<^item> \<open>Slot_Ledger\<close>, \<open>Slot_Invariants\<close>: \<^verbatim>\<open>pool/slot_ledger.go\<close> and \<^verbatim>\<open>pool/model_queue.go\<close>. Every
    method is cut at the points where it releases its lock; a step relation interleaves the pieces.
    Lemmas: the live count is what is out, FIFO hand-over, no permit is lost when a waiter leaves.
  \<^item> \<open>Run_Manager\<close>, \<open>Run_Invariants\<close>, \<open>Run_Properties\<close>: \<^verbatim>\<open>runs/runs.go\<close>, \<^verbatim>\<open>runs/steps.go\<close>,
    \<^verbatim>\<open>runs/drain.go\<close>, again cut at the locks, with the leases, the starts and the FINISH calls in
    flight as part of the system state. Lemmas: FINISH is safe and sent at most once at a time, no
    run is lost, the books balance, nothing starts after shutdown; and two adverse interleavings.
  \<^item> \<open>Log_Ring\<close>: \<^verbatim>\<open>logring/logring.go\<close>, refined to the list of all records.
  \<^item> \<open>Spend_Ledger\<close>: the account ledger, its persistence (\<^verbatim>\<open>pool/pool_persist.go\<close>) and the usage
    kept of evicted bridge entries. Lemmas: incremental totals equal the sums over the history;
    flush and restore lose less than a millisecond.
  \<^item> \<open>Roster\<close>, \<open>Roster_Properties\<close>: \<^verbatim>\<open>pool/roster.go\<close>, reloads (\<^verbatim>\<open>pool/pool.go\<close> SetConfig) and
    retirement (\<^verbatim>\<open>pool/lifecycle.go\<close>).
  \<^item> \<open>Freebucks\<close>, \<open>Freebucks_Properties\<close>: prices, allowance and cap (\<^verbatim>\<open>pool/quota.go\<close>,
    \<^verbatim>\<open>upstream/session_types_freebucks.go\<close>).
  \<^item> \<open>Lane_Gates\<close>: the gates of \<^verbatim>\<open>pool/acquire_route.go\<close>, their mirror in \<^verbatim>\<open>model_queue.go\<close>, pins,
    quarantine, hints, the order of \<^verbatim>\<open>pool/spill_order.go\<close> and the error buckets of a request.
  \<^item> \<open>Acquire_Walk\<close>, \<open>Acquire_Properties\<close>: one request's walk from \<^verbatim>\<open>Acquire\<close> to its lease or its
    error, as a machine over an environment that changes the pool before every step and answers slot
    takes, parks, sessions and runs. Lemmas: gates and mirror agree, the walk keeps only what its
    lease holds, it ends; and three requests it serves worse than it could.
  \<^item> \<open>Session_State\<close>, \<open>Session_Refresh\<close>, \<open>Session_Flight\<close>, \<open>Session_Properties\<close>: the session manager
    (\<^verbatim>\<open>session\<close>): its cached row and commits; one refresh as a machine over an environment that
    answers each GET, POST and DELETE and may change the manager at every step; and the calls of
    \<^verbatim>\<open>EnsureSessionForModel\<close> that share one refresh, as a step relation over their phases. Lemmas:
    one refresh in flight, no waiter stranded, bounded moves and admissions, a pre-emptive refresh
    keeps the session, a restart resumes the stored row; and where a waiter gets another model's one.
  \<^item> \<open>Gateway_Errors\<close>, \<open>Gateway_Engine\<close>, \<open>Gateway_Properties\<close>: what a completion request does around
    the pool (\<^verbatim>\<open>server/engine.go\<close>, \<^verbatim>\<open>engine_attempt.go\<close>, \<^verbatim>\<open>middleware_auth.go\<close>) and how errors are
    answered (\<^verbatim>\<open>server/errors.go\<close>). The pool and the upstream are an environment, by attempt; the
    calls on the backend are a list of effects. Lemmas: API keys are not relayed, leases are given
    back, a refusal drops what it is about, the answers form a table; failed requests lose their lease.
  \<^item> \<open>Client_Limiter\<close>, \<open>Limiter_Properties\<close>: the token bucket per client (\<^verbatim>\<open>ratelimit/limiter.go\<close>).
  \<^item> \<open>Reasoning_Cache\<close>, \<open>Cache_Properties\<close>: \<^verbatim>\<open>reasoningcache/cache.go\<close>, with the hash an argument.
    Lemmas: the indexes are consistent, a put is found again, whose reasoning a lookup can return.

  \<^item> \<open>Bridge_Cache\<close>, \<open>Bridge_Admission\<close>, \<open>Bridge_Acquire\<close>, \<open>Bridge_Properties\<close>, \<open>Bridge_Flight\<close>: the
    lanes of client-supplied tokens (\<^verbatim>\<open>pool/bridge_cache.go\<close>, \<^verbatim>\<open>pool/bridge.go\<close>): the cache by critical
    sections, \<^verbatim>\<open>AcquireBridge\<close> as a function of what its calls answer, and the single flight of its
    admission as a step relation with \<^verbatim>\<open>sync.Once\<close> taken apart. Lemmas: eviction is least recently
    used and never busy, a turn is balanced, one admission while nothing fails; and what the resets of
    a \<open>Once\<close> in use do otherwise.
  \<^item> \<open>Tool_Text\<close>, \<open>Tool_Stream\<close>, \<open>Stream_Properties\<close>: tool calls written as text (\<^verbatim>\<open>convert\<close>,
    \<^verbatim>\<open>accumulator_xml_shapes.go\<close>, \<^verbatim>\<open>accumulator_xml_stream.go\<close>): the regular expressions with Go's
    leftmost-first matching, the payload parsers and the streaming extractor. Lemmas: every character
    is accounted for, a block survives any fragmentation, the buffer is bounded; and four shortfalls.
  \<^item> \<open>Anthropic_Stream\<close>, \<open>Anthropic_Wire\<close>, \<open>Anthropic_Properties\<close>: the relay of the chat stream as Anthropic
    message events (\<^verbatim>\<open>server/anthropic_stream.go\<close>, \<^verbatim>\<open>streamxml_anthropic.go\<close> and the extraction of
    \<^verbatim>\<open>stream_shared.go\<close>): the machine of thinking, text and tool blocks over decoded sanitized chunks. The second
    theory is a strict client of the protocol as an automaton and the invariant that ties it to the relay's flags.
    Lemmas: every output is a word of the protocol, what is remembered is what the client saw; and four shortfalls.

  \<^bold>\<open>Bounds.\<close> Times and durations are unbounded integers except where the code saturates or wraps,
  which is written out (\<open>max_duration\<close>, \<open>wrap64\<close>). JSON numbers are rationals; the one place where
  their rounding shows is written out (\<open>seconds_gap\<close>). The walk's bound (\<open>turn_bound\<close>, \<open>11 * L + 25\<close>
  steps between two quota waits over \<open>L\<close> lanes) comes from a rank that every step but a quota wait
  lowers; a refresh ends within 73 steps and a call of \<^verbatim>\<open>EnsureSessionForModel\<close> within 43 moves, which
  follow from the code's own loop limits. Tokens and rates of the limiter are rationals. Loops over a text or a
  list are structural or have a measure, so every definition is total.

  \<^bold>\<open>Not modelled.\<close> The server's HTTP handlers, the OpenAI and Responses relays, usage counts, the rest of format conversion, configuration
  parsing, dashboard, CLI, telemetry, store, TLS and proxy glue and the generators are I/O or
  presentation; logging and webhooks are left out except where a lemma is about them. The probes
  and maturity schedules, the jittered backoff of session polling and the registry are not modelled;
  where a modelled part calls them, their answers are arguments.
\<close>

end
